(* ===== verification/Prelude.thy ===== *)
theory Prelude
  imports Main "HOL-Library.Word" "HOL-Library.AList" "HOL-Library.List_Lexorder"
    "HOL-Library.Char_ord" "HOL-Library.Product_Lexorder"
begin

text \<open>
  Shared vocabulary of the development: bytes, machine integers and their big-endian images,
  Go's error values with wrapping (\<^verbatim>\<open>fmt.Errorf("...%w")\<close> and
  \<^verbatim>\<open>errors.Is\<close>), and the generic facts on lists, association lists and words
  that the component theories use.  The collections \<open>wal_simps\<close>, \<open>store_simps\<close>,
  \<open>raft_simps\<close> and \<open>cache_simps\<close> gather the rewrite rules of the components.
\<close>

named_theorems wal_simps \<open>rewrite rules for WAL records and files\<close>
named_theorems store_simps \<open>rewrite rules for the file-backed store and its batcher\<close>
named_theorems raft_simps \<open>rewrite rules for the consensus node\<close>
named_theorems cache_simps \<open>rewrite rules for the LRU cache\<close>

type_synonym byte = "8 word"
type_synonym bytes = "8 word list"
type_synonym u32 = "32 word"
type_synonym u64 = "64 word"

section \<open>Go errors\<close>

text \<open>
  The sentinel errors of the packages db and wal, a plain message (\<^verbatim>\<open>errors.New\<close>,
  \<^verbatim>\<open>fmt.Errorf\<close> without \<^verbatim>\<open>%w\<close>), an operating-system failure, a
  wrapped error, and a run-time panic.  The text of a message keeps the constant part of the
  format string; formatted values are left out.
\<close>

datatype goerr =
    ErrTableNotFound
  | ErrNotFound
  | ErrNotFoundSk
  | ErrNotCompatibleVersion
  | ErrFollowerRejectCmd
  | ErrCorruptRecord
  | ErrTruncated
  | ErrMsg string
  | ErrIO string
  | ErrWrap string goerr
  | GoPanic string

text \<open>\<^verbatim>\<open>errors.Is\<close>: the target is found somewhere along the chain of wrapped errors.\<close>

fun errors_is :: "goerr \<Rightarrow> goerr \<Rightarrow> bool" where
  "errors_is (ErrWrap m e) target = (ErrWrap m e = target \<or> errors_is e target)"
| "errors_is e target = (e = target)"

lemma errors_is_refl [simp]: "errors_is e e"
  by (cases e) auto

lemma errors_is_sentinel:
  assumes "\<And>m e'. e \<noteq> ErrWrap m e'"
  shows "errors_is e t \<longleftrightarrow> e = t"
  using assms by (cases e) auto

section \<open>Bytes and big-endian integers\<close>

text \<open>A Go string is a sequence of bytes; \<^typ>\<open>char\<close> is a byte as well.\<close>

definition bytes_of_string :: "string \<Rightarrow> bytes" where
  "bytes_of_string s = map (\<lambda>c. of_nat (of_char c)) s"

definition string_of_bytes :: "bytes \<Rightarrow> string" where
  "string_of_bytes bs = map (\<lambda>b. char_of (unat b)) bs"

lemma of_char_lt_256: "(of_char c :: nat) < 256"
proof -
  have "(of_char c :: nat) = of_char (char_of (of_char c :: nat))"
    by simp
  also have "\<dots> = of_char c mod 256"
    by (simp only: of_char_of)
  finally show ?thesis
    by (metis mod_less_divisor zero_less_numeral)
qed

lemma unat_of_char_byte [simp]: "unat (of_nat (of_char c) :: byte) = of_char c"
  using of_char_lt_256 [of c] by (simp add: unat_of_nat)

lemma string_of_bytes_of_string [simp]: "string_of_bytes (bytes_of_string s) = s"
  by (induction s) (simp_all add: string_of_bytes_def bytes_of_string_def)

lemma unat_byte_lt [simp]: "unat (b :: byte) < 256"
  by (rule order_less_le_trans [OF unsigned_less]) simp

lemma bytes_of_string_of_bytes [simp]: "bytes_of_string (string_of_bytes bs) = bs"
  by (induction bs) (simp_all add: string_of_bytes_def bytes_of_string_def)

lemma length_bytes_of_string [simp]: "length (bytes_of_string s) = length s"
  by (simp add: bytes_of_string_def)

lemma length_string_of_bytes [simp]: "length (string_of_bytes bs) = length bs"
  by (simp add: string_of_bytes_def)

text \<open>\<^verbatim>\<open>binary.BigEndian\<close>: the \<open>n\<close> low bytes of a number, most significant first.\<close>

fun be_bytes :: "nat \<Rightarrow> int \<Rightarrow> bytes" where
  "be_bytes 0 v = []"
| "be_bytes (Suc n) v = be_bytes n (v div 256) @ [word_of_int v]"

definition be_val :: "bytes \<Rightarrow> int" where
  "be_val bs = foldl (\<lambda>a b. a * 256 + uint b) 0 bs"

lemma length_be_bytes [simp]: "length (be_bytes n v) = n"
  by (induction n arbitrary: v) auto

lemma uint_byte_lt [simp]: "uint (b :: byte) < 256"
  by (rule order_less_le_trans [OF unsigned_less]) simp

lemma be_val_Nil [simp]: "be_val [] = 0"
  by (simp add: be_val_def)

lemma be_val_snoc: "be_val (bs @ [b]) = be_val bs * 256 + uint b"
  by (simp add: be_val_def)

lemma be_val_nonneg [simp]: "0 \<le> be_val bs"
  by (induction bs rule: rev_induct) (simp_all add: be_val_snoc)

lemma be_val_bytes: "be_val (be_bytes n v) = v mod 256 ^ n"
proof (induction n arbitrary: v)
  case 0
  show ?case by simp
next
  case (Suc n)
  have "be_val (be_bytes (Suc n) v) = v div 256 mod 256 ^ n * 256 + v mod 256"
    by (simp add: be_val_snoc Suc.IH uint_word_of_int)
  also have "\<dots> = v mod (256 * 256 ^ n)"
    by (simp add: zmod_zmult2_eq)
  finally show ?case by simp
qed

lemma word_of_int_256_mult: "(word_of_int (a * 256 + uint b) :: byte) = b"
proof -
  have "(word_of_int (a * 256) :: byte) = word_of_int a * word_of_int 256"
    by (rule wi_hom_mult [symmetric])
  moreover have "(word_of_int 256 :: byte) = 0"
    by simp
  ultimately have "(word_of_int (a * 256) :: byte) = 0"
    by (simp only: mult_zero_right)
  then show ?thesis by (simp flip: wi_hom_add)
qed

lemma be_bytes_val: "length bs = n \<Longrightarrow> be_bytes n (be_val bs) = bs"
proof (induction bs arbitrary: n rule: rev_induct)
  case Nil
  then show ?case by simp
next
  case (snoc b bs)
  then obtain m where m: "n = Suc m" "length bs = m"
    by (cases n) auto
  have "(be_val bs * 256 + uint b) div 256 = be_val bs"
    by (simp add: div_pos_pos_trivial)
  then show ?case
    using m snoc.IH [of m] by (simp only: be_val_snoc be_bytes.simps word_of_int_256_mult)
qed

lemma be_val_lt: "be_val bs < 256 ^ length bs"
proof (induction bs rule: rev_induct)
  case Nil
  show ?case by simp
next
  case (snoc b bs)
  have "be_val bs * 256 + uint b < (be_val bs + 1) * 256"
    by simp
  also have "\<dots> \<le> 256 ^ length bs * 256"
    using snoc.IH by (intro mult_right_mono) simp_all
  finally show ?case by (simp add: be_val_snoc)
qed

lemma uint_word32_lt [simp]: "uint (w :: u32) < 4294967296"
  by (rule order_less_le_trans [OF unsigned_less]) simp

lemma unat_word32_lt [simp]: "unat (w :: u32) < 4294967296"
  by (rule order_less_le_trans [OF unsigned_less]) simp

lemma uint_word64_lt [simp]: "uint (w :: u64) < 18446744073709551616"
  by (rule order_less_le_trans [OF unsigned_less]) simp

lemma be_roundtrip_u32 [wal_simps]: "be_val (be_bytes 4 (uint (w :: u32))) = uint w"
  by (simp add: be_val_bytes)

lemma be_roundtrip_u64 [wal_simps]: "be_val (be_bytes 8 (uint (w :: u64))) = uint w"
  by (simp add: be_val_bytes)

lemma uint_of_nat_u32: "n < 4294967296 \<Longrightarrow> uint (of_nat n :: u32) = int n"
  by (simp add: unsigned_of_nat take_bit_nat_eq_self_iff)

lemma unat_of_nat_u32: "n < 4294967296 \<Longrightarrow> unat (of_nat n :: u32) = n"
  by (simp add: unsigned_of_nat take_bit_nat_eq_self_iff)

section \<open>Lists and association lists\<close>

lemmas alist_simps [store_simps] = update_conv' delete_conv'

lemma take_drop_append3:
  "length a = m \<Longrightarrow> length b = n \<Longrightarrow> take n (drop m (a @ b @ c)) = b"
  by simp

text \<open>Go slicing \<^verbatim>\<open>xs[lo:hi]\<close>, which panics outside \<^verbatim>\<open>0 <= lo <= hi <= len(xs)\<close>.\<close>

definition go_slice :: "'a list \<Rightarrow> nat \<Rightarrow> nat \<Rightarrow> goerr + 'a list" where
  "go_slice xs lo hi = (if lo \<le> hi \<and> hi \<le> length xs
     then Inr (take (hi - lo) (drop lo xs)) else Inl (GoPanic ''slice bounds out of range''))"

lemma go_slice_middle [wal_simps]:
  "lo = length a \<Longrightarrow> hi = length a + length b \<Longrightarrow> go_slice (a @ b @ c) lo hi = Inr b"
  by (simp add: go_slice_def)

end
