(* ===== verification/Strings.thy ===== *)
theory Strings
  imports Prelude
begin

text \<open>
  What the program uses of the packages \<^verbatim>\<open>strings\<close> and \<^verbatim>\<open>path/filepath\<close>.  A Go string is
  a sequence of bytes: white space beyond ASCII is found by its UTF-8 encoding.
\<close>

section \<open>Trimming\<close>

text \<open>The encodings of the runes for which \<^verbatim>\<open>unicode.IsSpace\<close> holds.\<close>

definition space_runes :: "string list" where
  "space_runes =
     [[CHR 0x09], [CHR 0x0A], [CHR 0x0B], [CHR 0x0C], [CHR 0x0D], [CHR 0x20], [CHR 0xC2, CHR 0x85],
      [CHR 0xC2, CHR 0xA0], [CHR 0xE1, CHR 0x9A, CHR 0x80], [CHR 0xE2, CHR 0x80, CHR 0x80],
      [CHR 0xE2, CHR 0x80, CHR 0x81], [CHR 0xE2, CHR 0x80, CHR 0x82], [CHR 0xE2, CHR 0x80, CHR 0x83],
      [CHR 0xE2, CHR 0x80, CHR 0x84], [CHR 0xE2, CHR 0x80, CHR 0x85], [CHR 0xE2, CHR 0x80, CHR 0x86],
      [CHR 0xE2, CHR 0x80, CHR 0x87], [CHR 0xE2, CHR 0x80, CHR 0x88], [CHR 0xE2, CHR 0x80, CHR 0x89],
      [CHR 0xE2, CHR 0x80, CHR 0x8A], [CHR 0xE2, CHR 0x80, CHR 0xA8], [CHR 0xE2, CHR 0x80, CHR 0xA9],
      [CHR 0xE2, CHR 0x80, CHR 0xAF], [CHR 0xE2, CHR 0x81, CHR 0x9F], [CHR 0xE3, CHR 0x80, CHR 0x80]]"

definition starts_with :: "string \<Rightarrow> string \<Rightarrow> bool" where
  "starts_with r s = (take (length r) s = r)"

text \<open>Runes of the list are cut off the front as long as there is one; an empty one counts as none.\<close>

function trim_front :: "string list \<Rightarrow> string \<Rightarrow> string" where
  "trim_front rs s =
     (case find (\<lambda>r. r \<noteq> [] \<and> starts_with r s) rs of None \<Rightarrow> s | Some r \<Rightarrow> trim_front rs (drop (length r) s))"
  by pat_completeness auto
termination
proof (relation "measure (\<lambda>(rs, s). length s)", goal_cases)
  case (2 rs s r)
  then have "r \<noteq> []" "take (length r) s = r" by (auto simp: find_Some_iff starts_with_def)
  then show ?case by (cases s) auto
qed simp

declare trim_front.simps [simp del]

definition TrimSpace :: "string \<Rightarrow> string" where
  "TrimSpace s = rev (trim_front (map rev space_runes) (rev (trim_front space_runes s)))"

text \<open>A string that has nothing to trim.\<close>

definition trimmed :: "string \<Rightarrow> bool" where
  "trimmed s = (list_all (\<lambda>r. \<not> starts_with r s) space_runes \<and> list_all (\<lambda>r. \<not> starts_with (rev r) (rev s)) space_runes)"

lemma space_runes_nonempty: "r \<in> set space_runes \<Longrightarrow> r \<noteq> []"
  by (auto simp: space_runes_def)

lemma starts_with_append: "starts_with r s \<Longrightarrow> starts_with r (s @ t)"
  by (auto simp: starts_with_def) (metis append_take_drop_id length_take min.absorb_iff2 nat_le_linear take_all_iff take_append)

lemma trim_front_clear: "r \<in> set rs \<Longrightarrow> r \<noteq> [] \<Longrightarrow> \<not> starts_with r (trim_front rs s)"
proof (induction rs s rule: trim_front.induct)
  case (1 rs s)
  then show ?case
    by (subst trim_front.simps) (auto split: option.splits simp: find_None_iff)
qed

lemma trim_front_suffix: "\<exists>p. s = p @ trim_front rs s"
proof (induction rs s rule: trim_front.induct)
  case (1 rs s)
  show ?case
  proof (cases "find (\<lambda>r. r \<noteq> [] \<and> starts_with r s) rs")
    case None
    then show ?thesis by (simp add: trim_front.simps [of rs s])
  next
    case (Some r)
    obtain p where p: "drop (length r) s = p @ trim_front rs (drop (length r) s)" using 1 [OF Some] by blast
    then have "s = (take (length r) s @ p) @ trim_front rs (drop (length r) s)" by (metis append_assoc append_take_drop_id)
    then show ?thesis unfolding trim_front.simps [of rs s] Some option.case by (rule exI)
  qed
qed

lemma trim_front_id: "(\<And>r. r \<in> set rs \<Longrightarrow> \<not> starts_with r s) \<Longrightarrow> trim_front rs s = s"
  by (cases "find (\<lambda>r. r \<noteq> [] \<and> starts_with r s) rs") (auto simp: trim_front.simps [of rs s] find_Some_iff)

lemma TrimSpace_trimmed: "trimmed (TrimSpace s)"
proof -
  let ?u = "trim_front space_runes s"
  obtain p where p: "rev ?u = p @ rev (TrimSpace s)"
    using trim_front_suffix [of "rev ?u" "map rev space_runes"] by (auto simp: TrimSpace_def)
  then have u: "?u = TrimSpace s @ rev p" by (metis rev_append rev_rev_ident)
  have "\<not> starts_with r (TrimSpace s)" if r: "r \<in> set space_runes" for r
    using trim_front_clear [OF r space_runes_nonempty [OF r], of s] starts_with_append [of r "TrimSpace s" "rev p"] u by metis
  moreover have "\<not> starts_with (rev r) (rev (TrimSpace s))" if r: "r \<in> set space_runes" for r
    using trim_front_clear [of "rev r" "map rev space_runes" "rev ?u"] r space_runes_nonempty [OF r] by (simp add: TrimSpace_def)
  ultimately show ?thesis by (simp add: trimmed_def list_all_iff)
qed

lemma TrimSpace_id:
  assumes "trimmed s"
  shows "TrimSpace s = s"
proof -
  have "trim_front (map rev space_runes) (rev s) = rev s" "trim_front space_runes s = s"
    using assms by (auto simp: trimmed_def list_all_iff intro!: trim_front_id)
  then show ?thesis by (simp add: TrimSpace_def)
qed

lemma trimmed_iff: "trimmed s \<longleftrightarrow> TrimSpace s = s"
  using TrimSpace_trimmed [of s] TrimSpace_id by metis

section \<open>Splitting and joining\<close>

text \<open>\<^verbatim>\<open>strings.Split\<close> with a separator of one byte, and \<^verbatim>\<open>strings.Join\<close>.\<close>

fun Split :: "char \<Rightarrow> string \<Rightarrow> string list" where
  "Split sep [] = [[]]"
| "Split sep (c # cs) = (if c = sep then [] # Split sep cs else case Split sep cs of [] \<Rightarrow> [[c]] | p # ps \<Rightarrow> (c # p) # ps)"

fun join_with :: "char \<Rightarrow> string list \<Rightarrow> string" where
  "join_with sep [] = []"
| "join_with sep [p] = p"
| "join_with sep (p # ps) = p @ sep # join_with sep ps"

lemma Split_nonempty [simp]: "Split sep s \<noteq> []"
  by (induction s) (auto split: list.splits)

lemma Split_parts: "p \<in> set (Split sep s) \<Longrightarrow> sep \<notin> set p"
  by (induction s arbitrary: p) (auto split: list.splits if_splits)

lemma Split_append: "sep \<notin> set p \<Longrightarrow> Split sep (p @ sep # s) = p # Split sep s"
  by (induction p) (auto split: list.splits)

lemma Split_single: "sep \<notin> set p \<Longrightarrow> Split sep p = [p]"
  by (induction p) (auto split: list.splits)

lemma Split_join: "ps \<noteq> [] \<Longrightarrow> \<forall>p \<in> set ps. sep \<notin> set p \<Longrightarrow> Split sep (join_with sep ps) = ps"
  by (induction sep ps rule: join_with.induct) (auto simp: Split_append Split_single)

lemma join_Split: "join_with sep (Split sep s) = s"
proof (induction s)
  case (Cons c s)
  obtain p ps where "Split sep s = p # ps" by (cases "Split sep s") simp_all
  then show ?case using Cons by (cases ps) auto
qed simp

definition Contains :: "string \<Rightarrow> string \<Rightarrow> bool" where
  "Contains s sub = list_ex (\<lambda>n. starts_with sub (drop n s)) [0..<Suc (length s)]"

section \<open>Paths as strings\<close>

text \<open>\<^verbatim>\<open>filepath.Clean\<close>, \<^verbatim>\<open>filepath.Join\<close> and \<^verbatim>\<open>filepath.Dir\<close> on a Unix system;
  the accumulator of segments is reversed.\<close>

fun clean_parts :: "bool \<Rightarrow> string list \<Rightarrow> string list \<Rightarrow> string list" where
  "clean_parts rooted acc [] = rev acc"
| "clean_parts rooted acc (s # ss) =
     (if s = [] \<or> s = ''.'' then clean_parts rooted acc ss
      else if s = ''..'' then
        (if acc \<noteq> [] \<and> hd acc \<noteq> ''..'' then clean_parts rooted (tl acc) ss
         else if rooted then clean_parts rooted acc ss
         else clean_parts rooted (s # acc) ss)
      else clean_parts rooted (s # acc) ss)"

definition filepath_Clean :: "string \<Rightarrow> string" where
  "filepath_Clean p =
     (let rooted = starts_with ''/'' p;
          out = (if rooted then ''/'' else []) @ join_with (CHR ''/'') (clean_parts rooted [] (Split (CHR ''/'') p))
      in if out = [] then ''.'' else out)"

definition filepath_Join :: "string list \<Rightarrow> string" where
  "filepath_Join elems =
     (let es = dropWhile (\<lambda>e. e = []) elems in if es = [] then [] else filepath_Clean (join_with (CHR ''/'') es))"

definition filepath_Dir :: "string \<Rightarrow> string" where
  "filepath_Dir p = filepath_Clean (rev (dropWhile (\<lambda>c. c \<noteq> CHR ''/'') (rev p)))"

lemma filepath_Clean_nonempty: "filepath_Clean p \<noteq> []"
  by (simp add: filepath_Clean_def Let_def)

lemma filepath_Join_nonempty [simp]: "filepath_Join ((c # cs) # es) \<noteq> []"
  by (simp add: filepath_Join_def Let_def filepath_Clean_nonempty)

end
