(* ===== verification/Item.thy ===== *)
theory Item
  imports Strings
begin

text \<open>
  The stored item \<^verbatim>\<open>src/internal/item/item.go\<close>, the dynamic values it carries, the
  request shapes of \<^verbatim>\<open>src/internal/dto\<close> with their validation, and the command
  record of \<^verbatim>\<open>src/internal/commands\<close> that travels through the replicated log.

  A dynamic value (\<^verbatim>\<open>any\<close>) is what \<^verbatim>\<open>encoding/json\<close> and the CBOR decoder
  produce: numbers are float64 (kept as their 64-bit pattern), a JSON object is a map with string
  keys, a CBOR map a map with arbitrary keys.  A Go map is an association list; its order stands for
  the unspecified iteration order.  JSON documents are kept as trees: their text is never inspected by
  the program.
\<close>

section \<open>Dynamic values and JSON documents\<close>

datatype any =
    VNil
  | VBool bool
  | VFloat u64
  | VStr string
  | VList "any list"
  | VMapS "(string \<times> any) list"
  | VMapI "(any \<times> any) list"

datatype json =
    JNull
  | JBool bool
  | JNum u64
  | JStr string
  | JArr "json list"
  | JObj "(string \<times> json) list"

text \<open>\<^verbatim>\<open>json.Marshal\<close> rejects maps with non-string key type and non-finite numbers.\<close>

definition finite_float :: "u64 \<Rightarrow> bool" where
  "finite_float f = (take_bit 11 (drop_bit 52 f) \<noteq> 0x7FF)"

fun json_of_any :: "any \<Rightarrow> json option" where
  "json_of_any VNil = Some JNull"
| "json_of_any (VBool b) = Some (JBool b)"
| "json_of_any (VFloat f) = (if finite_float f then Some (JNum f) else None)"
| "json_of_any (VStr s) = Some (JStr s)"
| "json_of_any (VList xs) = map_option JArr (those (map json_of_any xs))"
| "json_of_any (VMapS kvs) =
     map_option JObj (those (map (\<lambda>(k, v). map_option (Pair k) (json_of_any v)) kvs))"
| "json_of_any (VMapI kvs) = None"

fun any_of_json :: "json \<Rightarrow> any" where
  "any_of_json JNull = VNil"
| "any_of_json (JBool b) = VBool b"
| "any_of_json (JNum f) = VFloat f"
| "any_of_json (JStr s) = VStr s"
| "any_of_json (JArr xs) = VList (map any_of_json xs)"
| "any_of_json (JObj kvs) = VMapS (map (\<lambda>(k, v). (k, any_of_json v)) kvs)"

text \<open>
  \<^verbatim>\<open>jsonSafeAny\<close>, present in fsdb and in api with the same body.  \<open>sprint\<close> is
  \<^verbatim>\<open>fmt.Sprint\<close> on a key that is not a string.
\<close>

fun jsonSafeAny :: "(any \<Rightarrow> string) \<Rightarrow> any \<Rightarrow> any" where
  "jsonSafeAny sprint (VMapS kvs) = VMapS (map (\<lambda>(k, v). (k, jsonSafeAny sprint v)) kvs)"
| "jsonSafeAny sprint (VMapI kvs) =
     VMapS (fold (\<lambda>(k, v) m.
       AList.update (case k of VStr s \<Rightarrow> s | _ \<Rightarrow> sprint k) v m)
       (map (\<lambda>(k, v). (k, jsonSafeAny sprint v)) kvs) [])"
| "jsonSafeAny sprint (VList xs) = VList (map (jsonSafeAny sprint) xs)"
| "jsonSafeAny sprint v = v"

section \<open>Entities\<close>

record entity =
  iKey :: string
  iSK :: string
  iValue :: any
  iVersion :: string

definition zero_entity :: entity where
  "zero_entity = \<lparr>iKey = [], iSK = [], iValue = VNil, iVersion = []\<rparr>"

definition marshal_entity :: "entity \<Rightarrow> goerr + json" where
  "marshal_entity e =
     (case json_of_any (iValue e) of
        None \<Rightarrow> Inl (ErrMsg ''json: unsupported value'')
      | Some j \<Rightarrow> Inr (JObj [(''Key'', JStr (iKey e)), (''SK'', JStr (iSK e)), (''Value'', j),
                          (''Version'', JStr (iVersion e))]))"

text \<open>A string field of a struct: absent and \<^verbatim>\<open>null\<close> leave the zero value.\<close>

definition string_field :: "string \<Rightarrow> (string \<times> json) list \<Rightarrow> string option" where
  "string_field k kvs =
     (case map_of (rev kvs) k of
        None \<Rightarrow> Some [] | Some JNull \<Rightarrow> Some [] | Some (JStr s) \<Rightarrow> Some s | Some _ \<Rightarrow> None)"

definition unmarshal_entity :: "json \<Rightarrow> goerr + entity" where
  "unmarshal_entity j =
     (case j of
        JNull \<Rightarrow> Inr zero_entity
      | JObj kvs \<Rightarrow>
         (case (string_field ''Key'' kvs, string_field ''SK'' kvs, string_field ''Version'' kvs) of
            (Some k, Some s, Some v) \<Rightarrow>
              Inr \<lparr>iKey = k, iSK = s,
                   iValue = (case map_of (rev kvs) ''Value'' of None \<Rightarrow> VNil | Some w \<Rightarrow> any_of_json w),
                   iVersion = v\<rparr>
          | _ \<Rightarrow> Inl (ErrMsg ''json: cannot unmarshal''))
      | _ \<Rightarrow> Inl (ErrMsg ''json: cannot unmarshal''))"

definition marshal_keys :: "string list \<Rightarrow> json" where
  "marshal_keys ks = JArr (map JStr ks)"

definition unmarshal_keys :: "json \<Rightarrow> goerr + string list" where
  "unmarshal_keys j =
     (case j of
        JNull \<Rightarrow> Inr []
      | JArr xs \<Rightarrow>
         (case those (map (\<lambda>x. case x of JStr s \<Rightarrow> Some s | JNull \<Rightarrow> Some [] | _ \<Rightarrow> None) xs) of
            None \<Rightarrow> Inl (ErrMsg ''json: cannot unmarshal'')
          | Some ks \<Rightarrow> Inr ks)
      | _ \<Rightarrow> Inl (ErrMsg ''json: cannot unmarshal''))"

section \<open>Request shapes (package dto)\<close>

record version =
  PromoteVersion :: string
  OldVersion :: string

record item =
  itKey :: string
  itSK :: string
  itValue :: "(string \<times> any) list"
  itVersion :: "version option"

definition item_Entity :: "item \<Rightarrow> entity" where
  "item_Entity i =
     (let ent = \<lparr>iKey = itKey i, iSK = itSK i, iValue = VMapS (itValue i), iVersion = []\<rparr> in
      case itVersion i of None \<Rightarrow> ent | Some v \<Rightarrow> ent\<lparr>iVersion := PromoteVersion v\<rparr>)"

definition items_Entities :: "item list \<Rightarrow> entity list" where
  "items_Entities is = map item_Entity is"

record delete_item =
  dKey :: string
  dVersion :: "version option"

definition DelItem :: "item \<Rightarrow> delete_item" where
  "DelItem i = \<lparr>dKey = itKey i, dVersion = itVersion i\<rparr>"

definition DelItems :: "item list \<Rightarrow> delete_item list" where
  "DelItems is = map DelItem is"

definition del_Item :: "delete_item \<Rightarrow> item" where
  "del_Item d = \<lparr>itKey = dKey d, itSK = [], itValue = [], itVersion = dVersion d\<rparr>"

definition del_Items :: "delete_item list \<Rightarrow> item list" where
  "del_Items ds = map del_Item ds"

definition del_Keys :: "delete_item list \<Rightarrow> string list" where
  "del_Keys ds = map dKey ds"

datatype operation_type = OptimisticLock | MultipleWritter | Normal | OtherOperation string

text \<open>\<^verbatim>\<open>FieldError\<close>: the accumulated messages; \<^verbatim>\<open>Build\<close> is nil when there are none.\<close>

definition field_build :: "string list \<Rightarrow> string list option" where
  "field_build errs = (if errs = [] then None else Some errs)"

definition item_Validate :: "item \<Rightarrow> string list option" where
  "item_Validate i =
     (let out = (case itVersion i of
                   Some v \<Rightarrow> if PromoteVersion v = []
                     then [''if use optimistic_lock is required propose_version''] else []
                 | None \<Rightarrow> []);
          out = (if itKey i = [] then out @ [''is required key''] else out);
          out = (if itValue i = [] then out @ [''is required value to persistence''] else out)
      in field_build out)"

fun items_Validate :: "item list \<Rightarrow> string list option" where
  "items_Validate [] = None"
| "items_Validate (i # is) =
     (case item_Validate i of Some err \<Rightarrow> Some err | None \<Rightarrow> items_Validate is)"

text \<open>
  \<^verbatim>\<open>strings.Trim(s, "")\<close> has an empty cutset and returns \<open>s\<close>: a key of blanks
  passes this check, unlike the bulk check below.
\<close>

definition delete_Validate :: "operation_type \<Rightarrow> delete_item \<Rightarrow> string list option" where
  "delete_Validate op d =
     (let out = (if dKey d = [] then [''field key is required''] else []);
          out = (if op = OptimisticLock \<and> dVersion d = None
                 then out @ [''field version is required when use optimistic_del''] else out)
      in field_build out)"

definition deletes_Validate :: "delete_item list \<Rightarrow> string list option" where
  "deletes_Validate ds =
     (if ds = [] then field_build [''bulk delete requires at least one item'']
      else field_build (concat (map (\<lambda>d.
             if TrimSpace (dKey d) = [] then [''field key is required''] else []) ds)))"

section \<open>Commands (package commands)\<close>

datatype command =
    CreateTableCmd | OptimisticSetCmd | OptimisticDelCmd | SetCmd | BulkPutCmd | BulkDelCmd
  | GetCmd | GetBySkCmd | DeleteCmd | OtherCmd string

record cmd_data =
  Cmd :: command
  TableName :: string
  cItem :: item
  cItems :: "item list"
  MinAcks :: int

text \<open>
  What comes back of a value that went through the CBOR codec of \<^verbatim>\<open>src/internal/code\<close>: a map below the top level of an
  item's value, whose static type is \<^verbatim>\<open>any\<close>, is decoded as a map with arbitrary keys.  The top level has the static
  type \<^verbatim>\<open>map[string]any\<close> and keeps it.
\<close>

fun cbor_any :: "any \<Rightarrow> any" where
  "cbor_any (VList xs) = VList (map cbor_any xs)"
| "cbor_any (VMapS kvs) = VMapI (map (\<lambda>(k, v). (VStr k, cbor_any v)) kvs)"
| "cbor_any (VMapI kvs) = VMapI (map (\<lambda>(k, v). (cbor_any k, cbor_any v)) kvs)"
| "cbor_any v = v"

definition cbor_item :: "item \<Rightarrow> item" where
  "cbor_item i = i\<lparr>itValue := map (\<lambda>(k, v). (k, cbor_any v)) (itValue i)\<rparr>"

definition cbor_data :: "cmd_data \<Rightarrow> cmd_data" where
  "cbor_data d = d\<lparr>cItem := cbor_item (cItem d), cItems := map cbor_item (cItems d)\<rparr>"

fun command_String :: "command \<Rightarrow> string" where
  "command_String CreateTableCmd = ''create_table''"
| "command_String OptimisticSetCmd = ''optimistic_set_cmd''"
| "command_String OptimisticDelCmd = ''optimistic_del_cmd''"
| "command_String SetCmd = ''set''"
| "command_String BulkPutCmd = ''bulk_put''"
| "command_String BulkDelCmd = ''bulk_del''"
| "command_String GetCmd = ''get''"
| "command_String GetBySkCmd = ''get_by_sk''"
| "command_String DeleteCmd = ''delete''"
| "command_String (OtherCmd s) = s"

definition Execute :: "(string \<Rightarrow> 's \<Rightarrow> goerr option \<times> 's) \<Rightarrow> cmd_data \<Rightarrow> 's \<Rightarrow> goerr option \<times> 's" where
  "Execute create d s =
     (case Cmd d of
        CreateTableCmd \<Rightarrow> create (TableName d) s
      | c \<Rightarrow> (Some (ErrMsg (''unsupported command: '' @ command_String c)), s))"

definition zero_item :: item where
  "zero_item = \<lparr>itKey = [], itSK = [], itValue = [], itVersion = None\<rparr>"

section \<open>Round trips\<close>

lemma those_map_Some: "(\<And>x. x \<in> set xs \<Longrightarrow> f x = Some (g x)) \<Longrightarrow> those (map f xs) = Some (map g xs)"
  by (induction xs) simp_all

lemma those_SomeD: "those (map f xs) = Some ys \<Longrightarrow> list_all2 (\<lambda>x y. f x = Some y) xs ys"
  by (induction xs arbitrary: ys) (auto split: option.splits)

lemma map_json_pairs:
  assumes "list_all2 (\<lambda>x y. (case x of (k, v) \<Rightarrow> map_option (Pair k) (f v)) = Some y) kvs js"
    and "\<And>k v i. (k, v) \<in> set kvs \<Longrightarrow> f v = Some i \<Longrightarrow> g i = v"
  shows "map (\<lambda>(k, v). (k, g v)) js = kvs"
  using assms
proof (induction kvs js rule: list_all2_induct)
  case Nil
  show ?case by simp
next
  case (Cons x xs y ys)
  obtain k v where x: "x = (k, v)" by (cases x)
  from Cons.hyps x obtain i where i: "f v = Some i" "y = (k, i)" by auto
  moreover have "g i = v" using Cons.prems [of k v i] i(1) x by simp
  moreover have "map (\<lambda>(k, v). (k, g v)) ys = xs"
    by (rule Cons.IH) (rule Cons.prems, auto)
  ultimately show ?case by (simp add: x)
qed

lemma any_of_json_of_any: "json_of_any v = Some j \<Longrightarrow> any_of_json j = v"
proof (induction v arbitrary: j rule: json_of_any.induct)
  case (5 xs)
  then obtain js where js: "those (map json_of_any xs) = Some js" "j = JArr js" by auto
  from those_SomeD [OF js(1)] have "list_all2 (\<lambda>x y. json_of_any x = Some y) xs js" .
  then have "map any_of_json js = xs"
    using "5.IH" by (induction rule: list_all2_induct) auto
  with js(2) show ?case by simp
next
  case (6 kvs)
  have IH: "(k, v) \<in> set kvs \<Longrightarrow> json_of_any v = Some i \<Longrightarrow> any_of_json i = v" for k v i
    using "6.IH" by blast
  from "6.prems" obtain js where js: "those (map (\<lambda>(k, v). map_option (Pair k) (json_of_any v)) kvs) = Some js" "j = JObj js"
    by auto
  from those_SomeD [OF js(1)]
  have "list_all2 (\<lambda>x y. (case x of (k, v) \<Rightarrow> map_option (Pair k) (json_of_any v)) = Some y) kvs js" .
  then have "map (\<lambda>(k, v). (k, any_of_json v)) js = kvs"
    using IH by (rule map_json_pairs)
  with js(2) show ?case by simp
qed (auto split: if_splits)

lemma unmarshal_marshal_entity [store_simps]:
  "marshal_entity e = Inr j \<Longrightarrow> unmarshal_entity j = Inr e"
  by (auto simp: marshal_entity_def unmarshal_entity_def string_field_def any_of_json_of_any
      split: option.splits)

lemma unmarshal_marshal_keys [simp]: "unmarshal_keys (marshal_keys ks) = Inr ks"
  by (simp add: unmarshal_keys_def marshal_keys_def those_map_Some [of _ _ id] comp_def)

end
