(* ===== verification/Raft_Node.thy ===== *)
theory Raft_Node
  imports Item
begin

text \<open>
  The consensus node \<^verbatim>\<open>src/internal/raft/node.go\<close>, one definition per section the code runs
  under its mutex.  Integers are Go's \<^verbatim>\<open>int\<close> without overflow.  The channels are reduced to
  what the code reads of them: \<open>resetSig\<close> is the one-slot \<^verbatim>\<open>resetElection\<close>, \<open>commitWakes\<close>
  counts the sends on \<^verbatim>\<open>commitNotify\<close>, \<open>delivered\<close> is what went into \<^verbatim>\<open>applied\<close>.
  \<open>metaWrites\<close> lists the calls of \<^verbatim>\<open>onMetaPersist\<close>.  That callback runs with the mutex
  released, so a handler that changes the term is split at this point into an \<open>enter\<close> and a \<open>finish\<close>
  part; other sections may run between them.
\<close>

section \<open>Data\<close>

datatype role = Follower | Candidate | Leader

fun role_String :: "role \<Rightarrow> string" where
  "role_String Follower = ''follower''"
| "role_String Candidate = ''candidate''"
| "role_String Leader = ''leader''"

record log_entry =
  leTerm :: int
  leData :: cmd_data

record request_vote_args =
  rvTerm :: int
  rvCandidateID :: string
  rvLastLogIndex :: int
  rvLastLogTerm :: int

record request_vote_reply =
  rrTerm :: int
  rrVoteGranted :: bool

record append_entries_args =
  aeTerm :: int
  aeLeaderID :: string
  aePrevLogIndex :: int
  aePrevLogTerm :: int
  aeEntries :: "log_entry list"
  aeLeaderCommit :: int

record append_entries_reply =
  arTerm :: int
  arSuccess :: bool

text \<open>
  \<open>nextIndex\<close> and \<open>matchIndex\<close> are Go maps: reading a missing key gives 0, which the functions have as
  their default.
\<close>

record raft_node =
  nId :: string
  nPeers :: "string list"
  currentTerm :: int
  votedFor :: string
  nLog :: "log_entry list"
  nState :: role
  leaderID :: string
  commitIndex :: int
  lastApplied :: int
  nextIndex :: "string \<Rightarrow> int"
  matchIndex :: "string \<Rightarrow> int"
  resetSig :: bool
  commitWakes :: nat
  delivered :: "log_entry list"
  hasPersister :: bool
  metaWrites :: "(int \<times> string) list"

definition NewNode :: "string \<Rightarrow> string list \<Rightarrow> raft_node" where
  "NewNode i peers =
     \<lparr>nId = i, nPeers = peers, currentTerm = 0, votedFor = [], nLog = [], nState = Follower, leaderID = [],
      commitIndex = -1, lastApplied = -1, nextIndex = (\<lambda>_. 0), matchIndex = (\<lambda>_. 0), resetSig = False,
      commitWakes = 0, delivered = [], hasPersister = False, metaWrites = []\<rparr>"

record persisted_state =
  psLog :: "log_entry list"
  psCurrentTerm :: int
  psVotedFor :: string

definition NewNodeWithState :: "string \<Rightarrow> string list \<Rightarrow> persisted_state \<Rightarrow> raft_node" where
  "NewNodeWithState i peers ps =
     (let ci = int (length (psLog ps)) - 1 in
      (NewNode i peers)\<lparr>currentTerm := psCurrentTerm ps, votedFor := psVotedFor ps, nLog := psLog ps,
         commitIndex := ci, lastApplied := ci\<rparr>)"

definition SetMetaPersister :: "raft_node \<Rightarrow> raft_node" where
  "SetMetaPersister n = n\<lparr>hasPersister := True\<rparr>"

section \<open>Helpers\<close>

definition majority :: "raft_node \<Rightarrow> int" where
  "majority n = (int (length (nPeers n)) + 1) div 2 + 1"

definition effectiveRepMinAcks :: "raft_node \<Rightarrow> int" where
  "effectiveRepMinAcks n = int (length (nPeers n)) + 1"

definition FullClusterReplicationMinAcks :: "raft_node \<Rightarrow> int" where
  "FullClusterReplicationMinAcks n = int (length (nPeers n)) + 1"

definition validateStrictRepMinAcks :: "int \<Rightarrow> raft_node \<Rightarrow> goerr option" where
  "validateStrictRepMinAcks minAcks n =
     (let maj = majority n; maxN = int (length (nPeers n)) + 1 in
      if minAcks < maj \<or> minAcks > maxN then Some (ErrMsg ''raft: min_acks out of safe range'') else None)"

definition lastLogInfo :: "raft_node \<Rightarrow> int \<times> int" where
  "lastLogInfo n =
     (let idx = int (length (nLog n)) - 1 in
      if idx < 0 then (-1, 0) else (idx, leTerm (nLog n ! nat idx)))"

definition notifyMetaChange :: "raft_node \<Rightarrow> raft_node" where
  "notifyMetaChange n =
     (if hasPersister n then n\<lparr>metaWrites := metaWrites n @ [(currentTerm n, votedFor n)]\<rparr> else n)"

definition stepDown :: "int \<Rightarrow> raft_node \<Rightarrow> raft_node" where
  "stepDown term n =
     notifyMetaChange (n\<lparr>currentTerm := term, nState := Follower, votedFor := [], leaderID := []\<rparr>)"

definition signalReset :: "raft_node \<Rightarrow> raft_node" where
  "signalReset n = n\<lparr>resetSig := True\<rparr>"

section \<open>RequestVote\<close>

definition rv_enter :: "request_vote_args \<Rightarrow> raft_node \<Rightarrow> raft_node" where
  "rv_enter args n = (if rvTerm args > currentTerm n then stepDown (rvTerm args) n else n)"

definition up_to_date :: "request_vote_args \<Rightarrow> raft_node \<Rightarrow> bool" where
  "up_to_date args n =
     (case lastLogInfo n of (lastLogIndex, lastLogTerm) \<Rightarrow>
        rvLastLogTerm args > lastLogTerm
        \<or> rvLastLogTerm args = lastLogTerm \<and> rvLastLogIndex args \<ge> lastLogIndex)"

definition rv_finish :: "request_vote_args \<Rightarrow> raft_node \<Rightarrow> raft_node \<times> request_vote_reply" where
  "rv_finish args n =
     (if (votedFor n = [] \<or> votedFor n = rvCandidateID args) \<and> up_to_date args n
      then (notifyMetaChange (signalReset (n\<lparr>votedFor := rvCandidateID args\<rparr>)),
            \<lparr>rrTerm = currentTerm n, rrVoteGranted = True\<rparr>)
      else (n, \<lparr>rrTerm = currentTerm n, rrVoteGranted = False\<rparr>))"

definition HandleRequestVote :: "request_vote_args \<Rightarrow> raft_node \<Rightarrow> raft_node \<times> request_vote_reply" where
  "HandleRequestVote args n =
     (if rvTerm args < currentTerm n then (n, \<lparr>rrTerm = currentTerm n, rrVoteGranted = False\<rparr>)
      else rv_finish args (rv_enter args n))"

section \<open>AppendEntries\<close>

definition ae_enter :: "append_entries_args \<Rightarrow> raft_node \<Rightarrow> raft_node" where
  "ae_enter args n =
     (if aeTerm args > currentTerm n then stepDown (aeTerm args) n else n\<lparr>nState := Follower\<rparr>)"

text \<open>The loop over the new entries; \<open>k\<close> is \<^verbatim>\<open>logIdx\<close>.\<close>

fun append_loop :: "log_entry list \<Rightarrow> nat \<Rightarrow> log_entry list \<Rightarrow> log_entry list" where
  "append_loop [] k log = log"
| "append_loop (e # es) k log =
     (if k < length log then
        (if leTerm (log ! k) \<noteq> leTerm e then take k log @ e # es else append_loop es (Suc k) log)
      else log @ e # es)"

definition prev_ok :: "append_entries_args \<Rightarrow> log_entry list \<Rightarrow> bool" where
  "prev_ok args log =
     (aePrevLogIndex args \<ge> 0 \<longrightarrow>
        aePrevLogIndex args < int (length log) \<and> leTerm (log ! nat (aePrevLogIndex args)) = aePrevLogTerm args)"

definition advance_commit :: "int \<Rightarrow> raft_node \<Rightarrow> raft_node" where
  "advance_commit leaderCommit n =
     (if leaderCommit > commitIndex n then
        let lastIdx = int (length (nLog n)) - 1 in
        n\<lparr>commitIndex := (if lastIdx < leaderCommit then lastIdx else leaderCommit), commitWakes := commitWakes n + 1\<rparr>
      else n)"

text \<open>A negative index, which no leader sends, panics.\<close>

definition ae_finish :: "append_entries_args \<Rightarrow> raft_node \<Rightarrow> goerr + raft_node \<times> append_entries_reply" where
  "ae_finish args n =
     (let n = signalReset (n\<lparr>leaderID := aeLeaderID args\<rparr>) in
      if \<not> prev_ok args (nLog n) then Inr (n, \<lparr>arTerm = currentTerm n, arSuccess = False\<rparr>)
      else if aePrevLogIndex args < -1 \<and> aeEntries args \<noteq> [] then Inl (GoPanic ''index out of range'')
      else let n = n\<lparr>nLog := append_loop (aeEntries args) (nat (aePrevLogIndex args + 1)) (nLog n)\<rparr> in
           Inr (advance_commit (aeLeaderCommit args) n, \<lparr>arTerm = currentTerm n, arSuccess = True\<rparr>))"

definition HandleAppendEntries :: "append_entries_args \<Rightarrow> raft_node \<Rightarrow> goerr + raft_node \<times> append_entries_reply" where
  "HandleAppendEntries args n =
     (if aeTerm args < currentTerm n then Inr (n, \<lparr>arTerm = currentTerm n, arSuccess = False\<rparr>)
      else ae_finish args (ae_enter args n))"

section \<open>Proposals\<close>

record err_propose_cmd =
  epErr :: goerr
  epState :: string
  epLeader :: string

definition reject_cmd :: "string \<Rightarrow> raft_node \<Rightarrow> err_propose_cmd" where
  "reject_cmd msg n = \<lparr>epErr = ErrWrap msg ErrFollowerRejectCmd, epState = role_String (nState n), epLeader = leaderID n\<rparr>"

definition PermittedProposeCmd :: "raft_node \<Rightarrow> err_propose_cmd option" where
  "PermittedProposeCmd n = (if nState n \<noteq> Leader then Some (reject_cmd ''send your request to leader'' n) else None)"

definition ProposeCommand :: "cmd_data \<Rightarrow> raft_node \<Rightarrow> err_propose_cmd option \<times> raft_node" where
  "ProposeCommand cmd n =
     (if nState n \<noteq> Leader then
        (if leaderID n \<noteq> [] then (Some (reject_cmd ''send your request to leader'' n), n)
         else (Some (reject_cmd ''no leader known yet'' n), n))
      else case (if MinAcks cmd \<noteq> 0 then validateStrictRepMinAcks (MinAcks cmd) n else None) of
        Some err \<Rightarrow> (Some \<lparr>epErr = err, epState = role_String (nState n), epLeader = leaderID n\<rparr>, n)
      | None \<Rightarrow> (None, n\<lparr>nLog := nLog n @ [\<lparr>leTerm = currentTerm n, leData = cmd\<rparr>]\<rparr>))"

record node_state =
  stID :: string
  stRole :: string
  stLeaderID :: string
  stTerm :: int
  stCommitIndex :: int
  stLogLen :: int
  stMajorityRepMinAcks :: int
  stEffectiveRepMinAcks :: int

definition State :: "raft_node \<Rightarrow> node_state" where
  "State n =
     \<lparr>stID = nId n, stRole = role_String (nState n), stLeaderID = leaderID n, stTerm = currentTerm n,
      stCommitIndex = commitIndex n, stLogLen = int (length (nLog n)), stMajorityRepMinAcks = majority n,
      stEffectiveRepMinAcks = effectiveRepMinAcks n\<rparr>"

section \<open>Delivery\<close>

text \<open>One round of the inner loop of \<^verbatim>\<open>runDelivery\<close>; \<open>None\<close>: nothing to deliver.\<close>

definition deliver_one :: "raft_node \<Rightarrow> (goerr + raft_node) option" where
  "deliver_one n =
     (if lastApplied n \<ge> commitIndex n then None
      else let la = lastApplied n + 1 in
           if 0 \<le> la \<and> la < int (length (nLog n))
           then Some (Inr (n\<lparr>lastApplied := la, delivered := delivered n @ [nLog n ! nat la]\<rparr>))
           else Some (Inl (GoPanic ''index out of range'')))"

section \<open>Elections\<close>

text \<open>The end of \<^verbatim>\<open>runFollower\<close> when its timer fires.\<close>

definition follower_timeout :: "raft_node \<Rightarrow> raft_node" where
  "follower_timeout n = n\<lparr>nState := Candidate\<rparr>"

definition follower_reset :: "raft_node \<Rightarrow> raft_node" where
  "follower_reset n = n\<lparr>resetSig := False\<rparr>"

definition campaign :: "raft_node \<Rightarrow> raft_node" where
  "campaign n =
     notifyMetaChange (n\<lparr>currentTerm := currentTerm n + 1, votedFor := nId n, leaderID := []\<rparr>)"

text \<open>The request is made from the values read before the callback, hence from the node before \<open>campaign\<close>.\<close>

definition vote_request :: "raft_node \<Rightarrow> request_vote_args" where
  "vote_request n =
     (case lastLogInfo n of (lastLogIndex, lastLogTerm) \<Rightarrow>
        \<lparr>rvTerm = currentTerm n + 1, rvCandidateID = nId n, rvLastLogIndex = lastLogIndex, rvLastLogTerm = lastLogTerm\<rparr>)"

definition vote_reply :: "request_vote_reply \<Rightarrow> raft_node \<Rightarrow> raft_node" where
  "vote_reply reply n = (if rrTerm reply > currentTerm n then stepDown (rrTerm reply) n else n)"

definition win :: "int \<Rightarrow> raft_node \<Rightarrow> raft_node" where
  "win term n = (if nState n = Candidate \<and> currentTerm n = term then n\<lparr>nState := Leader\<rparr> else n)"

section \<open>Replication\<close>

text \<open>Durations in milliseconds; \<open>int63n\<close> is \<^verbatim>\<open>rand.Int63n\<close>.\<close>

definition electionTimeoutMin :: int where
  "electionTimeoutMin = 150"

definition electionTimeoutMax :: int where
  "electionTimeoutMax = 300"

definition heartbeatInterval :: int where
  "heartbeatInterval = 50"

definition randomElectionTimeout :: "(int \<Rightarrow> int) \<Rightarrow> int" where
  "randomElectionTimeout int63n = electionTimeoutMin + int63n (electionTimeoutMax - electionTimeoutMin)"

definition become_leader :: "raft_node \<Rightarrow> raft_node" where
  "become_leader n =
     n\<lparr>nextIndex := (\<lambda>p. if p \<in> set (nPeers n) then int (length (nLog n)) else 0),
       matchIndex := (\<lambda>p. if p \<in> set (nPeers n) then -1 else 0), leaderID := nId n\<rparr>"

text \<open>
  The first section of \<^verbatim>\<open>sendAppendEntries\<close>: nothing to send when the node no longer leads the term;
  \<^verbatim>\<open>make\<close> and the slice panic when \<^verbatim>\<open>nextIndex\<close> is out of the log.
\<close>

definition send_begin :: "string \<Rightarrow> int \<Rightarrow> raft_node \<Rightarrow> goerr + append_entries_args option" where
  "send_begin peer term n =
     (if nState n \<noteq> Leader \<or> currentTerm n \<noteq> term then Inr None
      else let ni = nextIndex n peer; prevLogIndex = ni - 1;
               prevLogTerm = (if prevLogIndex \<ge> 0 \<and> prevLogIndex < int (length (nLog n))
                              then leTerm (nLog n ! nat prevLogIndex) else 0) in
           if ni < 0 \<or> ni > int (length (nLog n)) then Inl (GoPanic ''slice bounds out of range'')
           else Inr (Some \<lparr>aeTerm = term, aeLeaderID = nId n, aePrevLogIndex = prevLogIndex, aePrevLogTerm = prevLogTerm,
                           aeEntries = drop (nat ni) (nLog n), aeLeaderCommit = commitIndex n\<rparr>))"

definition replicatedAckCount :: "int \<Rightarrow> raft_node \<Rightarrow> int" where
  "replicatedAckCount idx n = 1 + int (length (filter (\<lambda>peer. matchIndex n peer \<ge> idx) (nPeers n)))"

definition minAcksRequiredToCommit :: "int \<Rightarrow> raft_node \<Rightarrow> int" where
  "minAcksRequiredToCommit idx n =
     (let v = MinAcks (leData (nLog n ! nat idx)) in if v > 0 then v else effectiveRepMinAcks n)"

definition may_commit :: "int \<Rightarrow> int \<Rightarrow> raft_node \<Rightarrow> bool" where
  "may_commit term idx n \<longleftrightarrow> idx < int (length (nLog n)) \<and> leTerm (nLog n ! nat idx) = term
     \<and> replicatedAckCount idx n \<ge> minAcksRequiredToCommit idx n"

text \<open>The loop of \<^verbatim>\<open>maybeAdvanceCommit\<close>; its result is whether the commit index advanced.\<close>

function maybeAdvanceCommit :: "int \<Rightarrow> raft_node \<Rightarrow> bool \<times> raft_node" where
  "maybeAdvanceCommit term n =
     (let next = commitIndex n + 1 in
      if may_commit term next n
      then (True, snd (maybeAdvanceCommit term (n\<lparr>commitIndex := next\<rparr>)))
      else (False, n))"
  by pat_completeness auto
termination
  by (relation "measure (\<lambda>(term, n). nat (int (length (nLog n)) - commitIndex n))") (auto simp: may_commit_def)

declare maybeAdvanceCommit.simps [simp del]

text \<open>The second section of \<^verbatim>\<open>sendAppendEntries\<close>, on the reply to \<open>args\<close>.\<close>

definition send_finish :: "string \<Rightarrow> append_entries_args \<Rightarrow> append_entries_reply \<Rightarrow> raft_node \<Rightarrow> raft_node" where
  "send_finish peer args reply n =
     (let term = aeTerm args in
      if arTerm reply > currentTerm n then stepDown (arTerm reply) n
      else if nState n \<noteq> Leader \<or> currentTerm n \<noteq> term then n
      else if arSuccess reply then
        let n = (if aeEntries args \<noteq> []
                 then n\<lparr>nextIndex := (nextIndex n)(peer := int (length (nLog n))),
                        matchIndex := (matchIndex n)(peer := int (length (nLog n)) - 1)\<rparr>
                 else n) in
        (case maybeAdvanceCommit term n of
           (advanced, n) \<Rightarrow> if advanced then n\<lparr>commitWakes := commitWakes n + 1\<rparr> else n)
      else if nextIndex n peer > 0 then n\<lparr>nextIndex := (nextIndex n)(peer := nextIndex n peer - 1)\<rparr>
      else n)"

section \<open>Appending\<close>

text \<open>
  Two logs match when entries with the same index and term force the same prefix (Raft's log matching).
\<close>

definition log_match :: "log_entry list \<Rightarrow> log_entry list \<Rightarrow> bool" where
  "log_match l l' \<longleftrightarrow> (\<forall>k. k < length l \<longrightarrow> k < length l' \<longrightarrow> leTerm (l ! k) = leTerm (l' ! k) \<longrightarrow> take (Suc k) l = take (Suc k) l')"

text \<open>A follower waits for at least three heartbeats before it campaigns.\<close>

lemma election_timeout_bounds:
  assumes "\<And>n. 0 < n \<Longrightarrow> 0 \<le> int63n n \<and> int63n n < n"
  shows "3 * heartbeatInterval \<le> randomElectionTimeout int63n \<and> randomElectionTimeout int63n < electionTimeoutMax"
  using assms [of 150] by (simp add: randomElectionTimeout_def heartbeatInterval_def electionTimeoutMin_def electionTimeoutMax_def)

lemma log_match_refl [simp]: "log_match l l"
  by (simp add: log_match_def)

lemma log_match_sym: "log_match l l' \<Longrightarrow> log_match l' l"
  by (auto simp: log_match_def)

lemma append_loop_from:
  assumes "log_match log m" and "k \<le> length m" and "take k log = take k m"
  shows "append_loop (drop k m) k log = log \<or> append_loop (drop k m) k log = m"
  using assms(2,3)
proof (induction "length m - k" arbitrary: k)
  case 0
  then show ?case by simp
next
  case (Suc d)
  then have k: "k < length m" by simp
  have len: "min k (length log) = k" using arg_cong [OF Suc.prems(2), of length] k by simp
  have d: "drop k m = m ! k # drop (Suc k) m" using k by (simp add: Cons_nth_drop_Suc)
  show ?case
  proof (cases "k < length log")
    case True
    show ?thesis
    proof (cases "leTerm (log ! k) = leTerm (m ! k)")
      case same: True
      then have "take (Suc k) log = take (Suc k) m" using assms(1) True k unfolding log_match_def by blast
      then show ?thesis using Suc.hyps(1) [of "Suc k"] Suc.hyps(2) k d True same by auto
    next
      case False
      have "take k log @ drop k m = m" by (simp add: Suc.prems(2))
      then show ?thesis using d True False by auto
    qed
  next
    case False
    then have "length log = k" using len by simp
    then have "log @ drop k m = m" using Suc.prems(2) by (metis append_take_drop_id take_all order_refl)
    then show ?thesis using d False by auto
  qed
qed

lemma append_loop_takes:
  assumes "k \<le> length m" and "log_match log m" and "take k log = take k m"
  shows "take (length m) (append_loop (drop k m) k log) = m"
  using assms(1,3)
proof (induction "length m - k" arbitrary: k)
  case 0
  then show ?case by simp
next
  case (Suc d)
  then have k: "k < length m" by simp
  have d: "drop k m = m ! k # drop (Suc k) m" using k by (simp add: Cons_nth_drop_Suc)
  show ?case
  proof (cases "k < length log \<and> leTerm (log ! k) = leTerm (m ! k)")
    case True
    then have "take (Suc k) log = take (Suc k) m" using assms(2) k unfolding log_match_def by blast
    then show ?thesis using Suc.hyps(1) [of "Suc k"] Suc.hyps(2) k d True by simp
  next
    case False
    have "append_loop (drop k m) k log = take k log @ drop k m" using False d by auto
    then show ?thesis using Suc.prems(2) by simp
  qed
qed

text \<open>
  Entries cut from a log \<open>m\<close> and accepted by a node whose log matches \<open>m\<close> leave its log as it is, or make it \<open>m\<close>.
\<close>

lemma accepted_append:
  assumes m: "log_match (nLog n) m" and ni: "0 \<le> ni" "ni \<le> int (length m)"
    and args: "aePrevLogIndex args = ni - 1" "aeEntries args = drop (nat ni) m"
      "ni > 0 \<Longrightarrow> aePrevLogTerm args = leTerm (m ! nat (ni - 1))"
    and fin: "ae_finish args n = Inr (n', reply)"
  shows "nLog n' = nLog n \<or> nLog n' = m"
    and "arSuccess reply \<Longrightarrow> take (length m) (nLog n') = m"
proof -
  have f: "aePrevLogIndex args < - 1 \<and> aeEntries args \<noteq> [] \<longleftrightarrow> False" using ni args(1) by simp
  let ?log = "append_loop (drop (nat ni) m) (nat ni) (nLog n)"
  have n': "nLog n' = (if prev_ok args (nLog n) then ?log else nLog n)" "arSuccess reply \<longleftrightarrow> prev_ok args (nLog n)"
    using fin args(1,2) by (auto simp: ae_finish_def Let_def f signalReset_def advance_commit_def split: if_splits)
  have pre: "take (nat ni) (nLog n) = take (nat ni) m" if ok: "prev_ok args (nLog n)"
  proof (cases "ni = 0")
    case False
    then have *: "nat (ni - 1) < length (nLog n)" "nat (ni - 1) < length m" "leTerm (nLog n ! nat (ni - 1)) = leTerm (m ! nat (ni - 1))"
      using ok ni args(1,3) by (auto simp: prev_ok_def)
    have "Suc (nat (ni - 1)) = nat ni" using False ni(1) by simp
    then show ?thesis using m * unfolding log_match_def by metis
  qed simp
  show "nLog n' = nLog n \<or> nLog n' = m"
    using n' append_loop_from [OF m _ pre] ni by auto
  show "take (length m) (nLog n') = m" if "arSuccess reply"
    using that n' append_loop_takes [of "nat ni" m "nLog n"] m pre ni by auto
qed

end
