(* ===== verification/Www.thy ===== *)
theory Www
  imports Raft_Node
begin

text \<open>
  The HTTP helpers of \<^verbatim>\<open>src/pkg/www\<close>: filling a parameter struct from the path and the query string
  (\<^verbatim>\<open>decode.go\<close>) and the response a handler returns (\<^verbatim>\<open>handle.go\<close>).  A request is what the handlers
  read of it; the reflection over struct tags is a list of fields.
\<close>

section \<open>Parameters\<close>

record http_request =
  PathValue :: "string \<Rightarrow> string"
  QueryGet :: "string \<Rightarrow> string"

datatype param_source = FromParam string | FromQuery string | NoTag

text \<open>The kind of a field; the widths of integer kinds are in bits.\<close>

datatype param_kind = KindString | KindInt nat | KindUint nat | KindOther

datatype param_value = PString string | PInt int

type_synonym param_field = "string \<times> param_source \<times> param_kind"

text \<open>\<^verbatim>\<open>strconv.ParseUint\<close> and \<^verbatim>\<open>strconv.ParseInt\<close> in base 10.\<close>

definition is_digit :: "char \<Rightarrow> bool" where
  "is_digit c \<longleftrightarrow> 48 \<le> (of_char c :: nat) \<and> (of_char c :: nat) \<le> 57"

definition digits_value :: "string \<Rightarrow> nat" where
  "digits_value s = foldl (\<lambda>n c. 10 * n + ((of_char c :: nat) - 48)) 0 s"

definition ParseUint :: "nat \<Rightarrow> string \<Rightarrow> int option" where
  "ParseUint bits s =
     (if s = [] \<or> \<not> list_all is_digit s then None
      else if digits_value s \<ge> 2 ^ bits then None else Some (int (digits_value s)))"

definition ParseInt :: "nat \<Rightarrow> string \<Rightarrow> int option" where
  "ParseInt bits s =
     (case s of
        [] \<Rightarrow> None
      | c # rest \<Rightarrow>
          let neg = (c = CHR ''-''); ds = (if neg \<or> c = CHR ''+'' then rest else s) in
          (case ParseUint 64 ds of
             None \<Rightarrow> None
           | Some un \<Rightarrow>
               if \<not> neg \<and> un \<ge> 2 ^ (bits - 1) then None
               else if neg \<and> un > 2 ^ (bits - 1) then None
               else Some (if neg then - un else un)))"

definition assignPathOrQueryField :: "param_kind \<Rightarrow> string \<Rightarrow> goerr + param_value" where
  "assignPathOrQueryField k s =
     (case k of
        KindString \<Rightarrow> Inr (PString s)
      | KindInt bits \<Rightarrow> (case ParseInt bits s of None \<Rightarrow> Inl (ErrMsg ''valor inteiro invalido'') | Some v \<Rightarrow> Inr (PInt v))
      | KindUint bits \<Rightarrow> (case ParseUint bits s of None \<Rightarrow> Inl (ErrMsg ''valor inteiro invalido'') | Some v \<Rightarrow> Inr (PInt v))
      | KindOther \<Rightarrow> Inl (ErrMsg ''tipo nao suportado''))"

text \<open>The fields assigned, in order; a field that is not assigned keeps its zero value.\<close>

fun DecodeParams :: "http_request \<Rightarrow> param_field list \<Rightarrow> goerr + (string \<times> param_value) list" where
  "DecodeParams r [] = Inr []"
| "DecodeParams r ((name, src, kind) # fs) =
     (let raw = (case src of FromParam p \<Rightarrow> PathValue r p | FromQuery q \<Rightarrow> QueryGet r q | NoTag \<Rightarrow> []) in
      if raw = [] then DecodeParams r fs
      else case assignPathOrQueryField kind raw of
             Inl err \<Rightarrow> Inl (ErrWrap name err)
           | Inr v \<Rightarrow> (case DecodeParams r fs of Inl err \<Rightarrow> Inl err | Inr vs \<Rightarrow> Inr ((name, v) # vs)))"

definition get_string :: "string \<Rightarrow> (string \<times> param_value) list \<Rightarrow> string" where
  "get_string name vs = (case map_of vs name of Some (PString s) \<Rightarrow> s | _ \<Rightarrow> [])"

definition get_int :: "string \<Rightarrow> (string \<times> param_value) list \<Rightarrow> int" where
  "get_int name vs = (case map_of vs name of Some (PInt i) \<Rightarrow> i | _ \<Rightarrow> 0)"

section \<open>Responses\<close>

text \<open>What a body is made of: an error, validation messages, a refused proposal, or a result.\<close>

datatype resp_body =
    BodyErr goerr
  | BodyFields "string list"
  | BodyPropose err_propose_cmd
  | BodyOk
  | BodyTable string
  | BodyEntity string entity
  | BodyEntities string "entity list"
  | BodyState node_state

record response =
  statusCode :: int
  respBody :: "resp_body option"
  respHeaders :: "(string \<times> string) list"

type_synonym resp_opt = "response \<Rightarrow> response"

definition NewResponse :: "resp_opt list \<Rightarrow> response" where
  "NewResponse opts =
     fold (\<lambda>fn r. fn r) opts \<lparr>statusCode = 0, respBody = None, respHeaders = [(''Content-Type'', ''application/json'')]\<rparr>"

definition StatusCode :: "int \<Rightarrow> resp_opt" where
  "StatusCode s r = r\<lparr>statusCode := s\<rparr>"

definition Body :: "resp_body \<Rightarrow> resp_opt" where
  "Body b r = r\<lparr>respBody := Some b\<rparr>"

definition RespErr :: "goerr option \<Rightarrow> resp_opt" where
  "RespErr err r = (case err of None \<Rightarrow> r | Some e \<Rightarrow> r\<lparr>respBody := Some (BodyErr e)\<rparr>)"

definition Headers :: "(string \<times> string) list \<Rightarrow> resp_opt" where
  "Headers hs r = r\<lparr>respHeaders := hs\<rparr>"

text \<open>
  What \<^verbatim>\<open>HandlerHttp\<close> writes: \<^verbatim>\<open>net/http\<close> answers 200 when a handler sets no status code.
\<close>

definition HandlerHttp :: "response option \<Rightarrow> int \<times> (string \<times> string) list \<times> resp_body option" where
  "HandlerHttp resp =
     (case resp of
        None \<Rightarrow> (204, [], None)
      | Some r \<Rightarrow> (if statusCode r \<noteq> 0 then statusCode r else 200, respHeaders r, respBody r))"

lemma response_simps [simp]:
  "statusCode (StatusCode s r) = s" "respBody (StatusCode s r) = respBody r" "respBody (Body b r) = Some b"
  "statusCode (Body b r) = statusCode r" "statusCode (RespErr e r) = statusCode r" "respBody (RespErr (Some err) r) = Some (BodyErr err)"
  by (simp_all add: StatusCode_def Body_def RespErr_def split: option.splits)

lemma ParseInt_range: "ParseInt (Suc n) s = Some v \<Longrightarrow> - (2 ^ n) \<le> v \<and> v < 2 ^ n"
  by (auto simp: ParseInt_def Let_def ParseUint_def split: list.splits option.splits if_splits
      intro: order_le_less_trans [of _ 0])

end
