(* ===== verification/Wal_Entry.thy ===== *)
theory Wal_Entry
  imports Prelude
begin

text \<open>
  The framed record format of the write-ahead log, \<^verbatim>\<open>src/internal/wal/entry.go\<close>:
  the record type \<^verbatim>\<open>Entry\<close>, its binary encoder and decoder, and the transaction-id
  helpers.  Shown: the encoder and the decoder are inverse to each other, a frame decodes to the
  same record whatever follows it, an operation code or a value the format does not allow is
  refused on both sides, and the checksum detects every single-byte corruption of a payload.
\<close>

unbundle bit_operations_syntax

section \<open>CRC-32 (IEEE)\<close>

text \<open>
  \<^verbatim>\<open>crc32.ChecksumIEEE\<close> of Go's standard library, bit by bit: reflected polynomial
  \<open>0xEDB88320\<close>, initial value and final complement all ones.
\<close>

definition crc_bit :: "u32 \<Rightarrow> u32" where
  "crc_bit c = (if c AND 1 = 1 then drop_bit 1 c XOR 0xEDB88320 else drop_bit 1 c)"

definition crc_shift :: "u32 \<Rightarrow> u32" where
  "crc_shift c = crc_bit (crc_bit (crc_bit (crc_bit (crc_bit (crc_bit (crc_bit (crc_bit c)))))))"

definition crc_update :: "u32 \<Rightarrow> byte \<Rightarrow> u32" where
  "crc_update c b = crc_shift (c XOR ucast b)"

definition crc32 :: "bytes \<Rightarrow> u32" where
  "crc32 bs = NOT (foldl crc_update 0xFFFFFFFF bs)"

section \<open>Records\<close>

text \<open>\<^verbatim>\<open>type Op byte\<close> and its constants: any byte can be read from a file.\<close>

abbreviation (input) OpSet :: byte where "OpSet \<equiv> 1"
abbreviation (input) OpDel :: byte where "OpDel \<equiv> 2"
abbreviation (input) OpBegin :: byte where "OpBegin \<equiv> 3"
abbreviation (input) OpCommit :: byte where "OpCommit \<equiv> 4"
abbreviation (input) OpRaftLog :: byte where "OpRaftLog \<equiv> 5"
abbreviation (input) OpRaftMeta :: byte where "OpRaftMeta \<equiv> 6"

record entry =
  eSeq :: u64
  eOp :: byte
  eTable :: string
  eKey :: string
  eFk :: string
  eValueBytes :: bytes

definition walMagic :: bytes where
  "walMagic = bytes_of_string ''KVSW''"

definition walFormatVersionV1 :: int where
  "walFormatVersionV1 = 1"

section \<open>Encoding\<close>

definition appendU32 :: "bytes \<Rightarrow> u32 \<Rightarrow> bytes" where
  "appendU32 dst v = dst @ be_bytes 4 (uint v)"

definition appendString :: "bytes \<Rightarrow> string \<Rightarrow> bytes" where
  "appendString dst s =
     (let b = bytes_of_string s; dst = appendU32 dst (of_nat (length b)) in dst @ b)"

text \<open>The payload of a record, without the length and checksum frame.\<close>

definition entry_header :: "entry \<Rightarrow> bytes" where
  "entry_header e =
     (let payload = walMagic;
          payload = payload @ be_bytes 2 walFormatVersionV1;
          payload = payload @ be_bytes 8 (uint (eSeq e));
          payload = payload @ [eOp e];
          payload = appendString payload (eTable e);
          payload = appendString payload (eKey e)
      in appendString payload (eFk e))"

definition entry_payload :: "entry \<Rightarrow> goerr + bytes" where
  "entry_payload e =
     (let payload = entry_header e in
      if eOp e = OpSet \<or> eOp e = OpRaftLog \<or> eOp e = OpRaftMeta then
        Inr (appendU32 payload (of_nat (length (eValueBytes e))) @ eValueBytes e)
      else if eOp e = OpDel then Inr (appendU32 payload 0)
      else if eOp e = OpBegin \<or> eOp e = OpCommit then
        (if length (eValueBytes e) \<noteq> 8
         then Inl (ErrMsg ''wal: begin/commit require 8-byte txid'')
         else Inr (appendU32 payload 8 @ eValueBytes e))
      else Inl (ErrMsg ''wal: invalid op''))"

definition frame :: "bytes \<Rightarrow> bytes" where
  "frame payload =
     (let out = appendU32 [] (of_nat (length payload));
          out = out @ payload
      in appendU32 out (crc32 payload))"

definition MarshalBinary :: "entry \<Rightarrow> goerr + bytes" where
  "MarshalBinary e =
     (if eTable e = [] then Inl (ErrMsg ''wal: empty table name'')
      else case entry_payload e of
             Inl err \<Rightarrow> Inl err
           | Inr payload \<Rightarrow> Inr (frame payload))"

section \<open>Decoding\<close>

definition readU32 :: "bytes \<Rightarrow> nat \<Rightarrow> goerr + u32 \<times> nat" where
  "readU32 data off =
     (if off + 4 > length data then Inl ErrTruncated
      else Inr (word_of_int (be_val (take 4 (drop off data))), off + 4))"

definition readString :: "bytes \<Rightarrow> nat \<Rightarrow> goerr + string \<times> nat" where
  "readString data off =
     (case readU32 data off of
        Inl err \<Rightarrow> Inl err
      | Inr (n, noff) \<Rightarrow>
          if uint n > int (length data) - int noff then Inl ErrTruncated
          else Inr (string_of_bytes (take (unat n) (drop noff data)), noff + unat n))"

text \<open>The last part of \<^verbatim>\<open>UnmarshalBinary\<close>: which value lengths an operation admits.\<close>

definition check_value :: "entry \<Rightarrow> goerr + entry" where
  "check_value e =
     (if eOp e = OpSet \<or> eOp e = OpRaftLog \<or> eOp e = OpRaftMeta then Inr e
      else if eOp e = OpDel then
        (if length (eValueBytes e) \<noteq> 0 then Inl ErrCorruptRecord else Inr e)
      else if eOp e = OpBegin \<or> eOp e = OpCommit then
        (if length (eValueBytes e) \<noteq> 8 then Inl ErrCorruptRecord else Inr e)
      else Inl (ErrMsg ''wal: invalid op''))"

definition parse_payload :: "bytes \<Rightarrow> goerr + entry" where
  "parse_payload payload =
     (if length payload < 15 then Inl ErrCorruptRecord
      else if take 4 payload \<noteq> walMagic then Inl ErrCorruptRecord
      else if be_val (take 2 (drop 4 payload)) \<noteq> walFormatVersionV1
        then Inl (ErrMsg ''wal: unsupported format version'')
      else let seq = word_of_int (be_val (take 8 (drop 6 payload))); op = payload ! 14 in
      case readString payload 15 of Inl err \<Rightarrow> Inl err | Inr (table, off) \<Rightarrow>
      (case readString payload off of Inl err \<Rightarrow> Inl err | Inr (key, off) \<Rightarrow>
      (case readString payload off of Inl err \<Rightarrow> Inl err | Inr (fk, off) \<Rightarrow>
      (case readU32 payload off of Inl err \<Rightarrow> Inl err | Inr (vlen, off) \<Rightarrow>
        if off + unat vlen \<noteq> length payload then Inl ErrCorruptRecord
        else check_value \<lparr>eSeq = seq, eOp = op, eTable = table, eKey = key, eFk = fk,
               eValueBytes = take (unat vlen) (drop off payload)\<rparr>))))"

definition UnmarshalBinary :: "bytes \<Rightarrow> goerr + entry" where
  "UnmarshalBinary data =
     (if length data < 8 then Inl ErrTruncated
      else let payloadLen = (word_of_int (be_val (take 4 data)) :: u32);
               totalFrame = uint payloadLen + 4 + 4 in
      if totalFrame > int (length data) then Inl ErrTruncated
      else case go_slice data 4 (unat (4 + payloadLen)) of Inl p \<Rightarrow> Inl p | Inr payload \<Rightarrow>
      (case go_slice data (unat (4 + payloadLen)) (unat (4 + payloadLen + 4)) of
         Inl p \<Rightarrow> Inl p
       | Inr gotCRC \<Rightarrow>
           if crc32 payload \<noteq> word_of_int (be_val gotCRC) then Inl ErrCorruptRecord
           else parse_payload payload))"

section \<open>Transaction ids\<close>

definition TxIDFromValueBytes :: "bytes \<Rightarrow> goerr + u64" where
  "TxIDFromValueBytes b =
     (if length b \<noteq> 8 then Inl ErrCorruptRecord else Inr (word_of_int (be_val b)))"

definition EncodeTxID :: "u64 \<Rightarrow> bytes" where
  "EncodeTxID i = be_bytes 8 (uint i)"

section \<open>The codec is a bijection on valid records\<close>

text \<open>A length-prefixed string as it lies in a payload.\<close>

abbreviation lenstr :: "string \<Rightarrow> bytes" where
  "lenstr s \<equiv> be_bytes 4 (uint (of_nat (length s) :: u32)) @ bytes_of_string s"

definition header15 :: "entry \<Rightarrow> bytes" where
  "header15 e = walMagic @ be_bytes 2 walFormatVersionV1 @ be_bytes 8 (uint (eSeq e)) @ [eOp e]"

lemma length_walMagic [simp]: "length walMagic = 4"
  by (simp add: walMagic_def)

lemma length_header15 [simp]: "length (header15 e) = 15"
  by (simp add: header15_def)

lemma entry_header_eq:
  "entry_header e = header15 e @ lenstr (eTable e) @ lenstr (eKey e) @ lenstr (eFk e)"
  by (simp add: entry_header_def header15_def appendString_def appendU32_def Let_def)

lemma readU32_middle [wal_simps]:
  "off = length a \<Longrightarrow> readU32 (a @ be_bytes 4 (uint w) @ c) off = Inr (w, off + 4)"
  by (simp add: readU32_def be_roundtrip_u32)

lemma readString_middle [wal_simps]:
  assumes "off = length a" and "length s < 4294967296"
  shows "readString (a @ lenstr s @ c) off = Inr (s, off + 4 + length s)"
proof -
  have "readU32 (a @ lenstr s @ c) off = Inr (of_nat (length s), off + 4)"
    using readU32_middle [OF assms(1), of "of_nat (length s)" "bytes_of_string s @ c"] by simp
  then show ?thesis
    unfolding readString_def using assms by (simp add: uint_of_nat_u32 unat_of_nat_u32)
qed

text \<open>Which records the format can carry: a table name, a known operation, its value length.\<close>

definition valid_entry :: "entry \<Rightarrow> bool" where
  "valid_entry e \<longleftrightarrow> eTable e \<noteq> [] \<and>
     (eOp e = OpSet \<or> eOp e = OpRaftLog \<or> eOp e = OpRaftMeta
      \<or> eOp e = OpDel \<and> eValueBytes e = []
      \<or> (eOp e = OpBegin \<or> eOp e = OpCommit) \<and> length (eValueBytes e) = 8)"

definition payload_size :: "entry \<Rightarrow> nat" where
  "payload_size e = 31 + length (eTable e) + length (eKey e) + length (eFk e) + length (eValueBytes e)"

definition value_part :: "entry \<Rightarrow> bytes" where
  "value_part e = be_bytes 4 (uint (of_nat (length (eValueBytes e)) :: u32)) @ eValueBytes e"

lemma entry_payload_valid:
  "valid_entry e \<Longrightarrow> entry_payload e = Inr (entry_header e @ value_part e)"
  by (auto simp: valid_entry_def entry_payload_def value_part_def appendU32_def Let_def)

lemma length_entry_payload:
  "length (entry_header e @ value_part e) = payload_size e"
  by (simp add: entry_header_eq value_part_def payload_size_def)

lemma check_value_valid: "valid_entry e \<Longrightarrow> check_value e = Inr e"
  by (auto simp: valid_entry_def check_value_def)

lemma parse_payload_header:
  assumes "p = header15 e @ rest"
  shows "take 4 p = walMagic" and "be_val (take 2 (drop 4 p)) = walFormatVersionV1"
    and "word_of_int (be_val (take 8 (drop 6 p))) = eSeq e" and "p ! 14 = eOp e"
  using assms by (simp_all add: header15_def be_val_bytes be_roundtrip_u64 walFormatVersionV1_def nth_append)

lemma parse_payload_valid:
  assumes v: "valid_entry e" and sz: "payload_size e < 4294967296"
  shows "parse_payload (entry_header e @ value_part e) = Inr e"
proof -
  let ?t = "lenstr (eTable e)" and ?k = "lenstr (eKey e)" and ?f = "lenstr (eFk e)"
  let ?p = "header15 e @ ?t @ ?k @ ?f @ value_part e"
  have len: "length (eTable e) < 4294967296" "length (eKey e) < 4294967296"
    "length (eFk e) < 4294967296" "length (eValueBytes e) < 4294967296"
    using sz by (simp_all add: payload_size_def)
  have rt: "readString ?p 15 = Inr (eTable e, 19 + length (eTable e))"
    using readString_middle [of 15 "header15 e" "eTable e" "?k @ ?f @ value_part e"] len by simp
  have rk: "readString ?p (19 + length (eTable e)) = Inr (eKey e, 23 + length (eTable e) + length (eKey e))"
    using readString_middle [of "19 + length (eTable e)" "header15 e @ ?t" "eKey e" "?f @ value_part e"] len
    by simp
  have rf: "readString ?p (23 + length (eTable e) + length (eKey e))
      = Inr (eFk e, 27 + length (eTable e) + length (eKey e) + length (eFk e))"
    using readString_middle [of "23 + length (eTable e) + length (eKey e)" "header15 e @ ?t @ ?k" "eFk e" "value_part e"] len
    by simp
  have rv: "readU32 ?p (27 + length (eTable e) + length (eKey e) + length (eFk e))
      = Inr (of_nat (length (eValueBytes e)), 31 + length (eTable e) + length (eKey e) + length (eFk e))"
    using readU32_middle [of "27 + length (eTable e) + length (eKey e) + length (eFk e)"
        "header15 e @ ?t @ ?k @ ?f" "of_nat (length (eValueBytes e))" "eValueBytes e"]
    by (simp add: value_part_def)
  have lp: "length ?p = 31 + length (eTable e) + length (eKey e) + length (eFk e) + length (eValueBytes e)"
    by (simp add: value_part_def)
  have vv: "take (length (eValueBytes e))
      (drop (31 + length (eTable e) + length (eKey e) + length (eFk e)) ?p) = eValueBytes e"
    by (simp add: value_part_def)
  note hd = parse_payload_header [of ?p e "?t @ ?k @ ?f @ value_part e"]
  have "parse_payload ?p = check_value \<lparr>eSeq = eSeq e, eOp = eOp e, eTable = eTable e,
      eKey = eKey e, eFk = eFk e, eValueBytes = eValueBytes e\<rparr>"
    unfolding parse_payload_def
    by (simp only: hd rt rk rf rv lp Let_def sum.case prod.case unat_of_nat_u32 [OF len(4)] vv refl if_True) simp
  also have "\<dots> = Inr e"
    using check_value_valid [OF v] by (cases e) simp
  finally show ?thesis by (simp add: entry_header_eq)
qed


text \<open>A frame is decoded by its length prefix; whatever follows it is not read.\<close>

lemma frame_eq: "frame p = be_bytes 4 (uint (of_nat (length p) :: u32)) @ p @ be_bytes 4 (uint (crc32 p))"
  by (simp add: frame_def appendU32_def Let_def)

lemma length_frame [simp]: "length (frame p) = length p + 8"
  by (simp add: frame_eq)

lemma frame_len_prefix: "take 4 (frame p @ rest) = be_bytes 4 (uint (of_nat (length p) :: u32))"
  by (simp add: frame_eq)

lemma unat_u32_add4:
  assumes "n + 8 < 4294967296"
  shows "unat (4 + of_nat n :: u32) = n + 4" and "unat (4 + of_nat n + 4 :: u32) = n + 8"
proof -
  have a: "(4 + of_nat n :: u32) = of_nat (n + 4)" and b: "(4 + of_nat n + 4 :: u32) = of_nat (n + 8)"
    by simp_all
  show "unat (4 + of_nat n :: u32) = n + 4"
    unfolding a using assms by (intro unat_of_nat_u32) simp
  show "unat (4 + of_nat n + 4 :: u32) = n + 8"
    unfolding b using assms by (intro unat_of_nat_u32) simp
qed

lemma UnmarshalBinary_frame:
  assumes sz: "length p + 8 < 4294967296"
  shows "UnmarshalBinary (be_bytes 4 (uint (of_nat (length p) :: u32)) @ p @ be_bytes 4 (uint c) @ rest)
           = (if crc32 p \<noteq> c then Inl ErrCorruptRecord else parse_payload p)"
proof -
  let ?l = "be_bytes 4 (uint (of_nat (length p) :: u32))" and ?c = "be_bytes 4 (uint c)"
  define d where "d = ?l @ p @ ?c @ rest"
  have l: "(word_of_int (be_val (take 4 d)) :: u32) = of_nat (length p)"
    by (simp add: d_def be_roundtrip_u32)
  have s1: "go_slice d 4 (length p + 4) = Inr p"
    unfolding d_def by (rule go_slice_middle) simp_all
  have s2: "go_slice d (length p + 4) (length p + 8) = Inr ?c"
    unfolding d_def using go_slice_middle [of "length p + 4" "?l @ p" "length p + 8" ?c rest] by simp
  have u: "uint (of_nat (length p) :: u32) = int (length p)"
    using sz by (intro uint_of_nat_u32) simp
  have len: "length d = length p + 8 + length rest"
    by (simp add: d_def)
  have "UnmarshalBinary d = (if crc32 p \<noteq> c then Inl ErrCorruptRecord else parse_payload p)"
    unfolding UnmarshalBinary_def l Let_def unat_u32_add4 [OF sz] s1 s2 sum.case u len
    by (simp add: be_roundtrip_u32)
  then show ?thesis by (simp add: d_def)
qed

lemma UnmarshalBinary_valid:
  assumes "valid_entry e" and "payload_size e + 8 < 4294967296"
  shows "UnmarshalBinary (frame (entry_header e @ value_part e) @ rest) = Inr e"
  using UnmarshalBinary_frame [of "entry_header e @ value_part e" _ rest]
    parse_payload_valid [OF assms(1)] assms(2)
  by (simp add: frame_eq length_entry_payload [simplified])

lemma MarshalBinary_valid:
  "valid_entry e \<Longrightarrow> MarshalBinary e = Inr (frame (entry_header e @ value_part e))"
  using entry_payload_valid [of e] by (simp add: MarshalBinary_def valid_entry_def)

section \<open>The checksum detects single-byte corruption\<close>

lemma xor_right_cancel: "(a :: 'a::len word) XOR c = b XOR c \<longleftrightarrow> a = b"
proof
  assume "a XOR c = b XOR c"
  then have "(a XOR c) XOR c = (b XOR c) XOR c" by simp
  then show "a = b" by (simp add: xor.assoc)
qed simp

lemma xor_left_cancel: "c XOR (a :: 'a::len word) = c XOR b \<longleftrightarrow> a = b"
  using xor_right_cancel [of a c b] by (simp add: xor.commute)

lemma crc_bit_top: "bit (crc_bit c) 31 = bit c 0"
  by (simp add: crc_bit_def bit_xor_iff bit_drop_bit_eq and_one_eq mod_2_eq_odd bit_0 exp_eq_0_imp_not_bit)

lemma crc_bit_inj: "crc_bit a = crc_bit b \<Longrightarrow> a = b"
proof -
  assume eq: "crc_bit a = crc_bit b"
  then have b0: "bit a 0 = bit b 0"
    using crc_bit_top [of a] crc_bit_top [of b] by simp
  then have "drop_bit 1 a = drop_bit 1 b"
    using eq by (auto simp: crc_bit_def and_one_eq mod_2_eq_odd bit_0 xor_right_cancel split: if_splits)
  then have "bit a (Suc n) = bit b (Suc n)" for n
    by (metis bit_drop_bit_eq plus_1_eq_Suc comp_apply)
  with b0 have "bit a n = bit b n" for n
    by (cases n) auto
  then show "a = b"
    by (simp add: bit_eq_iff)
qed

lemma crc_shift_inj: "crc_shift a = crc_shift b \<Longrightarrow> a = b"
  unfolding crc_shift_def by (drule crc_bit_inj)+ assumption

lemma crc_update_inj_state: "crc_update a b = crc_update a' b \<longleftrightarrow> a = a'"
  by (auto simp: crc_update_def xor_right_cancel dest: crc_shift_inj)

lemma crc_update_inj_byte: "crc_update a b = crc_update a b' \<longleftrightarrow> b = b'"
proof
  assume "crc_update a b = crc_update a b'"
  then have "(ucast b :: u32) = ucast b'"
    by (auto simp: crc_update_def xor_left_cancel dest: crc_shift_inj)
  then have "uint (ucast b :: u32) = uint (ucast b' :: u32)"
    by simp
  moreover have "take_bit 32 (uint c) = uint c" for c :: byte
    by (rule take_bit_int_eq_self) (auto intro: order_less_trans [OF uint_byte_lt])
  ultimately have "uint b = uint b'"
    by (simp add: unsigned_ucast_eq)
  then show "b = b'"
    by (rule unsigned_word_eqI)
qed simp

lemma crc_fold_inj: "foldl crc_update a bs = foldl crc_update a' bs \<longleftrightarrow> a = a'"
  by (induction bs arbitrary: a a') (simp_all add: crc_update_inj_state)

lemma crc32_single_byte:
  assumes "i < length p" and "b \<noteq> p ! i"
  shows "crc32 (p[i := b]) \<noteq> crc32 p"
proof -
  have p: "p = take i p @ p ! i # drop (Suc i) p"
    using assms(1) by (rule id_take_nth_drop)
  have p': "p[i := b] = take i p @ b # drop (Suc i) p"
    using assms(1) by (rule upd_conv_take_nth_drop)
  have "crc32 (take i p @ b # drop (Suc i) p) \<noteq> crc32 (take i p @ p ! i # drop (Suc i) p)"
    using assms(2) by (simp add: crc32_def crc_fold_inj crc_update_inj_byte)
  then show ?thesis
    by (simp only: p' simp_thms flip: p)
qed

section \<open>Decoding is sound: what decodes was encoded\<close>

lemma length_take_drop4: "off + 4 \<le> length data \<Longrightarrow> length (take 4 (drop off data)) = 4"
  by simp

lemma readString_sound:
  assumes "readString data off = Inr (s, off')"
  shows "off' = off + 4 + length s \<and> off' \<le> length data \<and> length s < 4294967296
    \<and> drop off data = lenstr s @ drop off' data"
proof -
  obtain n where n: "off + 4 \<le> length data" "n = (word_of_int (be_val (take 4 (drop off data))) :: u32)"
    "uint n \<le> int (length data) - int (off + 4)"
    "s = string_of_bytes (take (unat n) (drop (off + 4) data))" "off' = off + 4 + unat n"
    using assms by (auto simp: readString_def readU32_def split: if_splits)
  have un: "int (unat n) = uint n" by simp
  have le: "off + 4 + unat n \<le> length data"
    using n(1,3) un by linarith
  have ls: "length s = unat n"
    using n(4) le by simp
  have "be_val (take 4 (drop off data)) < 256 ^ 4"
    using be_val_lt [of "take 4 (drop off data)"] length_take_drop4 [OF n(1)] by simp
  then have ub: "uint n = be_val (take 4 (drop off data))"
    by (simp add: n(2) uint_word_of_int)
  have "be_bytes 4 (uint n) = take 4 (drop off data)"
    unfolding ub using n(1) by (intro be_bytes_val) simp
  then have "lenstr s = take 4 (drop off data) @ take (unat n) (drop (off + 4) data)"
    using ls n(4) by simp
  moreover have "drop (off + 4) data = take (unat n) (drop (off + 4) data) @ drop off' data"
    using append_take_drop_id [of "unat n" "drop (off + 4) data"] n(5) by (simp add: add.commute)
  moreover have "drop off data = take 4 (drop off data) @ drop (off + 4) data"
    using append_take_drop_id [of 4 "drop off data"] by (simp add: add.commute)
  ultimately have "lenstr s @ drop off' data = drop off data"
    by (metis append.assoc)
  then show ?thesis
    using ls le n(5) un uint_word32_lt [of n] by simp
qed


lemma readU32_sound:
  assumes "readU32 data off = Inr (n, off')"
  shows "off' = off + 4 \<and> off' \<le> length data \<and> drop off data = be_bytes 4 (uint n) @ drop off' data"
proof -
  have n: "off + 4 \<le> length data" "n = word_of_int (be_val (take 4 (drop off data)))" "off' = off + 4"
    using assms by (auto simp: readU32_def split: if_splits)
  have "be_val (take 4 (drop off data)) < 256 ^ 4"
    using be_val_lt [of "take 4 (drop off data)"] length_take_drop4 [OF n(1)] by simp
  then have "be_bytes 4 (uint n) = take 4 (drop off data)"
    using be_bytes_val [OF length_take_drop4 [OF n(1)]] by (simp add: n(2) uint_word_of_int)
  then show ?thesis
    using n(1,3) by (metis add.commute append_take_drop_id drop_drop)
qed

lemma header_split15:
  fixes p :: bytes
  assumes "15 \<le> length p"
  shows "p = take 4 p @ take 2 (drop 4 p) @ take 8 (drop 6 p) @ [p ! 14] @ drop 15 p"
proof -
  have "drop 14 p = p ! 14 # drop 15 p"
    using Cons_nth_drop_Suc [of 14 p] assms by simp
  moreover have "drop 6 p = take 8 (drop 6 p) @ drop 14 p"
    using append_take_drop_id [of 8 "drop 6 p"] by simp
  moreover have "drop 4 p = take 2 (drop 4 p) @ drop 6 p"
    using append_take_drop_id [of 2 "drop 4 p"] by simp
  ultimately show ?thesis
    using append_take_drop_id [of 4 p] by simp
qed

lemma check_value_sound:
  "check_value e = Inr e' \<Longrightarrow> e' = e \<and> (eTable e \<noteq> [] \<longrightarrow> valid_entry e)"
  by (auto simp: check_value_def valid_entry_def split: if_splits)

lemma parse_payload_sound:
  assumes "parse_payload p = Inr e" and "eTable e \<noteq> []"
  shows "valid_entry e \<and> p = entry_header e @ value_part e"
proof -
  define seq :: u64 where "seq = word_of_int (be_val (take 8 (drop 6 p)))"
  from assms(1) have h: "15 \<le> length p" "take 4 p = walMagic"
    "be_val (take 2 (drop 4 p)) = walFormatVersionV1"
    by (auto simp: parse_payload_def split: if_splits)
  from assms(1) h obtain t o1 k o2 f o3 n o4 where
    r: "readString p 15 = Inr (t, o1)" "readString p o1 = Inr (k, o2)" "readString p o2 = Inr (f, o3)"
      "readU32 p o3 = Inr (n, o4)" "o4 + unat n = length p"
    and cv: "check_value \<lparr>eSeq = seq, eOp = p ! 14, eTable = t, eKey = k, eFk = f,
               eValueBytes = take (unat n) (drop o4 p)\<rparr> = Inr e"
    unfolding seq_def by (auto simp: parse_payload_def Let_def split: sum.splits prod.splits if_splits)
  note e = check_value_sound [OF cv]
  have val: "eValueBytes e = drop o4 p" and vlen: "unat n = length (eValueBytes e)"
    using e r(5) by auto
  have n: "of_nat (length (eValueBytes e)) = n"
    unfolding vlen [symmetric] by simp
  have vp: "value_part e = be_bytes 4 (uint n) @ drop o4 p"
    unfolding value_part_def n by (simp add: val)
  have d15: "drop 15 p = lenstr t @ lenstr k @ lenstr f @ value_part e"
    using readString_sound [OF r(1)] readString_sound [OF r(2)] readString_sound [OF r(3)]
      readU32_sound [OF r(4)] by (simp only: vp append_assoc)
  have len2: "length (take 2 (drop 4 p)) = 2" and len8: "length (take 8 (drop 6 p)) = 8"
    using h(1) by simp_all
  have b2: "take 2 (drop 4 p) = be_bytes 2 walFormatVersionV1"
    using be_bytes_val [OF len2] h(3) by simp
  have "be_val (take 8 (drop 6 p)) < 256 ^ 8"
    using be_val_lt [of "take 8 (drop 6 p)"] len8 by simp
  then have b8: "take 8 (drop 6 p) = be_bytes 8 (uint seq)"
    using be_bytes_val [OF len8] by (simp add: seq_def uint_word_of_int)
  have "p = take 4 p @ take 2 (drop 4 p) @ take 8 (drop 6 p) @ [p ! 14] @ drop 15 p"
    by (rule header_split15 [OF h(1)])
  also have "\<dots> = walMagic @ be_bytes 2 walFormatVersionV1 @ be_bytes 8 (uint seq) @ [p ! 14] @ drop 15 p"
    by (simp only: h(2) b2 b8)
  also have "\<dots> = entry_header e @ value_part e"
    using e by (simp add: entry_header_eq header15_def d15)
  finally show ?thesis
    using e assms(2) by auto
qed


text \<open>
  What the decoder accepts, when a table is named, is exactly an encoder's output: the consumed
  bytes are the frame of the decoded record.
\<close>

lemma UnmarshalBinary_sound:
  assumes u: "UnmarshalBinary data = Inr e" and t: "eTable e \<noteq> []" and big: "length data < 4294967296"
  shows "valid_entry e \<and> (\<exists>rest. data = frame (entry_header e @ value_part e) @ rest)"
proof -
  define n where "n = nat (be_val (take 4 data))"
  have len: "8 \<le> length data" using u by (auto simp: UnmarshalBinary_def split: if_splits)
  then have l4: "length (take 4 data) = 4" by simp
  have n32: "n < 4294967296"
    using be_val_lt [of "take 4 data"] l4 by (simp add: n_def nat_less_iff)
  have bn: "be_val (take 4 data) = int n" by (simp add: n_def)
  have w: "(word_of_int (be_val (take 4 data)) :: u32) = of_nat n" by (simp add: bn)
  from u len have tot: "n + 8 \<le> length data"
    by (auto simp: UnmarshalBinary_def w uint_of_nat_u32 [OF n32] Let_def split: if_splits)
  define p c rest where "p = take n (drop 4 data)" and "c = take 4 (drop (n + 4) data)" and "rest = drop (n + 8) data"
  have lp: "length p = n" and lc: "length c = 4" using tot by (simp_all add: p_def c_def)
  have "be_val c < 256 ^ 4" using be_val_lt [of c] lc by simp
  then have c: "c = be_bytes 4 (uint (word_of_int (be_val c) :: u32))"
    using be_bytes_val [OF lc] by (simp add: uint_word_of_int)
  have l: "take 4 data = be_bytes 4 (uint (of_nat (length p) :: u32))"
    using be_bytes_val [OF l4] by (simp add: bn lp uint_of_nat_u32 [OF n32])
  have d: "data = take 4 data @ p @ c @ rest"
    using append_take_drop_id [of 4 data] append_take_drop_id [of n "drop 4 data"]
      append_take_drop_id [of 4 "drop (n + 4) data"]
    by (simp add: p_def c_def rest_def add.commute)
  have sz: "length p + 8 < 4294967296" using lp tot big by simp
  have "UnmarshalBinary data = (if crc32 p \<noteq> word_of_int (be_val c) then Inl ErrCorruptRecord else parse_payload p)"
    using UnmarshalBinary_frame [OF sz, of "word_of_int (be_val c)" rest] by (metis c d l)
  with u have crc: "crc32 p = word_of_int (be_val c)" and pp: "parse_payload p = Inr e"
    by (auto split: if_splits)
  from parse_payload_sound [OF pp t] have v: "valid_entry e" and pe: "p = entry_header e @ value_part e"
    by auto
  have "data = frame p @ rest"
    using d c by (simp add: frame_eq crc flip: l)
  with v pe show ?thesis by auto
qed

section \<open>Properties\<close>

text \<open>C25. Encoding then decoding a WAL record gives the record back, whatever bytes follow the frame
  in the file: for every record the format can carry and whose frame is addressable with 32-bit
  lengths, MarshalBinary succeeds and UnmarshalBinary inverts it.\<close>

theorem entry_roundtrip:
  assumes "valid_entry e" and "payload_size e + 8 < 4294967296"
  shows "\<exists>f. MarshalBinary e = Inr f \<and> UnmarshalBinary (f @ rest) = Inr e"
  using MarshalBinary_valid [OF assms(1)] UnmarshalBinary_valid [OF assms] by blast

theorem entry_roundtrip_witness:
  "\<exists>f. MarshalBinary \<lparr>eSeq = 7, eOp = OpSet, eTable = ''users'', eKey = ''k1'', eFk = ''f1'', eValueBytes = [161, 100]\<rparr> = Inr f
     \<and> UnmarshalBinary (f @ [0, 0, 0]) = Inr \<lparr>eSeq = 7, eOp = OpSet, eTable = ''users'', eKey = ''k1'', eFk = ''f1'', eValueBytes = [161, 100]\<rparr>"
  by (rule entry_roundtrip) (simp_all add: valid_entry_def payload_size_def)

text \<open>The decoder accepts only what the encoder writes: when UnmarshalBinary accepts bytes as a
  record with a table name, those bytes start with the frame MarshalBinary gives for that record.\<close>

theorem entry_decode_canonical:
  assumes "UnmarshalBinary data = Inr e" and "eTable e \<noteq> []" and "length data < 4294967296"
  shows "\<exists>f rest. MarshalBinary e = Inr f \<and> data = f @ rest"
  using UnmarshalBinary_sound [OF assms] MarshalBinary_valid by blast

theorem entry_decode_canonical_witness:
  "\<exists>data f rest. MarshalBinary \<lparr>eSeq = 2, eOp = OpDel, eTable = ''t'', eKey = ''x'', eFk = [], eValueBytes = []\<rparr> = Inr f
     \<and> data = f @ rest"
proof -
  let ?e = "\<lparr>eSeq = 2, eOp = OpDel, eTable = ''t'', eKey = ''x'', eFk = [], eValueBytes = []\<rparr>"
  let ?d = "frame (entry_header ?e @ value_part ?e) @ [1]"
  have v: "valid_entry ?e" by (simp add: valid_entry_def)
  have d: "UnmarshalBinary ?d = Inr ?e"
    by (rule UnmarshalBinary_valid [OF v]) (simp add: payload_size_def)
  have l: "length ?d < 4294967296"
    using length_entry_payload [of ?e] by (simp add: payload_size_def)
  show ?thesis
    using entry_decode_canonical [OF d _ l] by auto
qed

text \<open>C26. Any single corrupted byte of a written frame, in the payload or in the checksum, is
  detected: decoding the altered frame answers ErrCorruptRecord.\<close>

theorem entry_corruption_detected:
  assumes m: "MarshalBinary e = Inr f" and v: "valid_entry e" and sz: "payload_size e + 8 < 4294967296"
    and i: "4 \<le> i" "i < length f" and b: "b \<noteq> f ! i"
  shows "UnmarshalBinary (f[i := b] @ rest) = Inl ErrCorruptRecord"
proof -
  define p where "p = entry_header e @ value_part e"
  let ?l = "be_bytes 4 (uint (of_nat (length p) :: u32))" and ?c = "be_bytes 4 (uint (crc32 p))"
  have f: "f = ?l @ p @ ?c"
    using m MarshalBinary_valid [OF v] by (simp add: p_def frame_eq)
  have lp: "length p + 8 < 4294967296"
    using length_entry_payload [of e] sz by (simp add: p_def)
  show ?thesis
  proof (cases "i < 4 + length p")
    case True
    have il: "i - 4 < length p"
      using i True by linarith
    then have "f[i := b] @ rest = ?l @ p[i - 4 := b] @ ?c @ rest"
      using i True by (simp add: f list_update_append)
    moreover have "crc32 (p[i - 4 := b]) \<noteq> crc32 p"
      using i il b by (intro crc32_single_byte) (auto simp: f nth_append)
    ultimately show ?thesis
      using UnmarshalBinary_frame [of "p[i - 4 := b]" "crc32 p" rest] lp by simp
  next
    case False
    then have il: "\<not> i - 4 < length p" "i - 4 - length p < 4"
      using i f by auto
    define c' where "c' = ?c[i - 4 - length p := b]"
    have upd: "f[i := b] @ rest = ?l @ p @ c' @ rest"
      using i il by (simp add: f c'_def list_update_append)
    have lc: "length c' = 4" by (simp add: c'_def)
    have "be_val c' < 256 ^ 4" using be_val_lt [of c'] lc by simp
    then have c: "c' = be_bytes 4 (uint (word_of_int (be_val c') :: u32))"
      using be_bytes_val [OF lc] by (simp add: uint_word_of_int)
    have "b \<noteq> ?c ! (i - 4 - length p)"
      using i il b by (auto simp: f nth_append)
    then have "c' \<noteq> ?c"
      using il(2) nth_list_update_eq [of "i - 4 - length p" ?c b] by (metis c'_def length_be_bytes)
    then have "crc32 p \<noteq> word_of_int (be_val c')"
      using c by auto
    then show ?thesis
      using UnmarshalBinary_frame [OF lp, of "word_of_int (be_val c')" rest] upd c by simp
  qed
qed

theorem entry_corruption_detected_witness:
  "\<exists>f. MarshalBinary \<lparr>eSeq = 1, eOp = OpSet, eTable = ''t'', eKey = ''k'', eFk = ''f'', eValueBytes = [9]\<rparr> = Inr f
     \<and> UnmarshalBinary (f[4 := 0]) = Inl ErrCorruptRecord"
proof -
  let ?e = "\<lparr>eSeq = 1, eOp = OpSet, eTable = ''t'', eKey = ''k'', eFk = ''f'', eValueBytes = [9]\<rparr>"
  have v: "valid_entry ?e" by (simp add: valid_entry_def)
  let ?f = "frame (entry_header ?e @ value_part ?e)"
  have m: "MarshalBinary ?e = Inr ?f" by (rule MarshalBinary_valid [OF v])
  have l: "length ?f = 43" using length_entry_payload [of ?e] by (simp add: payload_size_def)
  have "?f ! 4 = 75"
    by (simp add: frame_eq nth_append entry_header_eq header15_def walMagic_def bytes_of_string_def)
  then show ?thesis
    using entry_corruption_detected [OF m v, of 4 0 "[]"] m l by (simp add: payload_size_def)
qed

text \<open>MarshalBinary succeeds exactly on the records that can be logged: a table name, and a known
  operation code, with an 8-byte id when it is a transaction marker; every other record is an error.\<close>

theorem marshal_succeeds_iff:
  "(\<exists>f. MarshalBinary e = Inr f) \<longleftrightarrow>
     eTable e \<noteq> [] \<and>
     (eOp e \<in> {OpSet, OpDel, OpRaftLog, OpRaftMeta}
      \<or> eOp e \<in> {OpBegin, OpCommit} \<and> length (eValueBytes e) = 8)"
  by (auto simp: MarshalBinary_def entry_payload_def Let_def)

text \<open>A transaction id survives its encoding as the value of a begin or commit record.\<close>

lemma txid_roundtrip: "TxIDFromValueBytes (EncodeTxID i) = Inr i"
  by (simp add: TxIDFromValueBytes_def EncodeTxID_def be_roundtrip_u64)

end
