(* ===== verification/Os_File.thy ===== *)
theory Os_File
  imports Prelude
begin

text \<open>
  The part of Go's standard library that the log stands on: an open file
  (\<^verbatim>\<open>os.File\<close>) with its contents and offset, and the buffered writer
  \<^verbatim>\<open>bufio.Writer\<close>.  Every system call takes the next element of \<open>foutcomes\<close>:
  \<open>IoOk\<close> (also when the list is used up) lets it succeed, \<open>IoFail n\<close> makes it fail after
  \<open>n\<close> bytes, so that short writes and transient read errors are part of the model.
  \<open>fsynced\<close> is the content the last successful \<^verbatim>\<open>Sync\<close> made durable.
\<close>

datatype io_outcome = IoOk | IoFail nat

record osfile =
  fdata :: bytes
  fpos :: nat
  fsynced :: bytes
  foutcomes :: "io_outcome list"

definition next_outcome :: "osfile \<Rightarrow> io_outcome \<times> osfile" where
  "next_outcome f =
     (case foutcomes f of [] \<Rightarrow> (IoOk, f) | r # rs \<Rightarrow> (r, f\<lparr>foutcomes := rs\<rparr>))"

text \<open>Writing at an offset; a gap past the end is filled with zeros.\<close>

definition put_at :: "nat \<Rightarrow> bytes \<Rightarrow> bytes \<Rightarrow> bytes" where
  "put_at pos bs d = take pos d @ replicate (pos - length d) 0 @ bs @ drop (pos + length bs) d"

definition write_bytes :: "bytes \<Rightarrow> osfile \<Rightarrow> osfile" where
  "write_bytes bs f = f\<lparr>fdata := put_at (fpos f) bs (fdata f), fpos := fpos f + length bs\<rparr>"

definition file_Write :: "bytes \<Rightarrow> osfile \<Rightarrow> goerr option \<times> nat \<times> osfile" where
  "file_Write bs f =
     (case next_outcome f of
        (IoOk, f) \<Rightarrow> (None, length bs, write_bytes bs f)
      | (IoFail n, f) \<Rightarrow> (Some (ErrIO ''write''), min n (length bs), write_bytes (take n bs) f))"

definition file_Sync :: "osfile \<Rightarrow> goerr option \<times> osfile" where
  "file_Sync f =
     (case next_outcome f of
        (IoOk, f) \<Rightarrow> (None, f\<lparr>fsynced := fdata f\<rparr>)
      | (IoFail n, f) \<Rightarrow> (Some (ErrIO ''sync''), f))"

definition file_Close :: "osfile \<Rightarrow> goerr option \<times> osfile" where
  "file_Close f =
     (case next_outcome f of
        (IoOk, f) \<Rightarrow> (None, f)
      | (IoFail _, f) \<Rightarrow> (Some (ErrIO ''close''), f))"

definition file_Truncate :: "nat \<Rightarrow> osfile \<Rightarrow> goerr option \<times> osfile" where
  "file_Truncate off f =
     (case next_outcome f of
        (IoOk, f) \<Rightarrow> (None, f\<lparr>fdata := take off (fdata f) @ replicate (off - length (fdata f)) 0\<rparr>)
      | (IoFail n, f) \<Rightarrow> (Some (ErrIO ''truncate''), f))"

definition file_SeekStart :: "osfile \<Rightarrow> goerr option \<times> osfile" where
  "file_SeekStart f =
     (case next_outcome f of
        (IoOk, f) \<Rightarrow> (None, f\<lparr>fpos := 0\<rparr>)
      | (IoFail n, f) \<Rightarrow> (Some (ErrIO ''seek''), f))"

definition file_SeekEnd :: "osfile \<Rightarrow> goerr option \<times> osfile" where
  "file_SeekEnd f =
     (case next_outcome f of
        (IoOk, f) \<Rightarrow> (None, f\<lparr>fpos := length (fdata f)\<rparr>)
      | (IoFail n, f) \<Rightarrow> (Some (ErrIO ''seek''), f))"

text \<open>
  \<^verbatim>\<open>io.ReadFull\<close>: the bytes read and why it stopped short, if it did.  A read error
  after all bytes have arrived is not reported.
\<close>

datatype read_err = EOF | UnexpectedEOF | ReadIO

definition file_ReadFull :: "nat \<Rightarrow> osfile \<Rightarrow> bytes \<times> read_err option \<times> osfile" where
  "file_ReadFull n f =
     (case next_outcome f of
        (outcome, f) \<Rightarrow>
          let have = (case outcome of IoOk \<Rightarrow> drop (fpos f) (fdata f)
                      | IoFail k \<Rightarrow> take k (drop (fpos f) (fdata f)));
              got = take n have;
              f = f\<lparr>fpos := fpos f + length got\<rparr> in
          if length got = n then (got, None, f)
          else (case outcome of
                  IoFail k \<Rightarrow> (got, Some ReadIO, f)
                | IoOk \<Rightarrow> (got, Some (if got = [] then EOF else UnexpectedEOF), f)))"

section \<open>Buffered writer\<close>

text \<open>\<^verbatim>\<open>bufio.NewWriter\<close>: 4096 bytes; an error of the underlying file sticks.\<close>

record bufw =
  bwBuf :: bytes
  bwErr :: "goerr option"

definition bufio_size :: nat where
  "bufio_size = 4096"

definition bufio_new :: bufw where
  "bufio_new = \<lparr>bwBuf = [], bwErr = None\<rparr>"

definition bufio_Flush :: "bufw \<Rightarrow> osfile \<Rightarrow> goerr option \<times> bufw \<times> osfile" where
  "bufio_Flush b f =
     (if bwErr b \<noteq> None then (bwErr b, b, f)
      else if bwBuf b = [] then (None, b, f)
      else case file_Write (bwBuf b) f of
             (None, n, f) \<Rightarrow> (None, b\<lparr>bwBuf := []\<rparr>, f)
           | (Some err, n, f) \<Rightarrow> (Some err, b\<lparr>bwBuf := drop n (bwBuf b), bwErr := Some err\<rparr>, f))"

text \<open>
  \<^verbatim>\<open>bufio.Writer.Write\<close>.  Its loop runs at most twice: a non-empty buffer is filled up
  and flushed, then what still does not fit goes to the file directly.
\<close>

definition bufio_fill :: "bytes \<Rightarrow> bufw \<Rightarrow> osfile \<Rightarrow> bytes \<times> bufw \<times> osfile" where
  "bufio_fill p b f =
     (let avail = bufio_size - length (bwBuf b) in
      if length p > avail \<and> bwErr b = None \<and> bwBuf b \<noteq> [] then
        (case bufio_Flush (b\<lparr>bwBuf := bwBuf b @ take avail p\<rparr>) f of
           (err, b, f) \<Rightarrow> (drop avail p, b, f))
      else (p, b, f))"

definition bufio_direct :: "bytes \<Rightarrow> bufw \<Rightarrow> osfile \<Rightarrow> bytes \<times> bufw \<times> osfile" where
  "bufio_direct p b f =
     (if length p > bufio_size - length (bwBuf b) \<and> bwErr b = None then
        (case file_Write p f of (err, n, f) \<Rightarrow> (drop n p, b\<lparr>bwErr := err\<rparr>, f))
      else (p, b, f))"

definition bufio_Write :: "bytes \<Rightarrow> bufw \<Rightarrow> osfile \<Rightarrow> goerr option \<times> bufw \<times> osfile" where
  "bufio_Write p b f =
     (case bufio_fill p b f of (p, b, f) \<Rightarrow>
      case bufio_direct p b f of (p, b, f) \<Rightarrow>
        if bwErr b \<noteq> None then (bwErr b, b, f)
        else (None, b\<lparr>bwBuf := bwBuf b @ p\<rparr>, f))"

section \<open>Lemmas\<close>

lemma next_outcome_data:
  "next_outcome f = (r, f') \<Longrightarrow> fdata f' = fdata f \<and> fpos f' = fpos f \<and> fsynced f' = fsynced f"
  by (auto simp: next_outcome_def split: list.splits)

lemma next_outcome_quiet [simp]: "foutcomes f = [] \<Longrightarrow> next_outcome f = (IoOk, f)"
  by (simp add: next_outcome_def)

lemma put_at_end [simp]: "put_at (length d) bs d = d @ bs"
  by (simp add: put_at_def)

lemma write_bytes_fields [simp]:
  "fsynced (write_bytes bs f) = fsynced f" "foutcomes (write_bytes bs f) = foutcomes f"
  "fpos (write_bytes bs f) = fpos f + length bs"
  "fpos f = length (fdata f) \<Longrightarrow> fdata (write_bytes bs f) = fdata f @ bs"
  by (simp_all add: write_bytes_def)

text \<open>A read that is not cut short moves the offset by what it returned, within the file.\<close>

lemma take_take_full:
  assumes "length (take n (take k xs)) = n"
  shows "take n (take k xs) = take n xs"
proof -
  have "n \<le> k \<or> k \<le> n" by linarith
  then show ?thesis using assms by (auto simp: min_def split: if_splits)
qed

lemma file_ReadFull_ok:
  assumes "file_ReadFull n f = (got, None, f')"
  shows "length got = n" and "fpos f' = fpos f + n" and "fdata f' = fdata f"
    and "fsynced f' = fsynced f" and "got = take n (drop (fpos f) (fdata f))"
proof -
  obtain r g where r: "next_outcome f = (r, g)" by (cases "next_outcome f")
  note g = next_outcome_data [OF r]
  define h where "h = (case r of IoOk \<Rightarrow> drop (fpos g) (fdata g) | IoFail k \<Rightarrow> take k (drop (fpos g) (fdata g)))"
  have f': "length (take n h) = n" "got = take n h" "f' = g\<lparr>fpos := fpos g + n\<rparr>"
    using assms by (auto simp: file_ReadFull_def r h_def Let_def split: if_splits io_outcome.splits)
  show "length got = n" and "fpos f' = fpos f + n" and "fdata f' = fdata f" and "fsynced f' = fsynced f"
    using f' g by simp_all
  show "got = take n (drop (fpos f) (fdata f))"
    using f' g by (cases r) (simp_all add: h_def take_take_full)
qed

lemma file_ReadFull_frame:
  "file_ReadFull n f = (got, err, f') \<Longrightarrow> fdata f' = fdata f \<and> fsynced f' = fsynced f"
  by (auto simp: file_ReadFull_def Let_def split: prod.splits io_outcome.splits if_splits dest: next_outcome_data)

lemma file_ReadFull_quiet:
  assumes "foutcomes f = []"
  shows "file_ReadFull n f =
    (let got = take n (drop (fpos f) (fdata f)); f = f\<lparr>fpos := fpos f + length got\<rparr> in
     (got, if length got = n then None else Some (if got = [] then EOF else UnexpectedEOF), f))"
  using assms by (simp add: file_ReadFull_def Let_def)

lemma file_quiet [simp]:
  assumes "foutcomes f = []"
  shows "file_Write bs f = (None, length bs, write_bytes bs f)"
    and "file_Sync f = (None, f\<lparr>fsynced := fdata f\<rparr>)"
    and "file_Truncate off f = (None, f\<lparr>fdata := take off (fdata f) @ replicate (off - length (fdata f)) 0\<rparr>)"
    and "file_SeekStart f = (None, f\<lparr>fpos := 0\<rparr>)"
    and "file_SeekEnd f = (None, f\<lparr>fpos := length (fdata f)\<rparr>)"
  using assms by (simp_all add: file_Write_def file_Sync_def file_Truncate_def file_SeekStart_def file_SeekEnd_def)

end
