(* ===== verification/Wal.thy ===== *)
theory Wal
  imports Wal_Entry Os_File Item
begin

text \<open>
  The write-ahead log, \<^verbatim>\<open>src/internal/wal/wal.go\<close> and
  \<^verbatim>\<open>src/internal/wal/options.go\<close>: appending, replay with truncation of a damaged tail,
  checkpoints and recovery.  The mutex \<^verbatim>\<open>w.mu\<close> is held by every exported operation
  from start to end, so each operation is one state transformer.

  Code outside the package is a parameter: the codec (CBOR), the checkpoint store and the
  \<^verbatim>\<open>BeforeCheckpoint\<close> callback as a record of functions on a state \<open>'x\<close> of
  the world outside the log, and the \<^verbatim>\<open>commands.Operations\<close> target that recovery
  writes to.  \<^verbatim>\<open>AfterSync\<close>, a test hook without effect on the log, is left out.
\<close>

section \<open>Options\<close>

datatype durability = SyncEveryWrite | Buffered | InvalidDurability int

record checkpoint_policy =
  EveryNWrites :: u64
  MaxWalBytes :: int
  TruncateAfterCheckpoint :: bool

record options =
  Durability :: durability
  CheckpointDir :: string
  HasCheckpointStore :: bool
  CheckpointPolicy :: checkpoint_policy

definition CheckpointConfigured :: "options \<Rightarrow> bool" where
  "CheckpointConfigured opts = (CheckpointDir opts \<noteq> [])"

definition Validate :: "options \<Rightarrow> goerr option" where
  "Validate opts =
     (if CheckpointConfigured opts \<and> \<not> HasCheckpointStore opts
      then Some (ErrMsg ''wal: options: CheckpointDir requires non-empty CheckpointStore'')
      else if TruncateAfterCheckpoint (CheckpointPolicy opts) \<and> \<not> CheckpointConfigured opts
      then Some (ErrMsg ''wal: options: TruncateAfterCheckpoint requires non-empty CheckpointDir'')
      else case Durability opts of
             SyncEveryWrite \<Rightarrow> None
           | Buffered \<Rightarrow> None
           | InvalidDurability _ \<Rightarrow> Some (ErrMsg ''wal: options: invalid Durability''))"

section \<open>What the log calls\<close>

type_synonym blobs = "(string \<times> (string \<times> bytes) list) list"

record codec =
  Encode :: "entity \<Rightarrow> goerr + bytes"
  Decode :: "bytes \<Rightarrow> goerr + entity"
  DecodeAny :: "bytes \<Rightarrow> goerr + any"

record 'x wal_env =
  ReadCheckpointTables :: "string \<Rightarrow> 'x \<Rightarrow> goerr + u64 \<times> blobs"
  SaveLastSeq :: "string \<Rightarrow> u64 \<Rightarrow> 'x \<Rightarrow> goerr option \<times> 'x"
  BeforeCheckpoint :: "('x \<Rightarrow> goerr option \<times> 'x) option"

record 'x operations =
  opCreateTable :: "string \<Rightarrow> 'x \<Rightarrow> goerr option \<times> 'x"
  opSet :: "string \<Rightarrow> entity \<Rightarrow> 'x \<Rightarrow> goerr option \<times> 'x"
  opDel :: "string \<Rightarrow> string \<Rightarrow> 'x \<Rightarrow> goerr option \<times> 'x"
  opHydrate :: "(blobs \<Rightarrow> 'x \<Rightarrow> goerr option \<times> 'x) option"

section \<open>The log\<close>

record wal =
  wFile :: osfile
  wOpts :: options
  wBufw :: "bufw option"
  wSeq :: u64
  writesSinceCkpt :: u64
  bytesSinceCkpt :: int

text \<open>\<^verbatim>\<open>New\<close>; the file is the one \<^verbatim>\<open>os.OpenFile\<close> returned, at offset 0.\<close>

definition New :: "osfile \<Rightarrow> options \<Rightarrow> goerr + wal" where
  "New f opts =
     (case Validate opts of
        Some err \<Rightarrow> Inl err
      | None \<Rightarrow> Inr \<lparr>wFile = f, wOpts = opts,
                 wBufw = (if Durability opts = Buffered then Some bufio_new else None),
                 wSeq = 0, writesSinceCkpt = 0, bytesSinceCkpt = 0\<rparr>)"

text \<open>\<^verbatim>\<open>Open\<close> is \<^verbatim>\<open>New\<close> without a codec, which the model passes to the calls that use it.\<close>

definition Open :: "osfile \<Rightarrow> options \<Rightarrow> goerr + wal" where
  "Open f opts =
     (case Validate opts of
        Some err \<Rightarrow> Inl err
      | None \<Rightarrow> Inr \<lparr>wFile = f, wOpts = opts,
                 wBufw = (if Durability opts = Buffered then Some bufio_new else None),
                 wSeq = 0, writesSinceCkpt = 0, bytesSinceCkpt = 0\<rparr>)"

definition syncAndHook :: "wal \<Rightarrow> goerr option \<times> wal" where
  "syncAndHook w = (case file_Sync (wFile w) of (err, f) \<Rightarrow> (err, w\<lparr>wFile := f\<rparr>))"

text \<open>The write of one record, to the buffer or to the file, with its synchronisation.\<close>

definition write_record :: "bytes \<Rightarrow> wal \<Rightarrow> goerr option \<times> wal" where
  "write_record rec w =
     (case wBufw w of
        Some b \<Rightarrow>
          (case bufio_Write rec b (wFile w) of
             (Some err, b, f) \<Rightarrow> (Some err, w\<lparr>wBufw := Some b, wFile := f\<rparr>)
           | (None, b, f) \<Rightarrow>
               let w = w\<lparr>wBufw := Some b, wFile := f\<rparr> in
               if Durability (wOpts w) = SyncEveryWrite then
                 (case bufio_Flush b f of
                    (Some err, b, f) \<Rightarrow> (Some err, w\<lparr>wBufw := Some b, wFile := f\<rparr>)
                  | (None, b, f) \<Rightarrow> syncAndHook (w\<lparr>wBufw := Some b, wFile := f\<rparr>))
               else (None, w))
      | None \<Rightarrow>
          (case file_Write rec (wFile w) of
             (Some err, n, f) \<Rightarrow> (Some err, w\<lparr>wFile := f\<rparr>)
           | (None, n, f) \<Rightarrow>
               let w = w\<lparr>wFile := f\<rparr> in
               if Durability (wOpts w) = SyncEveryWrite then syncAndHook w else (None, w)))"

definition appendLocked :: "entry \<Rightarrow> wal \<Rightarrow> goerr option \<times> wal" where
  "appendLocked e w =
     (case MarshalBinary e of
        Inl err \<Rightarrow> (Some err, w)
      | Inr rec \<Rightarrow>
          (case write_record rec w of
             (Some err, w) \<Rightarrow> (Some err, w)
           | (None, w) \<Rightarrow>
               (None, w\<lparr>writesSinceCkpt := writesSinceCkpt w + 1,
                        bytesSinceCkpt := bytesSinceCkpt w + int (length rec)\<rparr>)))"

definition flushLocked :: "wal \<Rightarrow> goerr option \<times> wal" where
  "flushLocked w =
     (case wBufw w of
        None \<Rightarrow> syncAndHook w
      | Some b \<Rightarrow>
          (case bufio_Flush b (wFile w) of
             (Some err, b, f) \<Rightarrow> (Some err, w\<lparr>wBufw := Some b, wFile := f\<rparr>)
           | (None, b, f) \<Rightarrow> syncAndHook (w\<lparr>wBufw := Some b, wFile := f\<rparr>)))"

definition wal_Append :: "entry \<Rightarrow> wal \<Rightarrow> goerr option \<times> wal" where
  "wal_Append e w = appendLocked e w"

definition wal_Flush :: "wal \<Rightarrow> goerr option \<times> wal" where
  "wal_Flush w = flushLocked w"

definition truncate :: "nat \<Rightarrow> osfile \<Rightarrow> goerr option \<times> osfile" where
  "truncate off f =
     (case file_Truncate off f of
        (Some err, f) \<Rightarrow> (Some err, f)
      | (None, f) \<Rightarrow> file_SeekEnd f)"

section \<open>Checkpoints\<close>

text \<open>The truncation that may follow a saved checkpoint, then the counters' reset.\<close>

definition checkpoint_finish :: "wal \<Rightarrow> goerr option \<times> wal" where
  "checkpoint_finish w =
     (let reset = (\<lambda>w. w\<lparr>writesSinceCkpt := 0, bytesSinceCkpt := 0\<rparr>) in
      if TruncateAfterCheckpoint (CheckpointPolicy (wOpts w)) then
        (case truncate 0 (wFile w) of
           (Some err, f) \<Rightarrow> (Some (ErrWrap ''wal: checkpoint truncate'' err), w\<lparr>wFile := f\<rparr>)
         | (None, f) \<Rightarrow>
             (case file_SeekEnd f of
                (Some err, f) \<Rightarrow> (Some err, w\<lparr>wFile := f\<rparr>)
              | (None, f) \<Rightarrow> (None, reset (w\<lparr>wFile := f\<rparr>))))
      else (None, reset w))"

definition run_before :: "'x wal_env \<Rightarrow> 'x \<Rightarrow> goerr option \<times> 'x" where
  "run_before env x = (case BeforeCheckpoint env of None \<Rightarrow> (None, x) | Some before \<Rightarrow> before x)"

definition checkpointLocked :: "'x wal_env \<Rightarrow> wal \<Rightarrow> 'x \<Rightarrow> goerr option \<times> wal \<times> 'x" where
  "checkpointLocked env w x =
     (if \<not> CheckpointConfigured (wOpts w)
      then (Some (ErrMsg ''wal: checkpoint dir not configured''), w, x)
      else case flushLocked w of
        (Some err, w) \<Rightarrow> (Some (ErrWrap ''wal: checkpoint flush'' err), w, x)
      | (None, w) \<Rightarrow>
          (case run_before env x of
             (Some err, x) \<Rightarrow> (Some (ErrWrap ''wal: before checkpoint'' err), w, x)
           | (None, x) \<Rightarrow>
               (case SaveLastSeq env (CheckpointDir (wOpts w)) (wSeq w) x of
                  (Some err, x) \<Rightarrow> (Some (ErrWrap ''wal: checkpoint save seq'' err), w, x)
                | (None, x) \<Rightarrow>
                    (case checkpoint_finish w of (err, w) \<Rightarrow> (err, w, x)))))"

definition checkpoint_due :: "wal \<Rightarrow> bool" where
  "checkpoint_due w =
     (let p = CheckpointPolicy (wOpts w) in
      EveryNWrites p > 0 \<and> writesSinceCkpt w \<ge> EveryNWrites p
      \<or> MaxWalBytes p > 0 \<and> bytesSinceCkpt w \<ge> MaxWalBytes p)"

definition maybeAutoCheckpointLocked :: "'x wal_env \<Rightarrow> wal \<Rightarrow> 'x \<Rightarrow> goerr option \<times> wal \<times> 'x" where
  "maybeAutoCheckpointLocked env w x =
     (if \<not> CheckpointConfigured (wOpts w) then (None, w, x)
      else if \<not> checkpoint_due w then (None, w, x)
      else checkpointLocked env w x)"

section \<open>Mutations\<close>

definition set_entry :: "u64 \<Rightarrow> string \<Rightarrow> entity \<Rightarrow> bytes \<Rightarrow> entry" where
  "set_entry seq tableName ent b =
     \<lparr>eSeq = seq, eOp = OpSet, eTable = tableName, eKey = iKey ent, eFk = iSK ent, eValueBytes = b\<rparr>"

definition del_entry :: "u64 \<Rightarrow> string \<Rightarrow> string \<Rightarrow> entry" where
  "del_entry seq tableName key =
     \<lparr>eSeq = seq, eOp = OpDel, eTable = tableName, eKey = key, eFk = [], eValueBytes = []\<rparr>"

definition wal_Set :: "codec \<Rightarrow> 'x wal_env \<Rightarrow> string \<Rightarrow> entity \<Rightarrow> wal \<Rightarrow> 'x \<Rightarrow> goerr option \<times> wal \<times> 'x" where
  "wal_Set c env tableName ent w x =
     (case Encode c ent of
        Inl err \<Rightarrow> (Some (ErrWrap ''wal: encode'' err), w, x)
      | Inr b \<Rightarrow>
          let seq = wSeq w + 1 in
          (case appendLocked (set_entry seq tableName ent b) w of
             (Some err, w) \<Rightarrow> (Some (ErrWrap ''wal: append'' err), w, x)
           | (None, w) \<Rightarrow> maybeAutoCheckpointLocked env (w\<lparr>wSeq := seq\<rparr>) x))"

fun bulk_set_loop :: "codec \<Rightarrow> string \<Rightarrow> entity list \<Rightarrow> u64 \<Rightarrow> wal \<Rightarrow> goerr option \<times> wal" where
  "bulk_set_loop c tableName [] seq w = (None, w)"
| "bulk_set_loop c tableName (ent # ents) seq w =
     (case Encode c ent of
        Inl err \<Rightarrow> (Some (ErrWrap ''wal: encode'' err), w\<lparr>wSeq := seq\<rparr>)
      | Inr b \<Rightarrow>
          let seq = seq + 1 in
          (case appendLocked (set_entry seq tableName ent b) w of
             (Some err, w) \<Rightarrow> (Some (ErrWrap ''wal: append'' err), w\<lparr>wSeq := seq - 1\<rparr>)
           | (None, w) \<Rightarrow> bulk_set_loop c tableName ents seq (w\<lparr>wSeq := seq\<rparr>)))"

definition wal_BulkSet :: "codec \<Rightarrow> 'x wal_env \<Rightarrow> string \<Rightarrow> entity list \<Rightarrow> wal \<Rightarrow> 'x \<Rightarrow> goerr option \<times> wal \<times> 'x" where
  "wal_BulkSet c env tableName ents w x =
     (case bulk_set_loop c tableName ents (wSeq w) w of
        (Some err, w) \<Rightarrow> (Some err, w, x)
      | (None, w) \<Rightarrow> maybeAutoCheckpointLocked env w x)"

fun bulk_delete_loop :: "string \<Rightarrow> string list \<Rightarrow> u64 \<Rightarrow> wal \<Rightarrow> goerr option \<times> wal" where
  "bulk_delete_loop tableName [] seq w = (None, w)"
| "bulk_delete_loop tableName (key # keys) seq w =
     (let seq = seq + 1 in
      case appendLocked (del_entry seq tableName key) w of
        (Some err, w) \<Rightarrow> (Some (ErrWrap ''wal: append'' err), w\<lparr>wSeq := seq - 1\<rparr>)
      | (None, w) \<Rightarrow> bulk_delete_loop tableName keys seq (w\<lparr>wSeq := seq\<rparr>))"

definition wal_BulkDelete :: "'x wal_env \<Rightarrow> string \<Rightarrow> string list \<Rightarrow> wal \<Rightarrow> 'x \<Rightarrow> goerr option \<times> wal \<times> 'x" where
  "wal_BulkDelete env tableName keys w x =
     (case bulk_delete_loop tableName keys (wSeq w) w of
        (Some err, w) \<Rightarrow> (Some err, w, x)
      | (None, w) \<Rightarrow> maybeAutoCheckpointLocked env w x)"

definition wal_Delete :: "'x wal_env \<Rightarrow> string \<Rightarrow> string \<Rightarrow> wal \<Rightarrow> 'x \<Rightarrow> goerr option \<times> wal \<times> 'x" where
  "wal_Delete env tableName key w x =
     (let seq = wSeq w + 1 in
      case appendLocked (del_entry seq tableName key) w of
        (Some err, w) \<Rightarrow> (Some (ErrWrap ''db: wal append'' err), w, x)
      | (None, w) \<Rightarrow> maybeAutoCheckpointLocked env (w\<lparr>wSeq := seq\<rparr>) x)"

section \<open>Replay\<close>

text \<open>
  One iteration of the read loop up to the decoded record: the end of the file, a tail to cut off,
  a read error, or a record with the length of its frame.
\<close>

datatype frame_read = FrEof | FrBad | FrErr goerr | FrOk entry nat

definition read_frame :: "osfile \<Rightarrow> frame_read \<times> osfile" where
  "read_frame f =
     (case file_ReadFull 4 f of
        (lenBuf, readErr, f) \<Rightarrow>
          if readErr = Some EOF \<and> length lenBuf = 0 then (FrEof, f)
          else if readErr = Some EOF \<or> length lenBuf < 4 then (FrBad, f)
          else if readErr \<noteq> None then (FrErr (ErrIO ''read''), f)
          else let payloadLen = (word_of_int (be_val lenBuf) :: u32) in
          if payloadLen > 0x10000000 then (FrBad, f)
          else (case file_ReadFull (unat payloadLen + 4) f of
                  (body, Some err, f) \<Rightarrow> (FrBad, f)
                | (body, None, f) \<Rightarrow>
                    (case UnmarshalBinary (lenBuf @ body) of
                       Inl err \<Rightarrow> (FrBad, f)
                     | Inr e \<Rightarrow> (FrOk e (length (lenBuf @ body)), f))))"

lemma read_frame_progress:
  assumes "read_frame f = (FrOk e n, f')"
  shows "fdata f' = fdata f \<and> fpos f' = fpos f + n \<and> 8 \<le> n \<and> fpos f' \<le> length (fdata f)"
proof -
  obtain l err f1 where l: "file_ReadFull 4 f = (l, err, f1)"
    by (cases "file_ReadFull 4 f") auto
  with assms have err: "err = None"
    by (auto simp: read_frame_def split: if_splits option.splits)
  obtain body err2 f2 where b: "file_ReadFull (unat (word_of_int (be_val l) :: u32) + 4) f1 = (body, err2, f2)"
    by (cases "file_ReadFull (unat (word_of_int (be_val l) :: u32) + 4) f1") auto
  have fin: "err2 = None" "n = length (l @ body)" "f' = f2"
    using assms l err b by (auto simp: read_frame_def Let_def split: if_splits sum.splits option.splits)
  note r1 = file_ReadFull_ok [OF l [unfolded err]] and r2 = file_ReadFull_ok [OF b [unfolded fin(1)]]
  have "length (take (length body) (drop (fpos f1) (fdata f1))) = length body"
    using r2(1,5) by simp
  then have "fpos f1 + length body \<le> length (fdata f1)"
    using r2(1) by (auto simp: min_def split: if_splits)
  then show ?thesis
    using r1 r2 fin by simp
qed

text \<open>
  The loop of \<^verbatim>\<open>replaySince\<close>.  \<open>apply\<close> works on a state \<open>'s\<close>; the result has the
  error that ended the replay, if any, the file, the state and the highest sequence number read.
\<close>

function replay_loop ::
  "u64 \<Rightarrow> (entry \<Rightarrow> 's \<Rightarrow> goerr option \<times> 's) \<Rightarrow> osfile \<Rightarrow> 's \<Rightarrow> nat \<Rightarrow> u64 \<Rightarrow>
   goerr option \<times> osfile \<times> 's \<times> u64"
where
  "replay_loop skip app f s goodOff maxSeq =
     (case read_frame f of
        (FrEof, f') \<Rightarrow> (None, f', s, maxSeq)
      | (FrBad, f') \<Rightarrow> (case truncate goodOff f' of (err, f'') \<Rightarrow> (err, f'', s, maxSeq))
      | (FrErr err, f') \<Rightarrow> (Some err, f', s, maxSeq)
      | (FrOk e n, f') \<Rightarrow>
          let maxSeq = (if eSeq e > maxSeq then eSeq e else maxSeq) in
          if eSeq e > skip then
            (case app e s of
               (Some err, s) \<Rightarrow> (Some err, f', s, maxSeq)
             | (None, s) \<Rightarrow> replay_loop skip app f' s (goodOff + n) maxSeq)
          else replay_loop skip app f' s (goodOff + n) maxSeq)"
  by pat_completeness auto
termination
  by (relation "measure (\<lambda>(skip, app, f, s, goodOff, maxSeq). length (fdata f) - fpos f)")
    (auto dest!: sym [of _ "read_frame _"] read_frame_progress)

declare replay_loop.simps [simp del]

definition replaySince ::
  "u64 \<Rightarrow> (entry \<Rightarrow> 's \<Rightarrow> goerr option \<times> 's) \<Rightarrow> wal \<Rightarrow> 's \<Rightarrow> goerr option \<times> wal \<times> 's \<times> u64"
where
  "replaySince skip app w s =
     (case file_SeekStart (wFile w) of
        (Some err, f) \<Rightarrow> (Some err, w\<lparr>wFile := f\<rparr>, s, 0)
      | (None, f) \<Rightarrow>
          (case replay_loop skip app f s 0 0 of
             (Some err, f, s, maxSeq) \<Rightarrow> (Some err, w\<lparr>wFile := f\<rparr>, s, maxSeq)
           | (None, f, s, maxSeq) \<Rightarrow>
               (case file_SeekEnd f of (err, f) \<Rightarrow> (err, w\<lparr>wFile := f\<rparr>, s, maxSeq))))"

definition Replay ::
  "(entry \<Rightarrow> 's \<Rightarrow> goerr option \<times> 's) \<Rightarrow> wal \<Rightarrow> 's \<Rightarrow> goerr option \<times> wal \<times> 's \<times> u64" where
  "Replay app w s = replaySince 0 app w s"

section \<open>Recovery\<close>

definition decodeEntity :: "codec \<Rightarrow> entry \<Rightarrow> goerr + entity" where
  "decodeEntity c e =
     (case Decode c (eValueBytes e) of
        Inr it \<Rightarrow>
          if iKey it \<noteq> [] then Inr it
          else (case DecodeAny c (eValueBytes e) of
                  Inl err \<Rightarrow> Inl err
                | Inr v \<Rightarrow> Inr \<lparr>iKey = eKey e, iSK = eFk e, iValue = v, iVersion = []\<rparr>)
      | Inl _ \<Rightarrow>
          (case DecodeAny c (eValueBytes e) of
             Inl err \<Rightarrow> Inl err
           | Inr v \<Rightarrow> Inr \<lparr>iKey = eKey e, iSK = eFk e, iValue = v, iVersion = []\<rparr>))"

definition applyEntry :: "codec \<Rightarrow> 'x operations \<Rightarrow> entry \<Rightarrow> 'x \<Rightarrow> goerr option \<times> 'x" where
  "applyEntry c ops e x =
     (case opCreateTable ops (eTable e) x of
        (Some err, x) \<Rightarrow> (Some (ErrWrap ''WAL.Load.db: ensure table'' err), x)
      | (None, x) \<Rightarrow>
          if eOp e = OpSet then
            (case decodeEntity c e of
               Inl err \<Rightarrow> (Some (ErrWrap ''WAL.Load.db: decode wal put'' err), x)
             | Inr it \<Rightarrow>
                 (case opSet ops (eTable e) it x of
                    (Some err, x) \<Rightarrow> (Some (ErrWrap ''WAL.Load.db: set'' err), x)
                  | (None, x) \<Rightarrow> (None, x)))
          else if eOp e = OpDel then
            (case opDel ops (eTable e) (eKey e) x of
               (Some err, x) \<Rightarrow>
                 if \<not> errors_is err ErrNotFound then (Some (ErrWrap ''WAL.Load.db: del'' err), x)
                 else (None, x)
             | (None, x) \<Rightarrow> (None, x))
          else if eOp e = OpBegin \<or> eOp e = OpCommit then (None, x)
          else (Some (ErrMsg ''WAL.Load.db: unknown wal op''), x))"

definition hydrateCheckpointIfNeeded :: "'x operations \<Rightarrow> blobs \<Rightarrow> 'x \<Rightarrow> goerr option \<times> 'x" where
  "hydrateCheckpointIfNeeded ops bs x =
     (if bs = [] then (None, x)
      else case opHydrate ops of
             None \<Rightarrow> (Some (ErrMsg ''wal: checkpoint has table data but target is no CheckpointBlobHydrator''), x)
           | Some h \<Rightarrow>
               (case h bs x of
                  (Some err, x) \<Rightarrow> (Some (ErrWrap ''wal: apply checkpoint snapshot'' err), x)
                | (None, x) \<Rightarrow> (None, x)))"

definition maxUint64 :: "u64 \<Rightarrow> u64 \<Rightarrow> u64" where
  "maxUint64 a b = (if a > b then a else b)"

text \<open>\<^verbatim>\<open>Load\<close> after its checkpoint has been read: hydrate, replay the tail, checkpoint.\<close>

definition load_tail :: "codec \<Rightarrow> 'x wal_env \<Rightarrow> 'x operations \<Rightarrow> u64 \<Rightarrow> blobs \<Rightarrow> wal \<Rightarrow> 'x \<Rightarrow> goerr option \<times> wal \<times> 'x" where
  "load_tail c env ops lastSeq tableBlobs w x =
     (case hydrateCheckpointIfNeeded ops tableBlobs x of
        (Some err, x) \<Rightarrow> (Some err, w, x)
      | (None, x) \<Rightarrow>
          (case replaySince lastSeq (applyEntry c ops) w x of
             (Some err, w, x, maxSeq) \<Rightarrow> (Some (ErrWrap ''db: replay wal'' err), w, x)
           | (None, w, x, maxSeq) \<Rightarrow>
               let w = w\<lparr>wSeq := maxUint64 lastSeq maxSeq\<rparr> in
               if CheckpointConfigured (wOpts w) then
                 (case checkpointLocked env w x of
                    (Some err, w, x) \<Rightarrow> (Some (ErrWrap ''wal: post-load checkpoint'' err), w, x)
                  | (None, w, x) \<Rightarrow> (None, w\<lparr>writesSinceCkpt := 0, bytesSinceCkpt := 0\<rparr>, x))
               else (None, w, x)))"

definition wal_Load :: "codec \<Rightarrow> 'x wal_env \<Rightarrow> 'x operations list \<Rightarrow> wal \<Rightarrow> 'x \<Rightarrow> goerr option \<times> wal \<times> 'x" where
  "wal_Load c env opss w x =
     (case opss of
        [ops] \<Rightarrow>
          if CheckpointConfigured (wOpts w) then
            (case ReadCheckpointTables env (CheckpointDir (wOpts w)) x of
               Inl err \<Rightarrow> (Some (ErrWrap ''wal: load checkpoint'' err), w, x)
             | Inr (lastSeq, tableBlobs) \<Rightarrow> load_tail c env ops lastSeq tableBlobs w x)
          else load_tail c env ops 0 [] w x
      | _ \<Rightarrow> (Some (ErrMsg ''wal: load requires exactly one operations target''), w, x))"

section \<open>Repair and shutdown\<close>

text \<open>\<^verbatim>\<open>RepairTruncatesTail\<close>: its own read loop, which checks the checksum only.\<close>

definition repair_frame :: "osfile \<Rightarrow> frame_read \<times> osfile" where
  "repair_frame f =
     (case file_ReadFull 4 f of
        (lenBuf, readErr, f) \<Rightarrow>
          if readErr = Some EOF \<and> length lenBuf = 0 then (FrEof, f)
          else if readErr = Some EOF \<or> length lenBuf < 4 then (FrBad, f)
          else if readErr \<noteq> None then (FrErr (ErrIO ''read''), f)
          else let payloadLen = (word_of_int (be_val lenBuf) :: u32) in
          if payloadLen > 0x10000000 then (FrBad, f)
          else (case file_ReadFull (unat payloadLen + 4) f of
                  (crcPayload, Some err, f) \<Rightarrow> (FrBad, f)
                | (crcPayload, None, f) \<Rightarrow>
                    let payload = take (unat payloadLen) crcPayload;
                        got = word_of_int (be_val (drop (unat payloadLen) crcPayload)) in
                    if crc32 payload \<noteq> got then (FrBad, f)
                    else if length payload < 15 then (FrBad, f)
                    else (FrOk \<lparr>eSeq = 0, eOp = 0, eTable = [], eKey = [], eFk = [], eValueBytes = []\<rparr>
                            (4 + unat payloadLen + 4), f)))"

lemma repair_frame_progress:
  assumes "repair_frame f = (FrOk e n, f')"
  shows "fdata f' = fdata f \<and> fpos f' = fpos f + n \<and> 8 \<le> n \<and> fpos f' \<le> length (fdata f)"
proof -
  obtain l err f1 where l: "file_ReadFull 4 f = (l, err, f1)"
    by (cases "file_ReadFull 4 f") auto
  with assms have err: "err = None"
    by (auto simp: repair_frame_def split: if_splits option.splits)
  define n4 where "n4 = unat (word_of_int (be_val l) :: u32) + 4"
  obtain body err2 f2 where b: "file_ReadFull n4 f1 = (body, err2, f2)"
    by (cases "file_ReadFull n4 f1") auto
  have fin: "err2 = None" "n = 4 + n4" "f' = f2"
    using assms l err b
    by (auto simp: repair_frame_def Let_def n4_def split: if_splits sum.splits option.splits)
  note r1 = file_ReadFull_ok [OF l [unfolded err]] and r2 = file_ReadFull_ok [OF b [unfolded fin(1)]]
  have "length (take n4 (drop (fpos f1) (fdata f1))) = n4"
    using r2(1,5) by simp
  then have "fpos f1 + n4 \<le> length (fdata f1)"
    by (auto simp: min_def n4_def split: if_splits)
  then show ?thesis
    using r1 r2 fin by (simp add: n4_def)
qed

function repair_loop :: "osfile \<Rightarrow> nat \<Rightarrow> goerr option \<times> osfile" where
  "repair_loop f goodOff =
     (case repair_frame f of
        (FrEof, f') \<Rightarrow> (None, f')
      | (FrBad, f') \<Rightarrow> file_Truncate goodOff f'
      | (FrErr err, f') \<Rightarrow> (Some err, f')
      | (FrOk e n, f') \<Rightarrow> repair_loop f' (goodOff + n))"
  by pat_completeness auto
termination
  by (relation "measure (\<lambda>(f, goodOff). length (fdata f) - fpos f)")
    (auto dest!: sym [of _ "repair_frame _"] repair_frame_progress)

declare repair_loop.simps [simp del]

text \<open>\<open>None\<close>: there is no file at the path.\<close>

definition RepairTruncatesTail :: "osfile option \<Rightarrow> goerr option \<times> osfile option" where
  "RepairTruncatesTail mf =
     (case mf of
        None \<Rightarrow> (None, None)
      | Some f \<Rightarrow> (case repair_loop (f\<lparr>fpos := 0\<rparr>) 0 of (err, f) \<Rightarrow> (err, Some f)))"

definition Checkpoint :: "'x wal_env \<Rightarrow> wal \<Rightarrow> 'x \<Rightarrow> goerr option \<times> wal \<times> 'x" where
  "Checkpoint env w x = checkpointLocked env w x"

text \<open>\<^verbatim>\<open>Close\<close> closes the file whether or not the flush succeeded.\<close>

definition Close :: "wal \<Rightarrow> goerr option \<times> wal" where
  "Close w =
     (case flushLocked w of
        (Some err, w) \<Rightarrow> (Some err, w\<lparr>wFile := snd (file_Close (wFile w))\<rparr>)
      | (None, w) \<Rightarrow> (case file_Close (wFile w) of (err, f) \<Rightarrow> (err, w\<lparr>wFile := f\<rparr>)))"

section \<open>Logs that never start a checkpoint by themselves\<close>

text \<open>
  No checkpoint directory, or a policy with both triggers disabled, as \<^verbatim>\<open>cmd/node/setup/kv.go\<close>
  configures it: checkpoints are then taken by \<^verbatim>\<open>Load\<close> and by \<^verbatim>\<open>Checkpoint\<close> only.
\<close>

definition auto_off :: "options \<Rightarrow> bool" where
  "auto_off opts \<longleftrightarrow> \<not> CheckpointConfigured opts
     \<or> EveryNWrites (CheckpointPolicy opts) = 0 \<and> MaxWalBytes (CheckpointPolicy opts) \<le> 0"

lemma maybeAuto_off: "auto_off (wOpts w) \<Longrightarrow> maybeAutoCheckpointLocked env w x = (None, w, x)"
  by (auto simp: auto_off_def maybeAutoCheckpointLocked_def checkpoint_due_def Let_def)

lemma auto_off_plain: "\<not> CheckpointConfigured opts \<Longrightarrow> auto_off opts"
  by (simp add: auto_off_def)

end
