(* ===== verification/Interfaces.thy ===== *)
theory Interfaces
  imports Item
begin

text \<open>
  The contracts between components, as locales.  A provider's theory interprets its contract on its own
  definitions; a client's lemmas are proved once inside the locale.
\<close>

section \<open>A cache\<close>

text \<open>
  What the adapter relies on in \<^verbatim>\<open>db.Cache\<close>: a cache represents a partial map \<open>look\<close>;
  it may forget entries at any time, but it never invents one.
\<close>

locale cache_contract =
  fixes inv :: "'c \<Rightarrow> bool"
    and look :: "'c \<Rightarrow> string \<Rightarrow> 'v option"
    and save :: "string \<Rightarrow> 'v \<Rightarrow> ('s \<Rightarrow> goerr option \<times> 's) \<Rightarrow> 'c \<Rightarrow> 's \<Rightarrow> goerr option \<times> 'c \<times> 's"
    and once :: "string \<Rightarrow> ('s \<Rightarrow> (goerr + 'v) \<times> 's) \<Rightarrow> 'c \<Rightarrow> 's \<Rightarrow> (goerr + 'v) \<times> 'c \<times> 's"
    and evict :: "string \<Rightarrow> 'c \<Rightarrow> 'c"
    and evict_if :: "string \<Rightarrow> ('s \<Rightarrow> goerr option \<times> 's) \<Rightarrow> 'c \<Rightarrow> 's \<Rightarrow> goerr option \<times> 'c \<times> 's"
  assumes save_law: "inv c \<Longrightarrow> save k v fn c s = (err, c', s') \<Longrightarrow>
      inv c' \<and> fn s = (err, s') \<and> (err \<noteq> None \<longrightarrow> look c' \<subseteq>\<^sub>m look c)
      \<and> (err = None \<longrightarrow> look c' \<subseteq>\<^sub>m (look c)(k \<mapsto> v) \<and> look c' k = Some v)"
    and once_law: "inv c \<Longrightarrow> once k gn c s = (r, c', s') \<Longrightarrow>
      inv c' \<and> (s' = s \<and> look c' \<subseteq>\<^sub>m look c \<and> (\<exists>v. r = Inr v \<and> look c k = Some v)
        \<or> gn s = (r, s') \<and> (\<forall>err. r = Inl err \<longrightarrow> look c' \<subseteq>\<^sub>m look c)
          \<and> (\<forall>v. r = Inr v \<longrightarrow> look c' \<subseteq>\<^sub>m (look c)(k \<mapsto> v)))"
    and evict_law: "inv c \<Longrightarrow> inv (evict k c) \<and> look (evict k c) \<subseteq>\<^sub>m (look c)(k := None)"
    and evict_if_law: "inv c \<Longrightarrow> evict_if k fn c s = (err, c', s') \<Longrightarrow>
      inv c' \<and> fn s = (err, s') \<and> (err \<noteq> None \<longrightarrow> look c' \<subseteq>\<^sub>m look c)
      \<and> (err = None \<longrightarrow> look c' \<subseteq>\<^sub>m (look c)(k := None))"
begin

text \<open>A cache is coherent with a predicate when every entry it holds satisfies it.\<close>

definition coherent :: "'c \<Rightarrow> (string \<Rightarrow> 'v \<Rightarrow> bool) \<Rightarrow> bool" where
  "coherent c P \<longleftrightarrow> inv c \<and> (\<forall>k v. look c k = Some v \<longrightarrow> P k v)"

lemma map_le_Some: "m \<subseteq>\<^sub>m m' \<Longrightarrow> m k = Some v \<Longrightarrow> m' k = Some v"
  by (metis domI map_le_def)

lemma save_coherent:
  assumes "coherent c P" and "save k v fn c s = (None, c', s')"
    and "P' k v" and "\<And>j w. j \<noteq> k \<Longrightarrow> P j w \<Longrightarrow> P' j w"
  shows "coherent c' P' \<and> fn s = (None, s')"
proof -
  have i: "inv c" using assms(1) by (simp add: coherent_def)
  note l = save_law [OF i assms(2)]
  have "P' j w" if "look c' j = Some w" for j w
    using map_le_Some [of "look c'" "(look c)(k \<mapsto> v)" j w] l that assms(1,3,4)
    by (auto simp: coherent_def split: if_splits)
  then show ?thesis using l by (simp add: coherent_def)
qed

lemma save_failed_coherent:
  assumes "coherent c P" and "save k v fn c s = (Some err, c', s')"
  shows "coherent c' P \<and> fn s = (Some err, s')"
proof -
  have i: "inv c" using assms(1) by (simp add: coherent_def)
  show ?thesis
    using save_law [OF i assms(2)] map_le_Some [of "look c'" "look c"] assms(1) by (auto simp: coherent_def)
qed

lemma evict_coherent:
  assumes "coherent c P" and "\<And>j w. j \<noteq> k \<Longrightarrow> P j w \<Longrightarrow> P' j w"
  shows "coherent (evict k c) P'"
proof -
  have i: "inv c" using assms(1) by (simp add: coherent_def)
  note l = evict_law [OF i, of k]
  have "P' j w" if "look (evict k c) j = Some w" for j w
    using map_le_Some [of "look (evict k c)" "(look c)(k := None)" j w] l that assms
    by (auto simp: coherent_def split: if_splits)
  then show ?thesis using l by (simp add: coherent_def)
qed

lemma evict_list_coherent:
  assumes "coherent c P" and "\<And>j w. j \<notin> set ks \<Longrightarrow> P j w \<Longrightarrow> P' j w"
  shows "coherent (fold evict ks c) P'"
  using assms
proof (induction ks arbitrary: c P)
  case Nil
  then show ?case by (auto simp: coherent_def)
next
  case (Cons k ks)
  have "coherent (evict k c) (\<lambda>j w. j \<noteq> k \<and> P j w)"
    using Cons.prems(1) by (rule evict_coherent) simp
  then show ?case using Cons.IH [of "evict k c" "\<lambda>j w. j \<noteq> k \<and> P j w"] Cons.prems(2) by auto
qed

lemma evict_if_coherent:
  assumes "coherent c P" and "evict_if k fn c s = (err, c', s')"
    and "err = None \<Longrightarrow> (\<And>j w. j \<noteq> k \<Longrightarrow> P j w \<Longrightarrow> P' j w)" and "\<And>j w. err \<noteq> None \<Longrightarrow> P j w \<Longrightarrow> P' j w"
  shows "coherent c' P' \<and> fn s = (err, s')"
proof -
  have i: "inv c" using assms(1) by (simp add: coherent_def)
  note l = evict_if_law [OF i assms(2)]
  have "P' j w" if "look c' j = Some w" for j w
    using map_le_Some [of "look c'" "(look c)(k := None)" j w] map_le_Some [of "look c'" "look c" j w] l that assms
    by (cases err) (auto simp: coherent_def split: if_splits)
  then show ?thesis using l by (simp add: coherent_def)
qed

text \<open>Reading through a coherent cache.\<close>

lemma once_coherent:
  assumes "coherent c P" and "fn s = (r0, s)" and "\<And>v. r0 = Inr v \<Longrightarrow> P k v" and "once k fn c s = (r, c', s')"
  shows "coherent c' P \<and> s' = s \<and> (r = r0 \<or> (\<exists>v. r = Inr v \<and> P k v))"
proof -
  have i: "inv c" using assms(1) by (simp add: coherent_def)
  note law = once_law [OF i assms(4)]
  show ?thesis
  proof (cases "s' = s \<and> look c' \<subseteq>\<^sub>m look c \<and> (\<exists>v. r = Inr v \<and> look c k = Some v)")
    case True
    then show ?thesis using law assms(1) map_le_Some [of "look c'" "look c"] by (auto simp: coherent_def)
  next
    case False
    then have f: "r = r0" "s' = s" "inv c'" "\<forall>err. r = Inl err \<longrightarrow> look c' \<subseteq>\<^sub>m look c"
        "\<forall>v. r = Inr v \<longrightarrow> look c' \<subseteq>\<^sub>m (look c)(k \<mapsto> v)"
      using law assms(2) by auto
    have "P j w" if "look c' j = Some w" for j w
    proof (cases r)
      case (Inl a)
      then show ?thesis using f(4) map_le_Some that assms(1) by (metis coherent_def)
    next
      case (Inr v)
      then have "((look c)(k \<mapsto> v)) j = Some w" using f(5) map_le_Some that by metis
      then show ?thesis using assms(1,3) f(1) Inr by (auto simp: coherent_def split: if_splits)
    qed
    then show ?thesis using f by (simp add: coherent_def)
  qed
qed

end

section \<open>A keyed store\<close>

text \<open>
  What recovery, the write batcher and the adapter rely on in \<^verbatim>\<open>db.DB\<close> and
  \<^verbatim>\<open>commands.Operations\<close>.  A store represents, table by table, a map \<open>content\<close> from keys to
  entities in a normal form; the laws hold for the names and entities it accepts.
\<close>

type_synonym contents = "string \<Rightarrow> string \<Rightarrow> entity option"

definition upd :: "string \<Rightarrow> string \<Rightarrow> entity option \<Rightarrow> contents \<Rightarrow> contents" where
  "upd t k v m = m(t := (m t)(k := v))"

lemma upd_apply: "upd t k v m t' k' = (if t' = t \<and> k' = k then v else m t' k')"
  by (simp add: upd_def)

locale kv_store =
  fixes inv :: "'s \<Rightarrow> bool"
    and tabs :: "'s \<Rightarrow> string set"
    and content :: "'s \<Rightarrow> contents"
    and norm :: "entity \<Rightarrow> entity"
    and okname :: "string \<Rightarrow> bool"
    and okent :: "entity \<Rightarrow> bool"
    and create :: "string \<Rightarrow> 's \<Rightarrow> goerr option \<times> 's"
    and put :: "string \<Rightarrow> entity \<Rightarrow> 's \<Rightarrow> goerr option \<times> 's"
    and del :: "string \<Rightarrow> string \<Rightarrow> 's \<Rightarrow> goerr option \<times> 's"
    and get :: "string \<Rightarrow> string \<Rightarrow> 's \<Rightarrow> goerr + entity"
  assumes create_law: "inv s \<Longrightarrow> okname t \<Longrightarrow>
      \<exists>s'. create t s = (None, s') \<and> inv s' \<and> tabs s' = insert t (tabs s) \<and> content s' = content s"
    and put_law: "inv s \<Longrightarrow> t \<in> tabs s \<Longrightarrow> okent e \<Longrightarrow>
      \<exists>s'. put t e s = (None, s') \<and> inv s' \<and> tabs s' = tabs s \<and> content s' = upd t (iKey e) (Some (norm e)) (content s)"
    and del_law: "inv s \<Longrightarrow> t \<in> tabs s \<Longrightarrow> okname k \<Longrightarrow>
      \<exists>r s'. del t k s = (r, s') \<and> (r = None \<or> r = Some ErrNotFound \<and> content s t k = None)
        \<and> inv s' \<and> tabs s' = tabs s \<and> content s' = upd t k None (content s)"
    and get_law: "inv s \<Longrightarrow> t \<in> tabs s \<Longrightarrow> okname k \<Longrightarrow>
      (case content s t k of None \<Rightarrow> get t k s = Inl ErrNotFound | Some e \<Rightarrow> \<exists>e'. get t k s = Inr e' \<and> norm e' = e)"
    and okent_key: "okent e \<Longrightarrow> okname (iKey e)"
    and norm_norm: "okent e \<Longrightarrow> norm (norm e) = norm e"
begin

text \<open>Read after write, and independence of the other keys.\<close>

lemma get_after_put:
  assumes "inv s" and "t \<in> tabs s" and "okent e" and "put t e s = (r, s')"
  shows "r = None \<and> (\<exists>e'. get t (iKey e) s' = Inr e' \<and> norm e' = norm e)"
proof -
  have s': "r = None" "inv s'" "t \<in> tabs s'" "content s' = upd t (iKey e) (Some (norm e)) (content s)"
    using put_law [OF assms(1-3)] assms(2,4) by auto
  then show ?thesis using get_law [OF s'(2,3) okent_key [OF assms(3)]] by (simp add: upd_apply)
qed

lemma get_after_del:
  assumes "inv s" and "t \<in> tabs s" and "okname k" and "del t k s = (r, s')"
  shows "get t k s' = Inl ErrNotFound"
proof -
  have s': "inv s'" "t \<in> tabs s'" "content s' = upd t k None (content s)"
    using del_law [OF assms(1-3)] assms(2,4) by auto
  then show ?thesis using get_law [OF s'(1,2) assms(3)] by (simp add: upd_apply)
qed

end

end
