(* ===== verification/Cache.thy ===== *)
theory Cache
  imports Interfaces
begin

text \<open>
  The in-memory LRU cache with time-to-live, \<^verbatim>\<open>src/internal/cache/mem_base.go\<close>.

  \<open>ll\<close> is the \<^verbatim>\<open>container/list\<close>, front (most recently used) first; each element
  carries the identity that the map \<open>items\<close> points to.  \<^verbatim>\<open>datetime.Now\<close> takes the
  next element of \<open>readings\<close>, or repeats the last reading when there is none left, so that time may
  pass between any two calls of an operation.  The mutex is held by every exported operation from start
  to end.  The callbacks \<^verbatim>\<open>fn\<close> work on a state \<open>'s\<close> outside the cache.
\<close>

section \<open>State\<close>

record 'v kv =
  kvKey :: string
  kvValue :: 'v
  expiresAt :: int

record 'v cache =
  ll :: "(nat \<times> 'v kv) list"
  items :: "(string \<times> nat) list"
  limitUnit :: int
  ttl :: int
  clock :: int
  readings :: "int list"
  nextElem :: nat

definition New_cache :: "int \<Rightarrow> int \<Rightarrow> int \<Rightarrow> int list \<Rightarrow> 'v cache" where
  "New_cache limit t clk rds =
     \<lparr>ll = [], items = [], limitUnit = limit, ttl = t, clock = clk, readings = rds, nextElem = 0\<rparr>"

definition Now :: "'v cache \<Rightarrow> int \<times> 'v cache" where
  "Now c = (case readings c of [] \<Rightarrow> (clock c, c) | t # ts \<Rightarrow> (t, c\<lparr>clock := t, readings := ts\<rparr>))"

section \<open>Helpers\<close>

definition expired :: "'v kv \<Rightarrow> 'v cache \<Rightarrow> bool \<times> 'v cache" where
  "expired ent c =
     (if ttl c \<le> 0 then (False, c)
      else case Now c of (now, c) \<Rightarrow> (\<not> now < expiresAt ent, c))"

definition touch :: "'v kv \<Rightarrow> 'v cache \<Rightarrow> 'v kv \<times> 'v cache" where
  "touch ent c =
     (if ttl c \<le> 0 then (ent, c)
      else case Now c of (now, c) \<Rightarrow> (ent\<lparr>expiresAt := now + ttl c\<rparr>, c))"

definition list_Remove :: "nat \<Rightarrow> 'v cache \<Rightarrow> 'v cache" where
  "list_Remove e c = c\<lparr>ll := filter (\<lambda>p. fst p \<noteq> e) (ll c)\<rparr>"

definition removeElement :: "nat \<Rightarrow> 'v cache \<Rightarrow> 'v cache" where
  "removeElement e c =
     (case map_of (ll c) e of
        None \<Rightarrow> c
      | Some ent \<Rightarrow> list_Remove e (c\<lparr>items := AList.delete (kvKey ent) (items c)\<rparr>))"

text \<open>Store a changed entry of element \<open>e\<close> and move it to the front.\<close>

definition put_front :: "nat \<Rightarrow> 'v kv \<Rightarrow> 'v cache \<Rightarrow> 'v cache" where
  "put_front e ent c = c\<lparr>ll := (e, ent) # filter (\<lambda>p. fst p \<noteq> e) (ll c)\<rparr>"

lemma expired_frame:
  "expired ent c = (b, c') \<Longrightarrow> ll c' = ll c \<and> items c' = items c \<and> limitUnit c' = limitUnit c
     \<and> ttl c' = ttl c \<and> nextElem c' = nextElem c"
  by (auto simp: expired_def Now_def split: if_splits prod.splits list.splits)

lemma touch_frame:
  "touch ent c = (ent', c') \<Longrightarrow> ll c' = ll c \<and> items c' = items c \<and> limitUnit c' = limitUnit c
     \<and> ttl c' = ttl c \<and> nextElem c' = nextElem c \<and> kvKey ent' = kvKey ent \<and> kvValue ent' = kvValue ent"
  by (auto simp: touch_def Now_def split: if_splits prod.splits list.splits)

lemma removeElement_ll: "ll (removeElement e c) = filter (\<lambda>p. fst p \<noteq> e) (ll c)"
proof (cases "map_of (ll c) e")
  case None
  then have "filter (\<lambda>p. fst p \<noteq> e) (ll c) = ll c"
    by (auto simp: map_of_eq_None_iff filter_id_conv)
  then show ?thesis using None by (simp add: removeElement_def)
next
  case (Some a)
  then show ?thesis by (simp add: removeElement_def list_Remove_def)
qed

lemma removeElement_shrinks:
  "ll c \<noteq> [] \<Longrightarrow> length (ll (removeElement (fst (last (ll c))) c)) < length (ll c)"
  by (simp add: removeElement_ll length_filter_less [of "last (ll c)"])

lemma sweep_shrinks:
  assumes "expired ent c = (d, c')" and "ll c \<noteq> []"
  shows "length (ll (removeElement (fst (last (ll c'))) c')) < length (ll c)"
  using removeElement_shrinks [of c'] expired_frame [OF assms(1)] assms(2) by simp

function sweep_loop :: "'v cache \<Rightarrow> 'v cache" where
  "sweep_loop c =
     (if ll c = [] then c
      else case expired (snd (last (ll c))) c of
             (dead, c') \<Rightarrow> if \<not> dead then c' else sweep_loop (removeElement (fst (last (ll c'))) c'))"
  by pat_completeness auto
termination
  by (relation "measure (\<lambda>c. length (ll c))")
    (auto dest!: sym [of _ "expired _ _"] intro: sweep_shrinks)

declare sweep_loop.simps [simp del]

definition maybeSweepExpiredTail :: "'v cache \<Rightarrow> 'v cache" where
  "maybeSweepExpiredTail c = (if ttl c \<le> 0 then c else sweep_loop c)"

definition evictLRU :: "'v cache \<Rightarrow> 'v cache" where
  "evictLRU c =
     (if ll c = [] then c
      else let back = last (ll c) in
           list_Remove (fst back) (c\<lparr>items := AList.delete (kvKey (snd back)) (items c)\<rparr>))"

lemma evictLRU_shrinks: "ll c \<noteq> [] \<Longrightarrow> length (ll (evictLRU c)) < length (ll c)"
  by (simp add: evictLRU_def list_Remove_def Let_def length_filter_less [of "last (ll c)"])

function evict_loop :: "'v cache \<Rightarrow> 'v cache" where
  "evict_loop c =
     (if limitUnit c > 0 \<and> int (length (ll c)) \<ge> limitUnit c then evict_loop (evictLRU c) else c)"
  by pat_completeness auto
termination
  by (relation "measure (\<lambda>c. length (ll c))") (auto intro!: evictLRU_shrinks)

declare evict_loop.simps [simp del]

definition cache_set :: "string \<Rightarrow> 'v \<Rightarrow> 'v cache \<Rightarrow> 'v cache" where
  "cache_set key v c =
     (let insert_new = (\<lambda>c.
        let c = maybeSweepExpiredTail c; c = evict_loop c in
        case touch \<lparr>kvKey = key, kvValue = v, expiresAt = 0\<rparr> c of
          (ent, c) \<Rightarrow> c\<lparr>ll := (nextElem c, ent) # ll c, items := AList.update key (nextElem c) (items c),
                        nextElem := nextElem c + 1\<rparr>) in
      case map_of (items c) key of
        Some e \<Rightarrow>
          (case map_of (ll c) e of
             Some ent \<Rightarrow> (case touch (ent\<lparr>kvValue := v\<rparr>) c of (ent, c) \<Rightarrow> put_front e ent c)
           | None \<Rightarrow> c)
      | None \<Rightarrow> insert_new c)"

section \<open>Exported operations\<close>

text \<open>\<^verbatim>\<open>PurgeExpired\<close>: one pass from the front; \<open>es\<close> are the elements still to visit.\<close>

fun purge_loop :: "(nat \<times> 'v kv) list \<Rightarrow> 'v cache \<Rightarrow> 'v cache" where
  "purge_loop [] c = c"
| "purge_loop ((e, ent) # es) c =
     (case expired ent c of
        (dead, c) \<Rightarrow> purge_loop es (if dead then removeElement e c else c))"

definition PurgeExpired :: "'v cache \<Rightarrow> 'v cache" where
  "PurgeExpired c = (if ttl c \<le> 0 then c else purge_loop (ll c) c)"

text \<open>The loop that \<^verbatim>\<open>StartCleanupLoop\<close> starts, over the ticks it gets before its context is cancelled, and the
  interval of its ticker in nanoseconds, which has to be positive.\<close>

definition cleanup_interval :: "int \<Rightarrow> int" where
  "cleanup_interval interval = (if interval \<le> 0 then 10 ^ 9 else interval)"

fun cleanup_loop :: "nat \<Rightarrow> 'v cache \<Rightarrow> 'v cache" where
  "cleanup_loop 0 c = c"
| "cleanup_loop (Suc ticks) c = cleanup_loop ticks (PurgeExpired c)"

definition SaveIfOk ::
  "string \<Rightarrow> 'v \<Rightarrow> ('s \<Rightarrow> goerr option \<times> 's) \<Rightarrow> 'v cache \<Rightarrow> 's \<Rightarrow> goerr option \<times> 'v cache \<times> 's" where
  "SaveIfOk key v fn c s =
     (let c = maybeSweepExpiredTail c in
      case fn s of
        (Some err, s) \<Rightarrow> (Some err, c, s)
      | (None, s) \<Rightarrow> (None, cache_set key v c, s))"

definition once_miss ::
  "string \<Rightarrow> ('s \<Rightarrow> (goerr + 'v) \<times> 's) \<Rightarrow> 'v cache \<Rightarrow> 's \<Rightarrow> (goerr + 'v) \<times> 'v cache \<times> 's" where
  "once_miss key fn c s =
     (case fn s of
        (Inl err, s) \<Rightarrow> (Inl err, c, s)
      | (Inr v, s) \<Rightarrow> (Inr v, cache_set key v c, s))"

definition Once ::
  "string \<Rightarrow> ('s \<Rightarrow> (goerr + 'v) \<times> 's) \<Rightarrow> 'v cache \<Rightarrow> 's \<Rightarrow> (goerr + 'v) \<times> 'v cache \<times> 's" where
  "Once key fn c s =
     (let c = maybeSweepExpiredTail c in
      case map_of (items c) key of
        None \<Rightarrow> once_miss key fn c s
      | Some e \<Rightarrow>
          (case map_of (ll c) e of
             None \<Rightarrow> (Inl (GoPanic ''nil element''), c, s)
           | Some ent \<Rightarrow>
               (case expired ent c of
                  (True, c) \<Rightarrow> once_miss key fn (removeElement e c) s
                | (False, c) \<Rightarrow>
                    (case touch ent c of (ent, c) \<Rightarrow> (Inr (kvValue ent), put_front e ent c, s)))))"

definition cache_Del :: "string \<Rightarrow> 'v cache \<Rightarrow> 'v cache" where
  "cache_Del key c = (case map_of (items c) key of None \<Rightarrow> c | Some e \<Rightarrow> removeElement e c)"

definition DelIfOk ::
  "string \<Rightarrow> ('s \<Rightarrow> goerr option \<times> 's) \<Rightarrow> 'v cache \<Rightarrow> 's \<Rightarrow> goerr option \<times> 'v cache \<times> 's" where
  "DelIfOk key fn c s =
     (let c = maybeSweepExpiredTail c in
      case fn s of
        (Some err, s) \<Rightarrow> (Some err, c, s)
      | (None, s) \<Rightarrow> (None, cache_Del key c, s))"

section \<open>Representation invariant\<close>

text \<open>
  The map points at exactly the list's elements, under their keys; keys and identities do not repeat;
  the capacity is respected.  \<open>kv_map\<close> and \<open>look\<close> are what the cache represents.
\<close>

definition id_map :: "(nat \<times> 'v kv) list \<Rightarrow> string \<Rightarrow> nat option" where
  "id_map xs = map_of (map (\<lambda>p. (kvKey (snd p), fst p)) xs)"

definition kv_map :: "(nat \<times> 'v kv) list \<Rightarrow> string \<Rightarrow> 'v kv option" where
  "kv_map xs = map_of (map (\<lambda>p. (kvKey (snd p), snd p)) xs)"

definition look :: "'v cache \<Rightarrow> string \<Rightarrow> 'v option" where
  "look c k = map_option kvValue (kv_map (ll c) k)"

definition cache_ok :: "'v cache \<Rightarrow> bool" where
  "cache_ok c \<longleftrightarrow> distinct (map fst (ll c)) \<and> distinct (map (\<lambda>p. kvKey (snd p)) (ll c))
     \<and> map_of (items c) = id_map (ll c) \<and> (\<forall>p\<in>set (ll c). fst p < nextElem c)"

definition cache_inv :: "'v cache \<Rightarrow> bool" where
  "cache_inv c \<longleftrightarrow> cache_ok c \<and> (limitUnit c > 0 \<longrightarrow> int (length (ll c)) \<le> limitUnit c)"

lemma kv_map_simps [simp]: "kv_map [] k = None"
  "kv_map (p # xs) k = (if k = kvKey (snd p) then Some (snd p) else kv_map xs k)"
  by (auto simp: kv_map_def)

lemma id_map_simps [simp]: "id_map [] k = None"
  "id_map (p # xs) k = (if k = kvKey (snd p) then Some (fst p) else id_map xs k)"
  by (auto simp: id_map_def)

lemma id_map_None: "id_map xs k = None \<longleftrightarrow> kv_map xs k = None"
  by (induction xs) auto

lemma kv_map_None_set: "kv_map xs k = None \<longleftrightarrow> k \<notin> (\<lambda>p. kvKey (snd p)) ` set xs"
  by (induction xs) auto

lemma id_map_lookup:
  assumes "id_map xs k = Some e" and "distinct (map fst xs)"
  shows "\<exists>ent. map_of xs e = Some ent \<and> kvKey ent = k \<and> kv_map xs k = Some ent"
  using assms
proof (induction xs)
  case (Cons p xs)
  show ?case
  proof (cases "k = kvKey (snd p)")
    case True
    then show ?thesis using Cons by (cases p) auto
  next
    case False
    then obtain ent where "map_of xs e = Some ent" "kvKey ent = k" "kv_map xs k = Some ent"
      using Cons by auto
    moreover have "e \<noteq> fst p"
    proof -
      have "e \<in> fst ` set xs" using calculation(1) by (metis domI dom_map_of_conv_image_fst)
      then show ?thesis using Cons.prems(2) by (metis distinct.simps(2) list.set_map list.simps(9))
    qed
    ultimately show ?thesis using False by (cases p) auto
  qed
qed simp

lemma filter_id_is_filter_key:
  assumes "map_of xs e = Some ent" and "distinct (map fst xs)" and "distinct (map (\<lambda>p. kvKey (snd p)) xs)"
  shows "filter (\<lambda>p. fst p \<noteq> e) xs = filter (\<lambda>p. kvKey (snd p) \<noteq> kvKey ent) xs"
proof (rule filter_cong [OF refl])
  fix p assume p: "p \<in> set xs"
  have m: "(e, ent) \<in> set xs" using assms(1) by (rule map_of_SomeD)
  show "(fst p \<noteq> e) = (kvKey (snd p) \<noteq> kvKey ent)"
    using p m assms(2,3) by (metis distinct_map eq_key_imp_eq_value fst_conv inj_onD prod.collapse snd_conv)
qed

lemma kv_map_filter: "kv_map (filter (\<lambda>p. kvKey (snd p) \<noteq> k) xs) = (kv_map xs)(k := None)"
  by (rule ext, induction xs) auto

lemma id_map_filter: "id_map (filter (\<lambda>p. kvKey (snd p) \<noteq> k) xs) = (id_map xs)(k := None)"
  by (rule ext, induction xs) auto

lemma removeElement_ok:
  assumes "cache_ok c" and "map_of (ll c) e = Some ent"
  shows "cache_ok (removeElement e c)"
    and "kv_map (ll (removeElement e c)) = (kv_map (ll c))(kvKey ent := None)"
proof -
  have f: "ll (removeElement e c) = filter (\<lambda>p. kvKey (snd p) \<noteq> kvKey ent) (ll c)"
    using assms by (simp add: removeElement_ll filter_id_is_filter_key cache_ok_def)
  show "kv_map (ll (removeElement e c)) = (kv_map (ll c))(kvKey ent := None)"
    unfolding f by (rule kv_map_filter)
  have i: "map_of (items (removeElement e c)) = id_map (ll (removeElement e c))"
    unfolding f id_map_filter using assms
    by (auto simp: removeElement_def list_Remove_def delete_conv' cache_ok_def)
  have n: "nextElem (removeElement e c) = nextElem c"
    by (auto simp: removeElement_def list_Remove_def split: option.splits)
  show "cache_ok (removeElement e c)"
    unfolding cache_ok_def i n unfolding f
    using assms(1) by (auto simp: cache_ok_def intro: distinct_map_filter)
qed

lemma removeElement_limits [simp]: "limitUnit (removeElement e c) = limitUnit c" "ttl (removeElement e c) = ttl c"
  "length (ll (removeElement e c)) \<le> length (ll c)"
  by (auto simp: removeElement_def list_Remove_def split: option.splits)

lemma filter_last:
  "distinct (map fst xs) \<Longrightarrow> xs \<noteq> [] \<Longrightarrow> filter (\<lambda>p. fst p \<noteq> fst (last xs)) xs = butlast xs"
  by (induction xs rule: rev_induct) (simp_all add: filter_id_conv, metis image_eqI)

lemma map_of_last:
  "distinct (map fst xs) \<Longrightarrow> xs \<noteq> [] \<Longrightarrow> map_of xs (fst (last xs)) = Some (snd (last xs))"
  by (metis last_in_set map_of_is_SomeI prod.collapse)

lemma evictLRU_removeElement: "cache_ok c \<Longrightarrow> ll c \<noteq> [] \<Longrightarrow> evictLRU c = removeElement (fst (last (ll c))) c"
  by (simp add: evictLRU_def removeElement_def Let_def cache_ok_def map_of_last)

lemma remove_last_ll: "cache_ok c \<Longrightarrow> ll c \<noteq> [] \<Longrightarrow> ll (removeElement (fst (last (ll c))) c) = butlast (ll c)"
  by (simp add: removeElement_ll filter_last cache_ok_def)

lemma expired_ok: "expired ent c = (b, c') \<Longrightarrow> cache_ok c' = cache_ok c"
  using expired_frame [of ent c b c'] by (simp add: cache_ok_def)

lemma touch_ok: "touch ent c = (ent', c') \<Longrightarrow> cache_ok c' = cache_ok c"
  using touch_frame [of ent c ent' c'] by (simp add: cache_ok_def)

lemma butlast_take_n: "take n (butlast xs) = take (min n (length xs - 1)) xs"
  by (simp add: butlast_conv_take take_take min_def)

text \<open>The sweep cuts a tail off the list, nothing else.\<close>

lemma sweep_loop_prefix:
  "cache_ok c \<Longrightarrow> cache_ok (sweep_loop c) \<and> (\<exists>n. ll (sweep_loop c) = take n (ll c))
     \<and> limitUnit (sweep_loop c) = limitUnit c \<and> ttl (sweep_loop c) = ttl c"
proof (induction c rule: sweep_loop.induct)
  case (1 c)
  show ?case
  proof (cases "ll c = []")
    case True
    then show ?thesis using 1(2) by (simp add: sweep_loop.simps [of c])
  next
    case False
    obtain d c1 where e: "expired (snd (last (ll c))) c = (d, c1)"
      by (cases "expired (snd (last (ll c))) c")
    note fr = expired_frame [OF e]
    have ok1: "cache_ok c1" using 1(2) expired_ok [OF e] by simp
    show ?thesis
    proof (cases d)
      case False
      then have "sweep_loop c = c1" using \<open>ll c \<noteq> []\<close> e by (simp add: sweep_loop.simps [of c])
      then show ?thesis using ok1 fr by (auto intro: exI [of _ "length (ll c)"])
    next
      case True
      let ?c2 = "removeElement (fst (last (ll c1))) c1"
      have s: "sweep_loop c = sweep_loop ?c2" using \<open>ll c \<noteq> []\<close> e True by (simp add: sweep_loop.simps [of c])
      have ne: "ll c1 \<noteq> []" using fr False by simp
      have "map_of (ll c1) (fst (last (ll c1))) = Some (snd (last (ll c1)))"
        using ok1 ne map_of_last by (auto simp: cache_ok_def)
      then have ok2: "cache_ok ?c2" by (rule removeElement_ok(1) [OF ok1])
      have b: "ll ?c2 = butlast (ll c)" using remove_last_ll [OF ok1 ne] fr by simp
      obtain n where n: "ll (sweep_loop ?c2) = take n (butlast (ll c))"
        using 1(1) [OF False e [symmetric] _ ok2] True b by (auto simp: e)
      show ?thesis
        using 1(1) [OF False e [symmetric] _ ok2] True n fr unfolding s by (auto simp: butlast_take_n)
    qed
  qed
qed

lemma maybeSweep_prefix:
  "cache_ok c \<Longrightarrow> cache_ok (maybeSweepExpiredTail c) \<and> (\<exists>n. ll (maybeSweepExpiredTail c) = take n (ll c))
     \<and> limitUnit (maybeSweepExpiredTail c) = limitUnit c \<and> ttl (maybeSweepExpiredTail c) = ttl c"
  using sweep_loop_prefix [of c]
  by (auto simp: maybeSweepExpiredTail_def intro: exI [of _ "length (ll c)"])

lemma evict_loop_take:
  "cache_ok c \<Longrightarrow> cache_ok (evict_loop c) \<and> limitUnit (evict_loop c) = limitUnit c \<and> ttl (evict_loop c) = ttl c
     \<and> ll (evict_loop c) = (if limitUnit c > 0 \<and> int (length (ll c)) \<ge> limitUnit c
           then take (nat (limitUnit c - 1)) (ll c) else ll c)"
proof (induction c rule: evict_loop.induct)
  case (1 c)
  show ?case
  proof (cases "limitUnit c > 0 \<and> int (length (ll c)) \<ge> limitUnit c")
    case False
    then show ?thesis using 1 by (auto simp: evict_loop.simps [of c])
  next
    case True
    then have ne: "ll c \<noteq> []" by auto
    let ?d = "evictLRU c"
    have d: "?d = removeElement (fst (last (ll c))) c" by (rule evictLRU_removeElement [OF 1(2) ne])
    have "map_of (ll c) (fst (last (ll c))) = Some (snd (last (ll c)))"
      using 1(2) ne by (intro map_of_last) (auto simp: cache_ok_def)
    then have ok: "cache_ok ?d" unfolding d by (rule removeElement_ok(1) [OF 1(2)])
    have b: "ll ?d = butlast (ll c)" unfolding d by (rule remove_last_ll [OF 1(2) ne])
    have l: "limitUnit ?d = limitUnit c" "ttl ?d = ttl c" unfolding d by simp_all
    have s: "evict_loop c = evict_loop ?d" using True by (simp add: evict_loop.simps [of c])
    note IH = 1(1) [OF True ok]
    have "ll (evict_loop ?d) = take (nat (limitUnit c - 1)) (ll c)"
    proof (cases "int (length (butlast (ll c))) \<ge> limitUnit c")
      case t: True
      then have "nat (limitUnit c - 1) \<le> length (ll c) - 1" by simp
      then show ?thesis using IH t True by (simp add: b l butlast_take_n min_def)
    next
      case f: False
      then have "length (ll c) - 1 = nat (limitUnit c - 1)" using True by auto
      then show ?thesis using IH f by (simp add: b l butlast_conv_take)
    qed
    then show ?thesis using IH True s l by simp
  qed
qed

lemma take_maps:
  "kv_map (take n xs) \<subseteq>\<^sub>m kv_map xs" if "distinct (map (\<lambda>p. kvKey (snd p)) xs)"
  using that
proof (induction xs arbitrary: n)
  case (Cons p xs)
  have "kv_map xs (kvKey (snd p)) = None"
    using Cons.prems by (simp add: kv_map_None_set)
  then show ?case
    using Cons by (cases n) (auto simp: map_le_def, metis domI)
qed simp

lemma kv_map_None_take: "kv_map xs k = None \<Longrightarrow> kv_map (take n xs) k = None"
  by (auto simp: kv_map_None_set dest: in_set_takeD)

lemma sweep_look:
  assumes "cache_inv c"
  shows "cache_inv (maybeSweepExpiredTail c)" and "look (maybeSweepExpiredTail c) \<subseteq>\<^sub>m look c"
    and "limitUnit (maybeSweepExpiredTail c) = limitUnit c"
proof -
  obtain n where n: "ll (maybeSweepExpiredTail c) = take n (ll c)" and m: "cache_ok (maybeSweepExpiredTail c)"
     "limitUnit (maybeSweepExpiredTail c) = limitUnit c"
    using maybeSweep_prefix [of c] assms by (auto simp: cache_inv_def)
  show "cache_inv (maybeSweepExpiredTail c)"
    using m n assms by (auto simp: cache_inv_def)
  show "limitUnit (maybeSweepExpiredTail c) = limitUnit c" by (rule m(2))
  have "kv_map (take n (ll c)) \<subseteq>\<^sub>m kv_map (ll c)"
    using assms by (intro take_maps) (simp add: cache_inv_def cache_ok_def)
  then show "look (maybeSweepExpiredTail c) \<subseteq>\<^sub>m look c"
    unfolding look_def n by (auto simp: map_le_def dom_def)
qed

lemma filter_id_length:
  "distinct (map fst xs) \<Longrightarrow> e \<in> fst ` set xs \<Longrightarrow> length (filter (\<lambda>p. fst p \<noteq> e) xs) = length xs - 1"
proof (induction xs)
  case (Cons p xs)
  show ?case
  proof (cases "fst p = e")
    case True
    then have "filter (\<lambda>p. fst p \<noteq> e) xs = xs" using Cons.prems(1) by (auto simp: filter_id_conv image_iff)
    then show ?thesis using True by simp
  next
    case False
    then have "e \<in> fst ` set xs" using Cons.prems(2) by auto
    then have "length (filter (\<lambda>p. fst p \<noteq> e) xs) = length xs - 1" "0 < length xs"
      using Cons by (auto dest: length_pos_if_in_set)
    then show ?thesis using False by simp
  qed
qed simp

text \<open>Writing a changed entry to the front.\<close>

lemma put_front_ok:
  assumes ok: "cache_ok c" and e: "map_of (ll c) e = Some ent" and k: "kvKey ent' = kvKey ent"
  shows "cache_ok (put_front e ent' c)"
    and "kv_map (ll (put_front e ent' c)) = (kv_map (ll c))(kvKey ent := Some ent')"
    and "length (ll (put_front e ent' c)) = length (ll c)"
proof -
  have f: "filter (\<lambda>p. fst p \<noteq> e) (ll c) = filter (\<lambda>p. kvKey (snd p) \<noteq> kvKey ent) (ll c)"
    using assms by (simp add: filter_id_is_filter_key cache_ok_def)
  have l: "ll (put_front e ent' c) = (e, ent') # filter (\<lambda>p. kvKey (snd p) \<noteq> kvKey ent) (ll c)"
    by (simp add: put_front_def f)
  have m: "(e, ent) \<in> set (ll c)" using e by (rule map_of_SomeD)
  show "kv_map (ll (put_front e ent' c)) = (kv_map (ll c))(kvKey ent := Some ent')"
    unfolding l by (rule ext) (simp add: kv_map_filter k)
  have "id_map (ll c) (kvKey ent) = Some e"
    using m ok by (auto simp: id_map_def cache_ok_def comp_def distinct_map intro!: map_of_is_SomeI
        intro: rev_image_eqI)
  then have "id_map (ll (put_front e ent' c)) = id_map (ll c)"
    unfolding l by (intro ext) (simp add: id_map_filter k)
  moreover have "e \<notin> fst ` set (filter (\<lambda>p. kvKey (snd p) \<noteq> kvKey ent) (ll c))"
    unfolding f [symmetric] by auto
  ultimately show "cache_ok (put_front e ent' c)"
    using ok m unfolding cache_ok_def l by (auto simp: put_front_def k intro: distinct_map_filter)
  have "length (filter (\<lambda>p. fst p \<noteq> e) (ll c)) = length (ll c) - 1"
    using ok m by (intro filter_id_length) (auto simp: cache_ok_def image_iff intro: bexI [of _ "(e, ent)"])
  then show "length (ll (put_front e ent' c)) = length (ll c)"
    using m by (auto simp: put_front_def dest: length_pos_if_in_set)
qed

lemma look_le: "kv_map xs \<subseteq>\<^sub>m kv_map ys \<Longrightarrow> map_option kvValue \<circ> kv_map xs \<subseteq>\<^sub>m map_option kvValue \<circ> kv_map ys"
  by (auto simp: map_le_def dom_def)

lemma look_alt: "look c = map_option kvValue \<circ> kv_map (ll c)"
  by (auto simp: look_def)

lemma insert_front_ok:
  assumes "cache_ok c" and "kv_map (ll c) (kvKey ent) = None"
  shows "cache_ok (c\<lparr>ll := (nextElem c, ent) # ll c, items := AList.update (kvKey ent) (nextElem c) (items c),
           nextElem := nextElem c + 1\<rparr>)"
proof -
  have "nextElem c \<notin> fst ` set (ll c)" using assms(1) by (force simp: cache_ok_def)
  moreover have "map_of (AList.update (kvKey ent) (nextElem c) (items c)) = id_map ((nextElem c, ent) # ll c)"
    using assms(1) by (intro ext) (simp add: update_conv' cache_ok_def)
  ultimately show ?thesis
    using assms by (auto simp: cache_ok_def kv_map_None_set less_SucI)
qed

lemma cache_set_inv:
  assumes inv: "cache_inv c"
  shows "cache_inv (cache_set k v c) \<and> look (cache_set k v c) \<subseteq>\<^sub>m (look c)(k \<mapsto> v) \<and> look (cache_set k v c) k = Some v
    \<and> limitUnit (cache_set k v c) = limitUnit c"
proof (cases "map_of (items c) k")
  case (Some e)
  have ok: "cache_ok c" using inv by (simp add: cache_inv_def)
  obtain ent where ent: "map_of (ll c) e = Some ent" "kvKey ent = k" "kv_map (ll c) k = Some ent"
    using id_map_lookup [of "ll c" k e] Some ok by (auto simp: cache_ok_def)
  obtain ent' c1 where t: "touch (ent\<lparr>kvValue := v\<rparr>) c = (ent', c1)"
    by (cases "touch (ent\<lparr>kvValue := v\<rparr>) c")
  note fr = touch_frame [OF t]
  have c': "cache_set k v c = put_front e ent' c1"
    using Some ent(1) t by (simp add: cache_set_def Let_def)
  have ok1: "cache_ok c1" and m1: "map_of (ll c1) e = Some ent" and k': "kvKey ent' = kvKey ent"
    using ok touch_ok [OF t] fr ent by simp_all
  note p = put_front_ok [OF ok1 m1 k']
  have l: "limitUnit (put_front e ent' c1) = limitUnit c" using fr by (simp add: put_front_def)
  show ?thesis
    unfolding c' cache_inv_def look_alt p(2) l p(3) using p(1) fr ent inv
    by (auto simp: cache_inv_def map_le_def)
next
  case None
  have ok: "cache_ok c" using inv by (simp add: cache_inv_def)
  let ?c1 = "maybeSweepExpiredTail c" and ?c2 = "evict_loop (maybeSweepExpiredTail c)"
  obtain n where s: "cache_ok ?c1" "ll ?c1 = take n (ll c)" "limitUnit ?c1 = limitUnit c"
    using maybeSweep_prefix [OF ok] by blast
  note e = evict_loop_take [OF s(1)]
  obtain m where m: "ll ?c2 = take m (ll c)"
    using e s(2) by (auto simp: take_take split: if_splits)
  obtain ent c3 where t: "touch \<lparr>kvKey = k, kvValue = v, expiresAt = 0\<rparr> ?c2 = (ent, c3)"
    by (cases "touch \<lparr>kvKey = k, kvValue = v, expiresAt = 0\<rparr> ?c2")
  note fr = touch_frame [OF t]
  let ?c4 = "c3\<lparr>ll := (nextElem c3, ent) # ll c3, items := AList.update k (nextElem c3) (items c3), nextElem := nextElem c3 + 1\<rparr>"
  have c': "cache_set k v c = ?c4" using None t by (simp add: cache_set_def Let_def)
  have kn: "kv_map (ll c) k = None" using None ok by (simp add: cache_ok_def id_map_None)
  have k3: "kv_map (ll c3) k = None" using fr m kn by (simp add: kv_map_None_take)
  have "cache_ok c3" using e touch_ok [OF t] by simp
  then have ok4: "cache_ok ?c4" using insert_front_ok [of c3 ent] k3 fr by simp
  have "kv_map (ll c3) \<subseteq>\<^sub>m kv_map (ll c)"
    using fr m ok by (simp add: take_maps cache_ok_def)
  then have le: "look ?c4 \<subseteq>\<^sub>m (look c)(k \<mapsto> v)"
    using fr by (auto simp: look_def map_le_def dom_def)
  have "limitUnit c > 0 \<Longrightarrow> int (length (ll c3)) + 1 \<le> limitUnit c"
    using e s(3) fr by (auto split: if_splits)
  then show ?thesis
    unfolding c' using ok4 le fr e s(3) by (auto simp: cache_inv_def look_def)
qed

lemma cache_Del_law:
  assumes "cache_inv c"
  shows "cache_inv (cache_Del k c) \<and> look (cache_Del k c) = (look c)(k := None) \<and> limitUnit (cache_Del k c) = limitUnit c"
proof (cases "map_of (items c) k")
  case None
  then have "kv_map (ll c) k = None" using assms by (simp add: cache_inv_def cache_ok_def id_map_None)
  then show ?thesis using assms None by (auto simp: cache_Del_def look_def)
next
  case (Some e)
  have ok: "cache_ok c" using assms by (simp add: cache_inv_def)
  obtain ent where ent: "map_of (ll c) e = Some ent" "kvKey ent = k"
    using id_map_lookup [of "ll c" k e] Some ok by (auto simp: cache_ok_def)
  note r = removeElement_ok [OF ok ent(1)]
  have "length (ll (removeElement e c)) \<le> length (ll c)" by simp
  then have "cache_inv (removeElement e c)"
    using r(1) assms by (auto simp: cache_inv_def simp del: removeElement_limits(3))
  then show ?thesis using Some r(2) ent(2) by (auto simp: cache_Del_def look_def)
qed

lemma expired_inv: "expired ent c = (b, c') \<Longrightarrow> cache_inv c' = cache_inv c \<and> look c' = look c"
  using expired_frame [of ent c b c'] expired_ok [of ent c b c'] by (auto simp: cache_inv_def look_def)

lemma once_miss_law:
  assumes "cache_inv c" and "once_miss k fn c s = (r, c', s')"
  shows "cache_inv c' \<and> fn s = (r, s') \<and> (\<forall>err. r = Inl err \<longrightarrow> c' = c)
     \<and> (\<forall>v. r = Inr v \<longrightarrow> look c' \<subseteq>\<^sub>m (look c)(k \<mapsto> v) \<and> look c' k = Some v) \<and> limitUnit c' = limitUnit c"
  using assms cache_set_inv [OF assms(1), of k]
  by (auto simp: once_miss_def split: prod.splits sum.splits)


lemma sweep_maps:
  assumes "cache_inv c" and "m \<subseteq>\<^sub>m look (maybeSweepExpiredTail c)"
  shows "m \<subseteq>\<^sub>m look c"
  using assms sweep_look(2) [OF assms(1)] by (blast intro: map_le_trans)

lemma sweep_maps_upd:
  assumes "cache_inv c" and "m \<subseteq>\<^sub>m (look (maybeSweepExpiredTail c))(k := x)"
  shows "m \<subseteq>\<^sub>m (look c)(k := x)"
proof -
  have "(look (maybeSweepExpiredTail c))(k := x) \<subseteq>\<^sub>m (look c)(k := x)"
    using sweep_look(2) [OF assms(1)] by (auto simp: map_le_def dom_def)
  then show ?thesis using assms(2) by (blast intro: map_le_trans)
qed

lemma SaveIfOk_law:
  assumes inv: "cache_inv c" and s: "SaveIfOk k v fn c s = (err, c', s')"
  shows "cache_inv c' \<and> fn s = (err, s') \<and> (err \<noteq> None \<longrightarrow> look c' \<subseteq>\<^sub>m look c)
      \<and> (err = None \<longrightarrow> look c' \<subseteq>\<^sub>m (look c)(k \<mapsto> v) \<and> look c' k = Some v) \<and> limitUnit c' = limitUnit c"
proof -
  let ?c = "maybeSweepExpiredTail c"
  note sw = sweep_look [OF inv] and cs = cache_set_inv [OF sweep_look(1) [OF inv], of k v]
  obtain e1 s1 where f: "fn s = (e1, s1)" by (cases "fn s")
  show ?thesis
  proof (cases e1)
    case None
    then have "err = None" "c' = cache_set k v ?c" "s' = s1"
      using s f by (simp_all add: SaveIfOk_def Let_def)
    then show ?thesis using cs sw f None sweep_maps_upd [OF inv] by auto
  next
    case (Some e)
    then have "err = Some e" "c' = ?c" "s' = s1"
      using s f by (simp_all add: SaveIfOk_def Let_def)
    then show ?thesis using sw f Some by auto
  qed
qed

lemma DelIfOk_law:
  assumes inv: "cache_inv c" and s: "DelIfOk k fn c s = (err, c', s')"
  shows "cache_inv c' \<and> fn s = (err, s') \<and> (err \<noteq> None \<longrightarrow> look c' \<subseteq>\<^sub>m look c)
      \<and> (err = None \<longrightarrow> look c' \<subseteq>\<^sub>m (look c)(k := None)) \<and> limitUnit c' = limitUnit c"
proof -
  let ?c = "maybeSweepExpiredTail c"
  note sw = sweep_look [OF inv] and cd = cache_Del_law [OF sweep_look(1) [OF inv], of k]
  obtain e1 s1 where f: "fn s = (e1, s1)" by (cases "fn s")
  show ?thesis
  proof (cases e1)
    case None
    then have "err = None" "c' = cache_Del k ?c" "s' = s1"
      using s f by (simp_all add: DelIfOk_def Let_def)
    then show ?thesis using cd sw f None sweep_maps_upd [OF inv, of "look c'" k None] by auto
  next
    case (Some e)
    then have "err = Some e" "c' = ?c" "s' = s1"
      using s f by (simp_all add: DelIfOk_def Let_def)
    then show ?thesis using sw f Some by auto
  qed
qed

text \<open>\<^verbatim>\<open>Once\<close>: a hit, or a miss that runs the callback.\<close>

lemma Once_law:
  assumes inv: "cache_inv c" and o: "Once k fn c s = (r, c', s')"
  shows "cache_inv c' \<and> limitUnit c' = limitUnit c \<and>
     (s' = s \<and> look c' \<subseteq>\<^sub>m look c \<and> look c' k = look c k \<and> (\<exists>v. r = Inr v \<and> look c k = Some v)
        \<or> fn s = (r, s') \<and> (\<forall>err. r = Inl err \<longrightarrow> look c' \<subseteq>\<^sub>m look c)
          \<and> (\<forall>v. r = Inr v \<longrightarrow> look c' \<subseteq>\<^sub>m (look c)(k \<mapsto> v) \<and> look c' k = Some v))"
proof -
  let ?c = "maybeSweepExpiredTail c"
  note sw = sweep_look [OF inv]
  have ok: "cache_ok ?c" using sw(1) by (simp add: cache_inv_def)
  have miss: ?thesis if d: "cache_inv d" "look d \<subseteq>\<^sub>m look ?c" "limitUnit d = limitUnit c" "once_miss k fn d s = (r, c', s')" for d
  proof -
    have "look d \<subseteq>\<^sub>m look c" using sweep_maps [OF inv d(2)] .
    moreover from this have "(look d)(k \<mapsto> v) \<subseteq>\<^sub>m (look c)(k \<mapsto> v)" for v
      by (auto simp: map_le_def dom_def)
    ultimately show ?thesis
      using once_miss_law [OF d(1,4)] d(3) by (auto intro: map_le_trans)
  qed
  show ?thesis
  proof (cases "map_of (items ?c) k")
    case None
    then show ?thesis using o sw by (intro miss [of ?c]) (simp_all add: Once_def Let_def)
  next
    case (Some e)
    obtain ent where ent: "map_of (ll ?c) e = Some ent" "kvKey ent = k" "kv_map (ll ?c) k = Some ent"
      using id_map_lookup [of "ll ?c" k e] Some ok by (auto simp: cache_ok_def)
    obtain dead c1 where x: "expired ent ?c = (dead, c1)" by (cases "expired ent ?c")
    have inv1: "cache_inv c1" "look c1 = look ?c" using expired_inv [OF x] sw by simp_all
    have fr: "ll c1 = ll ?c" "items c1 = items ?c" "limitUnit c1 = limitUnit c" using expired_frame [OF x] sw(3) by simp_all
    show ?thesis
    proof (cases dead)
      case True
      have "removeElement e c1 = cache_Del k c1" using Some fr by (simp add: cache_Del_def)
      then show ?thesis
        using o Some ent True x cache_Del_law [OF inv1(1), of k] inv1 fr
        by (intro miss [of "removeElement e c1"]) (auto simp: Once_def Let_def map_le_def)
    next
      case False
      obtain ent' c2 where t: "touch ent c1 = (ent', c2)" by (cases "touch ent c1")
      note tf = touch_frame [OF t]
      have res: "r = Inr (kvValue ent)" "c' = put_front e ent' c2" "s' = s"
        using o Some ent False x t tf by (simp_all add: Once_def Let_def)
      have "cache_ok c2" "map_of (ll c2) e = Some ent" "kvKey ent' = kvKey ent"
        using inv1 touch_ok [OF t] tf fr ent by (simp_all add: cache_inv_def)
      note p = put_front_ok [OF this]
      have lu: "limitUnit (put_front e ent' c2) = limitUnit c" using tf fr by (simp add: put_front_def)
      have eq: "look c' = look ?c"
        unfolding res look_alt p(2) using tf fr ent by auto
      have lk: "look ?c k = Some (kvValue ent)" using ent by (simp add: look_def)
      then have "look c k = Some (kvValue ent)" using sw(2) by (metis domI map_le_def)
      moreover have "cache_inv c'"
        using p(1,3) sw(1,3) fr tf lu unfolding res by (auto simp: cache_inv_def)
      ultimately show ?thesis using eq sw(2) lk res lu by auto
    qed
  qed
qed

text \<open>The cache fulfils the contract.\<close>

interpretation mem: cache_contract cache_inv look SaveIfOk Once cache_Del DelIfOk
proof (unfold_locales, goal_cases)
  case (1 c k v fn s err c' s')
  show ?case using SaveIfOk_law [OF 1] by simp
next
  case (2 c k gn s r c' s')
  show ?case using Once_law [OF 2] by auto
next
  case (3 c k)
  show ?case using cache_Del_law [OF 3, of k] by simp
next
  case (4 c k fn s err c' s')
  show ?case using DelIfOk_law [OF 4] by simp
qed


section \<open>Purging\<close>

lemma purge_loop_inv:
  "cache_inv c \<Longrightarrow> cache_inv (purge_loop es c) \<and> look (purge_loop es c) \<subseteq>\<^sub>m look c \<and> limitUnit (purge_loop es c) = limitUnit c"
proof (induction es arbitrary: c)
  case (Cons p es)
  obtain e ent where p: "p = (e, ent)" by (cases p)
  obtain d c1 where x: "expired ent c = (d, c1)" by (cases "expired ent c")
  have i1: "cache_inv c1" "look c1 = look c" "limitUnit c1 = limitUnit c"
    using expired_inv [OF x] expired_frame [OF x] Cons.prems by simp_all
  let ?c2 = "if d then removeElement e c1 else c1"
  have i2: "cache_inv ?c2 \<and> look ?c2 \<subseteq>\<^sub>m look c \<and> limitUnit ?c2 = limitUnit c"
  proof (cases "d \<and> map_of (ll c1) e \<noteq> None")
    case True
    then obtain en where en: "map_of (ll c1) e = Some en" by auto
    have ok: "cache_ok c1" using i1 by (simp add: cache_inv_def)
    have "id_map (ll c1) (kvKey en) = Some e"
      using map_of_SomeD [OF en] ok by (auto simp: id_map_def cache_ok_def comp_def distinct_map intro!: map_of_is_SomeI
          intro: rev_image_eqI)
    then have "removeElement e c1 = cache_Del (kvKey en) c1" using ok by (simp add: cache_Del_def cache_ok_def)
    then show ?thesis using True cache_Del_law [OF i1(1), of "kvKey en"] i1 by (auto simp: map_le_def)
  next
    case False
    then have "?c2 = c1" by (auto simp: removeElement_def)
    then show ?thesis using i1 by simp
  qed
  have "purge_loop (p # es) c = purge_loop es ?c2" by (simp add: p x)
  then show ?case using Cons.IH [of ?c2] i2 by (auto intro: map_le_trans)
qed simp

lemma expired_const:
  "readings c = [] \<Longrightarrow> ttl c > 0 \<Longrightarrow> expired ent c = (\<not> clock c < expiresAt ent, c)"
  by (simp add: expired_def Now_def)

lemma removeElement_frame [simp]: "readings (removeElement e c) = readings c" "clock (removeElement e c) = clock c"
  by (auto simp: removeElement_def list_Remove_def split: option.splits)

lemma purge_loop_const:
  assumes "readings c = []" and "ttl c > 0" and "distinct (map fst (as @ es))"
    and "ll c = as @ es"
  shows "ll (purge_loop es c) = as @ filter (\<lambda>p. clock c < expiresAt (snd p)) es"
  using assms
proof (induction es arbitrary: c as)
  case (Cons p es)
  obtain e ent where p: "p = (e, ent)" by (cases p)
  have x: "expired ent c = (\<not> clock c < expiresAt ent, c)" using Cons.prems by (intro expired_const)
  show ?case
  proof (cases "clock c < expiresAt ent")
    case True
    then show ?thesis using Cons.IH [of c "as @ [p]"] Cons.prems by (simp add: p x)
  next
    case False
    have a: "e \<notin> fst ` set as" "e \<notin> fst ` set es" using Cons.prems(3) p by auto
    then have "filter (\<lambda>q. fst q \<noteq> e) as = as" "filter (\<lambda>q. fst q \<noteq> e) es = es"
      by (auto simp: filter_id_conv image_iff)
    then have l: "ll (removeElement e c) = as @ es"
      unfolding removeElement_ll Cons.prems(4) p by simp
    have "ll (purge_loop es (removeElement e c)) = as @ filter (\<lambda>p. clock (removeElement e c) < expiresAt (snd p)) es"
      using Cons.prems l by (intro Cons.IH) auto
    then show ?thesis using False by (simp add: p x)
  qed
qed simp

text \<open>The readings of the clock an operation may still take.\<close>

definition clock_times :: "'v cache \<Rightarrow> int set" where
  "clock_times c = insert (clock c) (set (readings c))"

lemma expired_times: "expired ent c = (b, c') \<Longrightarrow> clock_times c' \<subseteq> clock_times c
    \<and> (ttl c > 0 \<longrightarrow> (\<exists>now\<in>clock_times c. b \<longleftrightarrow> \<not> now < expiresAt ent))"
  by (auto simp: expired_def Now_def clock_times_def split: if_splits list.splits)

lemma removeElement_times [simp]: "clock_times (removeElement e c) = clock_times c"
  by (simp add: clock_times_def)

lemma sweep_loop_times: "clock_times (sweep_loop c) \<subseteq> clock_times c"
proof (induction c rule: sweep_loop.induct)
  case (1 c)
  obtain d c1 where e: "expired (snd (last (ll c))) c = (d, c1)"
    by (cases "expired (snd (last (ll c))) c")
  have "ll c \<noteq> [] \<Longrightarrow> d \<Longrightarrow> clock_times (sweep_loop (removeElement (fst (last (ll c1))) c1)) \<subseteq> clock_times c1"
    using 1 [OF _ e [symmetric], of] by (simp add: e)
  then show ?case
    using expired_times [OF e] by (auto simp: sweep_loop.simps [of c] e)
qed

lemma maybeSweep_times: "clock_times (maybeSweepExpiredTail c) \<subseteq> clock_times c"
  using sweep_loop_times [of c] by (auto simp: maybeSweepExpiredTail_def)

section \<open>Reachable caches\<close>

text \<open>One exported operation.  A callback touches the cache through its result only, so that a callback on
  the one-element state stands for any.\<close>

inductive cache_step :: "'v cache \<Rightarrow> 'v cache \<Rightarrow> bool" where
  purge: "cache_step c (PurgeExpired c)"
| save: "SaveIfOk k v fn c () = (err, c', s') \<Longrightarrow> cache_step c c'"
| once: "Once k gn c () = (r, c', s') \<Longrightarrow> cache_step c c'"
| del: "cache_step c (cache_Del k c)"
| delif: "DelIfOk k fn c () = (err, c', s') \<Longrightarrow> cache_step c c'"

lemma cache_step_inv:
  assumes "cache_step c c'" and "cache_inv c"
  shows "cache_inv c' \<and> limitUnit c' = limitUnit c"
  using assms
proof (cases rule: cache_step.cases)
  case purge
  then show ?thesis using assms(2) purge_loop_inv [of c "ll c"] by (simp add: PurgeExpired_def)
next
  case (save k v fn err s')
  then show ?thesis using SaveIfOk_law [OF assms(2) save] by simp
next
  case (once k gn r s')
  then show ?thesis using Once_law [OF assms(2) once] by simp
next
  case (del k)
  then show ?thesis using cache_Del_law [OF assms(2), of k] by simp
next
  case (delif k fn err s')
  then show ?thesis using DelIfOk_law [OF assms(2) delif] by simp
qed

lemma cleanup_steps: "cache_step\<^sup>*\<^sup>* c (cleanup_loop ticks c)"
  by (induction ticks arbitrary: c) (auto intro: converse_rtranclp_into_rtranclp cache_step.purge)

lemma cleanup_interval_pos: "0 < cleanup_interval interval"
  by (simp add: cleanup_interval_def)

lemma cache_steps_inv:
  "cache_step\<^sup>*\<^sup>* c c' \<Longrightarrow> cache_inv c \<Longrightarrow> cache_inv c' \<and> limitUnit c' = limitUnit c"
  by (induction rule: rtranclp_induct) (use cache_step_inv in fastforce)+

section \<open>Properties\<close>

text \<open>C12. In every cache reachable from an empty one by any sequence of exported operations, with any
  callbacks and any passing of time, the map points at exactly the elements of the list, no key occurs
  twice, and the number of entries does not exceed a positive limit.\<close>

theorem cache_reachable_consistent:
  assumes "cache_step\<^sup>*\<^sup>* (New_cache limit t clk rds) c"
  shows "distinct (map (\<lambda>p. kvKey (snd p)) (ll c))
     \<and> (\<forall>k. map_of (items c) k = id_map (ll c) k)
     \<and> (limit > 0 \<longrightarrow> int (length (ll c)) \<le> limit)"
proof -
  have "cache_inv (New_cache limit t clk rds)"
    by (auto simp: cache_inv_def cache_ok_def New_cache_def id_map_def)
  then have "cache_inv c \<and> limitUnit c = limit"
    using cache_steps_inv [OF assms] by (simp add: New_cache_def)
  then show ?thesis by (auto simp: cache_inv_def cache_ok_def)
qed

theorem cache_reachable_consistent_witness:
  "\<exists>c. cache_step\<^sup>*\<^sup>* (New_cache 1 0 0 []) c \<and> length (ll c) = 1 \<and> look c ''b'' = Some (2 :: nat)"
proof -
  let ?fn = "\<lambda>s :: unit. (None, s)"
  let ?c0 = "New_cache 1 0 0 [] :: nat cache"
  obtain c1 s1 where 1: "SaveIfOk ''a'' 5 ?fn ?c0 () = (None, c1, s1)"
    by (simp add: SaveIfOk_def Let_def)
  obtain c2 s2 where 2: "SaveIfOk ''b'' 2 ?fn c1 () = (None, c2, s2)"
    by (simp add: SaveIfOk_def Let_def)
  have steps: "cache_step\<^sup>*\<^sup>* ?c0 c2"
    using rtranclp.rtrancl_refl [of cache_step ?c0] cache_step.save [OF 1] cache_step.save [OF 2]
    by (metis (no_types) rtranclp.rtrancl_into_rtrancl)
  note con = cache_reachable_consistent [OF steps]
  have i0: "cache_inv ?c0" by (auto simp: cache_inv_def cache_ok_def New_cache_def id_map_def)
  have i1: "cache_inv c1" by (rule conjunct1 [OF SaveIfOk_law [OF i0 1]])
  have "look c2 ''b'' = Some 2"
    using SaveIfOk_law [OF i1 2] by (simp only: simp_thms)
  moreover from this have "ll c2 \<noteq> []" by (auto simp: look_def)
  then have "length (ll c2) = 1" using con by (cases "ll c2") auto
  ultimately show ?thesis using steps by blast
qed

text \<open>Once: on a hit the cached value is returned and the callback is not run; otherwise the callback
  runs exactly once, its error is returned and nothing is stored, or its value is returned and stored.
  No other key gains an entry or changes its value.\<close>

theorem once_hit_or_miss:
  assumes "cache_inv c" and "Once k fn c s = (r, c', s')"
  shows "(s' = s \<and> look c' \<subseteq>\<^sub>m look c \<and> (\<exists>v. r = Inr v \<and> look c k = Some v))
     \<or> (fn s = (r, s') \<and> (case r of Inl err \<Rightarrow> look c' \<subseteq>\<^sub>m look c
         | Inr v \<Rightarrow> look c' \<subseteq>\<^sub>m (look c)(k \<mapsto> v) \<and> look c' k = Some v))"
  using Once_law [OF assms] by (cases r) auto

theorem once_hit_or_miss_witness:
  "\<exists>c'. Once ''k'' (\<lambda>n. (Inr n, n + 1)) (New_cache 2 0 0 []) (5 :: nat) = (Inr 5, c', 6) \<and> look c' ''k'' = Some 5"
proof -
  let ?c = "New_cache 2 0 0 [] :: nat cache"
  obtain c' where o: "Once ''k'' (\<lambda>n. (Inr n, n + 1)) ?c 5 = (Inr 5, c', 6)"
    by (simp add: Once_def New_cache_def maybeSweepExpiredTail_def once_miss_def)
  have "cache_inv ?c" by (auto simp: cache_inv_def cache_ok_def New_cache_def id_map_def)
  then show ?thesis using once_hit_or_miss [OF _ o] o by auto
qed

text \<open>Once never serves an expired entry: if the callback would fail and a value is returned all the
  same, then it is the value of an entry of the cache whose deadline lies after a reading of the clock
  taken during the call (or no time-to-live is configured).\<close>

theorem once_serves_no_expired_entry:
  assumes inv: "cache_inv c" and o: "Once k fn c s = (Inr v, c', s')" and f: "fn s = (Inl err, s1)"
  shows "\<exists>ent. kv_map (ll c) k = Some ent \<and> kvValue ent = v
     \<and> (ttl c > 0 \<longrightarrow> (\<exists>now\<in>clock_times c. now < expiresAt ent))"
proof -
  let ?c = "maybeSweepExpiredTail c"
  have ok: "cache_ok ?c" "ttl ?c = ttl c" using inv maybeSweep_prefix [of c] by (auto simp: cache_inv_def)
  obtain n where n: "ll ?c = take n (ll c)" using inv maybeSweep_prefix [of c] by (auto simp: cache_inv_def)
  have le: "kv_map (ll ?c) \<subseteq>\<^sub>m kv_map (ll c)"
    unfolding n using inv by (intro take_maps) (simp add: cache_inv_def cache_ok_def)
  have nomiss: "once_miss k fn d s \<noteq> (Inr v, c', s')" for d using f by (simp add: once_miss_def)
  obtain e where e: "map_of (items ?c) k = Some e"
    using o nomiss by (cases "map_of (items ?c) k") (auto simp: Once_def Let_def)
  obtain ent where ent: "map_of (ll ?c) e = Some ent" "kvKey ent = k" "kv_map (ll ?c) k = Some ent"
    using id_map_lookup [of "ll ?c" k e] e ok by (auto simp: cache_ok_def)
  obtain dead c1 where x: "expired ent ?c = (dead, c1)" by (cases "expired ent ?c")
  obtain ent' c2 where t: "touch ent c1 = (ent', c2)" by (cases "touch ent c1")
  have "\<not> dead \<and> v = kvValue ent"
    using o e ent x t nomiss touch_frame [OF t] by (cases dead) (auto simp: Once_def Let_def)
  moreover have "kv_map (ll c) k = Some ent" using le ent(3) by (metis domI map_le_def)
  ultimately show ?thesis
    using expired_times [OF x] maybeSweep_times [of c] ok(2) by auto
qed

theorem once_serves_no_expired_entry_witness:
  "\<exists>c'. Once ''k'' (\<lambda>s. (Inl ErrNotFound, s)) (cache_set ''k'' (7 :: nat) (New_cache 2 10 0 [0, 5])) () = (Inr 7, c', ())
     \<and> (\<exists>now. now < (10 :: int))"
proof -
  let ?c = "cache_set ''k'' (7 :: nat) (New_cache 2 10 0 [0, 5])"
  have c: "?c = \<lparr>ll = [(0, \<lparr>kvKey = ''k'', kvValue = 7, expiresAt = 10\<rparr>)], items = [(''k'', 0)], limitUnit = 2, ttl = 10,
      clock = 0, readings = [5], nextElem = 1\<rparr>"
    by (simp add: cache_set_def New_cache_def Let_def maybeSweepExpiredTail_def sweep_loop.simps evict_loop.simps touch_def Now_def)
  obtain c' where o: "Once ''k'' (\<lambda>s. (Inl ErrNotFound, s)) ?c () = (Inr 7, c', ())"
    unfolding c by (simp add: Once_def Let_def maybeSweepExpiredTail_def sweep_loop.simps expired_def touch_def Now_def)
  have "cache_inv ?c" unfolding c by (auto simp: cache_inv_def cache_ok_def id_map_def)
  from once_serves_no_expired_entry [OF this o] have "\<exists>now. now < (10 :: int)"
    by (auto simp: c)
  with o show ?thesis by blast
qed

text \<open>LRU replacement without a time-to-live: storing a new key in a full cache evicts exactly the
  least recently used entry, and the new key becomes the most recently used one.\<close>

theorem full_cache_evicts_lru:
  assumes inv: "cache_inv c" and "ttl c \<le> 0" and "limitUnit c > 0" and full: "int (length (ll c)) = limitUnit c"
    and new: "kv_map (ll c) k = None"
  shows "map (kvKey \<circ> snd) (ll (cache_set k v c)) = k # butlast (map (kvKey \<circ> snd) (ll c))
     \<and> look (cache_set k v c) k = Some v"
proof -
  have ok: "cache_ok c" using inv by (simp add: cache_inv_def)
  have n: "map_of (items c) k = None" using new ok by (simp add: cache_ok_def id_map_None)
  have t: "touch ent d = (ent, d)" if "ttl d \<le> 0" for ent and d :: "'a cache" using that by (simp add: touch_def)
  have m: "nat (limitUnit c - 1) = length (ll c) - 1" using full by linarith
  have e: "ll (evict_loop c) = butlast (ll c)" "ttl (evict_loop c) = ttl c"
    using evict_loop_take [OF ok] assms(3) full m by (simp_all add: butlast_conv_take)
  have "ll (cache_set k v c) = (nextElem (evict_loop c), \<lparr>kvKey = k, kvValue = v, expiresAt = 0\<rparr>) # butlast (ll c)"
    using n assms(2) e by (simp add: cache_set_def Let_def maybeSweepExpiredTail_def t)
  then show ?thesis by (simp add: look_def map_butlast)
qed

theorem full_cache_evicts_lru_witness:
  "map (kvKey \<circ> snd) (ll (cache_set ''c'' 3 (cache_set ''b'' 2 (cache_set ''a'' (5 :: nat) (New_cache 2 0 0 []))))) = [''c'', ''b'']"
proof -
  let ?c = "cache_set ''b'' 2 (cache_set ''a'' (5 :: nat) (New_cache 2 0 0 []))"
  have c: "?c = \<lparr>ll = [(1, \<lparr>kvKey = ''b'', kvValue = 2, expiresAt = 0\<rparr>), (0, \<lparr>kvKey = ''a'', kvValue = 5, expiresAt = 0\<rparr>)],
      items = [(''a'', 0), (''b'', 1)], limitUnit = 2, ttl = 0, clock = 0, readings = [], nextElem = 2\<rparr>"
    by (simp add: cache_set_def New_cache_def Let_def maybeSweepExpiredTail_def evict_loop.simps touch_def)
  have "cache_inv ?c" unfolding c by (auto simp: cache_inv_def cache_ok_def id_map_def)
  then show ?thesis using full_cache_evicts_lru [of ?c "''c''" 3] by (simp add: c)
qed

text \<open>PurgeExpired at one instant removes exactly the entries whose deadline has passed and keeps the
  order of the others.\<close>

theorem purge_removes_exactly_expired:
  assumes "cache_inv c" and "readings c = []" and "ttl c > 0"
  shows "ll (PurgeExpired c) = filter (\<lambda>p. clock c < expiresAt (snd p)) (ll c)"
  using purge_loop_const [of c "[]" "ll c"] assms by (simp add: PurgeExpired_def cache_inv_def cache_ok_def)


theorem purge_removes_exactly_expired_witness:
  "map (kvKey \<circ> snd) (ll (PurgeExpired \<lparr>ll = [(1, \<lparr>kvKey = ''b'', kvValue = 2 :: nat, expiresAt = 9\<rparr>), (0, \<lparr>kvKey = ''a'', kvValue = 1, expiresAt = 4\<rparr>)],
      items = [(''a'', 0), (''b'', 1)], limitUnit = 2, ttl = 5, clock = 4, readings = [], nextElem = 2\<rparr>)) = [''b'']"
  (is "map _ (ll (PurgeExpired ?c)) = _")
proof -
  have "cache_inv ?c" by (auto simp: cache_inv_def cache_ok_def id_map_def)
  then show ?thesis using purge_removes_exactly_expired [of ?c] by simp
qed

end
