(* ===== verification/Adapter.thy ===== *)
theory Adapter
  imports Wal Cache
begin

text \<open>
  The database adapter \<^verbatim>\<open>src/internal/db/adapter.go\<close>: log first, then the store, then the
  cache, under one mutex.  The interfaces \<^verbatim>\<open>DB\<close> (a record of operations on a state \<open>'x\<close>,
  which also holds what the log's environment works on) and \<^verbatim>\<open>LogDb\<close> (the log of theory
  \<open>Wal\<close>, or nil) are its fields; the cache is the one of theory \<open>Cache\<close>.
\<close>

record 'x store_ops =
  stCreateTable :: "string \<Rightarrow> 'x \<Rightarrow> goerr option \<times> 'x"
  stSet :: "string \<Rightarrow> entity \<Rightarrow> 'x \<Rightarrow> goerr option \<times> 'x"
  stBulkSet :: "string \<Rightarrow> entity list \<Rightarrow> 'x \<Rightarrow> goerr option \<times> 'x"
  stBulkDel :: "string \<Rightarrow> string list \<Rightarrow> 'x \<Rightarrow> goerr option \<times> 'x"
  stGet :: "string \<Rightarrow> string \<Rightarrow> 'x \<Rightarrow> goerr + entity"
  stGetBySk :: "string \<Rightarrow> string \<Rightarrow> 'x \<Rightarrow> (goerr + entity list) \<times> 'x"
  stDel :: "string \<Rightarrow> string \<Rightarrow> 'x \<Rightarrow> goerr option \<times> 'x"
  stFlush :: "('x \<Rightarrow> goerr option \<times> 'x) option"
  stHydrate :: "(blobs \<Rightarrow> 'x \<Rightarrow> goerr option \<times> 'x) option"

record 'x adapter =
  aStore :: 'x
  aLog :: "wal option"
  aCache :: "entity cache"

text \<open>What does not change: the store's operations, the codec of the log and its environment.\<close>

record 'x adapter_cfg =
  cfgStore :: "'x store_ops"
  cfgCodec :: codec
  cfgEnv :: "'x wal_env"

definition wrap :: "string \<Rightarrow> goerr option \<Rightarrow> goerr option" where
  "wrap msg err = map_option (ErrWrap msg) err"

definition adapter_key :: "string \<Rightarrow> string" where
  "adapter_key k = ''kvs:adapter:cache:mem'' @ '':'' @ k"

text \<open>A call of the log; a nil log panics.\<close>

definition log_call :: "(wal \<Rightarrow> 'x \<Rightarrow> goerr option \<times> wal \<times> 'x) \<Rightarrow> 'x adapter \<Rightarrow> goerr option \<times> 'x adapter" where
  "log_call f a =
     (case aLog a of
        None \<Rightarrow> (Some (GoPanic ''nil LogDb''), a)
      | Some w \<Rightarrow> (case f w (aStore a) of (err, w, x) \<Rightarrow> (err, a\<lparr>aLog := Some w, aStore := x\<rparr>)))"

definition ad_CreateTable :: "'x adapter_cfg \<Rightarrow> string \<Rightarrow> 'x adapter \<Rightarrow> goerr option \<times> 'x adapter" where
  "ad_CreateTable g table a =
     (case stCreateTable (cfgStore g) table (aStore a) of (err, x) \<Rightarrow> (err, a\<lparr>aStore := x\<rparr>))"

definition bulk_write :: "string \<Rightarrow> string \<Rightarrow> 'x adapter_cfg \<Rightarrow> string \<Rightarrow> item list \<Rightarrow> 'x adapter \<Rightarrow> goerr option \<times> 'x adapter" where
  "bulk_write walMsg dbMsg g tableName its a =
     (let entities = items_Entities its in
      case log_call (wal_BulkSet (cfgCodec g) (cfgEnv g) tableName entities) a of
        (Some err, a) \<Rightarrow> (Some (ErrWrap walMsg err), a)
      | (None, a) \<Rightarrow>
          (case stBulkSet (cfgStore g) tableName entities (aStore a) of
             (err, x) \<Rightarrow> (wrap dbMsg err, a\<lparr>aStore := x\<rparr>)))"

definition ad_BulkSet :: "'x adapter_cfg \<Rightarrow> string \<Rightarrow> item list \<Rightarrow> 'x adapter \<Rightarrow> goerr option \<times> 'x adapter" where
  "ad_BulkSet g tableName its a = bulk_write ''db: wal set'' ''db: put entity'' g tableName its a"

definition ad_ApplyReplicatedBulk :: "'x adapter_cfg \<Rightarrow> string \<Rightarrow> item list \<Rightarrow> 'x adapter \<Rightarrow> goerr option \<times> 'x adapter" where
  "ad_ApplyReplicatedBulk g tableName its a =
     bulk_write ''db: wal bulk set (replicated)'' ''db: bulk put entity (replicated)'' g tableName its a"

definition validateConsistency :: "'x adapter_cfg \<Rightarrow> string \<Rightarrow> item \<Rightarrow> 'x \<Rightarrow> goerr option" where
  "validateConsistency g tableName it x =
     (case itVersion it of
        None \<Rightarrow> None
      | Some ver \<Rightarrow>
          let check = (\<lambda>itdb. if iVersion itdb \<noteq> OldVersion ver then Some ErrNotCompatibleVersion else None) in
          (case stGet (cfgStore g) tableName (itKey it) x of
             Inl err \<Rightarrow> if \<not> errors_is ErrNotFound err then Some (ErrWrap ''error on optimistic set'' err)
                       else check zero_entity
           | Inr itdb \<Rightarrow> check itdb))"

text \<open>The log, then the store inside the cache's lock.\<close>

definition write_through :: "string \<Rightarrow> 'x adapter_cfg \<Rightarrow> string \<Rightarrow> entity \<Rightarrow> 'x adapter \<Rightarrow> goerr option \<times> 'x adapter" where
  "write_through walMsg g tableName ent a =
     (case log_call (wal_Set (cfgCodec g) (cfgEnv g) tableName ent) a of
        (Some err, a) \<Rightarrow> (Some (ErrWrap walMsg err), a)
      | (None, a) \<Rightarrow>
          (case SaveIfOk (adapter_key (iKey ent)) ent
                  (\<lambda>x. case stSet (cfgStore g) tableName ent x of (err, x) \<Rightarrow> (wrap ''db: put entity'' err, x))
                  (aCache a) (aStore a) of
             (err, c, x) \<Rightarrow> (err, a\<lparr>aCache := c, aStore := x\<rparr>)))"

definition ad_Set :: "'x adapter_cfg \<Rightarrow> string \<Rightarrow> item \<Rightarrow> 'x adapter \<Rightarrow> goerr option \<times> 'x adapter" where
  "ad_Set g tableName it a =
     (let ent = item_Entity it in
      case validateConsistency g tableName it (aStore a) of
        Some err \<Rightarrow> (Some err, a)
      | None \<Rightarrow> write_through ''db: wal set'' g tableName ent a)"

definition ad_ApplyReplicated :: "'x adapter_cfg \<Rightarrow> string \<Rightarrow> item \<Rightarrow> 'x adapter \<Rightarrow> goerr option \<times> 'x adapter" where
  "ad_ApplyReplicated g tableName it a = write_through ''db: wal set (replicated)'' g tableName (item_Entity it) a"

definition ad_Get :: "'x adapter_cfg \<Rightarrow> string \<Rightarrow> string \<Rightarrow> 'x adapter \<Rightarrow> (goerr + entity) \<times> 'x adapter" where
  "ad_Get g tableName key a =
     (case Once (adapter_key key) (\<lambda>x. (stGet (cfgStore g) tableName key x, x)) (aCache a) (aStore a) of
        (r, c, x) \<Rightarrow> (r, a\<lparr>aCache := c, aStore := x\<rparr>))"

definition ad_GetBySecondaryKey :: "'x adapter_cfg \<Rightarrow> string \<Rightarrow> string \<Rightarrow> 'x adapter \<Rightarrow> (goerr + entity list) \<times> 'x adapter" where
  "ad_GetBySecondaryKey g tableName secondaryKey a =
     (case stGetBySk (cfgStore g) tableName secondaryKey (aStore a) of (r, x) \<Rightarrow> (r, a\<lparr>aStore := x\<rparr>))"

definition bulkDelLocked :: "'x adapter_cfg \<Rightarrow> string \<Rightarrow> delete_item list \<Rightarrow> string \<Rightarrow> 'x adapter \<Rightarrow> goerr option \<times> 'x adapter" where
  "bulkDelLocked g tableName its suffix a =
     (let keys = del_Keys its in
      case log_call (wal_BulkDelete (cfgEnv g) tableName keys) a of
        (Some err, a) \<Rightarrow> (Some (ErrWrap (''db: wal bulk delete'' @ suffix) err), a)
      | (None, a) \<Rightarrow>
          (case stBulkDel (cfgStore g) tableName keys (aStore a) of
             (Some err, x) \<Rightarrow> (Some (ErrWrap (''db: bulk delete entity'' @ suffix) err), a\<lparr>aStore := x\<rparr>)
           | (None, x) \<Rightarrow>
               (None, a\<lparr>aStore := x, aCache := fold (\<lambda>k. cache_Del (adapter_key k)) keys (aCache a)\<rparr>)))"

definition ad_BulkDel :: "'x adapter_cfg \<Rightarrow> string \<Rightarrow> delete_item list \<Rightarrow> 'x adapter \<Rightarrow> goerr option \<times> 'x adapter" where
  "ad_BulkDel g tableName its a = bulkDelLocked g tableName its [] a"

definition ad_ApplyReplicatedBulkDelete :: "'x adapter_cfg \<Rightarrow> string \<Rightarrow> delete_item list \<Rightarrow> 'x adapter \<Rightarrow> goerr option \<times> 'x adapter" where
  "ad_ApplyReplicatedBulkDelete g tableName its a = bulkDelLocked g tableName its '' (replicated)'' a"

definition delete_through :: "string \<Rightarrow> string \<Rightarrow> 'x adapter_cfg \<Rightarrow> string \<Rightarrow> string \<Rightarrow> 'x adapter \<Rightarrow> goerr option \<times> 'x adapter" where
  "delete_through walMsg dbMsg g tableName key a =
     (case log_call (wal_Delete (cfgEnv g) tableName key) a of
        (Some err, a) \<Rightarrow> (Some (ErrWrap walMsg err), a)
      | (None, a) \<Rightarrow>
          (case DelIfOk (adapter_key key)
                  (\<lambda>x. case stDel (cfgStore g) tableName key x of (err, x) \<Rightarrow> (wrap dbMsg err, x))
                  (aCache a) (aStore a) of
             (err, c, x) \<Rightarrow> (err, a\<lparr>aCache := c, aStore := x\<rparr>)))"

definition ad_ApplyReplicatedDelete :: "'x adapter_cfg \<Rightarrow> string \<Rightarrow> delete_item \<Rightarrow> 'x adapter \<Rightarrow> goerr option \<times> 'x adapter" where
  "ad_ApplyReplicatedDelete g tableName it a =
     delete_through ''db: wal delete (replicated)'' ''db: delete entity (replicated)'' g tableName (dKey it) a"

definition ad_Delete :: "'x adapter_cfg \<Rightarrow> string \<Rightarrow> delete_item \<Rightarrow> 'x adapter \<Rightarrow> goerr option \<times> 'x adapter" where
  "ad_Delete g tableName it a =
     (let e = del_Item it in
      case validateConsistency g tableName e (aStore a) of
        Some err \<Rightarrow> (Some err, a)
      | None \<Rightarrow> delete_through ''db: wal delete'' ''db: delete entity'' g tableName (itKey e) a)"

definition store_operations :: "'x store_ops \<Rightarrow> 'x operations" where
  "store_operations s = \<lparr>opCreateTable = stCreateTable s, opSet = stSet s, opDel = stDel s, opHydrate = stHydrate s\<rparr>"

definition ad_Load :: "'x adapter_cfg \<Rightarrow> 'x adapter \<Rightarrow> goerr option \<times> 'x adapter" where
  "ad_Load g a =
     (case log_call (wal_Load (cfgCodec g) (cfgEnv g) [store_operations (cfgStore g)]) a of
        (err, a) \<Rightarrow> (wrap ''db: load wal'' err, a))"

definition ad_Close :: "'x adapter_cfg \<Rightarrow> 'x adapter \<Rightarrow> goerr option \<times> 'x adapter" where
  "ad_Close g a =
     (case aLog a of
        None \<Rightarrow> (None, a)
      | Some w \<Rightarrow>
          let x = (case stFlush (cfgStore g) of None \<Rightarrow> aStore a | Some flush \<Rightarrow> snd (flush (aStore a))) in
          (case Close w of (err, w) \<Rightarrow> (err, a\<lparr>aStore := x, aLog := Some w\<rparr>)))"

section \<open>What the log does to the outside\<close>

lemma wal_ops_store:
  assumes "auto_off (wOpts w)"
  shows "wal_Set c env t e w x = (err, w', x') \<Longrightarrow> x' = x \<and> wOpts w' = wOpts w"
    and "wal_Delete env t k w x = (err, w', x') \<Longrightarrow> x' = x \<and> wOpts w' = wOpts w"
    and "wal_BulkSet c env t es w x = (err, w', x') \<Longrightarrow> x' = x \<and> wOpts w' = wOpts w"
    and "wal_BulkDelete env t ks w x = (err, w', x') \<Longrightarrow> x' = x \<and> wOpts w' = wOpts w"
proof -
  have a: "wOpts w2 = wOpts w1" if "appendLocked e w1 = (r, w2)" for e w1 r w2
    using that by (auto simp: appendLocked_def write_record_def syncAndHook_def Let_def
        split: sum.splits option.splits prod.splits if_splits)
  show "wal_Set c env t e w x = (err, w', x') \<Longrightarrow> x' = x \<and> wOpts w' = wOpts w"
    using assms by (auto simp: wal_Set_def Let_def maybeAuto_off split: sum.splits option.splits prod.splits if_splits dest!: a)
  show "wal_Delete env t k w x = (err, w', x') \<Longrightarrow> x' = x \<and> wOpts w' = wOpts w"
    using assms by (auto simp: wal_Delete_def Let_def maybeAuto_off split: sum.splits option.splits prod.splits if_splits dest!: a)
  have b: "wOpts w2 = wOpts w1" if "bulk_set_loop c t es s w1 = (r, w2)" for es s w1 r w2
    using that by (induction es arbitrary: s w1) (auto simp: Let_def split: sum.splits option.splits prod.splits dest!: a)
  have d: "wOpts w2 = wOpts w1" if "bulk_delete_loop t ks s w1 = (r, w2)" for ks s w1 r w2
    using that by (induction ks arbitrary: s w1) (auto simp: Let_def split: option.splits prod.splits dest!: a)
  show "wal_BulkSet c env t es w x = (err, w', x') \<Longrightarrow> x' = x \<and> wOpts w' = wOpts w"
    using assms by (auto simp: wal_BulkSet_def maybeAuto_off split: option.splits prod.splits if_splits dest!: b)
  show "wal_BulkDelete env t ks w x = (err, w', x') \<Longrightarrow> x' = x \<and> wOpts w' = wOpts w"
    using assms by (auto simp: wal_BulkDelete_def maybeAuto_off split: option.splits prod.splits if_splits dest!: d)
qed

end
