(* ===== verification/Api.thy ===== *)
theory Api
  imports Www Adapter
begin

text \<open>
  The HTTP handlers of \<^verbatim>\<open>src/internal/api\<close> and the application of committed entries
  (\<^verbatim>\<open>cmds_grpc.go\<close>).  A server is the adapter and the consensus node of one process.  The body of a request is
  what decoding it gave.  A write handler asks the node for leave, writes the store, and proposes the command.
  No lock spans these steps: \<open>mw\<close> is what the rest of the process does to the server between the write
  and the proposal (another handler, a message from a peer, a timer).
\<close>

section \<open>Helpers\<close>

record 'x server =
  svDb :: "'x adapter"
  svNode :: raft_node

definition getStatusCode :: "goerr \<Rightarrow> int" where
  "getStatusCode err =
     (if errors_is err ErrNotCompatibleVersion \<or> errors_is err ErrFollowerRejectCmd \<or> errors_is err ErrNotFound
         \<or> errors_is err ErrNotFoundSk \<or> errors_is err ErrTableNotFound
      then 422 else 500)"

definition HTTPDefaultRaftMinAcks :: "raft_node \<Rightarrow> int \<Rightarrow> int" where
  "HTTPDefaultRaftMinAcks n v = (if v \<noteq> 0 then v else FullClusterReplicationMinAcks n)"

definition bad_request :: "goerr \<Rightarrow> response" where
  "bad_request err = NewResponse [StatusCode 400, RespErr (Some err)]"

definition unprocessable :: "string list \<Rightarrow> response" where
  "unprocessable fe = NewResponse [StatusCode 422, Body (BodyFields fe)]"

definition refused :: "err_propose_cmd \<Rightarrow> response" where
  "refused e = NewResponse [StatusCode (getStatusCode (epErr e)), Body (BodyPropose e)]"

definition failed :: "goerr \<Rightarrow> response" where
  "failed err = NewResponse [StatusCode (getStatusCode err), RespErr (Some err)]"

text \<open>The part the five write handlers share; \<open>onErr\<close> answers an error of the store.\<close>

definition leader_write ::
  "('x server \<Rightarrow> 'x server) \<Rightarrow> ('x adapter \<Rightarrow> goerr option \<times> 'x adapter) \<Rightarrow> (goerr \<Rightarrow> response) \<Rightarrow> cmd_data \<Rightarrow> response \<Rightarrow>
   'x server \<Rightarrow> response \<times> 'x server"
where
  "leader_write mw dbop onErr cmd ok sv =
     (case PermittedProposeCmd (svNode sv) of
        Some e \<Rightarrow> (refused e, sv)
      | None \<Rightarrow>
          (case dbop (svDb sv) of
             (Some err, db) \<Rightarrow> (onErr err, sv\<lparr>svDb := db\<rparr>)
           | (None, db) \<Rightarrow>
               let sv1 = mw (sv\<lparr>svDb := db\<rparr>) in
               (case ProposeCommand cmd (svNode sv1) of
                  (Some e, n) \<Rightarrow> (refused e, sv1\<lparr>svNode := n\<rparr>)
                | (None, n) \<Rightarrow> (ok, sv1\<lparr>svNode := n\<rparr>))))"

section \<open>Writing\<close>

definition operation_of :: "string \<Rightarrow> operation_type" where
  "operation_of s =
     (if s = ''optimistic_lock'' then OptimisticLock
      else if s = ''multiple_writter'' then MultipleWritter
      else if s = ''normal'' then Normal else OtherOperation s)"

record put_params =
  ppTableName :: string
  ppOperationType :: operation_type
  ppRaftMinAcks :: int

definition put_fields :: "param_field list" where
  "put_fields = [(''TableName'', FromParam ''tableName'', KindString), (''OperationType'', FromQuery ''operation'', KindString),
     (''RaftMinAcks'', FromQuery ''raft_min_acks'', KindInt 64)]"

definition put_params_of :: "(string \<times> param_value) list \<Rightarrow> put_params" where
  "put_params_of vs = \<lparr>ppTableName = get_string ''TableName'' vs, ppOperationType = operation_of (get_string ''OperationType'' vs),
     ppRaftMinAcks = get_int ''RaftMinAcks'' vs\<rparr>"

text \<open>The receiver of \<^verbatim>\<open>Validate\<close> is a pointer: an empty operation becomes the normal one.\<close>

definition put_Validate :: "put_params \<Rightarrow> goerr + put_params" where
  "put_Validate p =
     (if ppTableName p = [] then Inl (ErrMsg ''table name is required'')
      else let p = (if ppOperationType p = OtherOperation [] then p\<lparr>ppOperationType := Normal\<rparr> else p) in
           if ppOperationType p \<notin> {OptimisticLock, Normal} then Inl (ErrMsg ''operation type is invalid'')
           else if ppRaftMinAcks p < 0 then Inl (ErrMsg ''invalid raft_min_acks'')
           else Inr p)"

definition PutHandler ::
  "'x adapter_cfg \<Rightarrow> ('x server \<Rightarrow> 'x server) \<Rightarrow> http_request \<Rightarrow> goerr + item \<Rightarrow> 'x server \<Rightarrow> response \<times> 'x server"
where
  "PutHandler g mw r body sv =
     (case DecodeParams r put_fields of
        Inl err \<Rightarrow> (bad_request err, sv)
      | Inr vs \<Rightarrow>
          (case put_Validate (put_params_of vs) of
             Inl err \<Rightarrow> (bad_request err, sv)
           | Inr params \<Rightarrow>
               let minAcks = HTTPDefaultRaftMinAcks (svNode sv) (ppRaftMinAcks params) in
               (case body of
                  Inl err \<Rightarrow> (bad_request err, sv)
                | Inr it \<Rightarrow>
                    (case item_Validate it of
                       Some fe \<Rightarrow> (unprocessable fe, sv)
                     | None \<Rightarrow>
                         let cmd = (if ppOperationType params = OptimisticLock then OptimisticSetCmd else SetCmd);
                             it = (if ppOperationType params = OptimisticLock then it else it\<lparr>itVersion := None\<rparr>) in
                         leader_write mw (ad_Set g (ppTableName params) it) failed
                           \<lparr>Cmd = cmd, TableName = ppTableName params, cItem = it, cItems = [], MinAcks = minAcks\<rparr>
                           (NewResponse [StatusCode 200]) sv))))"

definition BulkPutHandle ::
  "'x adapter_cfg \<Rightarrow> ('x server \<Rightarrow> 'x server) \<Rightarrow> http_request \<Rightarrow> goerr + item list \<Rightarrow> 'x server \<Rightarrow> response \<times> 'x server"
where
  "BulkPutHandle g mw r body sv =
     (case DecodeParams r put_fields of
        Inl err \<Rightarrow> (bad_request err, sv)
      | Inr vs \<Rightarrow>
          (case put_Validate (put_params_of vs) of
             Inl err \<Rightarrow> (bad_request err, sv)
           | Inr params \<Rightarrow>
               let minAcks = HTTPDefaultRaftMinAcks (svNode sv) (ppRaftMinAcks params) in
               (case body of
                  Inl err \<Rightarrow> (bad_request err, sv)
                | Inr its \<Rightarrow>
                    (case items_Validate its of
                       Some fe \<Rightarrow> (unprocessable fe, sv)
                     | None \<Rightarrow>
                         leader_write mw (ad_BulkSet g (ppTableName params) its) failed
                           \<lparr>Cmd = BulkPutCmd, TableName = ppTableName params, cItem = zero_item, cItems = its, MinAcks = minAcks\<rparr>
                           (NewResponse [StatusCode 200]) sv))))"

record delete_params =
  dpTableName :: string
  dpOperationType :: operation_type
  dpRaftMinAcks :: int

definition delete_params_of :: "(string \<times> param_value) list \<Rightarrow> delete_params" where
  "delete_params_of vs = \<lparr>dpTableName = get_string ''TableName'' vs, dpOperationType = operation_of (get_string ''OperationType'' vs),
     dpRaftMinAcks = get_int ''RaftMinAcks'' vs\<rparr>"

definition delete_params_Validate :: "delete_params \<Rightarrow> goerr option" where
  "delete_params_Validate p = (if dpRaftMinAcks p < 0 then Some (ErrMsg ''invalid raft_min_acks'') else None)"

definition DeleteHandler ::
  "'x adapter_cfg \<Rightarrow> ('x server \<Rightarrow> 'x server) \<Rightarrow> http_request \<Rightarrow> goerr + delete_item \<Rightarrow> 'x server \<Rightarrow> response \<times> 'x server"
where
  "DeleteHandler g mw r body sv =
     (case DecodeParams r put_fields of
        Inl err \<Rightarrow> (bad_request err, sv)
      | Inr vs \<Rightarrow>
          let params = delete_params_of vs in
          (case delete_params_Validate params of
             Some err \<Rightarrow> (bad_request err, sv)
           | None \<Rightarrow>
               let minAcks = HTTPDefaultRaftMinAcks (svNode sv) (dpRaftMinAcks params) in
               (case body of
                  Inl err \<Rightarrow> (bad_request err, sv)
                | Inr it \<Rightarrow>
                    (case delete_Validate (dpOperationType params) it of
                       Some fe \<Rightarrow> (unprocessable fe, sv)
                     | None \<Rightarrow>
                         let cmd = (if dpOperationType params = OptimisticLock then OptimisticDelCmd else DeleteCmd) in
                         leader_write mw (ad_Delete g (dpTableName params) it) failed
                           \<lparr>Cmd = cmd, TableName = dpTableName params, cItem = del_Item it, cItems = [], MinAcks = minAcks\<rparr>
                           (NewResponse [StatusCode 204]) sv))))"

definition bulk_del_fields :: "param_field list" where
  "bulk_del_fields = [(''TableName'', FromParam ''tableName'', KindString), (''RaftMinAcks'', FromQuery ''raft_min_acks'', KindInt 64)]"

definition bulk_del_Validate :: "string \<Rightarrow> int \<Rightarrow> goerr option" where
  "bulk_del_Validate tableName raftMinAcks =
     (if tableName = [] then Some (ErrMsg ''table name is required'')
      else if raftMinAcks < 0 then Some (ErrMsg ''invalid raft_min_acks'') else None)"

definition BulkDelHandle ::
  "'x adapter_cfg \<Rightarrow> ('x server \<Rightarrow> 'x server) \<Rightarrow> http_request \<Rightarrow> goerr + delete_item list \<Rightarrow> 'x server \<Rightarrow> response \<times> 'x server"
where
  "BulkDelHandle g mw r body sv =
     (case DecodeParams r bulk_del_fields of
        Inl err \<Rightarrow> (bad_request err, sv)
      | Inr vs \<Rightarrow>
          let tableName = get_string ''TableName'' vs; raftMinAcks = get_int ''RaftMinAcks'' vs in
          (case bulk_del_Validate tableName raftMinAcks of
             Some err \<Rightarrow> (bad_request err, sv)
           | None \<Rightarrow>
               let minAcks = HTTPDefaultRaftMinAcks (svNode sv) raftMinAcks in
               (case body of
                  Inl err \<Rightarrow> (bad_request err, sv)
                | Inr its \<Rightarrow>
                    (case deletes_Validate its of
                       Some fe \<Rightarrow> (unprocessable fe, sv)
                     | None \<Rightarrow>
                         leader_write mw (ad_BulkDel g tableName its) failed
                           \<lparr>Cmd = BulkDelCmd, TableName = tableName, cItem = zero_item, cItems = del_Items its, MinAcks = minAcks\<rparr>
                           (NewResponse [StatusCode 204]) sv))))"

record create_table_input =
  ciTableName :: string
  ciRaftMinAcks :: int

definition CreateTableHandler ::
  "'x adapter_cfg \<Rightarrow> ('x server \<Rightarrow> 'x server) \<Rightarrow> goerr + create_table_input \<Rightarrow> 'x server \<Rightarrow> response \<times> 'x server"
where
  "CreateTableHandler g mw body sv =
     (case body of
        Inl err \<Rightarrow> (bad_request err, sv)
      | Inr input \<Rightarrow>
          leader_write mw (ad_CreateTable g (ciTableName input))
            (\<lambda>err. NewResponse [StatusCode 500, RespErr (Some err)])
            \<lparr>Cmd = CreateTableCmd, TableName = ciTableName input, cItem = zero_item, cItems = [],
             MinAcks = HTTPDefaultRaftMinAcks (svNode sv) (ciRaftMinAcks input)\<rparr>
            (NewResponse [StatusCode 201, Body (BodyTable (ciTableName input))]) sv)"

section \<open>Reading\<close>

definition get_fields :: "param_field list" where
  "get_fields = [(''TableName'', FromParam ''tableName'', KindString), (''Key'', FromParam ''key'', KindString)]"

definition safe_response :: "(any \<Rightarrow> string) \<Rightarrow> entity \<Rightarrow> entity" where
  "safe_response sprint e = e\<lparr>iValue := jsonSafeAny sprint (iValue e)\<rparr>"

definition GetHandler :: "(any \<Rightarrow> string) \<Rightarrow> 'x adapter_cfg \<Rightarrow> http_request \<Rightarrow> 'x server \<Rightarrow> response \<times> 'x server" where
  "GetHandler sprint g r sv =
     (case DecodeParams r get_fields of
        Inl err \<Rightarrow> (bad_request err, sv)
      | Inr vs \<Rightarrow>
          let tableName = get_string ''TableName'' vs; key = get_string ''Key'' vs in
          (case ad_Get g tableName key (svDb sv) of
             (Inl err, db) \<Rightarrow> (failed err, sv\<lparr>svDb := db\<rparr>)
           | (Inr e, db) \<Rightarrow>
               (NewResponse [StatusCode 200, Body (BodyEntity tableName (safe_response sprint e))], sv\<lparr>svDb := db\<rparr>)))"

definition get_by_sk_fields :: "param_field list" where
  "get_by_sk_fields = [(''TableName'', FromParam ''tableName'', KindString), (''SecondaryKey'', FromQuery ''sk'', KindString)]"

definition GetBySecondaryKeyHandler :: "(any \<Rightarrow> string) \<Rightarrow> 'x adapter_cfg \<Rightarrow> http_request \<Rightarrow> 'x server \<Rightarrow> response \<times> 'x server" where
  "GetBySecondaryKeyHandler sprint g r sv =
     (case DecodeParams r get_by_sk_fields of
        Inl err \<Rightarrow> (bad_request err, sv)
      | Inr vs \<Rightarrow>
          let tableName = get_string ''TableName'' vs; sk = get_string ''SecondaryKey'' vs in
          (case ad_GetBySecondaryKey g tableName sk (svDb sv) of
             (Inl err, db) \<Rightarrow> (failed err, sv\<lparr>svDb := db\<rparr>)
           | (Inr es, db) \<Rightarrow>
               (NewResponse [StatusCode 200, Body (BodyEntities tableName (map (safe_response sprint) es))], sv\<lparr>svDb := db\<rparr>)))"

definition PingHandler :: response where
  "PingHandler = NewResponse [StatusCode 200, Body BodyOk]"

definition StateHandler :: "raft_node \<Rightarrow> response" where
  "StateHandler n = NewResponse [StatusCode 200, Body (BodyState (State n))]"

section \<open>Applying committed entries\<close>

definition GrpcHandle :: "'x adapter_cfg \<Rightarrow> raft_node \<Rightarrow> log_entry \<Rightarrow> 'x adapter \<Rightarrow> goerr option \<times> 'x adapter" where
  "GrpcHandle g n entry db =
     (let d = leData entry in
      if stRole (State n) \<noteq> role_String Follower then (None, db)
      else case Cmd d of
             CreateTableCmd \<Rightarrow> ad_CreateTable g (TableName d) db
           | SetCmd \<Rightarrow> ad_ApplyReplicated g (TableName d) (cItem d) db
           | OptimisticSetCmd \<Rightarrow> ad_ApplyReplicated g (TableName d) (cItem d) db
           | BulkPutCmd \<Rightarrow> ad_ApplyReplicatedBulk g (TableName d) (cItems d) db
           | BulkDelCmd \<Rightarrow> ad_ApplyReplicatedBulkDelete g (TableName d) (DelItems (cItems d)) db
           | DeleteCmd \<Rightarrow> ad_ApplyReplicatedDelete g (TableName d) (DelItem (cItem d)) db
           | OptimisticDelCmd \<Rightarrow> ad_ApplyReplicatedDelete g (TableName d) (DelItem (cItem d)) db
           | _ \<Rightarrow> (None, db))"

end
