(* ===== verification/Write_Batcher.thy ===== *)
theory Write_Batcher
  imports Interfaces
begin

text \<open>
  The coalescing write buffer \<^verbatim>\<open>src/internal/fsdb/write_batcher.go\<close>.  The inner store is a
  record of operations on a state \<open>'s\<close>.  The mutex is held during each operation; the periodic flusher
  is a number of calls of Flush.  \<open>jsonLen\<close> is the length of \<^verbatim>\<open>json.Marshal\<close> of an entity,
  \<open>None\<close> when it fails.
\<close>

section \<open>State\<close>

record 's inner_db =
  dbCreateTable :: "string \<Rightarrow> 's \<Rightarrow> goerr option \<times> 's"
  dbSet :: "string \<Rightarrow> entity \<Rightarrow> 's \<Rightarrow> goerr option \<times> 's"
  dbDel :: "string \<Rightarrow> string \<Rightarrow> 's \<Rightarrow> goerr option \<times> 's"
  dbGet :: "string \<Rightarrow> string \<Rightarrow> 's \<Rightarrow> goerr + entity"
  dbGetBySk :: "string \<Rightarrow> string \<Rightarrow> 's \<Rightarrow> goerr + entity list"
  dbHydrate :: "((string \<times> (string \<times> bytes) list) list \<Rightarrow> 's \<Rightarrow> goerr option \<times> 's) option"

record batcher_options =
  MaxDirtyKeys :: int
  MaxDirtyBytes :: int
  FlushInterval :: int
  DeferWrites :: bool

datatype batch_op = BatchSet entity | BatchDel

type_synonym merge_key = "string \<times> string"

record 's batcher =
  inner :: 's
  bopts :: batcher_options
  pend :: "(merge_key \<times> batch_op) list"
  bytesN :: int

definition normalized :: "batcher_options \<Rightarrow> batcher_options" where
  "normalized opts =
     (let opts = (if MaxDirtyKeys opts \<le> 0 then opts\<lparr>MaxDirtyKeys := 4096\<rparr> else opts) in
      if MaxDirtyBytes opts \<le> 0 then opts\<lparr>MaxDirtyBytes := 32 * 2 ^ 20\<rparr> else opts)"

definition NewWriteBatcher :: "'s \<Rightarrow> batcher_options \<Rightarrow> 's batcher" where
  "NewWriteBatcher s opts = \<lparr>inner = s, bopts = normalized opts, pend = [], bytesN = 0\<rparr>"

definition DirtyFlushThresholds :: "'s batcher \<Rightarrow> int \<times> int" where
  "DirtyFlushThresholds b = (MaxDirtyKeys (bopts b), MaxDirtyBytes (bopts b))"

definition PendingDirty :: "'s batcher \<Rightarrow> int \<times> int" where
  "PendingDirty b = (int (length (pend b)), bytesN b)"

section \<open>Flushing\<close>

definition applyOneLocked :: "'s inner_db \<Rightarrow> merge_key \<Rightarrow> batch_op \<Rightarrow> 's \<Rightarrow> goerr option \<times> 's" where
  "applyOneLocked db mk bop s =
     (case bop of
        BatchSet e \<Rightarrow>
          (case dbSet db (fst mk) e s of
             (Some err, s) \<Rightarrow> (Some (ErrWrap ''fsdb write batcher: set'' err), s)
           | (None, s) \<Rightarrow> (None, s))
      | BatchDel \<Rightarrow>
          (case dbDel db (fst mk) (snd mk) s of
             (Some err, s) \<Rightarrow>
               if errors_is err ErrNotFound then (None, s)
               else (Some (ErrWrap ''fsdb write batcher: del'' err), s)
           | (None, s) \<Rightarrow> (None, s)))"

fun flush_loop :: "'s inner_db \<Rightarrow> merge_key list \<Rightarrow> 's batcher \<Rightarrow> goerr option \<times> 's batcher" where
  "flush_loop db [] b = (None, b\<lparr>bytesN := 0\<rparr>)"
| "flush_loop db (mk # mks) b =
     (case map_of (pend b) mk of
        None \<Rightarrow> (Some (GoPanic ''missing merge key''), b)
      | Some bop \<Rightarrow>
          (case applyOneLocked db mk bop (inner b) of
             (Some err, s) \<Rightarrow> (Some err, b\<lparr>inner := s\<rparr>)
           | (None, s) \<Rightarrow> flush_loop db mks (b\<lparr>inner := s, pend := AList.delete mk (pend b)\<rparr>)))"

text \<open>\<^verbatim>\<open>sort.Slice\<close> by table, then key: the lexicographic order on bytes.\<close>

definition flushAllLocked :: "'s inner_db \<Rightarrow> 's batcher \<Rightarrow> goerr option \<times> 's batcher" where
  "flushAllLocked db b =
     (if pend b = [] then (None, b) else flush_loop db (sort (map fst (pend b))) b)"

definition Flush :: "'s inner_db \<Rightarrow> 's batcher \<Rightarrow> goerr option \<times> 's batcher" where
  "Flush db b = flushAllLocked db b"

text \<open>
  The batcher's own flusher: there is none, it runs, or its channel has been closed.  The loop is run over the ticks
  that it takes before it sees the closed channel; \<^verbatim>\<open>Stop\<close> returns once the loop has, and a second call finds it ended.
\<close>

datatype flusher = NoFlusher | FlusherRunning | FlusherStopped

definition start_flusher :: "batcher_options \<Rightarrow> flusher" where
  "start_flusher opts = (if DeferWrites opts \<and> FlushInterval opts > 0 then FlusherRunning else NoFlusher)"

fun loopPeriodicFlush :: "'s inner_db \<Rightarrow> nat \<Rightarrow> 's batcher \<Rightarrow> 's batcher" where
  "loopPeriodicFlush db 0 b = b"
| "loopPeriodicFlush db (Suc ticks) b = loopPeriodicFlush db ticks (snd (Flush db b))"

fun wb_Stop :: "'s inner_db \<Rightarrow> nat \<Rightarrow> flusher \<Rightarrow> 's batcher \<Rightarrow> flusher \<times> 's batcher" where
  "wb_Stop db ticks FlusherRunning b = (FlusherStopped, loopPeriodicFlush db ticks b)"
| "wb_Stop db ticks fl b = (fl, b)"

section \<open>Buffering\<close>

definition opBytes :: "(entity \<Rightarrow> nat option) \<Rightarrow> batch_op \<Rightarrow> int" where
  "opBytes jsonLen bop =
     (case bop of
        BatchSet e \<Rightarrow> (case jsonLen e of None \<Rightarrow> int (length (iKey e) + length (iSK e) + 64) | Some n \<Rightarrow> int n)
      | BatchDel \<Rightarrow> 16)"

definition mergeKeyBytes :: "merge_key \<Rightarrow> int" where
  "mergeKeyBytes mk = int (length (fst mk) + length (snd mk))"

definition upsertLocked :: "(entity \<Rightarrow> nat option) \<Rightarrow> merge_key \<Rightarrow> batch_op \<Rightarrow> 's batcher \<Rightarrow> 's batcher" where
  "upsertLocked jsonLen mk next b =
     (let n = (case map_of (pend b) mk of
                 Some old \<Rightarrow> bytesN b - opBytes jsonLen old
               | None \<Rightarrow> bytesN b + mergeKeyBytes mk) in
      b\<lparr>pend := AList.update mk next (pend b), bytesN := n + opBytes jsonLen next\<rparr>)"

definition overLimitsLocked :: "'s batcher \<Rightarrow> bool" where
  "overLimitsLocked b =
     (if int (length (pend b)) \<ge> MaxDirtyKeys (bopts b) then True
      else if bytesN b \<ge> MaxDirtyBytes (bopts b) then True
      else False)"

text \<open>The common end of the four mutations.\<close>

definition finish_write :: "'s inner_db \<Rightarrow> 's batcher \<Rightarrow> goerr option \<times> 's batcher" where
  "finish_write db b =
     (if DeferWrites (bopts b) then
        (if overLimitsLocked b then flushAllLocked db b else (None, b))
      else flushAllLocked db b)"

definition wb_CreateTable :: "'s inner_db \<Rightarrow> string \<Rightarrow> 's batcher \<Rightarrow> goerr option \<times> 's batcher" where
  "wb_CreateTable db name b = (case dbCreateTable db name (inner b) of (err, s) \<Rightarrow> (err, b\<lparr>inner := s\<rparr>))"

definition wb_Set :: "'s inner_db \<Rightarrow> (entity \<Rightarrow> nat option) \<Rightarrow> string \<Rightarrow> entity \<Rightarrow> 's batcher \<Rightarrow> goerr option \<times> 's batcher" where
  "wb_Set db jsonLen tableName e b =
     finish_write db (upsertLocked jsonLen (tableName, iKey e) (BatchSet e) b)"

definition wb_BulkSet :: "'s inner_db \<Rightarrow> (entity \<Rightarrow> nat option) \<Rightarrow> string \<Rightarrow> entity list \<Rightarrow> 's batcher \<Rightarrow> goerr option \<times> 's batcher" where
  "wb_BulkSet db jsonLen tableName es b =
     finish_write db (fold (\<lambda>e. upsertLocked jsonLen (tableName, iKey e) (BatchSet e)) es b)"

definition wb_BulkDel :: "'s inner_db \<Rightarrow> (entity \<Rightarrow> nat option) \<Rightarrow> string \<Rightarrow> string list \<Rightarrow> 's batcher \<Rightarrow> goerr option \<times> 's batcher" where
  "wb_BulkDel db jsonLen tableName keys b =
     finish_write db (fold (\<lambda>key. upsertLocked jsonLen (tableName, key) BatchDel) keys b)"

definition wb_Del :: "'s inner_db \<Rightarrow> (entity \<Rightarrow> nat option) \<Rightarrow> string \<Rightarrow> string \<Rightarrow> 's batcher \<Rightarrow> goerr option \<times> 's batcher" where
  "wb_Del db jsonLen tableName key b =
     finish_write db (upsertLocked jsonLen (tableName, key) BatchDel b)"

section \<open>Reading\<close>

definition wb_Get :: "'s inner_db \<Rightarrow> string \<Rightarrow> string \<Rightarrow> 's batcher \<Rightarrow> goerr + entity" where
  "wb_Get db tableName key b =
     (if DeferWrites (bopts b) then
        (case map_of (pend b) (tableName, key) of
           Some (BatchSet e) \<Rightarrow> Inr e
         | Some BatchDel \<Rightarrow> Inl ErrNotFound
         | None \<Rightarrow> dbGet db tableName key (inner b))
      else dbGet db tableName key (inner b))"

definition wb_GetBySk :: "'s inner_db \<Rightarrow> string \<Rightarrow> string \<Rightarrow> 's batcher \<Rightarrow> (goerr + entity list) \<times> 's batcher" where
  "wb_GetBySk db tableName secondaryKey b =
     (case Flush db b of
        (Some err, b) \<Rightarrow> (Inl err, b)
      | (None, b) \<Rightarrow> (dbGetBySk db tableName secondaryKey (inner b), b))"

definition wb_ReplaceWithCheckpointBlobs ::
  "'s inner_db \<Rightarrow> (string \<times> (string \<times> bytes) list) list \<Rightarrow> 's batcher \<Rightarrow> goerr option \<times> 's batcher" where
  "wb_ReplaceWithCheckpointBlobs db ts b =
     (let b = b\<lparr>pend := [], bytesN := 0\<rparr> in
      case dbHydrate db of
        None \<Rightarrow> (Some (ErrMsg ''fsdb write batcher: inner does not implement db.CheckpointBlobHydrator''), b)
      | Some h \<Rightarrow> (case h ts (inner b) of (err, s) \<Rightarrow> (err, b\<lparr>inner := s\<rparr>)))"

end
