(* ===== verification/Fsdb.thy ===== *)
theory Fsdb
  imports Item Interfaces
begin

text \<open>
  The file-backed store: \<^verbatim>\<open>src/internal/fsdb/base.go\<close> and
  \<^verbatim>\<open>src/internal/fsdb/checkpoint_blob.go\<close>.  A table is a directory with one file per key
  under \<^verbatim>\<open>key/\<close> and one index file per secondary key under \<^verbatim>\<open>sk/\<close>.

  The file system is a map from paths to directories and files; a path is the list of its segments
  after \<^verbatim>\<open>filepath.Join\<close> has cleaned it, below the root (the default directory stands for
  its absolute path; there are no symbolic links).  System calls fail for the reasons that depend on the
  tree (missing parent, a file in the place of a directory, a directory in the place of a file, a
  directory that is not empty); failures of the device are not modelled.  A file's content is the JSON
  document it holds.  Each operation runs under its table's lock and is one state transformer; the locks
  themselves are not part of this state.
\<close>

section \<open>Paths\<close>

fun split_slash :: "string \<Rightarrow> string list" where
  "split_slash [] = [[]]"
| "split_slash (c # cs) =
     (if c = CHR ''/'' then [] # split_slash cs
      else case split_slash cs of [] \<Rightarrow> [[c]] | seg # segs \<Rightarrow> (c # seg) # segs)"

text \<open>\<^verbatim>\<open>filepath.Clean\<close> on a rooted path, segment by segment; the accumulator is reversed.\<close>

fun clean_segs :: "string list \<Rightarrow> string list \<Rightarrow> string list" where
  "clean_segs acc [] = rev acc"
| "clean_segs acc (s # ss) =
     (if s = [] \<or> s = ''.'' then clean_segs acc ss
      else if s = ''..'' then clean_segs (tl acc) ss
      else clean_segs (s # acc) ss)"

type_synonym path = "string list"

definition Join :: "path \<Rightarrow> string list \<Rightarrow> path" where
  "Join base elems = clean_segs (rev base) (concat (map split_slash elems))"

section \<open>System calls\<close>

datatype node = Dir | File json

type_synonym fs = "(path \<times> node) list"

datatype oserr = ENOENT | ENOTDIR | EISDIR | ENOTEMPTY

text \<open>The error of walking down to a path: the first proper prefix that is missing or not a directory.\<close>

fun walk_err :: "fs \<Rightarrow> path \<Rightarrow> path \<Rightarrow> oserr option" where
  "walk_err F at [] = None"
| "walk_err F at (s # ss) =
     (if ss = [] then None
      else case map_of F (at @ [s]) of
             None \<Rightarrow> Some ENOENT
           | Some (File _) \<Rightarrow> Some ENOTDIR
           | Some Dir \<Rightarrow> walk_err F (at @ [s]) ss)"

definition os_ReadFile :: "path \<Rightarrow> fs \<Rightarrow> oserr + json" where
  "os_ReadFile p F =
     (case walk_err F [] p of
        Some e \<Rightarrow> Inl e
      | None \<Rightarrow> (case map_of F p of None \<Rightarrow> Inl ENOENT | Some Dir \<Rightarrow> Inl EISDIR | Some (File j) \<Rightarrow> Inr j))"

definition os_WriteFile :: "path \<Rightarrow> json \<Rightarrow> fs \<Rightarrow> oserr option \<times> fs" where
  "os_WriteFile p j F =
     (case walk_err F [] p of
        Some e \<Rightarrow> (Some e, F)
      | None \<Rightarrow> (case map_of F p of Some Dir \<Rightarrow> (Some EISDIR, F) | _ \<Rightarrow> (None, AList.update p (File j) F)))"

definition has_entries :: "path \<Rightarrow> fs \<Rightarrow> bool" where
  "has_entries p F = list_ex (\<lambda>(q, n). length q = Suc (length p) \<and> take (length p) q = p) F"

definition os_Remove :: "path \<Rightarrow> fs \<Rightarrow> oserr option \<times> fs" where
  "os_Remove p F =
     (case walk_err F [] p of
        Some e \<Rightarrow> (Some e, F)
      | None \<Rightarrow>
         (case map_of F p of
            None \<Rightarrow> (Some ENOENT, F)
          | Some (File j) \<Rightarrow> (None, AList.delete p F)
          | Some Dir \<Rightarrow> if has_entries p F then (Some ENOTEMPTY, F) else (None, AList.delete p F)))"

fun mkdir_walk :: "path \<Rightarrow> path \<Rightarrow> fs \<Rightarrow> oserr option \<times> fs" where
  "mkdir_walk at [] F = (None, F)"
| "mkdir_walk at (s # ss) F =
     (case map_of F (at @ [s]) of
        Some (File _) \<Rightarrow> (Some ENOTDIR, F)
      | Some Dir \<Rightarrow> mkdir_walk (at @ [s]) ss F
      | None \<Rightarrow> mkdir_walk (at @ [s]) ss (AList.update (at @ [s]) Dir F))"

definition os_MkdirAll :: "path \<Rightarrow> fs \<Rightarrow> oserr option \<times> fs" where
  "os_MkdirAll p F = mkdir_walk [] p F"

definition os_RemoveAll :: "path \<Rightarrow> fs \<Rightarrow> oserr option \<times> fs" where
  "os_RemoveAll p F =
     (case walk_err F [] p of
        Some ENOENT \<Rightarrow> (None, F)
      | Some e \<Rightarrow> (Some e, F)
      | None \<Rightarrow> (None, filter (\<lambda>(q, n). take (length p) q \<noteq> p) F))"

text \<open>A system-call error inside \<^verbatim>\<open>fmt.Errorf\<close>.\<close>

definition os_goerr :: "oserr \<Rightarrow> goerr" where
  "os_goerr e = ErrIO (case e of ENOENT \<Rightarrow> ''ENOENT'' | ENOTDIR \<Rightarrow> ''ENOTDIR'' | EISDIR \<Rightarrow> ''EISDIR''
     | ENOTEMPTY \<Rightarrow> ''ENOTEMPTY'')"

section \<open>The store\<close>

record fsdb =
  defaultDir :: path
  dfs :: fs

definition writeBlockedByMissingPath :: "oserr \<Rightarrow> bool" where
  "writeBlockedByMissingPath e = (e = ENOENT \<or> e = ENOTDIR)"

definition key_path :: "string \<Rightarrow> string \<Rightarrow> fsdb \<Rightarrow> path" where
  "key_path table key d = Join (defaultDir d) [table, ''key'', key]"

definition sk_path :: "string \<Rightarrow> string \<Rightarrow> fsdb \<Rightarrow> path" where
  "sk_path table sk d = Join (defaultDir d) [table, ''sk'', sk]"

definition CreateTable :: "string \<Rightarrow> fsdb \<Rightarrow> goerr option \<times> fsdb" where
  "CreateTable name d =
     (let path = Join (defaultDir d) [name] in
      case os_MkdirAll path (dfs d) of
        (Some e, F) \<Rightarrow> (Some (ErrWrap ''create table'' (os_goerr e)), d\<lparr>dfs := F\<rparr>)
      | (None, F) \<Rightarrow>
      (case os_MkdirAll (Join path [''key'']) F of
        (Some e, F) \<Rightarrow> (Some (ErrWrap ''create table keys dir'' (os_goerr e)), d\<lparr>dfs := F\<rparr>)
      | (None, F) \<Rightarrow>
      (case os_MkdirAll (Join path [''sk'']) F of
        (Some e, F) \<Rightarrow> (Some (ErrWrap ''create table sk dir'' (os_goerr e)), d\<lparr>dfs := F\<rparr>)
      | (None, F) \<Rightarrow> (None, d\<lparr>dfs := F\<rparr>))))"

definition fsdb_get :: "string \<Rightarrow> string \<Rightarrow> fsdb \<Rightarrow> goerr + entity" where
  "fsdb_get table key d =
     (case os_ReadFile (key_path table key d) (dfs d) of
        Inl e \<Rightarrow> Inl (ErrWrap ''read get key file'' (os_goerr e))
      | Inr b \<Rightarrow> (case unmarshal_entity b of
                     Inl err \<Rightarrow> Inl (ErrWrap ''unmarshal value'' err)
                   | Inr result \<Rightarrow> Inr result))"

definition getKeys :: "string \<Rightarrow> string \<Rightarrow> fsdb \<Rightarrow> goerr + string list" where
  "getKeys table sk d =
     (case os_ReadFile (sk_path table sk d) (dfs d) of
        Inl e \<Rightarrow> if e = ENOENT then Inl ErrNotFoundSk else Inl (ErrWrap ''read get by sk file'' (os_goerr e))
      | Inr b \<Rightarrow> (case unmarshal_keys b of
                     Inl err \<Rightarrow> Inl (ErrWrap ''unmarshal keys'' err)
                   | Inr keys \<Rightarrow> Inr keys))"

definition fsdb_Get :: "string \<Rightarrow> string \<Rightarrow> fsdb \<Rightarrow> goerr + entity" where
  "fsdb_Get table key d =
     (case os_ReadFile (key_path table key d) (dfs d) of
        Inl e \<Rightarrow> if e = ENOENT \<or> e = ENOTDIR then Inl ErrNotFound
                 else Inl (ErrWrap ''read get key file'' (os_goerr e))
      | Inr b \<Rightarrow> (case unmarshal_entity b of
                     Inl err \<Rightarrow> Inl (ErrWrap ''unmarshal value'' err)
                   | Inr result \<Rightarrow> Inr result))"

fun get_all :: "string \<Rightarrow> string list \<Rightarrow> fsdb \<Rightarrow> goerr + entity list" where
  "get_all table [] d = Inr []"
| "get_all table (k # ks) d =
     (case fsdb_Get table k d of
        Inl err \<Rightarrow> Inl (ErrWrap ''get by key'' err)
      | Inr e \<Rightarrow> (case get_all table ks d of Inl err \<Rightarrow> Inl err | Inr es \<Rightarrow> Inr (e # es)))"

definition fsdb_GetBySk :: "string \<Rightarrow> string \<Rightarrow> fsdb \<Rightarrow> goerr + entity list" where
  "fsdb_GetBySk table sk d =
     (case getKeys table sk d of
        Inl err \<Rightarrow> Inl (ErrWrap ''get keys'' err)
      | Inr keys \<Rightarrow> get_all table keys d)"

section \<open>Writing\<close>

text \<open>\<open>sprint\<close> is \<^verbatim>\<open>fmt.Sprint\<close> on a map key that is not a string.\<close>

definition writeKeyFile :: "(any \<Rightarrow> string) \<Rightarrow> string \<Rightarrow> entity \<Rightarrow> fsdb \<Rightarrow> goerr option \<times> fsdb" where
  "writeKeyFile sprint table data d =
     (let data = data\<lparr>iValue := jsonSafeAny sprint (iValue data)\<rparr> in
      case marshal_entity data of
        Inl err \<Rightarrow> (Some (ErrWrap ''marshal value'' err), d)
      | Inr b \<Rightarrow>
          (case os_WriteFile (key_path table (iKey data) d) b (dfs d) of
             (Some e, F) \<Rightarrow>
               (Some (if writeBlockedByMissingPath e then ErrTableNotFound
                      else ErrWrap ''write put key file'' (os_goerr e)), d\<lparr>dfs := F\<rparr>)
           | (None, F) \<Rightarrow> (None, d\<lparr>dfs := F\<rparr>)))"

text \<open>The loop that adds the keys that are not there yet.\<close>

definition add_keys :: "string list \<Rightarrow> string list \<Rightarrow> string list" where
  "add_keys keys new = foldl (\<lambda>ks k. if k \<in> set ks then ks else ks @ [k]) keys new"

definition appendKeysToSk :: "string \<Rightarrow> string \<Rightarrow> string list \<Rightarrow> fsdb \<Rightarrow> goerr option \<times> fsdb" where
  "appendKeysToSk table sk newKeys d =
     (let write = (\<lambda>keys.
        if list_all (\<lambda>k. k \<in> set keys) newKeys then (None, d)
        else case os_WriteFile (sk_path table sk d) (marshal_keys (add_keys keys newKeys)) (dfs d) of
               (Some e, F) \<Rightarrow>
                 (Some (if writeBlockedByMissingPath e then ErrTableNotFound
                        else ErrWrap ''write put sk file'' (os_goerr e)), d\<lparr>dfs := F\<rparr>)
             | (None, F) \<Rightarrow> (None, d\<lparr>dfs := F\<rparr>)) in
      case getKeys table sk d of
        Inl err \<Rightarrow> if errors_is err ErrNotFoundSk then write [] else (Some (ErrWrap ''get keys'' err), d)
      | Inr keys \<Rightarrow> write keys)"

definition setLocked :: "(any \<Rightarrow> string) \<Rightarrow> string \<Rightarrow> entity \<Rightarrow> fsdb \<Rightarrow> goerr option \<times> fsdb" where
  "setLocked sprint table data d =
     (case writeKeyFile sprint table data d of
        (Some err, d) \<Rightarrow> (Some err, d)
      | (None, d) \<Rightarrow>
          if iSK data \<noteq> [] then appendKeysToSk table (iSK data) [iKey data] d else (None, d))"

definition fsdb_Set :: "(any \<Rightarrow> string) \<Rightarrow> string \<Rightarrow> entity \<Rightarrow> fsdb \<Rightarrow> goerr option \<times> fsdb" where
  "fsdb_Set sprint table data d = setLocked sprint table data d"

text \<open>Later duplicates overwrite the earlier one in place.\<close>

definition dedupeByKey :: "entity list \<Rightarrow> entity list" where
  "dedupeByKey es = foldl (\<lambda>out e.
     if iKey e \<in> iKey ` set out then map (\<lambda>o'. if iKey o' = iKey e then e else o') out else out @ [e]) [] es"

definition dedupeKeys :: "string list \<Rightarrow> string list" where
  "dedupeKeys keys = foldl (\<lambda>out k. if k \<in> set out then out else out @ [k]) [] keys"

text \<open>
  The bounded goroutine pool of the two bulk operations.  \<open>sched\<close> picks, among the at most 16 actions in
  flight, the one that happens next.  \<open>budget\<close> is \<open>Some n\<close> when the context is done and \<open>n\<close> more
  actions happen: set from outside when the caller's context ends, and by the first error, after which
  \<open>extra\<close> of the actions already started still happen.
\<close>

definition bulkWriteConcurrency :: nat where
  "bulkWriteConcurrency = 16"

definition pick :: "nat list \<Rightarrow> 'a list \<Rightarrow> nat" where
  "pick sched pend = (case sched of [] \<Rightarrow> 0 | i # _ \<Rightarrow> i mod min bulkWriteConcurrency (length pend))"

lemma pick_less: "pend \<noteq> [] \<Longrightarrow> pick sched pend < length pend"
  by (auto simp: pick_def bulkWriteConcurrency_def min_less_iff_disj split: list.splits
      intro: order_less_le_trans [OF mod_less_divisor])

lemma pick_shrinks: "pend \<noteq> [] \<Longrightarrow>
    length (take (pick sched pend) pend @ drop (Suc (pick sched pend)) pend) < length pend"
  using pick_less [of pend sched] by simp

record schedule =
  sched :: "nat list"
  extra :: nat
  budget :: "nat option"

definition after_action :: "bool \<Rightarrow> schedule \<Rightarrow> schedule" where
  "after_action failed sc =
     (let b = map_option (\<lambda>n. n - 1) (budget sc);
          b = (if failed then Some (case b of None \<Rightarrow> extra sc | Some n \<Rightarrow> min n (extra sc)) else b) in
      sc\<lparr>sched := tl (sched sc), budget := b\<rparr>)"

function run_concurrent ::
  "('a \<Rightarrow> fsdb \<Rightarrow> goerr option \<times> fsdb) \<Rightarrow> schedule \<Rightarrow> 'a list \<Rightarrow> goerr option \<Rightarrow> fsdb \<Rightarrow> goerr option \<times> fsdb"
where
  "run_concurrent act sc pend firstErr d =
     (if pend = [] \<or> budget sc = Some 0 then (firstErr, d)
      else let i = pick (sched sc) pend in
           case act (pend ! i) d of
             (err, d') \<Rightarrow>
               run_concurrent act (after_action (firstErr = None \<and> err \<noteq> None) sc)
                 (take i pend @ drop (Suc i) pend)
                 (if firstErr \<noteq> None then firstErr else err) d')"
  by pat_completeness auto
termination
  by (relation "measure (\<lambda>(act, sc, pend, firstErr, d). length pend)")
    (simp, auto simp del: length_append length_take length_drop intro: pick_shrinks)

declare run_concurrent.simps [simp del]

definition writeKeyFilesConcurrent ::
  "(any \<Rightarrow> string) \<Rightarrow> schedule \<Rightarrow> string \<Rightarrow> entity list \<Rightarrow> fsdb \<Rightarrow> goerr option \<times> fsdb" where
  "writeKeyFilesConcurrent sprint sc table entities d =
     run_concurrent (\<lambda>data d.
       case writeKeyFile sprint table data d of
         (Some err, d) \<Rightarrow> (Some (ErrWrap ''bulk set entity'' err), d)
       | (None, d) \<Rightarrow> (None, d)) sc entities None d"

text \<open>Keys grouped by secondary key, in the order the secondary keys are first seen.\<close>

definition group_by_sk :: "entity list \<Rightarrow> (string \<times> string list) list" where
  "group_by_sk es = foldl (\<lambda>g e.
     if iSK e = [] then g
     else case map_of g (iSK e) of
            None \<Rightarrow> g @ [(iSK e, [iKey e])]
          | Some ks \<Rightarrow> AList.update (iSK e) (ks @ [iKey e]) g) [] es"

fun append_groups :: "string \<Rightarrow> (string \<times> string list) list \<Rightarrow> fsdb \<Rightarrow> goerr option \<times> fsdb" where
  "append_groups table [] d = (None, d)"
| "append_groups table ((sk, keys) # g) d =
     (case appendKeysToSk table sk keys d of
        (Some err, d) \<Rightarrow> (Some err, d)
      | (None, d) \<Rightarrow> append_groups table g d)"

definition bulkUpdateSk :: "string \<Rightarrow> entity list \<Rightarrow> fsdb \<Rightarrow> goerr option \<times> fsdb" where
  "bulkUpdateSk table entities d = append_groups table (group_by_sk entities) d"

definition fsdb_BulkSet ::
  "(any \<Rightarrow> string) \<Rightarrow> schedule \<Rightarrow> string \<Rightarrow> entity list \<Rightarrow> fsdb \<Rightarrow> goerr option \<times> fsdb" where
  "fsdb_BulkSet sprint sc table entities d =
     (let entities = dedupeByKey entities in
      case writeKeyFilesConcurrent sprint sc table entities d of
        (Some err, d) \<Rightarrow> (Some err, d)
      | (None, d) \<Rightarrow> bulkUpdateSk table entities d)"

section \<open>Deleting\<close>

definition removeKeysFromSk :: "string \<Rightarrow> string \<Rightarrow> string list \<Rightarrow> fsdb \<Rightarrow> goerr option \<times> fsdb" where
  "removeKeysFromSk table sk gone d =
     (case getKeys table sk d of
        Inl err \<Rightarrow> if errors_is err ErrNotFoundSk then (None, d) else (Some (ErrWrap ''get keys'' err), d)
      | Inr keys \<Rightarrow>
          let keys = filter (\<lambda>k. k \<notin> set gone) keys; path = sk_path table sk d in
          if keys = [] then
            (case os_Remove path (dfs d) of
               (Some e, F) \<Rightarrow> if e = ENOENT then (None, d\<lparr>dfs := F\<rparr>)
                             else (Some (ErrWrap ''remove sk file'' (os_goerr e)), d\<lparr>dfs := F\<rparr>)
             | (None, F) \<Rightarrow> (None, d\<lparr>dfs := F\<rparr>))
          else
            (case os_WriteFile path (marshal_keys keys) (dfs d) of
               (Some e, F) \<Rightarrow> (Some (ErrWrap ''write put sk file'' (os_goerr e)), d\<lparr>dfs := F\<rparr>)
             | (None, F) \<Rightarrow> (None, d\<lparr>dfs := F\<rparr>)))"

definition fsdb_Del :: "string \<Rightarrow> string \<Rightarrow> fsdb \<Rightarrow> goerr option \<times> fsdb" where
  "fsdb_Del table key d =
     (case fsdb_get table key d of
        Inl err \<Rightarrow> (Some ErrNotFound, d)
      | Inr data \<Rightarrow>
          (case os_Remove (key_path table key d) (dfs d) of
             (Some e, F) \<Rightarrow> (Some (ErrWrap ''remove key file'' (os_goerr e)), d\<lparr>dfs := F\<rparr>)
           | (None, F) \<Rightarrow>
               let d = d\<lparr>dfs := F\<rparr> in
               if iSK data \<noteq> [] then
                 (case getKeys table (iSK data) d of
                    Inl err \<Rightarrow> (Some ErrNotFoundSk, d)
                  | Inr _ \<Rightarrow> removeKeysFromSk table (iSK data) [key] d)
               else (None, d)))"

text \<open>\<^verbatim>\<open>item.Entity{Key: k, SK: data.SK}\<close> for every key that can be read.\<close>

definition victims :: "string \<Rightarrow> string list \<Rightarrow> fsdb \<Rightarrow> entity list" where
  "victims table keys d = concat (map (\<lambda>k.
     case fsdb_get table k d of
       Inl err \<Rightarrow> []
     | Inr data \<Rightarrow> [\<lparr>iKey = k, iSK = iSK data, iValue = VNil, iVersion = []\<rparr>]) keys)"

definition removeKeyFilesConcurrent :: "schedule \<Rightarrow> string \<Rightarrow> entity list \<Rightarrow> fsdb \<Rightarrow> goerr option \<times> fsdb" where
  "removeKeyFilesConcurrent sc table vs d =
     run_concurrent (\<lambda>v d.
       case os_Remove (key_path table (iKey v) d) (dfs d) of
         (Some e, F) \<Rightarrow> if e = ENOENT then (None, d\<lparr>dfs := F\<rparr>)
                       else (Some (ErrWrap ''bulk del entity'' (os_goerr e)), d\<lparr>dfs := F\<rparr>)
       | (None, F) \<Rightarrow> (None, d\<lparr>dfs := F\<rparr>)) sc vs None d"

fun remove_groups :: "string \<Rightarrow> (string \<times> string list) list \<Rightarrow> fsdb \<Rightarrow> goerr option \<times> fsdb" where
  "remove_groups table [] d = (None, d)"
| "remove_groups table ((sk, keys) # g) d =
     (case removeKeysFromSk table sk keys d of
        (Some err, d) \<Rightarrow> (Some err, d)
      | (None, d) \<Rightarrow> remove_groups table g d)"

definition bulkRemoveSk :: "string \<Rightarrow> entity list \<Rightarrow> fsdb \<Rightarrow> goerr option \<times> fsdb" where
  "bulkRemoveSk table vs d = remove_groups table (group_by_sk vs) d"

definition fsdb_BulkDel :: "schedule \<Rightarrow> string \<Rightarrow> string list \<Rightarrow> fsdb \<Rightarrow> goerr option \<times> fsdb" where
  "fsdb_BulkDel sc table keys d =
     (let keys = dedupeKeys keys; vs = victims table keys d in
      case removeKeyFilesConcurrent sc table vs d of
        (Some err, d) \<Rightarrow> (Some err, d)
      | (None, d) \<Rightarrow> bulkRemoveSk table vs d)"

section \<open>Restoring from a checkpoint\<close>

fun wipe_tables :: "string list \<Rightarrow> fsdb \<Rightarrow> goerr option \<times> fsdb" where
  "wipe_tables [] d = (None, d)"
| "wipe_tables (name # names) d =
     (case os_RemoveAll (Join (defaultDir d) [name]) (dfs d) of
        (Some e, F) \<Rightarrow> (Some (ErrWrap ''fsdb: wipe checkpoint table'' (os_goerr e)), d\<lparr>dfs := F\<rparr>)
      | (None, F) \<Rightarrow> wipe_tables names (d\<lparr>dfs := F\<rparr>))"

fun restore_rows ::
  "(any \<Rightarrow> string) \<Rightarrow> (bytes \<Rightarrow> goerr + entity) \<Rightarrow> string \<Rightarrow> (string \<times> bytes) list \<Rightarrow> fsdb \<Rightarrow> goerr option \<times> fsdb" where
  "restore_rows sprint decode name [] d = (None, d)"
| "restore_rows sprint decode name ((k, b) # rows) d =
     (case decode b of
        Inl err \<Rightarrow> (Some (ErrWrap ''fsdb: decode checkpoint row'' err), d)
      | Inr e \<Rightarrow>
          (case fsdb_Set sprint name e d of
             (Some err, d) \<Rightarrow> (Some (ErrWrap ''fsdb: apply checkpoint row'' err), d)
           | (None, d) \<Rightarrow> restore_rows sprint decode name rows d))"

fun restore_tables ::
  "(any \<Rightarrow> string) \<Rightarrow> (bytes \<Rightarrow> goerr + entity) \<Rightarrow> (string \<times> (string \<times> bytes) list) list \<Rightarrow> fsdb \<Rightarrow> goerr option \<times> fsdb" where
  "restore_tables sprint decode [] d = (None, d)"
| "restore_tables sprint decode ((name, rows) # ts) d =
     (case CreateTable name d of
        (Some err, d) \<Rightarrow> (Some (ErrWrap ''fsdb: recreate table'' err), d)
      | (None, d) \<Rightarrow>
          (case restore_rows sprint decode name rows d of
             (Some err, d) \<Rightarrow> (Some err, d)
           | (None, d) \<Rightarrow> restore_tables sprint decode ts d))"

text \<open>\<open>decode\<close> is the CBOR decoder; the tables are in the order the map is iterated.\<close>

definition ReplaceWithCheckpointBlobs ::
  "(any \<Rightarrow> string) \<Rightarrow> (bytes \<Rightarrow> goerr + entity) \<Rightarrow> (string \<times> (string \<times> bytes) list) list \<Rightarrow> fsdb \<Rightarrow> goerr option \<times> fsdb" where
  "ReplaceWithCheckpointBlobs sprint decode tables d =
     (case wipe_tables (map fst tables) d of
        (Some err, d) \<Rightarrow> (Some err, d)
      | (None, d) \<Rightarrow> restore_tables sprint decode tables d)"

end
