(* ===== verification/Fsdb_Correct.thy ===== *)
theory Fsdb_Correct
  imports Fsdb
begin

text \<open>
  Correctness of the file-backed store on plain names: the invariant of the directory tree and of the
  secondary index, the effect of every operation on the represented map, and the independence of the
  bulk operations from the schedule of their goroutines.
\<close>

section \<open>Paths of plain names\<close>

text \<open>A name that is one path segment: not empty, not \<open>.\<close> or \<open>..\<close>, without a slash.\<close>

definition simple :: "string \<Rightarrow> bool" where
  "simple s \<longleftrightarrow> s \<noteq> [] \<and> s \<noteq> ''.'' \<and> s \<noteq> ''..'' \<and> CHR ''/'' \<notin> set s"

lemma simple_key_sk [simp]: "simple ''key''" "simple ''sk''"
  by (simp_all add: simple_def)

lemma split_slash_simple: "CHR ''/'' \<notin> set s \<Longrightarrow> split_slash s = [s]"
  by (induction s) auto

lemma clean_segs_simple: "\<forall>s\<in>set ss. simple s \<Longrightarrow> clean_segs acc ss = rev acc @ ss"
  by (induction ss arbitrary: acc) (auto simp: simple_def)

lemma Join_simple [store_simps]: "\<forall>s\<in>set ss. simple s \<Longrightarrow> Join base ss = base @ ss"
proof -
  assume a: "\<forall>s\<in>set ss. simple s"
  then have "concat (map split_slash ss) = ss"
    by (induction ss) (auto simp: split_slash_simple simple_def)
  then show ?thesis using a by (simp add: Join_def clean_segs_simple)
qed

section \<open>Walking\<close>

definition dirs_ok :: "fs \<Rightarrow> path \<Rightarrow> bool" where
  "dirs_ok F p \<longleftrightarrow> (\<forall>n. 0 < n \<and> n \<le> length p \<longrightarrow> map_of F (take n p) = Some Dir)"

definition no_files :: "fs \<Rightarrow> path \<Rightarrow> bool" where
  "no_files F p \<longleftrightarrow> (\<forall>n j. 0 < n \<and> n \<le> length p \<longrightarrow> map_of F (take n p) \<noteq> Some (File j))"

lemma dirs_ok_no_files: "dirs_ok F p \<Longrightarrow> no_files F p"
  by (simp add: dirs_ok_def no_files_def)

lemma dirs_ok_snoc: "dirs_ok F (p @ [s]) \<longleftrightarrow> dirs_ok F p \<and> map_of F (p @ [s]) = Some Dir"
proof
  assume a: "dirs_ok F (p @ [s])"
  have "0 < n \<Longrightarrow> n \<le> length p \<Longrightarrow> map_of F (take n p) = Some Dir" for n
    using a [unfolded dirs_ok_def, rule_format, of n] by simp
  moreover have "map_of F (p @ [s]) = Some Dir"
    using a [unfolded dirs_ok_def, rule_format, of "Suc (length p)"] by simp
  ultimately show "dirs_ok F p \<and> map_of F (p @ [s]) = Some Dir" by (simp add: dirs_ok_def)
next
  assume a: "dirs_ok F p \<and> map_of F (p @ [s]) = Some Dir"
  show "dirs_ok F (p @ [s])"
    unfolding dirs_ok_def
  proof (intro allI impI)
    fix n assume "0 < n \<and> n \<le> length (p @ [s])"
    then show "map_of F (take n (p @ [s])) = Some Dir"
      using a by (cases "n \<le> length p") (auto simp: dirs_ok_def le_Suc_eq)
  qed
qed

lemma no_files_snoc: "no_files F (p @ [s]) \<longleftrightarrow> no_files F p \<and> (\<forall>j. map_of F (p @ [s]) \<noteq> Some (File j))"
proof
  assume a: "no_files F (p @ [s])"
  have "0 < n \<Longrightarrow> n \<le> length p \<Longrightarrow> map_of F (take n p) \<noteq> Some (File j)" for n j
    using a [unfolded no_files_def, rule_format, of n j] by simp
  moreover have "map_of F (p @ [s]) \<noteq> Some (File j)" for j
    using a [unfolded no_files_def, rule_format, of "Suc (length p)" j] by simp
  ultimately show "no_files F p \<and> (\<forall>j. map_of F (p @ [s]) \<noteq> Some (File j))" by (simp add: no_files_def)
next
  assume a: "no_files F p \<and> (\<forall>j. map_of F (p @ [s]) \<noteq> Some (File j))"
  show "no_files F (p @ [s])"
    unfolding no_files_def
  proof (intro allI impI)
    fix n j assume "0 < n \<and> n \<le> length (p @ [s])"
    then show "map_of F (take n (p @ [s])) \<noteq> Some (File j)"
      using a by (cases "n \<le> length p") (auto simp: no_files_def le_Suc_eq)
  qed
qed

text \<open>Walking through existing directories, and past a missing one.\<close>

lemma walk_err_append:
  assumes "\<forall>n. 0 < n \<and> n \<le> length p \<longrightarrow> map_of F (at @ take n p) = Some Dir" and "r \<noteq> []"
  shows "walk_err F at (p @ r) = walk_err F (at @ p) r"
  using assms
proof (induction p arbitrary: at)
  case (Cons s p)
  have h: "map_of F (at @ [s]) = Some Dir" using Cons.prems(1) [rule_format, of 1] by simp
  have "walk_err F (at @ [s]) (p @ r) = walk_err F ((at @ [s]) @ p) r"
    using Cons.prems(1) [rule_format, of "Suc _"] Cons.prems(2) by (intro Cons.IH) auto
  then show ?case using h Cons.prems(2) by simp
qed simp

lemma walk_ok: "dirs_ok F p \<Longrightarrow> walk_err F [] (p @ [s]) = None"
  using walk_err_append [of p F "[]" "[s]"] by (simp add: dirs_ok_def)

lemma walk_missing:
  assumes "no_files F p" and "p \<noteq> []" and "map_of F p = None" and "r \<noteq> []"
  shows "walk_err F [] (p @ r) = Some ENOENT"
proof -
  define m where "m = (LEAST n. 0 < n \<and> map_of F (take n p) = None)"
  have ex: "0 < length p \<and> map_of F (take (length p) p) = None" using assms by simp
  have m: "0 < m" "map_of F (take m p) = None" "m \<le> length p"
    using LeastI [of "\<lambda>n. 0 < n \<and> map_of F (take n p) = None", OF ex]
      Least_le [of "\<lambda>n. 0 < n \<and> map_of F (take n p) = None", OF ex] by (simp_all add: m_def)
  have dir: "map_of F (take n (take (m - 1) p)) = Some Dir" if "0 < n" "n \<le> length (take (m - 1) p)" for n
  proof -
    have n: "n < m" "n \<le> length p" using that m by auto
    then have "map_of F (take n p) \<noteq> None"
      using not_less_Least [of n "\<lambda>n. 0 < n \<and> map_of F (take n p) = None"] that(1) by (auto simp: m_def)
    moreover have "map_of F (take n p) \<noteq> Some (File j)" for j
      using assms(1) that(1) n(2) by (simp add: no_files_def)
    ultimately show ?thesis using n by (cases "map_of F (take n p)", simp) (metis min.absorb1 node.exhaust
          Suc_diff_1 less_Suc_eq_le m(1) take_take)
  qed
  have sp: "p @ r = take (m - 1) p @ (p ! (m - 1)) # drop m p @ r"
    using m id_take_nth_drop [of "m - 1" p] by simp
  have tk: "take (m - 1) p @ [p ! (m - 1)] = take m p"
    using m by (metis Suc_diff_1 Suc_le_lessD take_Suc_conv_app_nth)
  have "walk_err F [] (p @ r) = walk_err F (take (m - 1) p) ((p ! (m - 1)) # drop m p @ r)"
    unfolding sp using walk_err_append [of "take (m - 1) p" F "[]"] dir by simp
  then show ?thesis using tk m(2) assms(4) by simp
qed

text \<open>\<^verbatim>\<open>os.MkdirAll\<close> adds exactly the missing directories on the way.\<close>

lemma mkdir_walk_ok:
  assumes "\<forall>n j. 0 < n \<and> n \<le> length p \<longrightarrow> map_of F (at @ take n p) \<noteq> Some (File j)"
  shows "\<exists>F'. mkdir_walk at p F = (None, F') \<and>
    (\<forall>q. map_of F' q = (if \<exists>n. 0 < n \<and> n \<le> length p \<and> q = at @ take n p then Some Dir else map_of F q))"
  using assms
proof (induction p arbitrary: at F)
  case Nil
  then show ?case by auto
next
  case (Cons s p)
  let ?G = "if map_of F (at @ [s]) = None then AList.update (at @ [s]) Dir F else F"
  have h: "map_of F (at @ [s]) \<noteq> Some (File j)" for j using Cons.prems [rule_format, of 1] by simp
  have G: "map_of ?G q = (if q = at @ [s] then Some Dir else map_of F q)" for q
    using h by (cases "map_of F (at @ [s])") (auto simp: update_conv', metis node.exhaust)
  have "\<exists>F'. mkdir_walk (at @ [s]) p ?G = (None, F') \<and>
    (\<forall>q. map_of F' q = (if \<exists>n. 0 < n \<and> n \<le> length p \<and> q = (at @ [s]) @ take n p then Some Dir else map_of ?G q))"
    using Cons.prems [rule_format, of "Suc _"] by (intro Cons.IH) (auto simp: G)
  then obtain F' where F': "mkdir_walk (at @ [s]) p ?G = (None, F')"
     "\<forall>q. map_of F' q = (if \<exists>n. 0 < n \<and> n \<le> length p \<and> q = (at @ [s]) @ take n p then Some Dir else map_of ?G q)" by blast
  have step: "mkdir_walk at (s # p) F = mkdir_walk (at @ [s]) p ?G"
    using h by (cases "map_of F (at @ [s])") (auto split: node.splits)
  have pre: "(\<exists>n. 0 < n \<and> n \<le> length (s # p) \<and> q = at @ take n (s # p))
      \<longleftrightarrow> q = at @ [s] \<or> (\<exists>n. 0 < n \<and> n \<le> length p \<and> q = (at @ [s]) @ take n p)" (is "?l = ?r") for q
  proof
    assume ?l
    then obtain n where n: "0 < n" "n \<le> length (s # p)" "q = at @ take n (s # p)" by blast
    then obtain m where "n = Suc m" by (cases n) auto
    then show ?r using n by (cases m) auto
  next
    assume ?r
    then show ?l
    proof
      assume "q = at @ [s]"
      then show ?l by (intro exI [of _ 1]) simp
    next
      assume "\<exists>n. 0 < n \<and> n \<le> length p \<and> q = (at @ [s]) @ take n p"
      then obtain n where "0 < n" "n \<le> length p" "q = (at @ [s]) @ take n p" by blast
      then show ?l by (intro exI [of _ "Suc n"]) simp
    qed
  qed
  have "map_of F' q = (if \<exists>n. 0 < n \<and> n \<le> length (s # p) \<and> q = at @ take n (s # p) then Some Dir else map_of F q)" for q
    unfolding pre F'(2) [rule_format, of q] G by (simp only: if_distribR split: if_split) blast
  then show ?case unfolding step using F'(1) by blast
qed

lemma os_MkdirAll_ok:
  assumes "no_files F p"
  shows "\<exists>F'. os_MkdirAll p F = (None, F') \<and> dirs_ok F' p \<and>
    (\<forall>q. map_of F' q = (if \<exists>n. 0 < n \<and> n \<le> length p \<and> q = take n p then Some Dir else map_of F q))"
proof -
  obtain F' where F': "mkdir_walk [] p F = (None, F')"
     "\<forall>q. map_of F' q = (if \<exists>n. 0 < n \<and> n \<le> length p \<and> q = [] @ take n p then Some Dir else map_of F q)"
    using mkdir_walk_ok [of p F "[]"] assms by (auto simp: no_files_def)
  then have "dirs_ok F' p" by (auto simp: dirs_ok_def)
  with F' show ?thesis by (auto simp: os_MkdirAll_def)
qed

section \<open>The store's invariant and what it represents\<close>

definition kfile :: "fsdb \<Rightarrow> string \<Rightarrow> string \<Rightarrow> node option" where
  "kfile d t k = map_of (dfs d) (defaultDir d @ [t, ''key'', k])"

definition sfile :: "fsdb \<Rightarrow> string \<Rightarrow> string \<Rightarrow> node option" where
  "sfile d t s = map_of (dfs d) (defaultDir d @ [t, ''sk'', s])"

definition has_table :: "fsdb \<Rightarrow> string \<Rightarrow> bool" where
  "has_table d t \<longleftrightarrow> dirs_ok (dfs d) (defaultDir d @ [t, ''key'']) \<and> dirs_ok (dfs d) (defaultDir d @ [t, ''sk''])"

definition tables :: "fsdb \<Rightarrow> string set" where
  "tables d = {t. simple t \<and> has_table d t}"

text \<open>The entity stored under a key, and the keys listed under a secondary key.\<close>

definition sel :: "fsdb \<Rightarrow> string \<Rightarrow> string \<Rightarrow> entity option" where
  "sel d t k = (if simple t \<and> simple k then
     (case kfile d t k of
        Some (File j) \<Rightarrow> (case unmarshal_entity j of Inr e \<Rightarrow> Some e | Inl _ \<Rightarrow> None)
      | _ \<Rightarrow> None) else None)"

definition skx :: "fsdb \<Rightarrow> string \<Rightarrow> string \<Rightarrow> string list" where
  "skx d t s = (case sfile d t s of
     Some (File j) \<Rightarrow> (case unmarshal_keys j of Inr ks \<Rightarrow> ks | Inl _ \<Rightarrow> [])
   | _ \<Rightarrow> [])"

definition absent :: "fsdb \<Rightarrow> string \<Rightarrow> bool" where
  "absent d t \<longleftrightarrow> map_of (dfs d) (defaultDir d @ [t]) = None
     \<and> map_of (dfs d) (defaultDir d @ [t, ''key'']) = None \<and> map_of (dfs d) (defaultDir d @ [t, ''sk'']) = None
     \<and> (\<forall>k. kfile d t k = None \<and> sfile d t k = None)"

definition key_ok :: "fsdb \<Rightarrow> string \<Rightarrow> string \<Rightarrow> bool" where
  "key_ok d t k \<longleftrightarrow> kfile d t k = None \<or>
     (\<exists>e j. kfile d t k = Some (File j) \<and> marshal_entity e = Inr j \<and> iKey e = k
        \<and> (iSK e = [] \<or> simple (iSK e)))"

definition sk_ok :: "fsdb \<Rightarrow> string \<Rightarrow> string \<Rightarrow> bool" where
  "sk_ok d t s \<longleftrightarrow> sfile d t s = None \<or>
     (\<exists>ks. sfile d t s = Some (File (marshal_keys ks)) \<and> ks \<noteq> [] \<and> distinct ks)"

text \<open>
  A table has its two directories or does not exist at all; every key file holds an entity under its own
  key; every index file is a list without repetition.  The invariant adds that the index of an entity's
  secondary key lists its key.
\<close>

definition db_wf :: "fsdb \<Rightarrow> bool" where
  "db_wf d \<longleftrightarrow> no_files (dfs d) (defaultDir d) \<and>
     (\<forall>t. simple t \<longrightarrow> (has_table d t \<or> absent d t)
        \<and> (\<forall>k. simple k \<longrightarrow> key_ok d t k) \<and> (\<forall>s. simple s \<longrightarrow> sk_ok d t s))"

definition indexed :: "fsdb \<Rightarrow> bool" where
  "indexed d \<longleftrightarrow> (\<forall>t k e. sel d t k = Some e \<and> iSK e \<noteq> [] \<longrightarrow> k \<in> set (skx d t (iSK e)))"

lemma indexedD: "indexed d \<Longrightarrow> sel d t k = Some e \<Longrightarrow> iSK e \<noteq> [] \<Longrightarrow> k \<in> set (skx d t (iSK e))"
  by (simp add: indexed_def)

definition db_inv :: "fsdb \<Rightarrow> bool" where
  "db_inv d \<longleftrightarrow> db_wf d \<and> indexed d"

lemma db_wf_files:
  assumes "db_wf d" and "simple t" and "simple k"
  shows "key_ok d t k" and "sk_ok d t k" and "has_table d t \<or> absent d t"
  using assms by (simp_all add: db_wf_def)

lemma key_path_simple [store_simps]:
  "simple t \<Longrightarrow> simple k \<Longrightarrow> key_path t k d = defaultDir d @ [t, ''key'', k]"
  "simple t \<Longrightarrow> simple k \<Longrightarrow> sk_path t k d = defaultDir d @ [t, ''sk'', k]"
  by (simp_all add: key_path_def sk_path_def Join_simple)

lemma db_wf_tableD:
  assumes "db_wf d" and "t \<in> tables d"
  shows "simple t" "has_table d t"
  using assms by (simp_all add: tables_def)

lemma has_table_walk:
  assumes "has_table d t"
  shows "walk_err (dfs d) [] (defaultDir d @ [t, ''key'', k]) = None"
    and "walk_err (dfs d) [] (defaultDir d @ [t, ''sk'', k]) = None"
  using walk_ok [of "dfs d" "defaultDir d @ [t, ''key'']" k] walk_ok [of "dfs d" "defaultDir d @ [t, ''sk'']" k] assms
  by (simp_all add: has_table_def)

lemma absent_walk:
  assumes "no_files (dfs d) (defaultDir d)" and "absent d t" and "r \<noteq> []"
  shows "walk_err (dfs d) [] (defaultDir d @ [t] @ r) = Some ENOENT"
  using walk_missing [of "dfs d" "defaultDir d @ [t]" r] assms by (simp add: absent_def no_files_snoc)

text \<open>Reading a key file and an index file.\<close>

lemma read_key:
  assumes "db_wf d" and "simple t" and "simple k"
  shows "os_ReadFile (key_path t k d) (dfs d) = (case kfile d t k of Some (File j) \<Rightarrow> Inr j | _ \<Rightarrow> Inl ENOENT)"
proof (cases "has_table d t")
  case True
  have "key_ok d t k" using assms by (simp add: db_wf_def)
  then show ?thesis
    using has_table_walk(1) [OF True] assms
    by (auto simp: os_ReadFile_def key_path_simple key_ok_def kfile_def split: option.splits)
next
  case False
  then have a: "absent d t" using assms by (auto simp: db_wf_def)
  then have "kfile d t k = None" by (simp add: absent_def)
  then show ?thesis
    using absent_walk [OF _ a, of "[''key'', k]"] assms by (simp add: os_ReadFile_def key_path_simple db_wf_def)
qed

lemma read_sk:
  assumes "db_wf d" and "simple t" and "simple s"
  shows "os_ReadFile (sk_path t s d) (dfs d) = (case sfile d t s of Some (File j) \<Rightarrow> Inr j | _ \<Rightarrow> Inl ENOENT)"
proof (cases "has_table d t")
  case True
  have "sk_ok d t s" using assms by (simp add: db_wf_def)
  then show ?thesis
    using has_table_walk(2) [OF True] assms
    by (auto simp: os_ReadFile_def key_path_simple sk_ok_def sfile_def split: option.splits)
next
  case False
  then have a: "absent d t" using assms by (auto simp: db_wf_def)
  then have "sfile d t s = None" by (simp add: absent_def)
  then show ?thesis
    using absent_walk [OF _ a, of "[''sk'', s]"] assms by (simp add: os_ReadFile_def key_path_simple db_wf_def)
qed

lemma sel_cases:
  assumes "db_wf d" and "simple t" and "simple k"
  obtains (missing) "kfile d t k = None" "sel d t k = None"
  | (present) e j where "kfile d t k = Some (File j)" "marshal_entity e = Inr j" "unmarshal_entity j = Inr e"
      "sel d t k = Some e" "iKey e = k" "iSK e = [] \<or> simple (iSK e)"
proof -
  have ok: "key_ok d t k" using assms by (simp add: db_wf_def)
  show thesis
  proof (cases "kfile d t k")
    case None
    then show thesis by (intro missing) (simp_all add: sel_def)
  next
    case (Some n)
    then obtain e j where e: "kfile d t k = Some (File j)" "marshal_entity e = Inr j" "iKey e = k"
        "iSK e = [] \<or> simple (iSK e)"
      using ok by (auto simp: key_ok_def)
    moreover have "unmarshal_entity j = Inr e" by (rule unmarshal_marshal_entity [OF e(2)])
    ultimately show thesis using assms by (intro present [of j e]) (simp_all add: sel_def)
  qed
qed

lemma fsdb_Get_law:
  assumes "db_wf d" and "simple t" and "simple k"
  shows "fsdb_Get t k d = (case sel d t k of None \<Rightarrow> Inl ErrNotFound | Some e \<Rightarrow> Inr e)"
  by (rule sel_cases [OF assms]) (simp_all add: fsdb_Get_def read_key [OF assms])

lemma fsdb_get_law:
  assumes "db_wf d" and "simple t" and "simple k"
  shows "fsdb_get t k d = (case sel d t k of None \<Rightarrow> Inl (ErrWrap ''read get key file'' (os_goerr ENOENT)) | Some e \<Rightarrow> Inr e)"
  by (rule sel_cases [OF assms]) (simp_all add: fsdb_get_def read_key [OF assms])

lemma getKeys_law:
  assumes "db_wf d" and "simple t" and "simple s"
  shows "getKeys t s d = (if sfile d t s = None then Inl ErrNotFoundSk else Inr (skx d t s))"
proof -
  have "sk_ok d t s" using assms by (simp add: db_wf_def)
  then show ?thesis by (auto simp: getKeys_def read_sk [OF assms] sk_ok_def skx_def)
qed

lemma skx_nonempty: "db_wf d \<Longrightarrow> simple t \<Longrightarrow> simple s \<Longrightarrow> sfile d t s \<noteq> None \<longleftrightarrow> skx d t s \<noteq> []"
  using db_wf_files(2) [of d t s] by (auto simp: sk_ok_def skx_def)

lemma skx_distinct: "db_wf d \<Longrightarrow> simple t \<Longrightarrow> simple s \<Longrightarrow> distinct (skx d t s)"
proof -
  assume "db_wf d" "simple t" "simple s"
  then have "sk_ok d t s" by (simp add: db_wf_def)
  then show ?thesis by (auto simp: sk_ok_def skx_def)
qed

section \<open>File updates below a table\<close>

text \<open>A change of one file three levels below the default directory touches nothing else.\<close>

definition same_dirs :: "fsdb \<Rightarrow> fsdb \<Rightarrow> bool" where
  "same_dirs d d' \<longleftrightarrow> defaultDir d' = defaultDir d \<and>
     (\<forall>p. length p \<le> length (defaultDir d) + 2 \<longrightarrow> map_of (dfs d') p = map_of (dfs d) p)"

lemma same_dirs_dirs_ok:
  assumes "same_dirs d d'" and "length p \<le> length (defaultDir d) + 2"
  shows "dirs_ok (dfs d') p = dirs_ok (dfs d) p" and "no_files (dfs d') p = no_files (dfs d) p"
proof -
  have "map_of (dfs d') (take n p) = map_of (dfs d) (take n p)" for n
    using assms by (auto simp: same_dirs_def)
  then show "dirs_ok (dfs d') p = dirs_ok (dfs d) p" and "no_files (dfs d') p = no_files (dfs d) p"
    by (simp_all add: dirs_ok_def no_files_def)
qed

lemma same_dirs_tables:
  assumes "same_dirs d d'"
  shows "has_table d' t = has_table d t" and "tables d' = tables d"
    and "no_files (dfs d') (defaultDir d') = no_files (dfs d) (defaultDir d)"
proof -
  have b: "defaultDir d' = defaultDir d" using assms by (simp add: same_dirs_def)
  show t: "has_table d' t = has_table d t" for t
    using same_dirs_dirs_ok(1) [OF assms, of "defaultDir d @ [t, ''key'']"]
      same_dirs_dirs_ok(1) [OF assms, of "defaultDir d @ [t, ''sk'']"] by (simp add: has_table_def b)
  show "tables d' = tables d" by (simp add: tables_def t)
  show "no_files (dfs d') (defaultDir d') = no_files (dfs d) (defaultDir d)"
    using same_dirs_dirs_ok(2) [OF assms, of "defaultDir d"] by (simp add: b)
qed

lemma db_wf_update:
  assumes inv: "db_wf d" and sd: "same_dirs d d'"
    and abs: "\<And>t. simple t \<Longrightarrow> \<not> has_table d t \<Longrightarrow> absent d' t"
    and k: "\<And>t k. simple t \<Longrightarrow> simple k \<Longrightarrow> key_ok d' t k"
    and s: "\<And>t s. simple t \<Longrightarrow> simple s \<Longrightarrow> sk_ok d' t s"
  shows "db_wf d'"
  using inv abs k s same_dirs_tables [OF sd] unfolding db_wf_def by blast

text \<open>Writing and removing a file of an existing table.\<close>

lemma write_key_file:
  fixes j :: json
  assumes "db_wf d" and t: "simple t" "has_table d t" and "simple k"
  defines "d' \<equiv> d\<lparr>dfs := AList.update (defaultDir d @ [t, ''key'', k]) (File j) (dfs d)\<rparr>"
  shows "os_WriteFile (key_path t k d) j (dfs d) = (None, dfs d')" and "same_dirs d d'"
    and "kfile d' t' k' = (if t' = t \<and> k' = k then Some (File j) else kfile d t' k')" and "sfile d' t' k' = sfile d t' k'"
proof -
  have "kfile d t k \<noteq> Some Dir" using db_wf_files(1) [OF assms(1) t(1) assms(4)] by (auto simp: key_ok_def)
  then show "os_WriteFile (key_path t k d) j (dfs d) = (None, dfs d')"
    using has_table_walk(1) [OF t(2)] assms(4) t(1)
    by (auto simp: os_WriteFile_def key_path_simple d'_def kfile_def split: option.splits node.splits)
  show "same_dirs d d'" by (auto simp: same_dirs_def d'_def update_conv')
  show "kfile d' t' k' = (if t' = t \<and> k' = k then Some (File j) else kfile d t' k')" and "sfile d' t' k' = sfile d t' k'"
    by (auto simp: kfile_def sfile_def d'_def update_conv')
qed

lemma write_sk_file:
  fixes j :: json
  assumes "db_wf d" and t: "simple t" "has_table d t" and "simple s"
  defines "d' \<equiv> d\<lparr>dfs := AList.update (defaultDir d @ [t, ''sk'', s]) (File j) (dfs d)\<rparr>"
  shows "os_WriteFile (sk_path t s d) j (dfs d) = (None, dfs d')" and "same_dirs d d'"
    and "sfile d' t' s' = (if t' = t \<and> s' = s then Some (File j) else sfile d t' s')" and "kfile d' t' s' = kfile d t' s'"
proof -
  have "sfile d t s \<noteq> Some Dir" using db_wf_files(2) [OF assms(1) t(1) assms(4)] by (auto simp: sk_ok_def)
  then show "os_WriteFile (sk_path t s d) j (dfs d) = (None, dfs d')"
    using has_table_walk(2) [OF t(2)] assms(4) t(1)
    by (auto simp: os_WriteFile_def key_path_simple d'_def sfile_def split: option.splits node.splits)
  show "same_dirs d d'" by (auto simp: same_dirs_def d'_def update_conv')
  show "sfile d' t' s' = (if t' = t \<and> s' = s then Some (File j) else sfile d t' s')" and "kfile d' t' s' = kfile d t' s'"
    by (auto simp: kfile_def sfile_def d'_def update_conv')
qed

lemma remove_file:
  assumes "walk_err (dfs d) [] p = None" and "map_of (dfs d) p = Some (File j)" and "length p = length (defaultDir d) + 3"
  defines "d' \<equiv> d\<lparr>dfs := AList.delete p (dfs d)\<rparr>"
  shows "os_Remove p (dfs d) = (None, dfs d')" and "same_dirs d d'"
    and "kfile d' t' k' = (if defaultDir d @ [t', ''key'', k'] = p then None else kfile d t' k')"
    and "sfile d' t' k' = (if defaultDir d @ [t', ''sk'', k'] = p then None else sfile d t' k')"
  using assms by (auto simp: os_Remove_def same_dirs_def d'_def delete_conv' kfile_def sfile_def)

section \<open>Set\<close>

definition safe :: "(any \<Rightarrow> string) \<Rightarrow> entity \<Rightarrow> entity" where
  "safe sprint e = e\<lparr>iValue := jsonSafeAny sprint (iValue e)\<rparr>"

text \<open>Entities with plain names whose value JSON can carry.\<close>

definition ok_entity :: "(any \<Rightarrow> string) \<Rightarrow> entity \<Rightarrow> bool" where
  "ok_entity sprint e \<longleftrightarrow> simple (iKey e) \<and> (iSK e = [] \<or> simple (iSK e))
     \<and> json_of_any (jsonSafeAny sprint (iValue e)) \<noteq> None"

lemma safe_fields [simp]: "iKey (safe sp e) = iKey e" "iSK (safe sp e) = iSK e" "iVersion (safe sp e) = iVersion e"
  by (simp_all add: safe_def)

lemma ok_entity_marshal:
  assumes "ok_entity sprint e"
  obtains j where "marshal_entity (safe sprint e) = Inr j" "unmarshal_entity j = Inr (safe sprint e)"
proof -
  obtain j where j: "marshal_entity (safe sprint e) = Inr j"
    using assms by (auto simp: ok_entity_def marshal_entity_def safe_def)
  with unmarshal_marshal_entity [OF j] show thesis by (intro that)
qed

lemma add_keys_single: "add_keys ks [k] = (if k \<in> set ks then ks else ks @ [k])"
  by (simp add: add_keys_def)

lemma set_add_keys: "set (add_keys ks new) = set ks \<union> set new"
  unfolding add_keys_def by (induction new arbitrary: ks) auto

lemma distinct_add_keys: "distinct ks \<Longrightarrow> distinct (add_keys ks new)"
  unfolding add_keys_def by (induction new arbitrary: ks) auto

lemma add_keys_same: "\<forall>k\<in>set new. k \<in> set ks \<Longrightarrow> add_keys ks new = ks"
  unfolding add_keys_def by (induction new) auto

lemma absent_same:
  assumes "absent d t" and "same_dirs d d'" and "\<And>k. kfile d' t k = kfile d t k" and "\<And>s. sfile d' t s = sfile d t s"
  shows "absent d' t"
  using assms by (simp add: absent_def same_dirs_def)

lemma appendKeysToSk_law:
  assumes inv: "db_wf d" and t: "t \<in> tables d" and s: "simple s" and ne: "new \<noteq> []"
  obtains d' where "appendKeysToSk t s new d = (None, d')" "same_dirs d d'" "db_wf d'" "\<And>t' k'. sel d' t' k' = sel d t' k'"
    "\<And>t' s'. skx d' t' s' = (if t' = t \<and> s' = s then add_keys (skx d t s) new else skx d t' s')"
proof -
  have st: "simple t" and ht: "has_table d t" using t by (simp_all add: tables_def)
  define ks where "ks = skx d t s"
  note gk = getKeys_law [OF inv st s]
  have emp: "sfile d t s = None \<Longrightarrow> ks = []" by (simp add: ks_def skx_def)
  show thesis
  proof (cases "list_all (\<lambda>k. k \<in> set ks) new")
    case True
    then have "sfile d t s \<noteq> None" using emp ne by (cases new) fastforce+
    moreover have "add_keys ks new = ks" using True by (intro add_keys_same) (simp add: list_all_iff)
    moreover have "sk_ok d t s" by (rule db_wf_files(2) [OF inv st s])
    ultimately have "sfile d t s = Some (File (marshal_keys (add_keys ks new)))"
      by (auto simp: sk_ok_def ks_def skx_def)
    moreover have "appendKeysToSk t s new d = (None, d)"
      using True gk \<open>sfile d t s \<noteq> None\<close> by (simp add: appendKeysToSk_def Let_def ks_def)
    ultimately show thesis
      using inv \<open>add_keys ks new = ks\<close> by (intro that [of d]) (simp_all add: same_dirs_def ks_def)
  next
    case False
    define d' where "d' = d\<lparr>dfs := AList.update (defaultDir d @ [t, ''sk'', s]) (File (marshal_keys (add_keys ks new))) (dfs d)\<rparr>"
    note w = write_sk_file [OF inv st ht s, of "marshal_keys (add_keys ks new)", folded d'_def]
    have d': "d\<lparr>dfs := dfs d'\<rparr> = d'" by (simp add: d'_def)
    have "appendKeysToSk t s new d = (None, d')"
      using False gk emp w(1) d' by (auto simp: appendKeysToSk_def Let_def ks_def)
    moreover have kf: "kfile d' t' k' = kfile d t' k'" and sf: "sfile d' t' k' =
        (if t' = t \<and> k' = s then Some (File (marshal_keys (add_keys ks new))) else sfile d t' k')" for t' k'
      using w(3,4) by auto
    moreover have "distinct (add_keys ks new)" "add_keys ks new \<noteq> []"
      using skx_distinct [OF inv st s] set_add_keys [of ks new] ne
      by (auto simp: ks_def intro: distinct_add_keys)
    then have "db_wf d'"
    proof (intro db_wf_update [OF inv w(2)])
      fix t' assume "simple t'" "\<not> has_table d t'"
      then show "absent d' t'" using db_wf_files(3) [OF inv _ s, of t'] ht w(2) kf sf by (auto intro: absent_same)
    next
      fix t' k' assume "simple t'" "simple k'"
      then show "key_ok d' t' k'" using db_wf_files(1) [OF inv] kf by (simp add: key_ok_def)
      show "sk_ok d' t' k'" using db_wf_files(2) [OF inv \<open>simple t'\<close> \<open>simple k'\<close>] sf
        \<open>distinct (add_keys ks new)\<close> \<open>add_keys ks new \<noteq> []\<close> by (auto simp: sk_ok_def)
    qed
    ultimately show thesis using w(2) by (intro that [of d']) (auto simp: ks_def sel_def skx_def)
  qed
qed

lemma writeKeyFile_law:
  assumes wf: "db_wf d" and t: "t \<in> tables d" and e: "ok_entity sprint e"
  obtains d' where "writeKeyFile sprint t e d = (None, d')" "same_dirs d d'" "db_wf d'"
    "\<And>t' k'. sel d' t' k' = (if t' = t \<and> k' = iKey e then Some (safe sprint e) else sel d t' k')"
    "\<And>t' s'. skx d' t' s' = skx d t' s'"
proof -
  have st: "simple t" and ht: "has_table d t" using t by (simp_all add: tables_def)
  have sk: "simple (iKey e)" using e by (simp add: ok_entity_def)
  obtain j where j: "marshal_entity (safe sprint e) = Inr j" "unmarshal_entity j = Inr (safe sprint e)"
    by (rule ok_entity_marshal [OF e])
  define d1 where "d1 = d\<lparr>dfs := AList.update (defaultDir d @ [t, ''key'', iKey e]) (File j) (dfs d)\<rparr>"
  note w = write_key_file [OF wf st ht sk, of j, folded d1_def]
  have d1: "d\<lparr>dfs := dfs d1\<rparr> = d1" by (simp add: d1_def)
  have wk: "writeKeyFile sprint t e d = (None, d1)"
    using w(1) j(1) d1 by (simp add: writeKeyFile_def Let_def safe_def)
  have skx1: "skx d1 t' s' = skx d t' s'" for t' s' using w(4) by (simp add: skx_def)
  have sel1: "sel d1 t' k' = (if t' = t \<and> k' = iKey e then Some (safe sprint e) else sel d t' k')" for t' k'
    using w(3) st sk j(2) by (simp add: sel_def)
  have "db_wf d1"
  proof (intro db_wf_update [OF wf w(2)])
    fix t' assume "simple t'" "\<not> has_table d t'"
    then show "absent d1 t'" using db_wf_files(3) [OF wf _ sk, of t'] ht w(2-4) by (auto intro: absent_same)
  next
    fix t' k' assume t': "simple t'" and k': "simple k'"
    show "sk_ok d1 t' k'" using db_wf_files(2) [OF wf t' k'] w(4) by (simp add: sk_ok_def)
    have "key_ok d1 t (iKey e)"
      using w(3) j(1) e by (auto simp: key_ok_def ok_entity_def intro!: exI [of _ "safe sprint e"])
    then show "key_ok d1 t' k'" using db_wf_files(1) [OF wf t' k'] w(3) by (auto simp: key_ok_def)
  qed
  then show thesis using wk w(2) sel1 skx1 by (intro that [of d1])
qed

lemma fsdb_Set_law:
  assumes inv: "db_inv d" and t: "t \<in> tables d" and e: "ok_entity sprint e"
  obtains d' where "fsdb_Set sprint t e d = (None, d')" "db_inv d'" "tables d' = tables d" "defaultDir d' = defaultDir d"
    "\<And>t' k'. sel d' t' k' = (if t' = t \<and> k' = iKey e then Some (safe sprint e) else sel d t' k')"
    "\<And>t' s'. skx d' t' s' = (if t' = t \<and> s' = iSK e \<and> iSK e \<noteq> [] then add_keys (skx d t s') [iKey e] else skx d t' s')"
proof -
  have wf: "db_wf d" and ix: "indexed d" using inv by (simp_all add: db_inv_def)
  obtain d1 where d1: "writeKeyFile sprint t e d = (None, d1)" "same_dirs d d1" "db_wf d1"
    "\<And>t' k'. sel d1 t' k' = (if t' = t \<and> k' = iKey e then Some (safe sprint e) else sel d t' k')"
    "\<And>t' s'. skx d1 t' s' = skx d t' s'"
    by (rule writeKeyFile_law [OF wf t e]) (rule that)
  have t1: "t \<in> tables d1" using same_dirs_tables(2) [OF d1(2)] t by simp
  show thesis
  proof (cases "iSK e = []")
    case True
    have "indexed d1" using ix d1(4,5) True by (auto simp: indexed_def)
    moreover have "fsdb_Set sprint t e d = (None, d1)" using d1(1) True by (simp add: fsdb_Set_def setLocked_def)
    ultimately show thesis
      using d1 same_dirs_tables(2) [OF d1(2)] True by (intro that [of d1]) (auto simp: db_inv_def same_dirs_def)
  next
    case False
    have ss: "simple (iSK e)" using False e by (simp add: ok_entity_def)
    obtain d2 where d2: "appendKeysToSk t (iSK e) [iKey e] d1 = (None, d2)" "same_dirs d1 d2" "db_wf d2"
        "\<And>t' k'. sel d2 t' k' = sel d1 t' k'"
        "\<And>t' s'. skx d2 t' s' = (if t' = t \<and> s' = iSK e then add_keys (skx d1 t (iSK e)) [iKey e] else skx d1 t' s')"
      by (rule appendKeysToSk_law [OF d1(3) t1 ss, of "[iKey e]"]) auto
    have "indexed d2"
      unfolding indexed_def d2(4,5) d1(4,5) using indexedD [OF ix]
      by (auto simp: set_add_keys split: if_splits) fastforce
    moreover have "fsdb_Set sprint t e d = (None, d2)" using d1(1) d2(1) False by (simp add: fsdb_Set_def setLocked_def)
    moreover have "tables d2 = tables d" "defaultDir d2 = defaultDir d"
      using same_dirs_tables(2) [OF d1(2)] same_dirs_tables(2) [OF d2(2)] d1(2) d2(2) by (simp_all add: same_dirs_def)
    ultimately show thesis
      using d2(3-5) d1(4,5) False by (intro that [of d2]) (auto simp: db_inv_def)
  qed
qed

section \<open>CreateTable\<close>

lemma side_path:
  assumes "b @ [t'] @ r = take n (b @ t # r2)"
  shows "t' = t"
proof -
  have "length (b @ [t'] @ r) \<le> n" unfolding assms by simp
  then have "length b < n" by simp
  then have "take n (b @ t # r2) ! length b = t" by (subst nth_take) simp_all
  moreover have "(b @ [t'] @ r) ! length b = t'" by simp
  ultimately show ?thesis using assms by metis
qed

lemma CreateTable_law:
  assumes inv: "db_inv d" and t: "simple t"
  obtains d' where "CreateTable t d = (None, d')" "db_inv d'" "tables d' = insert t (tables d)" "defaultDir d' = defaultDir d"
    "\<And>t' k'. sel d' t' k' = sel d t' k'" "\<And>t' s'. skx d' t' s' = skx d t' s'"
proof -
  let ?b = "defaultDir d" and ?F = "dfs d"
  have wf: "db_wf d" using inv by (simp add: db_inv_def)
  have nf: "no_files ?F ?b" using wf by (simp add: db_wf_def)
  have nf3: "no_files ?F (?b @ [t])" "no_files ?F (?b @ [t, ''key''])" "no_files ?F (?b @ [t, ''sk''])"
  proof -
    have "has_table d t \<or> absent d t" by (rule db_wf_files(3) [OF wf t t])
    then have "no_files ?F (?b @ [t, ''key'']) \<and> no_files ?F (?b @ [t, ''sk''])"
    proof
      assume "has_table d t"
      then show ?thesis by (simp add: has_table_def dirs_ok_no_files)
    next
      assume "absent d t"
      then show ?thesis
        using nf no_files_snoc [of ?F "?b @ [t]" "''key''"] no_files_snoc [of ?F "?b @ [t]" "''sk''"]
          no_files_snoc [of ?F ?b t] by (simp add: absent_def)
    qed
    then show "no_files ?F (?b @ [t])" "no_files ?F (?b @ [t, ''key''])" "no_files ?F (?b @ [t, ''sk''])"
      using no_files_snoc [of ?F "?b @ [t]" "''key''"] by simp_all
  qed
  obtain F1 where F1: "os_MkdirAll (?b @ [t]) ?F = (None, F1)"
     "\<forall>q. map_of F1 q = (if \<exists>n. 0 < n \<and> n \<le> length (?b @ [t]) \<and> q = take n (?b @ [t]) then Some Dir else map_of ?F q)"
    using os_MkdirAll_ok [OF nf3(1)] by blast
  have "no_files F1 (?b @ [t, ''key''])"
    using nf3(2) F1(2) by (simp add: no_files_def)
  then obtain F2 where F2: "os_MkdirAll (?b @ [t, ''key'']) F1 = (None, F2)"
     "\<forall>q. map_of F2 q = (if \<exists>n. 0 < n \<and> n \<le> length (?b @ [t, ''key'']) \<and> q = take n (?b @ [t, ''key'']) then Some Dir else map_of F1 q)"
    using os_MkdirAll_ok by blast
  have "no_files F2 (?b @ [t, ''sk''])"
    using nf3(3) F1(2) F2(2) by (simp add: no_files_def)
  then obtain F3 where F3: "os_MkdirAll (?b @ [t, ''sk'']) F2 = (None, F3)" "dirs_ok F3 (?b @ [t, ''sk''])"
     "\<forall>q. map_of F3 q = (if \<exists>n. 0 < n \<and> n \<le> length (?b @ [t, ''sk'']) \<and> q = take n (?b @ [t, ''sk'']) then Some Dir else map_of F2 q)"
    using os_MkdirAll_ok by blast
  define d' where "d' = d\<lparr>dfs := F3\<rparr>"
  have cr: "CreateTable t d = (None, d')"
    using F1(1) F2(1) F3(1) t by (simp add: CreateTable_def Let_def Join_simple d'_def)
  have mono: "map_of F3 q = Some Dir" if "map_of ?F q = Some Dir" for q
    using that F1(2) F2(2) F3(3) by simp
  have far: "map_of F3 q = map_of ?F q" if "length q > length ?b + 2" for q
    using that F1(2) F2(2) F3(3) by auto
  have ht: "has_table d' t"
    using F3(2,3) F2(2) by (auto simp: has_table_def d'_def dirs_ok_def)
  have hm: "has_table d t' \<Longrightarrow> has_table d' t'" for t'
    using mono by (auto simp: has_table_def d'_def dirs_ok_def)
  have side: "map_of F3 (?b @ [t'] @ r) = map_of ?F (?b @ [t'] @ r)" if "t' \<noteq> t" for t' r
  proof -
    have "?b @ [t'] @ r \<noteq> take n (?b @ t # r2)" for n r2 using side_path [of ?b t' r n t r2] that by metis
    then have "\<not> (\<exists>n. 0 < n \<and> n \<le> length (?b @ t # r2) \<and> ?b @ [t'] @ r = take n (?b @ t # r2))" for r2 by blast
    from this [of "[]"] this [of "[''key'']"] this [of "[''sk'']"] show ?thesis
      unfolding F3(3) [rule_format, of "?b @ [t'] @ r"] F2(2) [rule_format, of "?b @ [t'] @ r"]
        F1(2) [rule_format, of "?b @ [t'] @ r"] by (simp only: if_False)
  qed
  have kf: "kfile d' t' k' = kfile d t' k'" and sf: "sfile d' t' k' = sfile d t' k'" for t' k'
    using far by (simp_all add: kfile_def sfile_def d'_def)
  have sx: "sel d' t' k' = sel d t' k'" "skx d' t' k' = skx d t' k'" for t' k'
    by (simp_all add: sel_def skx_def kf sf)
  have ab: "absent d t' \<Longrightarrow> t' \<noteq> t \<Longrightarrow> absent d' t'" for t'
    using side [of t' "[]"] side [of t' "[''key'']"] side [of t' "[''sk'']"] kf sf by (simp add: absent_def d'_def)
  have abh: "absent d' t' \<Longrightarrow> \<not> has_table d' t'" for t'
    using dirs_ok_snoc [of "dfs d'" "defaultDir d' @ [t']" "''key''"] by (simp add: absent_def has_table_def)
  have nf': "no_files F3 ?b" using nf F1(2) F2(2) F3(3) by (simp add: no_files_def)
  have "db_wf d'"
    unfolding db_wf_def
  proof (intro conjI allI impI)
    show "no_files (dfs d') (defaultDir d')" using nf' by (simp add: d'_def)
  next
    fix t' assume t': "simple t'"
    show "has_table d' t' \<or> absent d' t'" using db_wf_files(3) [OF wf t' t'] ht hm ab by blast
    fix k' assume k': "simple k'"
    show "key_ok d' t' k'" using db_wf_files(1) [OF wf t' k'] kf by (simp add: key_ok_def)
    show "sk_ok d' t' k'" using db_wf_files(2) [OF wf t' k'] sf by (simp add: sk_ok_def)
  qed
  moreover have "indexed d'" using inv sx by (simp add: db_inv_def indexed_def)
  moreover have "tables d' = insert t (tables d)"
    using ht hm ab abh t db_wf_files(3) [OF wf _ t] by (auto simp: tables_def)
  ultimately show thesis using cr sx by (intro that [of d']) (simp_all add: db_inv_def, simp add: d'_def)
qed

section \<open>Del\<close>

lemma removeKeysFromSk_law:
  assumes wf: "db_wf d" and t: "t \<in> tables d" and s: "simple s"
  obtains d' where "removeKeysFromSk t s gone d = (None, d')" "same_dirs d d'" "db_wf d'"
    "\<And>t' k'. sel d' t' k' = sel d t' k'"
    "\<And>t' s'. skx d' t' s' = (if t' = t \<and> s' = s then filter (\<lambda>k. k \<notin> set gone) (skx d t s) else skx d t' s')"
proof -
  have st: "simple t" and ht: "has_table d t" using t by (simp_all add: tables_def)
  note gk = getKeys_law [OF wf st s]
  define ks where "ks = filter (\<lambda>k. k \<notin> set gone) (skx d t s)"
  show thesis
  proof (cases "sfile d t s")
    case None
    then have "skx d t s = []" by (simp add: skx_def)
    then show thesis
      using wf gk None by (intro that [of d]) (simp_all add: removeKeysFromSk_def same_dirs_def)
  next
    case (Some n)
    then obtain j where j: "sfile d t s = Some (File j)" using db_wf_files(2) [OF wf st s] by (auto simp: sk_ok_def)
    let ?p = "defaultDir d @ [t, ''sk'', s]"
    define d' where "d' = (if ks = [] then d\<lparr>dfs := AList.delete ?p (dfs d)\<rparr>
      else d\<lparr>dfs := AList.update ?p (File (marshal_keys ks)) (dfs d)\<rparr>)"
    have sd: "same_dirs d d'" by (auto simp: same_dirs_def d'_def update_conv' delete_conv')
    have kf: "kfile d' t' k' = kfile d t' k'" and
      sf: "sfile d' t' k' = (if t' = t \<and> k' = s then (if ks = [] then None else Some (File (marshal_keys ks))) else sfile d t' k')" for t' k'
      by (auto simp: kfile_def sfile_def d'_def update_conv' delete_conv')
    have "removeKeysFromSk t s gone d = (None, d')"
    proof (cases "ks = []")
      case True
      have "os_Remove (sk_path t s d) (dfs d) = (None, AList.delete ?p (dfs d))"
        using remove_file(1) [of d ?p j] has_table_walk(2) [OF ht] j st s by (simp add: key_path_simple sfile_def)
      then show ?thesis using True gk Some by (simp add: removeKeysFromSk_def Let_def ks_def d'_def)
    next
      case False
      have "os_WriteFile (sk_path t s d) (marshal_keys ks) (dfs d) = (None, AList.update ?p (File (marshal_keys ks)) (dfs d))"
        using write_sk_file(1) [OF wf st ht s, of "marshal_keys ks"] by simp
      then show ?thesis using False gk Some by (simp add: removeKeysFromSk_def Let_def ks_def d'_def)
    qed
    moreover have "db_wf d'"
    proof (intro db_wf_update [OF wf sd])
      fix t' assume "simple t'" "\<not> has_table d t'"
      then show "absent d' t'" using db_wf_files(3) [OF wf _ s, of t'] ht sd kf sf by (auto intro: absent_same)
    next
      fix t' k' assume "simple t'" "simple k'"
      then show "key_ok d' t' k'" using db_wf_files(1) [OF wf] kf by (simp add: key_ok_def)
      show "sk_ok d' t' k'" using db_wf_files(2) [OF wf \<open>simple t'\<close> \<open>simple k'\<close>] sf skx_distinct [OF wf st s]
        by (auto simp: sk_ok_def ks_def)
    qed
    ultimately show thesis
      using sd by (intro that [of d']) (auto simp: sel_def skx_def kf sf ks_def)
  qed
qed

lemma remove_key_law:
  assumes wf: "db_wf d" and t: "t \<in> tables d" and k: "simple k" and e: "sel d t k = Some e"
  obtains d' where "os_Remove (key_path t k d) (dfs d) = (None, dfs d')" "d\<lparr>dfs := dfs d'\<rparr> = d'" "same_dirs d d'" "db_wf d'"
    "\<And>t' k'. sel d' t' k' = (if t' = t \<and> k' = k then None else sel d t' k')" "\<And>t' s'. skx d' t' s' = skx d t' s'"
proof -
  have st: "simple t" and ht: "has_table d t" using t by (simp_all add: tables_def)
  obtain j where j: "kfile d t k = Some (File j)"
    using e by (auto simp: sel_def split: option.splits node.splits if_splits)
  let ?p = "defaultDir d @ [t, ''key'', k]"
  define d' where "d' = d\<lparr>dfs := AList.delete ?p (dfs d)\<rparr>"
  have r: "os_Remove ?p (dfs d) = (None, dfs d')" and sd: "same_dirs d d'"
    using remove_file(1,2) [of d ?p j] has_table_walk(1) [OF ht] j by (simp_all add: kfile_def d'_def)
  have kf: "kfile d' t' k' = (if t' = t \<and> k' = k then None else kfile d t' k')" and sf: "sfile d' t' k' = sfile d t' k'" for t' k'
    by (auto simp: kfile_def sfile_def d'_def delete_conv')
  have "db_wf d'"
  proof (intro db_wf_update [OF wf sd])
    fix t' assume "simple t'" "\<not> has_table d t'"
    then show "absent d' t'" using db_wf_files(3) [OF wf _ k, of t'] ht sd kf sf by (auto intro: absent_same)
  next
    fix t' k' assume "simple t'" "simple k'"
    then show "key_ok d' t' k'" using db_wf_files(1) [OF wf] kf by (auto simp: key_ok_def)
    show "sk_ok d' t' k'" using db_wf_files(2) [OF wf \<open>simple t'\<close> \<open>simple k'\<close>] sf by (simp add: sk_ok_def)
  qed
  then show thesis
    using r sd st k by (intro that [of d']) (auto simp: key_path_simple sel_def skx_def kf sf, simp add: d'_def)
qed

lemma fsdb_Del_missing:
  assumes "db_inv d" and "simple t" and "simple k" and "sel d t k = None"
  shows "fsdb_Del t k d = (Some ErrNotFound, d)"
  using fsdb_get_law [of d t k] assms by (simp add: fsdb_Del_def db_inv_def)

lemma sel_table: "db_wf d \<Longrightarrow> sel d t k = Some e \<Longrightarrow> t \<in> tables d \<and> simple k"
proof -
  assume wf: "db_wf d" and s: "sel d t k = Some e"
  have sm: "simple t" "simple k" and k: "kfile d t k \<noteq> None"
    using s by (auto simp: sel_def split: if_splits option.splits)
  then have "\<not> absent d t" by (auto simp: absent_def)
  then show ?thesis using db_wf_files(3) [OF wf sm] sm by (auto simp: tables_def)
qed

lemma fsdb_Del_law:
  assumes inv: "db_inv d" and e: "sel d t k = Some e"
  obtains d' where "fsdb_Del t k d = (None, d')" "db_inv d'" "tables d' = tables d" "defaultDir d' = defaultDir d"
    "\<And>t' k'. sel d' t' k' = (if t' = t \<and> k' = k then None else sel d t' k')"
    "\<And>t' s'. skx d' t' s' = (if t' = t \<and> s' = iSK e \<and> iSK e \<noteq> [] then filter (\<lambda>j. j \<noteq> k) (skx d t s') else skx d t' s')"
proof -
  have wf: "db_wf d" and ix: "indexed d" using inv by (simp_all add: db_inv_def)
  have t: "t \<in> tables d" and k: "simple k" using sel_table [OF wf e] by simp_all
  have st: "simple t" using t by (simp add: tables_def)
  have g: "fsdb_get t k d = Inr e" using fsdb_get_law [OF wf st k] e by simp
  obtain d1 where d1: "os_Remove (key_path t k d) (dfs d) = (None, dfs d1)" "d\<lparr>dfs := dfs d1\<rparr> = d1" "same_dirs d d1" "db_wf d1"
    "\<And>t' k'. sel d1 t' k' = (if t' = t \<and> k' = k then None else sel d t' k')" "\<And>t' s'. skx d1 t' s' = skx d t' s'"
    by (rule remove_key_law [OF wf t k e]) (rule that)
  have t1: "t \<in> tables d1" using t same_dirs_tables(2) [OF d1(3)] by simp
  show thesis
  proof (cases "iSK e = []")
    case True
    then have "fsdb_Del t k d = (None, d1)" using g d1(1,2) by (simp add: fsdb_Del_def Let_def)
    moreover have "indexed d1" using ix d1(5,6) by (auto simp: indexed_def)
    ultimately show thesis
      using d1 True same_dirs_tables(2) [OF d1(3)] by (intro that [of d1]) (auto simp: db_inv_def same_dirs_def)
  next
    case False
    have ss: "simple (iSK e)" by (rule sel_cases [OF wf st k]) (use e False in auto)
    have "k \<in> set (skx d t (iSK e))" by (rule indexedD [OF ix e False])
    then have "sfile d1 t (iSK e) \<noteq> None" using skx_nonempty [OF d1(4) st ss] d1(6) by auto
    then have gk: "\<exists>ks. getKeys t (iSK e) d1 = Inr ks" using getKeys_law [OF d1(4) st ss] by simp
    obtain d2 where d2: "removeKeysFromSk t (iSK e) [k] d1 = (None, d2)" "same_dirs d1 d2" "db_wf d2"
        "\<And>t' k'. sel d2 t' k' = sel d1 t' k'"
        "\<And>t' s'. skx d2 t' s' = (if t' = t \<and> s' = iSK e then filter (\<lambda>j. j \<notin> set [k]) (skx d1 t (iSK e)) else skx d1 t' s')"
      by (rule removeKeysFromSk_law [OF d1(4) t1 ss, of "[k]"]) (rule that)
    have "fsdb_Del t k d = (None, d2)" using g d1(1,2) d2(1) gk False by (auto simp: fsdb_Del_def Let_def)
    moreover have "indexed d2"
      unfolding indexed_def d2(4,5) d1(5,6) using indexedD [OF ix] by (auto split: if_splits) metis+
    moreover have "tables d2 = tables d" "defaultDir d2 = defaultDir d"
      using same_dirs_tables(2) [OF d1(3)] same_dirs_tables(2) [OF d2(2)] d1(3) d2(2) by (simp_all add: same_dirs_def)
    ultimately show thesis
      using d2(3-5) d1(5,6) False by (intro that [of d2]) (auto simp: db_inv_def)
  qed
qed

text \<open>Writing to a table that does not exist changes nothing.\<close>

lemma fsdb_Set_no_table:
  assumes inv: "db_inv d" and t: "simple t" "t \<notin> tables d" and e: "ok_entity sprint e"
  shows "fsdb_Set sprint t e d = (Some ErrTableNotFound, d)"
proof -
  have wf: "db_wf d" using inv by (simp add: db_inv_def)
  have sk: "simple (iKey e)" using e by (simp add: ok_entity_def)
  have ab: "absent d t" using db_wf_files(3) [OF wf t(1) t(1)] t by (simp add: tables_def)
  obtain j where j: "marshal_entity (safe sprint e) = Inr j" by (rule ok_entity_marshal [OF e])
  have "walk_err (dfs d) [] (key_path t (iKey e) d) = Some ENOENT"
    using absent_walk [OF _ ab, of "[''key'', iKey e]"] wf t sk by (simp add: key_path_simple db_wf_def)
  then show ?thesis
    using j by (simp add: fsdb_Set_def setLocked_def writeKeyFile_def Let_def safe_def os_WriteFile_def writeBlockedByMissingPath_def)
qed

section \<open>Bulk operations\<close>

text \<open>
  The pool: if every action, in whatever state the others left, succeeds and does its part, then so does
  the whole batch under every schedule.  \<open>R S d\<close>: the actions in \<open>S\<close> are done in \<open>d\<close>.
\<close>

lemma pick_split:
  assumes "pend \<noteq> []"
  shows "set pend = insert (pend ! pick sc pend) (set (take (pick sc pend) pend @ drop (Suc (pick sc pend)) pend))"
proof -
  have "pend = take (pick sc pend) pend @ (pend ! pick sc pend) # drop (Suc (pick sc pend)) pend"
    by (rule id_take_nth_drop [OF pick_less [OF assms]])
  then have "set pend = set (take (pick sc pend) pend @ (pend ! pick sc pend) # drop (Suc (pick sc pend)) pend)" by simp
  then show ?thesis by simp
qed

lemma run_concurrent_all:
  assumes "budget sc = None" and "R S d"
    and "\<And>x S d. x \<in> set pend \<Longrightarrow> R S d \<Longrightarrow> \<exists>d'. act x d = (None, d') \<and> R (insert x S) d'"
  shows "\<exists>d'. run_concurrent act sc pend None d = (None, d') \<and> R (S \<union> set pend) d'"
  using assms
proof (induction "length pend" arbitrary: pend sc S d rule: less_induct)
  case less
  show ?case
  proof (cases "pend = []")
    case True
    then show ?thesis using less.prems by (simp add: run_concurrent.simps)
  next
    case False
    let ?i = "pick (sched sc) pend"
    let ?rest = "take ?i pend @ drop (Suc ?i) pend"
    note sp = pick_split [OF False, of "sched sc"]
    obtain d1 where d1: "act (pend ! ?i) d = (None, d1)" "R (insert (pend ! ?i) S) d1"
      using less.prems(3) [of "pend ! ?i" S d] less.prems(2) sp by auto
    have st: "run_concurrent act sc pend None d = run_concurrent act (after_action False sc) ?rest None d1"
      using False less.prems(1) d1(1) by (subst run_concurrent.simps) (simp add: Let_def)
    have b: "budget (after_action False sc) = None" using less.prems(1) by (simp add: after_action_def Let_def)
    have "\<exists>d'. run_concurrent act (after_action False sc) ?rest None d1 = (None, d') \<and> R (insert (pend ! ?i) S \<union> set ?rest) d'"
      by (rule less.hyps [OF pick_shrinks [OF False] b d1(2)]) (use less.prems(3) sp in blast)
    moreover have "insert (pend ! ?i) S \<union> set ?rest = S \<union> set pend" unfolding sp by auto
    ultimately show ?thesis unfolding st by simp
  qed
qed

text \<open>Collapsing duplicates: each key once, with its last entity.\<close>

definition by_key :: "entity list \<Rightarrow> string \<Rightarrow> entity option" where
  "by_key es = map_of (rev (map (\<lambda>e. (iKey e, e)) es))"

lemma by_key_simps [simp]: "by_key [] k = None" "by_key (es @ [e]) k = (if k = iKey e then Some e else by_key es k)"
  by (simp_all add: by_key_def)

lemma by_key_mem: "by_key es k = Some e \<Longrightarrow> e \<in> set es \<and> iKey e = k"
  by (auto simp: by_key_def dest: map_of_SomeD)

lemma dedupeByKey_snoc: "dedupeByKey (es @ [e]) =
    (if iKey e \<in> iKey ` set (dedupeByKey es) then map (\<lambda>o'. if iKey o' = iKey e then e else o') (dedupeByKey es)
     else dedupeByKey es @ [e])"
  by (simp add: dedupeByKey_def)

lemma map_key_replace: "map iKey (map (\<lambda>o'. if iKey o' = iKey e then e else o') xs) = map iKey xs"
  by (induction xs) auto

lemma dedupeByKey_law:
  "distinct (map iKey (dedupeByKey es)) \<and> (\<forall>e. e \<in> set (dedupeByKey es) \<longleftrightarrow> by_key es (iKey e) = Some e)
   \<and> iKey ` set (dedupeByKey es) = iKey ` set es"
proof (induction es rule: rev_induct)
  case Nil
  then show ?case by (simp add: dedupeByKey_def)
next
  case (snoc x es)
  let ?D = "dedupeByKey es"
  show ?case
  proof (cases "iKey x \<in> iKey ` set ?D")
    case True
    let ?M = "map (\<lambda>o'. if iKey o' = iKey x then x else o') ?D"
    have mem: "e \<in> set ?M \<longleftrightarrow> e = x \<or> e \<in> set ?D \<and> iKey e \<noteq> iKey x" for e
      using True by (auto simp: image_iff)
    have "iKey ` set ?M = iKey ` set ?D"
      using map_key_replace [of x ?D] by (metis list.set_map)
    then show ?thesis
      using snoc True unfolding dedupeByKey_snoc
      by (simp only: if_True map_key_replace mem by_key_simps) (auto simp: image_iff)
  next
    case False
    have "by_key es (iKey x) = None"
    proof (cases "by_key es (iKey x)")
      case (Some e)
      then have "iKey x \<in> iKey ` set es" using by_key_mem by (metis image_eqI)
      then show ?thesis using False snoc by simp
    qed simp
    then show ?thesis using False snoc unfolding dedupeByKey_snoc by (auto simp: image_iff)
  qed
qed

text \<open>Grouping by secondary key.\<close>

lemma group_by_sk_snoc: "group_by_sk (es @ [e]) =
    (if iSK e = [] then group_by_sk es
     else case map_of (group_by_sk es) (iSK e) of
            None \<Rightarrow> group_by_sk es @ [(iSK e, [iKey e])]
          | Some ks \<Rightarrow> AList.update (iSK e) (ks @ [iKey e]) (group_by_sk es))"
  by (simp only: group_by_sk_def foldl_append foldl.simps)

lemma group_by_sk_law:
  "distinct (map fst (group_by_sk es)) \<and> (\<forall>p\<in>set (group_by_sk es). snd p \<noteq> [])
   \<and> (\<forall>s. s \<in> fst ` set (group_by_sk es) \<longleftrightarrow> s \<noteq> [] \<and> s \<in> iSK ` set es)
   \<and> (\<forall>s ks. (s, ks) \<in> set (group_by_sk es) \<longrightarrow> set ks = iKey ` {e \<in> set es. iSK e = s})"
proof (induction es rule: rev_induct)
  case Nil
  then show ?case by (simp add: group_by_sk_def)
next
  case (snoc x es)
  let ?g = "group_by_sk es"
  show ?case
  proof (cases "iSK x = []")
    case True
    have "{e \<in> set (es @ [x]). iSK e = s} = {e \<in> set es. iSK e = s}" if "s \<noteq> []" for s using True that by auto
    then show ?thesis using snoc True unfolding group_by_sk_snoc by (auto simp: image_iff) fastforce+
  next
    case False
    show ?thesis
    proof (cases "map_of ?g (iSK x)")
      case None
      then have n: "iSK x \<notin> fst ` set ?g" by (simp add: map_of_eq_None_iff)
      then have "iSK x \<notin> iSK ` set es" using snoc False by blast
      then have e1: "{e \<in> set (es @ [x]). iSK e = iSK x} = {x}" by (auto, metis image_eqI)
      have e2: "{e \<in> set (es @ [x]). iSK e = s} = {e \<in> set es. iSK e = s}" if "s \<noteq> iSK x" for s using that by auto
      show ?thesis
        using snoc None False n e1 e2 unfolding group_by_sk_snoc by (auto simp: image_iff)
    next
      case (Some ks)
      have d: "distinct (map fst ?g)" using snoc by blast
      have m: "(iSK x, ks) \<in> set ?g" using Some by (rule map_of_SomeD)
      let ?u = "AList.update (iSK x) (ks @ [iKey x]) ?g"
      have du: "distinct (map fst ?u)" using d by (rule distinct_update)
      have "(s, l) \<in> set ?u \<longleftrightarrow> map_of ?u s = Some l" "(s, l) \<in> set ?g \<longleftrightarrow> map_of ?g s = Some l" for s l
        using map_of_eq_Some_iff [OF du] map_of_eq_Some_iff [OF d] by simp_all
      then have mu: "(s, l) \<in> set ?u \<longleftrightarrow> (s = iSK x \<and> l = ks @ [iKey x]) \<or> (s \<noteq> iSK x \<and> (s, l) \<in> set ?g)" for s l
        by (simp only: update_conv') auto
      have mem: "iSK x \<in> fst ` set ?g" using m by (metis fst_conv image_eqI)
      then have f: "fst ` set ?u = fst ` set ?g" by (simp add: dom_update insert_absorb)
      have IH4: "\<forall>s ks. (s, ks) \<in> set ?g \<longrightarrow> set ks = iKey ` {e \<in> set es. iSK e = s}"
        by (rule snoc.IH [THEN conjunct2, THEN conjunct2, THEN conjunct2])
      then have k: "set ks = iKey ` {e \<in> set es. iSK e = iSK x}" using m by simp
      have g: "group_by_sk (es @ [x]) = ?u" using False Some by (simp add: group_by_sk_snoc)
      have "set l = iKey ` {e \<in> set (es @ [x]). iSK e = s}" if "(s, l) \<in> set ?u" for s l
      proof (cases "s = iSK x")
        case True
        have "{e \<in> set (es @ [x]). iSK e = iSK x} = insert x {e \<in> set es. iSK e = iSK x}" by auto
        then show ?thesis using True that mu k by simp
      next
        case f: False
        then have "{e \<in> set (es @ [x]). iSK e = s} = {e \<in> set es. iSK e = s}" by auto
        then show ?thesis using f that mu IH4 by simp
      qed
      moreover have "snd p \<noteq> []" if "p \<in> set ?u" for p
        using that snoc mu [of "fst p" "snd p"] by auto
      moreover have "s \<in> fst ` set ?u \<longleftrightarrow> s \<noteq> [] \<and> s \<in> iSK ` set (es @ [x])" for s
      proof -
        have IH3: "s \<in> fst ` set ?g \<longleftrightarrow> s \<noteq> [] \<and> s \<in> iSK ` set es" for s
          by (rule snoc.IH [THEN conjunct2, THEN conjunct2, THEN conjunct1, rule_format])
        have "iSK ` set (es @ [x]) = insert (iSK x) (iSK ` set es)" by simp
        then show ?thesis unfolding f using IH3 [of s] IH3 [of "iSK x"] mem False by auto
      qed
      ultimately show ?thesis unfolding g using du by blast
    qed
  qed
qed


lemma append_groups_law:
  assumes "db_wf d" and "t \<in> tables d" and "\<forall>p\<in>set g. simple (fst p) \<and> snd p \<noteq> []"
  shows "\<exists>d'. append_groups t g d = (None, d') \<and> same_dirs d d' \<and> db_wf d' \<and> (\<forall>t' k'. sel d' t' k' = sel d t' k')
    \<and> (\<forall>t' s'. set (skx d' t' s') = set (skx d t' s') \<union> (if t' = t then \<Union>{set ks |ks. (s', ks) \<in> set g} else {}))"
  using assms
proof (induction g arbitrary: d)
  case Nil
  then show ?case by (simp add: same_dirs_def)
next
  case (Cons p g)
  obtain s ks where p: "p = (s, ks)" by (cases p)
  obtain d1 where d1: "appendKeysToSk t s ks d = (None, d1)" "same_dirs d d1" "db_wf d1" "\<And>t' k'. sel d1 t' k' = sel d t' k'"
    "\<And>t' s'. skx d1 t' s' = (if t' = t \<and> s' = s then add_keys (skx d t s) ks else skx d t' s')"
    using Cons.prems p by (elim appendKeysToSk_law [of d t s ks]) auto
  have t1: "t \<in> tables d1" using Cons.prems(2) same_dirs_tables(2) [OF d1(2)] by simp
  obtain d2 where d2: "append_groups t g d1 = (None, d2)" "same_dirs d1 d2" "db_wf d2" "\<forall>t' k'. sel d2 t' k' = sel d1 t' k'"
    "\<forall>t' s'. set (skx d2 t' s') = set (skx d1 t' s') \<union> (if t' = t then \<Union>{set ks |ks. (s', ks) \<in> set g} else {})"
    using Cons.IH [OF d1(3) t1] Cons.prems(3) by auto
  have "same_dirs d d2" using d1(2) d2(2) by (simp add: same_dirs_def)
  moreover have "set (skx d2 t' s') = set (skx d t' s') \<union> (if t' = t then \<Union>{set ks |ks. (s', ks) \<in> set (p # g)} else {})" for t' s'
    using d2(5) d1(5) p by (auto simp: set_add_keys)
  ultimately show ?case using d1 d2 p by simp
qed

lemma by_key_distinct: "distinct (map iKey es) \<Longrightarrow> e \<in> set es \<Longrightarrow> by_key es (iKey e) = Some e"
  by (auto simp: by_key_def rev_map [symmetric] comp_def intro!: map_of_is_SomeI)

text \<open>Concurrent writes of distinct keys, in any order.\<close>

lemma writeKeyFilesConcurrent_law:
  assumes wf: "db_wf d" and t: "t \<in> tables d" and ok: "\<forall>e\<in>set es. ok_entity sprint e"
    and dis: "distinct (map iKey es)" and b: "budget sc = None"
  shows "\<exists>d'. writeKeyFilesConcurrent sprint sc t es d = (None, d') \<and> same_dirs d d' \<and> db_wf d'
    \<and> (\<forall>t' k'. sel d' t' k' = (if t' = t \<and> k' \<in> iKey ` set es then map_option (safe sprint) (by_key es k') else sel d t' k'))
    \<and> (\<forall>t' s'. skx d' t' s' = skx d t' s')"
proof -
  have st: "simple t" using t by (simp add: tables_def)
  define R where "R S d' \<longleftrightarrow> same_dirs d d' \<and> db_wf d' \<and> (\<forall>t' s'. skx d' t' s' = skx d t' s')
    \<and> (\<forall>t' k'. (t' = t \<longrightarrow> k' \<notin> iKey ` S) \<longrightarrow> sel d' t' k' = sel d t' k') \<and> (\<forall>e\<in>S. sel d' t (iKey e) = Some (safe sprint e))" for S d'
  let ?act = "\<lambda>data d. case writeKeyFile sprint t data d of (Some err, d) \<Rightarrow> (Some (ErrWrap ''bulk set entity'' err), d) | (None, d) \<Rightarrow> (None, d)"
  have step: "\<exists>d2. ?act e d1 = (None, d2) \<and> R (insert e S) d2" if e: "e \<in> set es" and r: "R S d1" and S: "S \<subseteq> set es" for e S d1
  proof -
    have wf1: "db_wf d1" and sd1: "same_dirs d d1" using r by (simp_all add: R_def)
    have t1: "t \<in> tables d1" using t same_dirs_tables(2) [OF sd1] by simp
    obtain d2 where d2: "writeKeyFile sprint t e d1 = (None, d2)" "same_dirs d1 d2" "db_wf d2"
      "\<And>t' k'. sel d2 t' k' = (if t' = t \<and> k' = iKey e then Some (safe sprint e) else sel d1 t' k')" "\<And>t' s'. skx d2 t' s' = skx d1 t' s'"
      using writeKeyFile_law [OF wf1 t1] ok e by blast
    have inj: "e' = e" if "e' \<in> S" "iKey e' = iKey e" for e'
      using dis that e S by (auto simp: distinct_map dest: inj_onD)
    have "R (insert e S) d2"
      using r d2(2-5) sd1 by (auto simp: R_def same_dirs_def dest: inj)
    then show ?thesis using d2(1) by simp
  qed
  have "\<exists>d'. run_concurrent ?act sc es None d = (None, d') \<and> (R ({} \<union> set es) d' \<and> {} \<union> set es \<subseteq> set es)"
    using wf step by (intro run_concurrent_all [where R = "\<lambda>S d. R S d \<and> S \<subseteq> set es", OF b])
      (auto simp: R_def same_dirs_def, blast?)
  then obtain d' where d': "run_concurrent ?act sc es None d = (None, d')" "R (set es) d'" by auto
  then show ?thesis
    using by_key_distinct [OF dis] by (auto simp: writeKeyFilesConcurrent_def R_def)
qed


lemma fsdb_BulkSet_law:
  assumes inv: "db_inv d" and t: "t \<in> tables d" and ok: "\<forall>e\<in>set es. ok_entity sprint e" and b: "budget sc = None"
  shows "\<exists>d'. fsdb_BulkSet sprint sc t es d = (None, d') \<and> db_inv d' \<and> tables d' = tables d
    \<and> (\<forall>t' k'. sel d' t' k' = (if t' = t \<and> k' \<in> iKey ` set es then map_option (safe sprint) (by_key es k') else sel d t' k'))"
proof -
  let ?es = "dedupeByKey es"
  have wf: "db_wf d" and ix: "indexed d" using inv by (simp_all add: db_inv_def)
  note dd = dedupeByKey_law [of es]
  have dis: "distinct (map iKey ?es)" and keys: "iKey ` set ?es = iKey ` set es" using dd by simp_all
  have mem: "e \<in> set ?es \<longleftrightarrow> by_key es (iKey e) = Some e" for e
    by (rule dd [THEN conjunct2, THEN conjunct1, rule_format])
  have sub: "set ?es \<subseteq> set es" using mem by_key_mem by blast
  have ok': "\<forall>e\<in>set ?es. ok_entity sprint e" using ok sub by blast
  have bk: "by_key ?es k = by_key es k" if kk: "k \<in> iKey ` set es" for k
  proof -
    obtain x where x: "x \<in> set ?es" "k = iKey x" using kk keys by auto
    then show ?thesis using by_key_distinct [OF dis x(1)] mem [of x] by simp
  qed
  obtain d1 where d1: "writeKeyFilesConcurrent sprint sc t ?es d = (None, d1)" "same_dirs d d1" "db_wf d1"
    "\<forall>t' k'. sel d1 t' k' = (if t' = t \<and> k' \<in> iKey ` set ?es then map_option (safe sprint) (by_key ?es k') else sel d t' k')"
    "\<forall>t' s'. skx d1 t' s' = skx d t' s'"
    using writeKeyFilesConcurrent_law [OF wf t ok' dis b] by blast
  have t1: "t \<in> tables d1" using t same_dirs_tables(2) [OF d1(2)] by simp
  note gl = group_by_sk_law [of ?es]
  have gs: "\<forall>p\<in>set (group_by_sk ?es). simple (fst p) \<and> snd p \<noteq> []"
  proof
    fix p assume p: "p \<in> set (group_by_sk ?es)"
    have "fst p \<noteq> [] \<and> fst p \<in> iSK ` set ?es"
      using gl [THEN conjunct2, THEN conjunct2, THEN conjunct1, rule_format, of "fst p"] p by blast
    moreover have "snd p \<noteq> []" using gl [THEN conjunct2, THEN conjunct1] p by blast
    ultimately show "simple (fst p) \<and> snd p \<noteq> []" using ok' by (auto simp: ok_entity_def)
  qed
  obtain d2 where d2: "append_groups t (group_by_sk ?es) d1 = (None, d2)" "same_dirs d1 d2" "db_wf d2"
    "\<forall>t' k'. sel d2 t' k' = sel d1 t' k'"
    "\<forall>t' s'. set (skx d2 t' s') = set (skx d1 t' s') \<union> (if t' = t then \<Union>{set ks |ks. (s', ks) \<in> set (group_by_sk ?es)} else {})"
    using append_groups_law [OF d1(3) t1 gs] by blast
  have res: "fsdb_BulkSet sprint sc t es d = (None, d2)"
    using d1(1) d2(1) by (simp add: fsdb_BulkSet_def Let_def bulkUpdateSk_def)
  have sel2: "sel d2 t' k' = (if t' = t \<and> k' \<in> iKey ` set es then map_option (safe sprint) (by_key es k') else sel d t' k')" for t' k'
    using d2(4) d1(4) keys bk by simp
  have "indexed d2"
    unfolding indexed_def
  proof (intro allI impI, elim conjE)
    fix t' k e assume s: "sel d2 t' k = Some e" and ne: "iSK e \<noteq> []"
    show "k \<in> set (skx d2 t' (iSK e))"
    proof (cases "t' = t \<and> k \<in> iKey ` set es")
      case True
      then obtain x where x: "by_key es k = Some x" "e = safe sprint x" using s sel2 by auto
      then have m: "x \<in> set ?es" "iKey x = k" using mem [of x] by_key_mem [OF x(1)] by simp_all
      have "iSK x \<in> fst ` set (group_by_sk ?es)" 
        using gl [THEN conjunct2, THEN conjunct2, THEN conjunct1, rule_format, of "iSK x"] m(1) ne x(2) by simp
      then obtain ks where ks: "(iSK x, ks) \<in> set (group_by_sk ?es)" by auto
      then have "set ks = iKey ` {e \<in> set ?es. iSK e = iSK x}"
        by (rule gl [THEN conjunct2, THEN conjunct2, THEN conjunct2, rule_format])
      then have "k \<in> set ks" using m by auto
      then show ?thesis using d2(5) True ks x(2) by auto
    next
      case False
      then have "sel d t' k = Some e" using s sel2 by auto
      then show ?thesis using indexedD [OF ix _ ne] d2(5) d1(5) by auto
    qed
  qed
  then show ?thesis
    using res d2(3) sel2 same_dirs_tables(2) [OF d1(2)] same_dirs_tables(2) [OF d2(2)] by (auto simp: db_inv_def)
qed

lemma dedupeKeys_law: "distinct (dedupeKeys ks) \<and> set (dedupeKeys ks) = set ks"
proof (induction ks rule: rev_induct)
  case (snoc k ks)
  have "dedupeKeys (ks @ [k]) = (if k \<in> set (dedupeKeys ks) then dedupeKeys ks else dedupeKeys ks @ [k])"
    by (simp add: dedupeKeys_def)
  then show ?case using snoc by auto
qed (simp add: dedupeKeys_def)

lemma remove_groups_law:
  assumes "db_wf d" and "t \<in> tables d" and "\<forall>p\<in>set g. simple (fst p)"
  shows "\<exists>d'. remove_groups t g d = (None, d') \<and> same_dirs d d' \<and> db_wf d' \<and> (\<forall>t' k'. sel d' t' k' = sel d t' k')
    \<and> (\<forall>t' s'. set (skx d' t' s') = set (skx d t' s') - (if t' = t then \<Union>{set ks |ks. (s', ks) \<in> set g} else {}))"
  using assms
proof (induction g arbitrary: d)
  case Nil
  then show ?case by (simp add: same_dirs_def)
next
  case (Cons p g)
  obtain s ks where p: "p = (s, ks)" by (cases p)
  obtain d1 where d1: "removeKeysFromSk t s ks d = (None, d1)" "same_dirs d d1" "db_wf d1" "\<And>t' k'. sel d1 t' k' = sel d t' k'"
    "\<And>t' s'. skx d1 t' s' = (if t' = t \<and> s' = s then filter (\<lambda>k. k \<notin> set ks) (skx d t s) else skx d t' s')"
    using Cons.prems p by (elim removeKeysFromSk_law [of d t s ks]) auto
  have t1: "t \<in> tables d1" using Cons.prems(2) same_dirs_tables(2) [OF d1(2)] by simp
  obtain d2 where d2: "remove_groups t g d1 = (None, d2)" "same_dirs d1 d2" "db_wf d2" "\<forall>t' k'. sel d2 t' k' = sel d1 t' k'"
    "\<forall>t' s'. set (skx d2 t' s') = set (skx d1 t' s') - (if t' = t then \<Union>{set ks |ks. (s', ks) \<in> set g} else {})"
    using Cons.IH [OF d1(3) t1] Cons.prems(3) by auto
  have "same_dirs d d2" using d1(2) d2(2) by (simp add: same_dirs_def)
  moreover have "set (skx d2 t' s') = set (skx d t' s') - (if t' = t then \<Union>{set ks |ks. (s', ks) \<in> set (p # g)} else {})" for t' s'
    using d2(5) d1(5) p by auto
  ultimately show ?case using d1 d2 p by simp
qed

lemma victims_law:
  assumes wf: "db_wf d" and st: "simple t" and ks: "\<forall>k\<in>set ks. simple k" and dis: "distinct ks"
  shows "distinct (map iKey (victims t ks d))"
    and "v \<in> set (victims t ks d) \<longleftrightarrow> (\<exists>k\<in>set ks. \<exists>e. sel d t k = Some e \<and> v = \<lparr>iKey = k, iSK = iSK e, iValue = VNil, iVersion = []\<rparr>)"
proof -
  let ?f = "\<lambda>k. case sel d t k of None \<Rightarrow> [] | Some e \<Rightarrow> [\<lparr>iKey = k, iSK = iSK e, iValue = VNil, iVersion = []\<rparr>]"
  have eq: "victims t ks d = concat (map ?f ks)"
    unfolding victims_def using ks fsdb_get_law [OF wf st]
    by (intro arg_cong [where f = concat] map_cong refl) (auto split: option.splits)
  have "map iKey (concat (map ?f ks)) = filter (\<lambda>k. sel d t k \<noteq> None) ks"
    by (induction ks) (auto split: option.splits)
  then show "distinct (map iKey (victims t ks d))" unfolding eq using dis by simp
  show "v \<in> set (victims t ks d) \<longleftrightarrow> (\<exists>k\<in>set ks. \<exists>e. sel d t k = Some e \<and> v = \<lparr>iKey = k, iSK = iSK e, iValue = VNil, iVersion = []\<rparr>)"
    unfolding eq by (auto split: option.splits) metis+
qed

lemma removeKeyFilesConcurrent_law:
  assumes wf: "db_wf d" and t: "t \<in> tables d" and vs: "\<forall>v\<in>set vs. simple (iKey v) \<and> sel d t (iKey v) \<noteq> None"
    and dis: "distinct (map iKey vs)" and b: "budget sc = None"
  shows "\<exists>d'. removeKeyFilesConcurrent sc t vs d = (None, d') \<and> same_dirs d d' \<and> db_wf d'
    \<and> (\<forall>t' k'. sel d' t' k' = (if t' = t \<and> k' \<in> iKey ` set vs then None else sel d t' k'))
    \<and> (\<forall>t' s'. skx d' t' s' = skx d t' s')"
proof -
  define R where "R S d' \<longleftrightarrow> same_dirs d d' \<and> db_wf d' \<and> (\<forall>t' s'. skx d' t' s' = skx d t' s')
    \<and> (\<forall>t' k'. sel d' t' k' = sel d t' k' \<or> t' = t \<and> k' \<in> iKey ` S \<and> sel d' t' k' = None) \<and> (\<forall>v\<in>S. sel d' t (iKey v) = None)" for S :: "entity set" and d'
  let ?act = "\<lambda>v d. case os_Remove (key_path t (iKey v) d) (dfs d) of
         (Some e, F) \<Rightarrow> if e = ENOENT then (None, d\<lparr>dfs := F\<rparr>)
                       else (Some (ErrWrap ''bulk del entity'' (os_goerr e)), d\<lparr>dfs := F\<rparr>)
       | (None, F) \<Rightarrow> (None, d\<lparr>dfs := F\<rparr>)"
  have step: "\<exists>d2. ?act v d1 = (None, d2) \<and> R (insert v S) d2" if v: "v \<in> set vs" and r: "R S d1" for v S d1
  proof -
    have wf1: "db_wf d1" and sd1: "same_dirs d d1" using r by (simp_all add: R_def)
    have t1: "t \<in> tables d1" using t same_dirs_tables(2) [OF sd1] by simp
    have sv: "simple (iKey v)" and st: "simple t" using vs v t by (auto simp: tables_def)
    show ?thesis
    proof (cases "sel d1 t (iKey v)")
      case (Some e)
      obtain d2 where d2: "os_Remove (key_path t (iKey v) d1) (dfs d1) = (None, dfs d2)" "d1\<lparr>dfs := dfs d2\<rparr> = d2" "same_dirs d1 d2" "db_wf d2"
        "\<And>t' k'. sel d2 t' k' = (if t' = t \<and> k' = iKey v then None else sel d1 t' k')" "\<And>t' s'. skx d2 t' s' = skx d1 t' s'"
        by (rule remove_key_law [OF wf1 t1 sv Some]) (rule that)
      have "R (insert v S) d2" using r d2(3-6) sd1 by (auto simp: R_def same_dirs_def)
      then show ?thesis using d2(1,2) by simp
    next
      case None
      then have "kfile d1 t (iKey v) = None" by (rule_tac sel_cases [OF wf1 st sv]) auto
      then have "os_Remove (key_path t (iKey v) d1) (dfs d1) = (Some ENOENT, dfs d1)"
        using has_table_walk(1) [of d1 t] t1 sv st by (simp add: os_Remove_def key_path_simple kfile_def tables_def)
      moreover have "R (insert v S) d1" using r None by (auto simp: R_def)
      ultimately show ?thesis by simp
    qed
  qed
  have "\<exists>d'. run_concurrent ?act sc vs None d = (None, d') \<and> R ({} \<union> set vs) d'"
    using wf step by (intro run_concurrent_all [OF b]) (auto simp: R_def same_dirs_def)
  then show ?thesis by (auto simp: removeKeyFilesConcurrent_def R_def) (metis image_eqI)+
qed


lemma fsdb_BulkDel_law:
  assumes inv: "db_inv d" and st: "simple t" and ks: "\<forall>k\<in>set ks. simple k" and b: "budget sc = None"
  shows "\<exists>d'. fsdb_BulkDel sc t ks d = (None, d') \<and> db_inv d' \<and> tables d' = tables d
    \<and> (\<forall>t' k'. sel d' t' k' = (if t' = t \<and> k' \<in> set ks then None else sel d t' k'))"
proof -
  have wf: "db_wf d" and ix: "indexed d" using inv by (simp_all add: db_inv_def)
  define vs where "vs = victims t (dedupeKeys ks) d"
  have dk: "\<forall>k\<in>set (dedupeKeys ks). simple k" "distinct (dedupeKeys ks)" using dedupeKeys_law [of ks] ks by simp_all
  note vl = victims_law [OF wf st dk, folded vs_def]
  have mem: "v \<in> set vs \<longleftrightarrow> (\<exists>k\<in>set ks. \<exists>e. sel d t k = Some e \<and> v = \<lparr>iKey = k, iSK = iSK e, iValue = VNil, iVersion = []\<rparr>)" for v
    using vl(2) dedupeKeys_law [of ks] by simp
  have keys: "iKey ` set vs = {k \<in> set ks. sel d t k \<noteq> None}" by (force simp: mem image_iff)
  show ?thesis
  proof (cases "vs = []")
    case True
    then have "fsdb_BulkDel sc t ks d = (None, d)"
      by (simp add: fsdb_BulkDel_def Let_def vs_def [symmetric] removeKeyFilesConcurrent_def run_concurrent.simps bulkRemoveSk_def group_by_sk_def)
    moreover have "sel d t k = None" if "k \<in> set ks" for k using keys True that by auto
    ultimately show ?thesis using inv by auto
  next
    case False
    then obtain v where "v \<in> set vs" by (cases vs) auto
    then have t: "t \<in> tables d" using mem sel_table [OF wf] by blast
    have sv: "\<forall>v\<in>set vs. simple (iKey v) \<and> sel d t (iKey v) \<noteq> None" using mem ks by auto
    obtain d1 where d1: "removeKeyFilesConcurrent sc t vs d = (None, d1)" "same_dirs d d1" "db_wf d1"
      "\<forall>t' k'. sel d1 t' k' = (if t' = t \<and> k' \<in> iKey ` set vs then None else sel d t' k')" "\<forall>t' s'. skx d1 t' s' = skx d t' s'"
      using removeKeyFilesConcurrent_law [OF wf t sv vl(1) b] by blast
    have t1: "t \<in> tables d1" using t same_dirs_tables(2) [OF d1(2)] by simp
    note gl = group_by_sk_law [of vs]
    have gs: "\<forall>p\<in>set (group_by_sk vs). simple (fst p)"
    proof
      fix p assume "p \<in> set (group_by_sk vs)"
      then have "fst p \<noteq> [] \<and> fst p \<in> iSK ` set vs"
        using gl [THEN conjunct2, THEN conjunct2, THEN conjunct1, rule_format, of "fst p"] by blast
      then obtain k e where "sel d t k = Some e" "fst p = iSK e" "fst p \<noteq> []" "k \<in> set ks" using mem by auto
      then show "simple (fst p)" using ks by (rule_tac sel_cases [OF wf st, of k]) auto
    qed
    obtain d2 where d2: "remove_groups t (group_by_sk vs) d1 = (None, d2)" "same_dirs d1 d2" "db_wf d2"
      "\<forall>t' k'. sel d2 t' k' = sel d1 t' k'"
      "\<forall>t' s'. set (skx d2 t' s') = set (skx d1 t' s') - (if t' = t then \<Union>{set ks |ks. (s', ks) \<in> set (group_by_sk vs)} else {})"
      using remove_groups_law [OF d1(3) t1 gs] by blast
    have sel2: "sel d2 t' k' = (if t' = t \<and> k' \<in> set ks then None else sel d t' k')" for t' k'
      using d2(4) d1(4) keys by auto
    have "indexed d2"
      unfolding indexed_def
    proof (intro allI impI, elim conjE)
      fix t' k e assume s: "sel d2 t' k = Some e" and ne: "iSK e \<noteq> []"
      then have s': "sel d t' k = Some e" and nk: "t' = t \<Longrightarrow> k \<notin> set ks" using sel2 by (auto split: if_splits)
      have "k \<notin> set l" if "t' = t" "(iSK e, l) \<in> set (group_by_sk vs)" for l
      proof -
        have "set l = iKey ` {v \<in> set vs. iSK v = iSK e}"
          using gl [THEN conjunct2, THEN conjunct2, THEN conjunct2, rule_format, OF that(2)] .
        then show ?thesis using keys nk [OF that(1)] by auto
      qed
      then show "k \<in> set (skx d2 t' (iSK e))" using indexedD [OF ix s' ne] d2(5) d1(5) by auto
    qed
    moreover have "fsdb_BulkDel sc t ks d = (None, d2)"
      using d1(1) d2(1) by (simp add: fsdb_BulkDel_def Let_def vs_def [symmetric] bulkRemoveSk_def)
    ultimately show ?thesis
      using d2(3) sel2 same_dirs_tables(2) [OF d1(2)] same_dirs_tables(2) [OF d2(2)] by (auto simp: db_inv_def)
  qed
qed

section \<open>The store fulfils the contract\<close>

lemma sel_upd: "(\<And>t' k'. sel d' t' k' = (if t' = t \<and> k' = k then v else sel d t' k')) \<Longrightarrow> sel d' = upd t k v (sel d)"
  by (intro ext) (simp add: upd_apply)

lemma jsonSafe_id: "json_of_any v \<noteq> None \<Longrightarrow> jsonSafeAny sprint v = v"
proof (induction v rule: json_of_any.induct)
  case (5 xs)
  then obtain js where "those (map json_of_any xs) = Some js" by auto
  then have "\<forall>x\<in>set xs. json_of_any x \<noteq> None"
    using those_SomeD by (fastforce simp: list_all2_conv_all_nth in_set_conv_nth)
  then show ?case using "5.IH" by (simp add: map_idI)
next
  case (6 kvs)
  then obtain js where "those (map (\<lambda>(k, v). map_option (Pair k) (json_of_any v)) kvs) = Some js" by auto
  then have "\<forall>p\<in>set kvs. json_of_any (snd p) \<noteq> None"
    using those_SomeD by (fastforce simp: list_all2_conv_all_nth in_set_conv_nth split: prod.splits)
  then show ?case using "6.IH" by (auto intro!: map_idI split: prod.splits)
qed auto

lemma safe_safe: "ok_entity sprint e \<Longrightarrow> safe sprint (safe sprint e) = safe sprint e"
  by (simp add: safe_def ok_entity_def jsonSafe_id)

interpretation fs: kv_store db_inv tables sel "safe sprint" simple "ok_entity sprint"
  CreateTable "fsdb_Set sprint" fsdb_Del fsdb_Get for sprint
proof (unfold_locales, goal_cases)
  case (1 s t)
  show ?case by (rule CreateTable_law [OF 1]) (auto intro!: ext)
next
  case (2 s t e)
  show ?case by (rule fsdb_Set_law [OF 2]) (auto intro!: sel_upd)
next
  case (3 s t k)
  have st: "simple t" using 3(2) by (simp add: tables_def)
  show ?case
  proof (cases "sel s t k")
    case None
    then show ?thesis using fsdb_Del_missing [OF 3(1) st 3(3)] 3(1) by (auto simp: upd_apply intro!: ext)
  next
    case (Some e)
    show ?thesis by (rule fsdb_Del_law [OF 3(1) Some]) (auto intro!: sel_upd)
  qed
next
  case (4 s t k)
  have st: "simple t" and wf: "db_wf s" using 4 by (simp_all add: tables_def db_inv_def)
  show ?case
    by (rule sel_cases [OF wf st 4(3)]) (auto simp: fsdb_Get_law [OF wf st 4(3)] safe_def marshal_entity_def jsonSafe_id split: option.splits)
next
  case (5 e)
  then show ?case by (simp add: ok_entity_def)
next
  case (6 e)
  then show ?case by (rule safe_safe)
qed

end
