(* ===== verification/Fsdb_Properties.thy ===== *)
theory Fsdb_Properties
  imports Fsdb_Correct
begin

text \<open>
  The properties of the file-backed store: reachable stores, reads after writes, bulk operations under
  every schedule, and the cases in which its index, its cancellation and its paths misbehave.
\<close>


section \<open>Bulk writes that are cut short or hit a missing table\<close>

lemma run_concurrent_inv:
  assumes "I d" and "\<And>x d. x \<in> set pend \<Longrightarrow> I d \<Longrightarrow> \<exists>d'. act x d = (None, d') \<and> I d'"
  shows "\<exists>d'. run_concurrent act sc pend None d = (None, d') \<and> I d'"
  using assms
proof (induction "length pend" arbitrary: pend sc d rule: less_induct)
  case less
  show ?case
  proof (cases "pend = [] \<or> budget sc = Some 0")
    case True
    then show ?thesis using less.prems(1) by (auto simp: run_concurrent.simps)
  next
    case False
    let ?i = "pick (sched sc) pend"
    let ?rest = "take ?i pend @ drop (Suc ?i) pend"
    have ne: "pend \<noteq> []" using False by simp
    note sp = pick_split [OF ne, of "sched sc"]
    obtain d1 where d1: "act (pend ! ?i) d = (None, d1)" "I d1" using less.prems(2) [of "pend ! ?i" d] less.prems(1) sp by auto
    have st: "run_concurrent act sc pend None d = run_concurrent act (after_action False sc) ?rest None d1"
      using False d1(1) by (subst run_concurrent.simps) (simp add: Let_def)
    show ?thesis unfolding st by (rule less.hyps [OF pick_shrinks [OF ne] d1(2)]) (use less.prems(2) sp in blast)
  qed
qed

lemma run_concurrent_stuck:
  assumes "\<And>x. x \<in> set pend \<Longrightarrow> snd (act x d) = d"
  shows "snd (run_concurrent act sc pend r d) = d"
  using assms
proof (induction "length pend" arbitrary: pend sc r rule: less_induct)
  case less
  show ?case
  proof (cases "pend = [] \<or> budget sc = Some 0")
    case True
    then show ?thesis by (auto simp: run_concurrent.simps)
  next
    case False
    let ?i = "pick (sched sc) pend"
    let ?rest = "take ?i pend @ drop (Suc ?i) pend"
    have ne: "pend \<noteq> []" using False by simp
    note sp = pick_split [OF ne, of "sched sc"]
    obtain err where d1: "act (pend ! ?i) d = (err, d)" using less.prems [of "pend ! ?i"] sp by (cases "act (pend ! ?i) d") auto
    have st: "run_concurrent act sc pend r d = run_concurrent act (after_action (r = None \<and> err \<noteq> None) sc) ?rest (if r \<noteq> None then r else err) d"
      using False d1(1) by (subst run_concurrent.simps) (simp add: Let_def)
    show ?thesis unfolding st by (rule less.hyps [OF pick_shrinks [OF ne]]) (use less.prems sp in blast)
  qed
qed

lemma groups_plain:
  assumes "\<forall>e\<in>set es. ok_entity sprint e"
  shows "\<forall>p\<in>set (group_by_sk es). simple (fst p) \<and> snd p \<noteq> []"
proof
  fix p assume p: "p \<in> set (group_by_sk es)"
  note gl = group_by_sk_law [of es]
  have "fst p \<noteq> [] \<and> fst p \<in> iSK ` set es"
    using gl [THEN conjunct2, THEN conjunct2, THEN conjunct1, rule_format, of "fst p"] p by blast
  moreover have "snd p \<noteq> []" using gl [THEN conjunct2, THEN conjunct1] p by blast
  ultimately show "simple (fst p) \<and> snd p \<noteq> []" using assms by (auto simp: ok_entity_def)
qed

lemma groups_list:
  assumes "x \<in> set es" and "iSK x \<noteq> []"
  shows "\<exists>ks. (iSK x, ks) \<in> set (group_by_sk es) \<and> iKey x \<in> set ks"
proof -
  note gl = group_by_sk_law [of es]
  have "iSK x \<in> fst ` set (group_by_sk es)"
    using gl [THEN conjunct2, THEN conjunct2, THEN conjunct1, rule_format, of "iSK x"] assms by simp
  then obtain ks where ks: "(iSK x, ks) \<in> set (group_by_sk es)" by auto
  then have "set ks = iKey ` {e \<in> set es. iSK e = iSK x}" by (rule gl [THEN conjunct2, THEN conjunct2, THEN conjunct2, rule_format])
  then show ?thesis using ks assms by auto
qed

lemma missing_table_walk:
  assumes wf: "db_wf d" and t: "simple t" "t \<notin> tables d" and k: "simple k"
  shows "walk_err (dfs d) [] (key_path t k d) = Some ENOENT" "walk_err (dfs d) [] (sk_path t k d) = Some ENOENT"
proof -
  have ab: "absent d t" using db_wf_files(3) [OF wf t(1) t(1)] t by (simp add: tables_def)
  show "walk_err (dfs d) [] (key_path t k d) = Some ENOENT" "walk_err (dfs d) [] (sk_path t k d) = Some ENOENT"
    using absent_walk [OF _ ab, of "[''key'', k]"] absent_walk [OF _ ab, of "[''sk'', k]"] wf t k by (simp_all add: key_path_simple db_wf_def)
qed

lemma fsdb_BulkSet_no_table:
  assumes wf: "db_wf d" and t: "simple t" "t \<notin> tables d" and ok: "\<forall>e\<in>set es. ok_entity sprint e"
  shows "snd (fsdb_BulkSet sprint sc t es d) = d"
proof -
  have wk: "snd (writeKeyFile sprint t e d) = d" if "ok_entity sprint e" for e
    using missing_table_walk(1) [OF wf t, of "iKey e"] that by (simp add: writeKeyFile_def Let_def os_WriteFile_def ok_entity_def split: sum.splits)
  have ap: "snd (appendKeysToSk t s ks d) = d" if "simple s" for s ks
    using missing_table_walk(2) [OF wf t that] by (simp add: appendKeysToSk_def getKeys_def os_ReadFile_def os_WriteFile_def Let_def)
  have ag: "snd (append_groups t g d) = d" if "\<forall>p\<in>set g. simple (fst p)" for g
    using that by (induction g) (auto split: prod.splits option.splits dest!: arg_cong [where f = snd, OF sym], (metis ap snd_conv)+)
  have sub: "set (dedupeByKey es) \<subseteq> set es"
    using dedupeByKey_law [of es, THEN conjunct2, THEN conjunct1, rule_format] by_key_mem by blast
  let ?act = "\<lambda>data d. case writeKeyFile sprint t data d of (Some err, d) \<Rightarrow> (Some (ErrWrap ''bulk set entity'' err), d) | (None, d) \<Rightarrow> (None, d)"
  have "snd (writeKeyFilesConcurrent sprint sc t (dedupeByKey es) d) = d"
    unfolding writeKeyFilesConcurrent_def
  proof (rule run_concurrent_stuck)
    fix e assume "e \<in> set (dedupeByKey es)"
    then have "snd (writeKeyFile sprint t e d) = d" using wk sub ok by blast
    then show "snd (?act e d) = d" by (cases "writeKeyFile sprint t e d") (auto split: option.splits)
  qed
  moreover have "\<forall>p\<in>set (group_by_sk (dedupeByKey es)). simple (fst p)"
    using groups_plain [of "dedupeByKey es" sprint] sub ok by blast
  ultimately show ?thesis
    using ag by (cases "writeKeyFilesConcurrent sprint sc t (dedupeByKey es) d") (auto simp: fsdb_BulkSet_def bulkUpdateSk_def Let_def split: option.splits)
qed

text \<open>A BulkSet in an existing table keeps the invariant even when its context ends in the middle: the index is then too large.\<close>

lemma fsdb_BulkSet_inv:
  assumes inv: "db_inv d" and t: "t \<in> tables d" and ok: "\<forall>e\<in>set es. ok_entity sprint e" and run: "fsdb_BulkSet sprint sc t es d = (r, d')"
  shows "db_inv d'"
proof -
  let ?es = "dedupeByKey es"
  have wf: "db_wf d" and ix: "indexed d" using inv by (simp_all add: db_inv_def)
  have sub: "set ?es \<subseteq> set es"
    using dedupeByKey_law [of es, THEN conjunct2, THEN conjunct1, rule_format] by_key_mem by blast
  have ok': "\<forall>e\<in>set ?es. ok_entity sprint e" using ok sub by blast
  define I where "I d' \<longleftrightarrow> same_dirs d d' \<and> db_wf d' \<and> (\<forall>t' s'. skx d' t' s' = skx d t' s')
    \<and> (\<forall>t' k'. sel d' t' k' = sel d t' k' \<or> t' = t \<and> (\<exists>e\<in>set ?es. iKey e = k' \<and> sel d' t' k' = Some (safe sprint e)))" for d'
  let ?act = "\<lambda>data d. case writeKeyFile sprint t data d of (Some err, d) \<Rightarrow> (Some (ErrWrap ''bulk set entity'' err), d) | (None, d) \<Rightarrow> (None, d)"
  have step: "\<exists>d2. ?act e d1 = (None, d2) \<and> I d2" if e: "e \<in> set ?es" and i: "I d1" for e d1
  proof -
    have wf1: "db_wf d1" and sd1: "same_dirs d d1" using i by (simp_all add: I_def)
    have t1: "t \<in> tables d1" using t same_dirs_tables(2) [OF sd1] by simp
    obtain d2 where d2: "writeKeyFile sprint t e d1 = (None, d2)" "same_dirs d1 d2" "db_wf d2"
      "\<And>t' k'. sel d2 t' k' = (if t' = t \<and> k' = iKey e then Some (safe sprint e) else sel d1 t' k')" "\<And>t' s'. skx d2 t' s' = skx d1 t' s'"
      using writeKeyFile_law [OF wf1 t1] ok' e by blast
    have "I d2" using i d2(2-5) e by (auto simp: I_def same_dirs_def)
    then show ?thesis using d2(1) by simp
  qed
  have "\<exists>d1. run_concurrent ?act sc ?es None d = (None, d1) \<and> I d1"
    by (rule run_concurrent_inv) (use wf step in \<open>auto simp: I_def same_dirs_def\<close>)
  then obtain d1 where d1: "writeKeyFilesConcurrent sprint sc t ?es d = (None, d1)" "I d1" by (auto simp: writeKeyFilesConcurrent_def)
  have w1: "same_dirs d d1" "db_wf d1" "\<forall>t' s'. skx d1 t' s' = skx d t' s'"
      "\<forall>t' k'. sel d1 t' k' = sel d t' k' \<or> t' = t \<and> (\<exists>e\<in>set ?es. iKey e = k' \<and> sel d1 t' k' = Some (safe sprint e))"
    using d1(2) by (simp_all add: I_def)
  have t1: "t \<in> tables d1" using t same_dirs_tables(2) [OF w1(1)] by simp
  obtain d2 where d2: "append_groups t (group_by_sk ?es) d1 = (None, d2)" "db_wf d2" "\<forall>t' k'. sel d2 t' k' = sel d1 t' k'"
      "\<forall>t' s'. set (skx d2 t' s') = set (skx d1 t' s') \<union> (if t' = t then \<Union>{set ks |ks. (s', ks) \<in> set (group_by_sk ?es)} else {})"
    using append_groups_law [OF w1(2) t1] groups_plain [OF ok'] by blast
  have "k \<in> set (skx d2 t' (iSK e))" if s: "sel d2 t' k = Some e" and ne: "iSK e \<noteq> []" for t' k e
  proof (cases "sel d1 t' k = sel d t' k")
    case True
    then show ?thesis using indexedD [OF ix, of t' k e] s ne d2(3,4) w1(3) by auto
  next
    case False
    then obtain x where x: "t' = t" "x \<in> set ?es" "iKey x = k" "e = safe sprint x" using w1(4) [rule_format, of t' k] s d2(3) by auto
    then obtain ks where "(iSK x, ks) \<in> set (group_by_sk ?es)" "k \<in> set ks" using groups_list [of x ?es] ne by auto
    then show ?thesis using d2(4) x by auto
  qed
  then have "db_inv d2" using d2(2) by (auto simp: db_inv_def indexed_def)
  moreover have "d' = d2" using run d1(1) d2(1) by (simp add: fsdb_BulkSet_def Let_def bulkUpdateSk_def)
  ultimately show ?thesis by simp
qed

section \<open>Reachable stores\<close>

text \<open>
  One operation with plain names and values JSON can carry.  A bulk write may be cut short from outside by its
  context; a bulk deletion may not, since it drops index entries of items it then leaves in place.
\<close>

inductive fsdb_step :: "(any \<Rightarrow> string) \<Rightarrow> fsdb \<Rightarrow> fsdb \<Rightarrow> bool" for sprint where
  create: "simple t \<Longrightarrow> CreateTable t d = (r, d') \<Longrightarrow> fsdb_step sprint d d'"
| set: "simple t \<Longrightarrow> ok_entity sprint e \<Longrightarrow> fsdb_Set sprint t e d = (r, d') \<Longrightarrow> fsdb_step sprint d d'"
| del: "simple t \<Longrightarrow> simple k \<Longrightarrow> fsdb_Del t k d = (r, d') \<Longrightarrow> fsdb_step sprint d d'"
| bulk_set: "simple t \<Longrightarrow> \<forall>e\<in>set es. ok_entity sprint e \<Longrightarrow> fsdb_BulkSet sprint sc t es d = (r, d') \<Longrightarrow> fsdb_step sprint d d'"
| bulk_del: "simple t \<Longrightarrow> \<forall>k\<in>set ks. simple k \<Longrightarrow> budget sc = None \<Longrightarrow>
    fsdb_BulkDel sc t ks d = (r, d') \<Longrightarrow> fsdb_step sprint d d'"

lemma fsdb_Set_inv:
  assumes "db_inv d" and "simple t" and "ok_entity sprint e" and "fsdb_Set sprint t e d = (r, d')"
  shows "db_inv d'"
proof (cases "t \<in> tables d")
  case True
  show ?thesis by (rule fsdb_Set_law [OF assms(1) True assms(3)]) (use assms(4) in auto)
next
  case False
  then show ?thesis using fsdb_Set_no_table [OF assms(1,2) False assms(3)] assms(1,4) by simp
qed

lemma fsdb_Del_inv:
  assumes "db_inv d" and "simple t" and "simple k" and "fsdb_Del t k d = (r, d')"
  shows "db_inv d'"
proof (cases "sel d t k")
  case None
  then show ?thesis using fsdb_Del_missing [OF assms(1-3) None] assms(1,4) by simp
next
  case (Some e)
  show ?thesis by (rule fsdb_Del_law [OF assms(1) Some]) (use assms(4) in auto)
qed

lemma fsdb_step_inv:
  assumes "fsdb_step sprint d d'" and "db_inv d"
  shows "db_inv d'"
  using assms(1)
proof (cases rule: fsdb_step.cases)
  case (create t r)
  show ?thesis by (rule CreateTable_law [OF assms(2) create(1)]) (use create in auto)
next
  case (set t e r)
  then show ?thesis using fsdb_Set_inv [OF assms(2)] by blast
next
  case (del t k r)
  then show ?thesis using fsdb_Del_inv [OF assms(2)] by blast
next
  case (bulk_set t es sc r)
  then show ?thesis
    using fsdb_BulkSet_inv [OF assms(2) _ bulk_set(2,3)] fsdb_BulkSet_no_table [of d t es sprint sc] assms(2)
    by (cases "t \<in> tables d") (auto simp: db_inv_def)
next
  case (bulk_del t ks sc r)
  then show ?thesis using fsdb_BulkDel_law [OF assms(2) bulk_del(1-3)] by auto
qed

lemma fsdb_steps_inv: "(fsdb_step sprint)\<^sup>*\<^sup>* d d' \<Longrightarrow> db_inv d \<Longrightarrow> db_inv d'"
  by (induction rule: rtranclp_induct) (auto intro: fsdb_step_inv)

definition empty_db :: "path \<Rightarrow> fsdb" where
  "empty_db base = \<lparr>defaultDir = base, dfs = []\<rparr>"

lemma empty_db_inv: "db_inv (empty_db base)" "sel (empty_db base) t k = None" "skx (empty_db base) t s = []"
  by (simp_all add: db_inv_def db_wf_def no_files_def empty_db_def absent_def kfile_def sfile_def key_ok_def sk_ok_def
      indexed_def sel_def skx_def)

lemma get_all_ok:
  "get_all t ks d = Inr es \<Longrightarrow> k \<in> set ks \<Longrightarrow> fsdb_Get t k d = Inr e \<Longrightarrow> e \<in> set es"
  by (induction ks arbitrary: es) (auto split: sum.splits)

section \<open>Properties\<close>

text \<open>C10. From an empty store, any sequence of CreateTable, Set, Del, BulkSet and BulkDel, succeeding or failing, with
  plain file names for tables, keys and secondary keys and with values JSON can carry, where the table may be missing and
  the context of a BulkSet may end at any time but that of a BulkDel does not, keeps the tree well-formed (a table has
  both its directories or nothing, every key file holds an entity under its own key, every index file a non-empty
  list), every stored entity with a secondary key is listed in the index of that key, and no index lists a key twice.\<close>

theorem index_complete_in_reachable_stores:
  assumes "(fsdb_step sprint)\<^sup>*\<^sup>* (empty_db base) d"
  shows "db_wf d \<and> (\<forall>t k e. sel d t k = Some e \<and> iSK e \<noteq> [] \<longrightarrow> k \<in> set (skx d t (iSK e)))
    \<and> (\<forall>t s. simple t \<and> simple s \<longrightarrow> distinct (skx d t s))"
proof -
  have inv: "db_inv d" by (rule fsdb_steps_inv [OF assms empty_db_inv(1)])
  then have wf: "db_wf d" and ix: "indexed d" by (simp_all add: db_inv_def)
  show ?thesis using wf indexedD [OF ix] skx_distinct [OF wf] by blast
qed

lemma demo_db:
  obtains d where "CreateTable ''t'' (empty_db [''data'']) = (None, d)" "db_inv d" "''t'' \<in> tables d"
    "\<And>t k. sel d t k = None" "\<And>t s. skx d t s = []" "defaultDir d = [''data'']"
proof (rule CreateTable_law [OF empty_db_inv(1), of "''t''" "[''data'']"])
  show "simple ''t''" by (simp add: simple_def)
next
  fix d' assume "CreateTable ''t'' (empty_db [''data'']) = (None, d')" "db_inv d'" "tables d' = insert ''t'' (tables (empty_db [''data'']))"
    "defaultDir d' = defaultDir (empty_db [''data''])" "\<And>t k. sel d' t k = sel (empty_db [''data'']) t k" "\<And>t s. skx d' t s = skx (empty_db [''data'']) t s"
  then show thesis by (intro that [of d']) (simp_all add: empty_db_inv, simp add: empty_db_def)
qed

abbreviation demo_ent :: "string \<Rightarrow> string \<Rightarrow> entity" where
  "demo_ent k s \<equiv> \<lparr>iKey = k, iSK = s, iValue = VStr ''v'', iVersion = []\<rparr>"

lemma demo_ent_ok [simp]: "simple k \<Longrightarrow> s = [] \<or> simple s \<Longrightarrow> ok_entity sprint (demo_ent k s)"
  "safe sprint (demo_ent k s) = demo_ent k s"
  by (simp_all add: ok_entity_def safe_def)

lemma demo_names [simp]: "simple ''a''" "simple ''b''" "simple ''s''" "simple ''t''" "simple ''u''"
  by (simp_all add: simple_def)

theorem index_complete_in_reachable_stores_witness:
  "\<exists>d. (fsdb_step (\<lambda>_. []))\<^sup>*\<^sup>* (empty_db [''data'']) d \<and> sel d ''t'' ''a'' = Some (demo_ent ''a'' ''s'') \<and> ''a'' \<in> set (skx d ''t'' ''s'')"
proof -
  let ?sp = "\<lambda>_ :: any. [] :: char list"
  obtain d1 where d1: "CreateTable ''t'' (empty_db [''data'']) = (None, d1)" "db_inv d1" "''t'' \<in> tables d1" by (rule demo_db)
  obtain d2 where d2: "fsdb_Set ?sp ''t'' (demo_ent ''a'' ''s'') d1 = (None, d2)" "sel d2 ''t'' ''a'' = Some (demo_ent ''a'' ''s'')"
    by (rule fsdb_Set_law [OF d1(2,3), of ?sp "demo_ent ''a'' ''s''"]) simp_all
  have "fsdb_step ?sp (empty_db [''data'']) d1" by (rule fsdb_step.create [OF _ d1(1)]) simp
  moreover have "fsdb_step ?sp d1 d2" by (rule fsdb_step.set [OF _ _ d2(1)]) simp_all
  ultimately have steps: "(fsdb_step ?sp)\<^sup>*\<^sup>* (empty_db [''data'']) d2" by (meson r_into_rtranclp rtranclp_trans)
  show ?thesis
    using index_complete_in_reachable_stores [OF steps, THEN conjunct2, THEN conjunct1, rule_format, of "''t''" "''a''"] steps d2(2) by auto
qed

text \<open>Functional behaviour of Set and Get: in an existing table a Set succeeds, the entity is read back
  with its value in JSON-safe form, every other key of every table keeps its value, and the invariant holds
  again; in a table that does not exist it fails with ErrTableNotFound and changes nothing.\<close>

theorem fsdb_set_then_get:
  assumes inv: "db_inv d" and t: "simple t" and e: "ok_entity sprint e"
  shows "if t \<in> tables d
     then \<exists>d'. fsdb_Set sprint t e d = (None, d') \<and> db_inv d' \<and> fsdb_Get t (iKey e) d' = Inr (safe sprint e)
       \<and> (\<forall>t' k'. (t', k') \<noteq> (t, iKey e) \<longrightarrow> sel d' t' k' = sel d t' k')
     else fsdb_Set sprint t e d = (Some ErrTableNotFound, d)"
proof (cases "t \<in> tables d")
  case True
  obtain d' where d': "fsdb_Set sprint t e d = (None, d')" "db_inv d'"
    "\<And>t' k'. sel d' t' k' = (if t' = t \<and> k' = iKey e then Some (safe sprint e) else sel d t' k')"
    by (rule fsdb_Set_law [OF inv True e]) (rule that)
  have "db_wf d'" "simple (iKey e)" using d'(2) e by (simp_all add: db_inv_def ok_entity_def)
  then have "fsdb_Get t (iKey e) d' = Inr (safe sprint e)" using fsdb_Get_law [of d' t "iKey e"] t d'(3) by simp
  then show ?thesis using True d' by auto
next
  case False
  then show ?thesis using fsdb_Set_no_table [OF inv t False e] by simp
qed

theorem fsdb_set_then_get_witness:
  "\<exists>d d'. CreateTable ''t'' (empty_db [''data'']) = (None, d) \<and> fsdb_Set (\<lambda>_. []) ''t'' (demo_ent ''a'' []) d = (None, d')
     \<and> fsdb_Get ''t'' ''a'' d' = Inr (demo_ent ''a'' []) \<and> fsdb_Set (\<lambda>_. []) ''u'' (demo_ent ''a'' []) (empty_db [''data'']) = (Some ErrTableNotFound, empty_db [''data''])"
proof -
  obtain d1 where d1: "CreateTable ''t'' (empty_db [''data'']) = (None, d1)" "db_inv d1" "''t'' \<in> tables d1" by (rule demo_db)
  have "''u'' \<notin> tables (empty_db [''data''])"
    by (auto simp: tables_def has_table_def dirs_ok_def empty_db_def)
  then show ?thesis
    using fsdb_set_then_get [OF d1(2), of "''t''" "\<lambda>_. []" "demo_ent ''a'' []"]
      fsdb_set_then_get [OF empty_db_inv(1), of "''u''" "\<lambda>_. []" "demo_ent ''a'' []" "[''data'']"] d1 by auto
qed


text \<open>One Set after the other; the specification of a bulk write.\<close>

fun set_all :: "(any \<Rightarrow> string) \<Rightarrow> string \<Rightarrow> entity list \<Rightarrow> fsdb \<Rightarrow> goerr option \<times> fsdb" where
  "set_all sprint t [] d = (None, d)"
| "set_all sprint t (e # es) d =
     (case fsdb_Set sprint t e d of (Some err, d) \<Rightarrow> (Some err, d) | (None, d) \<Rightarrow> set_all sprint t es d)"

lemma by_key_Cons: "by_key (e # es) k = (case by_key es k of None \<Rightarrow> if k = iKey e then Some e else None | Some x \<Rightarrow> Some x)"
  by (simp add: by_key_def map_add_def split: option.splits)

lemma by_key_None: "by_key es k = None \<longleftrightarrow> k \<notin> iKey ` set es"
  by (simp add: by_key_def map_of_eq_None_iff image_image)

lemma set_all_law:
  assumes "db_inv d" and "t \<in> tables d" and "\<forall>e\<in>set es. ok_entity sprint e"
  shows "\<exists>d'. set_all sprint t es d = (None, d') \<and>
    (\<forall>t' k'. sel d' t' k' = (if t' = t \<and> k' \<in> iKey ` set es then map_option (safe sprint) (by_key es k') else sel d t' k'))"
  using assms
proof (induction es arbitrary: d)
  case Nil
  then show ?case by simp
next
  case (Cons e es)
  have ok: "ok_entity sprint e" "\<forall>e\<in>set es. ok_entity sprint e" using Cons.prems(3) by simp_all
  obtain d1 where d1: "fsdb_Set sprint t e d = (None, d1)" "db_inv d1" "tables d1 = tables d"
    "\<And>t' k'. sel d1 t' k' = (if t' = t \<and> k' = iKey e then Some (safe sprint e) else sel d t' k')"
    by (rule fsdb_Set_law [OF Cons.prems(1,2) ok(1)]) (rule that)
  obtain d2 where d2: "set_all sprint t es d1 = (None, d2)"
    "\<forall>t' k'. sel d2 t' k' = (if t' = t \<and> k' \<in> iKey ` set es then map_option (safe sprint) (by_key es k') else sel d1 t' k')"
    using Cons.IH [OF d1(2) _ ok(2)] Cons.prems(2) d1(3) by auto
  have "sel d2 t' k' = (if t' = t \<and> k' \<in> iKey ` set (e # es) then map_option (safe sprint) (by_key (e # es) k') else sel d t' k')" for t' k'
  proof (cases "k' \<in> iKey ` set es")
    case True
    then obtain x where "by_key es k' = Some x" using by_key_None [of es k'] by auto
    then show ?thesis using True d2(2) d1(4) by (auto simp: by_key_Cons)
  next
    case False
    then have "by_key es k' = None" by (simp add: by_key_None)
    then show ?thesis using False d2(2) d1(4) by (auto simp: by_key_Cons)
  qed
  then show ?case using d1(1) d2(1) by auto
qed

text \<open>C27. BulkSet is independent of the schedule of its goroutines: in an existing table of a consistent store, for items
  with plain file names as keys and secondary keys and values JSON can carry, and with a context that stays live, the
  batch succeeds whatever the order in which the pool performs the writes, and leaves the same contents as setting the
  items one after the other, so the last of several items with one key wins, and the index is complete.\<close>

theorem bulk_set_any_schedule:
  assumes inv: "db_inv d" and t: "t \<in> tables d" and ok: "\<forall>e\<in>set es. ok_entity sprint e" and b: "budget sc = None"
  shows "\<exists>d1 d2. fsdb_BulkSet sprint sc t es d = (None, d1) \<and> set_all sprint t es d = (None, d2)
    \<and> sel d1 = sel d2 \<and> db_inv d1"
proof -
  obtain d1 where d1: "fsdb_BulkSet sprint sc t es d = (None, d1)" "db_inv d1"
    "\<forall>t' k'. sel d1 t' k' = (if t' = t \<and> k' \<in> iKey ` set es then map_option (safe sprint) (by_key es k') else sel d t' k')"
    using fsdb_BulkSet_law [OF assms] by blast
  obtain d2 where d2: "set_all sprint t es d = (None, d2)"
    "\<forall>t' k'. sel d2 t' k' = (if t' = t \<and> k' \<in> iKey ` set es then map_option (safe sprint) (by_key es k') else sel d t' k')"
    using set_all_law [OF inv t ok] by blast
  have "sel d1 = sel d2" using d1(3) d2(2) by (intro ext) simp
  then show ?thesis using d1 d2 by blast
qed

theorem bulk_set_any_schedule_witness:
  "\<exists>d d1. CreateTable ''t'' (empty_db [''data'']) = (None, d) \<and>
     fsdb_BulkSet (\<lambda>_. []) \<lparr>sched = [1, 0], extra = 0, budget = None\<rparr> ''t'' [demo_ent ''a'' ''s'', demo_ent ''b'' ''s''] d = (None, d1)
     \<and> db_inv d1"
proof -
  obtain d where d: "CreateTable ''t'' (empty_db [''data'']) = (None, d)" "db_inv d" "''t'' \<in> tables d" by (rule demo_db)
  show ?thesis
    using bulk_set_any_schedule [OF d(2,3), of "[demo_ent ''a'' ''s'', demo_ent ''b'' ''s'']" "\<lambda>_. []"
        "\<lparr>sched = [1, 0], extra = 0, budget = None\<rparr>"] d(1) by auto
qed

text \<open>BulkDel removes exactly the given keys of the table, present or not, under every schedule, and
  keeps the index complete; removing them again succeeds and changes nothing.\<close>

theorem bulk_del_idempotent:
  assumes inv: "db_inv d" and t: "simple t" and ks: "\<forall>k\<in>set ks. simple k" and b: "budget sc = None" "budget sc' = None"
  shows "\<exists>d1 d2. fsdb_BulkDel sc t ks d = (None, d1) \<and> db_inv d1
    \<and> (\<forall>t' k'. sel d1 t' k' = (if t' = t \<and> k' \<in> set ks then None else sel d t' k'))
    \<and> fsdb_BulkDel sc' t ks d1 = (None, d2) \<and> sel d2 = sel d1"
proof -
  obtain d1 where d1: "fsdb_BulkDel sc t ks d = (None, d1)" "db_inv d1"
    "\<forall>t' k'. sel d1 t' k' = (if t' = t \<and> k' \<in> set ks then None else sel d t' k')"
    using fsdb_BulkDel_law [OF inv t ks b(1)] by blast
  obtain d2 where d2: "fsdb_BulkDel sc' t ks d1 = (None, d2)"
    "\<forall>t' k'. sel d2 t' k' = (if t' = t \<and> k' \<in> set ks then None else sel d1 t' k')"
    using fsdb_BulkDel_law [OF d1(2) t ks b(2)] by blast
  have "sel d2 = sel d1" using d1(3) d2(2) by (intro ext) simp
  then show ?thesis using d1 d2 by blast
qed

theorem bulk_del_idempotent_witness:
  "\<exists>d1. fsdb_BulkDel \<lparr>sched = [], extra = 0, budget = None\<rparr> ''t'' [''a'', ''b''] (empty_db [''data'']) = (None, d1) \<and> db_inv d1"
  using bulk_del_idempotent [OF empty_db_inv(1), of "''t''" "[''a'', ''b'']" "\<lparr>sched = [], extra = 0, budget = None\<rparr>"
      "\<lparr>sched = [], extra = 0, budget = None\<rparr>" "[''data'']"] by auto

text \<open>A Set that changes the secondary key of an item leaves the item's key in the old index: after the
  item has been deleted, a query for the old secondary key fails with an error instead of an empty result.\<close>

theorem stale_index_breaks_query:
  assumes inv: "db_inv d" and t: "t \<in> tables d" and e1: "ok_entity sprint e1" "iSK e1 \<noteq> []"
    and e2: "ok_entity sprint e2" "iSK e2 \<noteq> []" and k: "iKey e2 = iKey e1" "iSK e2 \<noteq> iSK e1"
    and empty: "skx d t (iSK e1) = []"
  shows "\<exists>d1 d2 d3. fsdb_Set sprint t e1 d = (None, d1) \<and> fsdb_Set sprint t e2 d1 = (None, d2)
    \<and> fsdb_Del t (iKey e1) d2 = (None, d3) \<and> fsdb_GetBySk t (iSK e1) d3 = Inl (ErrWrap ''get by key'' ErrNotFound)"
proof -
  obtain d1 where d1: "fsdb_Set sprint t e1 d = (None, d1)" "db_inv d1" "tables d1 = tables d"
    "\<And>t' s'. skx d1 t' s' = (if t' = t \<and> s' = iSK e1 \<and> iSK e1 \<noteq> [] then add_keys (skx d t s') [iKey e1] else skx d t' s')"
    by (rule fsdb_Set_law [OF inv t e1(1)]) (rule that)
  have t1: "t \<in> tables d1" using t d1(3) by simp
  obtain d2 where d2: "fsdb_Set sprint t e2 d1 = (None, d2)" "db_inv d2" "tables d2 = tables d1"
    "\<And>t' k'. sel d2 t' k' = (if t' = t \<and> k' = iKey e2 then Some (safe sprint e2) else sel d1 t' k')"
    "\<And>t' s'. skx d2 t' s' = (if t' = t \<and> s' = iSK e2 \<and> iSK e2 \<noteq> [] then add_keys (skx d1 t s') [iKey e2] else skx d1 t' s')"
    by (rule fsdb_Set_law [OF d1(2) t1 e2(1)]) (rule that)
  have s: "sel d2 t (iKey e1) = Some (safe sprint e2)" using d2(4) k by simp
  obtain d3 where d3: "fsdb_Del t (iKey e1) d2 = (None, d3)" "db_inv d3"
    "\<And>t' k'. sel d3 t' k' = (if t' = t \<and> k' = iKey e1 then None else sel d2 t' k')"
    "\<And>t' s'. skx d3 t' s' = (if t' = t \<and> s' = iSK (safe sprint e2) \<and> iSK (safe sprint e2) \<noteq> [] then filter (\<lambda>j. j \<noteq> iKey e1) (skx d2 t s') else skx d2 t' s')"
    by (rule fsdb_Del_law [OF d2(2) s]) (rule that)
  have wf: "db_wf d3" using d3(2) by (simp add: db_inv_def)
  have sm: "simple t" "simple (iKey e1)" "simple (iSK e1)" using t e1 by (auto simp: tables_def ok_entity_def)
  have sk: "skx d3 t (iSK e1) = [iKey e1]"
    using d1(4) d2(5) d3(4) k(2) empty e1(2) by (auto simp: add_keys_def)
  have g: "fsdb_Get t (iKey e1) d3 = Inl ErrNotFound" using fsdb_Get_law [OF wf sm(1,2)] d3(3) by simp
  have "getKeys t (iSK e1) d3 = Inr [iKey e1]"
    using getKeys_law [OF wf sm(1,3)] skx_nonempty [OF wf sm(1,3)] sk by simp
  then show ?thesis using d1(1) d2(1) d3(1) g by (auto simp: fsdb_GetBySk_def)
qed

theorem stale_index_breaks_query_witness:
  "\<exists>d d3. CreateTable ''t'' (empty_db [''data'']) = (None, d) \<and> fsdb_GetBySk ''t'' ''s'' d3 = Inl (ErrWrap ''get by key'' ErrNotFound)"
proof -
  obtain d where d: "CreateTable ''t'' (empty_db [''data'']) = (None, d)" "db_inv d" "''t'' \<in> tables d" "\<And>t s. skx d t s = []"
    by (rule demo_db) (rule that)
  show ?thesis
    using stale_index_breaks_query [OF d(2,3), of "\<lambda>_. []" "demo_ent ''a'' ''s''" "demo_ent ''a'' ''u''"] d(1,4) by auto
qed

text \<open>A cancelled context turns BulkSet into a silent no-op: when the caller's context is done before the
  first write is dispatched, no key file is written and the call still reports success.\<close>

theorem cancelled_bulk_set_reports_success:
  assumes "budget sc = Some 0" and "\<forall>e\<in>set es. iSK e = []"
  shows "fsdb_BulkSet sprint sc t es d = (None, d)"
proof -
  have sub: "set (dedupeByKey es) \<subseteq> set es"
    using dedupeByKey_law [of es, THEN conjunct2, THEN conjunct1, rule_format] by_key_mem by blast
  have "group_by_sk xs = []" if "\<forall>e\<in>set xs. iSK e = []" for xs
    using that by (induction xs rule: rev_induct) (simp_all add: group_by_sk_snoc, simp add: group_by_sk_def)
  then have "group_by_sk (dedupeByKey es) = []" using sub assms(2) by blast
  then show ?thesis
    using assms(1) by (simp add: fsdb_BulkSet_def Let_def writeKeyFilesConcurrent_def run_concurrent.simps bulkUpdateSk_def)
qed

theorem cancelled_bulk_set_reports_success_witness:
  "fsdb_BulkSet (\<lambda>_. []) \<lparr>sched = [], extra = 0, budget = Some 0\<rparr> ''t'' [demo_ent ''a'' []] (empty_db [''data'']) = (None, empty_db [''data''])"
  using cancelled_bulk_set_reports_success [of "\<lparr>sched = [], extra = 0, budget = Some 0\<rparr>" "[demo_ent ''a'' []]" "\<lambda>_. []" "''t''" "empty_db [''data'']"]
  by simp

lemma escaping_path:
  assumes "simple t" "simple u" "simple k"
  shows "key_path t (''../../'' @ u @ ''/key/'' @ k) d = key_path u k d"
proof -
  have sp: "split_slash (x @ CHR ''/'' # y) = x # split_slash y" if "CHR ''/'' \<notin> set x" for x y
    using that by (induction x) auto
  have u: "CHR ''/'' \<notin> set u" "CHR ''/'' \<notin> set k" "CHR ''/'' \<notin> set t" using assms by (simp_all add: simple_def)
  have "split_slash (''../../'' @ u @ ''/key/'' @ k) = [''..'', ''..'', u, ''key'', k]"
    using sp [of "''..''" "''../'' @ u @ ''/key/'' @ k"] sp [of "''..''" "u @ ''/key/'' @ k"] sp [OF u(1), of "''key/'' @ k"]
      sp [of "''key''" k] split_slash_simple [OF u(2)] by simp
  then show ?thesis
    using assms by (simp add: key_path_def Join_def split_slash_simple u) (simp add: simple_def)
qed

text \<open>C37. Keys are not confined to their table: in a consistent store, for plain file names t, u and k, a Set in the table t,
  which need not even exist, of an item without secondary key, with a value JSON can carry and with the key
  ../../u/key/k, succeeds and overwrites the item k of the existing table u; Get of k in u then
  returns the item just set, under its foreign key.\<close>

theorem key_escapes_table:
  assumes inv: "db_inv d" and n: "simple t" "u \<in> tables d" "simple k"
    and e: "iKey e = ''../../'' @ u @ ''/key/'' @ k" "iSK e = []" "json_of_any (jsonSafeAny sprint (iValue e)) \<noteq> None"
  shows "\<exists>d'. fsdb_Set sprint t e d = (None, d') \<and> fsdb_Get u k d' = Inr (safe sprint e)"
proof -
  have wf: "db_wf d" and u: "simple u" "has_table d u" using inv n(2) by (simp_all add: db_inv_def tables_def)
  obtain j where j: "marshal_entity (safe sprint e) = Inr j" using e(3) by (auto simp: marshal_entity_def safe_def)
  define d' where "d' = d\<lparr>dfs := AList.update (defaultDir d @ [u, ''key'', k]) (File j) (dfs d)\<rparr>"
  note w = write_key_file [OF wf u n(3), of j, folded d'_def]
  have d': "d\<lparr>dfs := dfs d'\<rparr> = d'" by (simp add: d'_def)
  have set: "fsdb_Set sprint t e d = (None, d')"
    using w(1) j d' e(1,2) escaping_path [OF n(1) u(1) n(3), of d] by (simp add: fsdb_Set_def setLocked_def writeKeyFile_def Let_def safe_def)
  have ht: "has_table d' u" using same_dirs_tables(1) [OF w(2)] u(2) by simp
  have kf: "kfile d' u k = Some (File j)" using w(3) by simp
  then have "os_ReadFile (key_path u k d') (dfs d') = Inr j"
    using has_table_walk(1) [OF ht] u(1) n(3) by (simp add: os_ReadFile_def key_path_simple kfile_def)
  then have "fsdb_Get u k d' = Inr (safe sprint e)" using unmarshal_marshal_entity [OF j] by (simp add: fsdb_Get_def)
  then show ?thesis using set by blast
qed

theorem key_escapes_table_witness:
  "\<exists>d d'. CreateTable ''t'' (empty_db [''data'']) = (None, d)
     \<and> fsdb_Set (\<lambda>_. []) ''u'' (demo_ent ''../../t/key/a'' []) d = (None, d') \<and> fsdb_Get ''t'' ''a'' d' = Inr (demo_ent ''../../t/key/a'' [])"
proof -
  obtain d where d: "CreateTable ''t'' (empty_db [''data'']) = (None, d)" "db_inv d" "''t'' \<in> tables d" by (rule demo_db)
  show ?thesis using key_escapes_table [OF d(2) _ d(3), of "''u''" "''a''" "demo_ent ''../../t/key/a'' []" "\<lambda>_. []"] d(1) by auto
qed

end
