(* ===== verification/Batcher_Correct.thy ===== *)
theory Batcher_Correct
  imports Write_Batcher Fsdb_Properties
begin

text \<open>
  The write batcher represents the pending operations laid over its inner store.  Inside the contract of a
  keyed store, flushing writes exactly that overlay and a batcher is again a keyed store; the contract is
  interpreted for the batcher over the file-backed store.  The size accounting is proved for every inner
  store, failing ones included.
\<close>


section \<open>What a batcher represents\<close>

text \<open>The pending operations laid over the contents of the inner store.\<close>

definition overlay :: "(entity \<Rightarrow> entity) \<Rightarrow> contents \<Rightarrow> (merge_key \<times> batch_op) list \<Rightarrow> contents" where
  "overlay nf m p t k =
     (case map_of p (t, k) of None \<Rightarrow> m t k | Some (BatchSet e) \<Rightarrow> Some (nf e) | Some BatchDel \<Rightarrow> None)"

definition bop_ok :: "(string \<Rightarrow> bool) \<Rightarrow> (entity \<Rightarrow> bool) \<Rightarrow> string set \<Rightarrow> merge_key \<times> batch_op \<Rightarrow> bool" where
  "bop_ok okname okent ts p \<longleftrightarrow> fst (fst p) \<in> ts \<and> okname (snd (fst p))
     \<and> (case snd p of BatchSet e \<Rightarrow> okent e \<and> iKey e = snd (fst p) | BatchDel \<Rightarrow> True)"

definition pend_ok :: "('s \<Rightarrow> bool) \<Rightarrow> ('s \<Rightarrow> string set) \<Rightarrow> (string \<Rightarrow> bool) \<Rightarrow> (entity \<Rightarrow> bool) \<Rightarrow> 's batcher \<Rightarrow> bool" where
  "pend_ok sinv tabs okname okent b \<longleftrightarrow> sinv (inner b) \<and> distinct (map fst (pend b))
     \<and> (\<forall>p\<in>set (pend b). bop_ok okname okent (tabs (inner b)) p)"

definition bt_inv :: "('s \<Rightarrow> bool) \<Rightarrow> ('s \<Rightarrow> string set) \<Rightarrow> (string \<Rightarrow> bool) \<Rightarrow> (entity \<Rightarrow> bool) \<Rightarrow> 's batcher \<Rightarrow> bool" where
  "bt_inv sinv tabs okname okent b \<longleftrightarrow> pend_ok sinv tabs okname okent b \<and> (\<not> DeferWrites (bopts b) \<longrightarrow> pend b = [])"

lemma overlay_Nil [simp]: "overlay nf m [] = m"
  by (intro ext) (simp add: overlay_def)

lemma overlay_update:
  "overlay nf m (AList.update (t, k) (BatchSet e) p) = upd t k (Some (nf e)) (overlay nf m p)"
  "overlay nf m (AList.update (t, k) BatchDel p) = upd t k None (overlay nf m p)"
  by (intro ext; simp add: overlay_def upd_apply update_conv')+

lemma overlay_apply:
  assumes "distinct (map fst p)" and "map_of p (t, k) = Some (BatchSet e)"
  shows "overlay nf (upd t k (Some (nf e)) m) (AList.delete (t, k) p) = overlay nf m p"
  using assms(2) by (intro ext) (auto simp: overlay_def upd_apply delete_conv' split: option.splits)

lemma overlay_apply_del:
  assumes "map_of p (t, k) = Some BatchDel"
  shows "overlay nf (upd t k None m) (AList.delete (t, k) p) = overlay nf m p"
  using assms by (intro ext) (auto simp: overlay_def upd_apply delete_conv' split: option.splits)

lemma set_update_distinct:
  "distinct (map fst p) \<Longrightarrow> x \<in> set (AList.update k v p) \<Longrightarrow> x = (k, v) \<or> x \<in> set p"
  by (induction p) (auto split: if_splits)

lemma set_delete_subset: "set (AList.delete k p) \<subseteq> set p"
  by (auto simp: AList.delete_eq)

lemma delete_key_set: "fst ` set (AList.delete k p) = fst ` set p - {k}"
  using delete_keys [of k p] by (metis list.set_map set_removeAll)

section \<open>Flushing any store that fulfils the contract\<close>

context kv_store
begin

lemma flush_loop_law:
  assumes "dbSet db = put" and "dbDel db = del" and "pend_ok inv tabs okname okent b"
    and "distinct mks" and "set mks = fst ` set (pend b)"
  shows "\<exists>b'. flush_loop db mks b = (None, b') \<and> pend b' = [] \<and> bytesN b' = 0 \<and> bopts b' = bopts b \<and> inv (inner b')
    \<and> tabs (inner b') = tabs (inner b) \<and> content (inner b') = overlay norm (content (inner b)) (pend b)"
  using assms(3-5)
proof (induction mks arbitrary: b)
  case Nil
  then show ?case by (simp add: pend_ok_def)
next
  case (Cons mk mks)
  obtain t k where mk: "mk = (t, k)" by (cases mk)
  have dis: "distinct (map fst (pend b))" and i: "inv (inner b)" using Cons.prems(1) by (simp_all add: pend_ok_def)
  obtain bop where bop: "map_of (pend b) mk = Some bop" "(mk, bop) \<in> set (pend b)"
    using Cons.prems(3) dis by (metis (no_types) map_of_SomeD image_iff insertI1 list.set(2) map_of_is_SomeI prod.collapse)
  then have ok: "t \<in> tabs (inner b)" "okname k" "\<And>e. bop = BatchSet e \<Longrightarrow> okent e \<and> iKey e = k"
    using Cons.prems(1) mk by (auto simp: pend_ok_def bop_ok_def)
  have "\<exists>s. applyOneLocked db mk bop (inner b) = (None, s) \<and> inv s \<and> tabs s = tabs (inner b)
      \<and> overlay norm (content s) (AList.delete mk (pend b)) = overlay norm (content (inner b)) (pend b)"
  proof (cases bop)
    case (BatchSet e)
    then obtain s where "put t e (inner b) = (None, s)" "inv s" "tabs s = tabs (inner b)"
      "content s = upd t (iKey e) (Some (norm e)) (content (inner b))"
      using put_law [OF i ok(1)] ok(3) by blast
    then show ?thesis
      using BatchSet mk ok(3) assms(1) bop(1) overlay_apply [OF dis, of t k e norm "content (inner b)"]
      by (simp add: applyOneLocked_def)
  next
    case BatchDel
    obtain r s where "del t k (inner b) = (r, s)" "r = None \<or> r = Some ErrNotFound" "inv s" "tabs s = tabs (inner b)"
      "content s = upd t k None (content (inner b))"
      using del_law [OF i ok(1,2)] by blast
    then show ?thesis
      using BatchDel mk assms(2) bop(1) overlay_apply_del [of "pend b" t k norm "content (inner b)"]
      by (auto simp: applyOneLocked_def)
  qed
  then obtain s where s: "applyOneLocked db mk bop (inner b) = (None, s)" "inv s" "tabs s = tabs (inner b)"
      "overlay norm (content s) (AList.delete mk (pend b)) = overlay norm (content (inner b)) (pend b)" by blast
  let ?b = "b\<lparr>inner := s, pend := AList.delete mk (pend b)\<rparr>"
  have p: "pend_ok inv tabs okname okent ?b"
    using Cons.prems(1) s(2,3) set_delete_subset [of mk "pend b"] by (auto simp: pend_ok_def intro: distinct_delete)
  have m: "set mks = fst ` set (pend ?b)"
    using Cons.prems(2,3) delete_key_set [of mk "pend b"] by auto
  show ?case using Cons.IH [OF p _ m] Cons.prems(2) bop(1) s by simp
qed

lemma flush_law:
  assumes "dbSet db = put" and "dbDel db = del" and "pend_ok inv tabs okname okent b"
  shows "\<exists>b'. flushAllLocked db b = (None, b') \<and> pend b' = [] \<and> bopts b' = bopts b \<and> inv (inner b')
    \<and> tabs (inner b') = tabs (inner b) \<and> content (inner b') = overlay norm (content (inner b)) (pend b)"
proof (cases "pend b = []")
  case True
  then show ?thesis using assms(3) by (auto simp: flushAllLocked_def pend_ok_def)
next
  case False
  have "distinct (sort (map fst (pend b)))" "set (sort (map fst (pend b))) = fst ` set (pend b)"
    using assms(3) by (simp_all add: pend_ok_def)
  from flush_loop_law [OF assms this] show ?thesis using False by (auto simp: flushAllLocked_def)
qed

lemma finish_law:
  assumes "dbSet db = put" and "dbDel db = del" and "pend_ok inv tabs okname okent b"
  shows "\<exists>b'. finish_write db b = (None, b') \<and> bt_inv inv tabs okname okent b' \<and> bopts b' = bopts b
    \<and> tabs (inner b') = tabs (inner b) \<and> overlay norm (content (inner b')) (pend b') = overlay norm (content (inner b)) (pend b)"
proof (cases "DeferWrites (bopts b) \<and> \<not> overLimitsLocked b")
  case True
  then show ?thesis using assms(3) by (auto simp: finish_write_def bt_inv_def)
next
  case False
  then have "finish_write db b = flushAllLocked db b" by (auto simp: finish_write_def)
  then show ?thesis using flush_law [OF assms] by (auto simp: bt_inv_def pend_ok_def)
qed

lemma upsert_law:
  fixes jl :: "entity \<Rightarrow> nat option"
  assumes "pend_ok inv tabs okname okent b" and "t \<in> tabs (inner b)" and "okname k"
    and "\<And>e. bop = BatchSet e \<Longrightarrow> okent e \<and> iKey e = k"
  defines "b' \<equiv> upsertLocked jl (t, k) bop b"
  shows "pend_ok inv tabs okname okent b'" and "inner b' = inner b" and "bopts b' = bopts b"
    and "overlay norm (content (inner b')) (pend b')
      = upd t k (case bop of BatchSet e \<Rightarrow> Some (norm e) | BatchDel \<Rightarrow> None) (overlay norm (content (inner b)) (pend b))"
proof -
  have p: "pend b' = AList.update (t, k) bop (pend b)" and i: "inner b' = inner b" and o: "bopts b' = bopts b"
    by (simp_all add: b'_def upsertLocked_def Let_def)
  show "inner b' = inner b" "bopts b' = bopts b" by (fact i, fact o)
  have "bop_ok okname okent (tabs (inner b)) ((t, k), bop)"
    using assms(2-4) by (auto simp: bop_ok_def split: batch_op.splits)
  then show "pend_ok inv tabs okname okent b'"
    using assms(1) set_update_distinct [of "pend b" _ "(t, k)" bop] unfolding pend_ok_def p i
    by (auto intro: distinct_update)
  show "overlay norm (content (inner b')) (pend b')
      = upd t k (case bop of BatchSet e \<Rightarrow> Some (norm e) | BatchDel \<Rightarrow> None) (overlay norm (content (inner b)) (pend b))"
    unfolding p i by (cases bop) (simp_all add: overlay_update)
qed

text \<open>A batcher over a store that fulfils the contract fulfils it as well.\<close>

lemma batcher_is_store:
  assumes "dbCreateTable db = create" and "dbSet db = put" and "dbDel db = del" and "dbGet db = get"
  shows "kv_store (bt_inv inv tabs okname okent) (\<lambda>b. tabs (inner b)) (\<lambda>b. overlay norm (content (inner b)) (pend b))
    norm okname okent (wb_CreateTable db) (wb_Set db jl) (wb_Del db jl) (wb_Get db)"
proof (unfold_locales, goal_cases)
  case (1 b t)
  then have i: "inv (inner b)" by (simp add: bt_inv_def pend_ok_def)
  obtain s where s: "create t (inner b) = (None, s)" "inv s" "tabs s = insert t (tabs (inner b))" "content s = content (inner b)"
    using create_law [OF i 1(2)] by blast
  then show ?case using 1 assms(1) by (auto simp: wb_CreateTable_def bt_inv_def pend_ok_def bop_ok_def)
next
  case (2 b t e)
  have p: "pend_ok inv tabs okname okent b" using 2(1) by (simp add: bt_inv_def)
  note u = upsert_law [OF p 2(2) okent_key [OF 2(3)], of "BatchSet e" jl]
  show ?case using finish_law [OF assms(2,3) u(1)] u(2-4) 2(3) by (auto simp: wb_Set_def)
next
  case (3 b t k)
  have p: "pend_ok inv tabs okname okent b" using 3(1) by (simp add: bt_inv_def)
  note u = upsert_law [OF p 3(2,3), of BatchDel jl]
  show ?case using finish_law [OF assms(2,3) u(1)] u(2-4) by (auto simp: wb_Del_def)
next
  case (4 b t k)
  then have i: "inv (inner b)" and d: "\<not> DeferWrites (bopts b) \<longrightarrow> pend b = []" by (simp_all add: bt_inv_def pend_ok_def)
  note g = get_law [OF i 4(2,3)]
  show ?case
  proof (cases "map_of (pend b) (t, k)")
    case None
    then have "wb_Get db t k b = get t k (inner b)" using assms(4) by (simp add: wb_Get_def)
    then show ?thesis using g None by (auto simp: overlay_def split: option.splits)
  next
    case (Some bop)
    then have "DeferWrites (bopts b)" using d by auto
    then show ?thesis using Some assms(4) by (auto simp: wb_Get_def overlay_def split: batch_op.splits)
  qed
next
  case (5 e)
  then show ?case by (rule okent_key)
next
  case (6 e)
  then show ?case by (rule norm_norm)
qed

end

section \<open>The batcher over the file-backed store\<close>

definition fs_ops :: "(any \<Rightarrow> string) \<Rightarrow> (bytes \<Rightarrow> goerr + entity) \<Rightarrow> fsdb inner_db" where
  "fs_ops sprint decode = \<lparr>dbCreateTable = CreateTable, dbSet = fsdb_Set sprint, dbDel = fsdb_Del, dbGet = fsdb_Get,
     dbGetBySk = fsdb_GetBySk, dbHydrate = Some (ReplaceWithCheckpointBlobs sprint decode)\<rparr>"

abbreviation wb_inv :: "(any \<Rightarrow> string) \<Rightarrow> fsdb batcher \<Rightarrow> bool" where
  "wb_inv sprint \<equiv> bt_inv db_inv tables simple (ok_entity sprint)"

abbreviation wb_sel :: "(any \<Rightarrow> string) \<Rightarrow> fsdb batcher \<Rightarrow> contents" where
  "wb_sel sprint b \<equiv> overlay (safe sprint) (sel (inner b)) (pend b)"

interpretation wb: kv_store "wb_inv sprint" "\<lambda>b. tables (inner b)" "wb_sel sprint" "safe sprint" simple "ok_entity sprint"
  "wb_CreateTable (fs_ops sprint decode)" "wb_Set (fs_ops sprint decode) jl" "wb_Del (fs_ops sprint decode) jl"
  "wb_Get (fs_ops sprint decode)" for sprint decode jl
  by (rule fs.batcher_is_store) (simp_all add: fs_ops_def)


section \<open>Size accounting\<close>

definition pend_bytes :: "(entity \<Rightarrow> nat option) \<Rightarrow> (merge_key \<times> batch_op) list \<Rightarrow> int" where
  "pend_bytes jl p = sum_list (map (\<lambda>(mk, bop). mergeKeyBytes mk + opBytes jl bop) p)"

lemma pend_bytes_update:
  "pend_bytes jl (AList.update mk next p) =
     pend_bytes jl p + opBytes jl next + (case map_of p mk of None \<Rightarrow> mergeKeyBytes mk | Some old \<Rightarrow> - opBytes jl old)"
  by (induction p) (auto simp: pend_bytes_def)

lemma upsert_bytes: "bytesN (upsertLocked jl mk next b) - pend_bytes jl (pend (upsertLocked jl mk next b)) = bytesN b - pend_bytes jl (pend b)"
  by (auto simp: upsertLocked_def Let_def pend_bytes_update split: option.splits)

lemma op_bytes_nonneg: "0 \<le> mergeKeyBytes a + opBytes jl c"
  by (cases c) (auto simp: mergeKeyBytes_def opBytes_def split: option.splits)

lemma pend_bytes_Cons: "pend_bytes jl ((mk, bop) # p) = mergeKeyBytes mk + opBytes jl bop + pend_bytes jl p"
  by (simp add: pend_bytes_def)

lemma pend_bytes_delete: "pend_bytes jl (AList.delete mk p) \<le> pend_bytes jl p"
proof (induction p)
  case (Cons x p)
  obtain a c where x: "x = (a, c)" by (cases x)
  show ?case using Cons op_bytes_nonneg [of a jl c] by (auto simp: x pend_bytes_Cons)
qed simp

lemma flush_loop_bytes:
  assumes "flush_loop db mks b = (err, b')"
  shows "bopts b' = bopts b \<and> (err = None \<longrightarrow> bytesN b' = 0)
     \<and> (err \<noteq> None \<longrightarrow> bytesN b' = bytesN b \<and> pend_bytes jl (pend b') \<le> pend_bytes jl (pend b) \<and> length (pend b') \<le> length (pend b))
     \<and> (err = None \<longrightarrow> fst ` set (pend b') = fst ` set (pend b) - set mks)"
  using assms
proof (induction mks arbitrary: b)
  case Nil
  then show ?case by auto
next
  case (Cons mk mks)
  let ?b = "\<lambda>s. b\<lparr>inner := s, pend := AList.delete mk (pend b)\<rparr>"
  show ?case
  proof (cases "\<exists>s bop. map_of (pend b) mk = Some bop \<and> applyOneLocked db mk bop (inner b) = (None, s)")
    case True
    then obtain s bop where s: "map_of (pend b) mk = Some bop" "applyOneLocked db mk bop (inner b) = (None, s)" by blast
    have "length (AList.delete mk (pend b)) \<le> length (pend b)" by (simp add: AList.delete_eq)
    moreover have "flush_loop db mks (?b s) = (err, b')" using Cons.prems s by simp
    ultimately show ?thesis
      using Cons.IH [of "?b s"] pend_bytes_delete [of jl mk "pend b"] by (auto simp: delete_key_set)
  next
    case False
    then show ?thesis using Cons.prems by (auto split: option.splits prod.splits)
  qed
qed


lemma flush_bytes:
  assumes "flushAllLocked db b = (err, b')" and "bytesN b \<ge> pend_bytes jl (pend b)"
  shows "bytesN b' \<ge> pend_bytes jl (pend b') \<and> bopts b' = bopts b
     \<and> (err = None \<longrightarrow> pend b' = [] \<and> (pend b \<noteq> [] \<longrightarrow> bytesN b' = 0)) \<and> length (pend b') \<le> length (pend b)"
proof (cases "pend b = []")
  case True
  then show ?thesis using assms by (auto simp: flushAllLocked_def)
next
  case False
  then have f: "flush_loop db (sort (map fst (pend b))) b = (err, b')" using assms(1) by (simp add: flushAllLocked_def)
  note l = flush_loop_bytes [OF f, of jl]
  show ?thesis
  proof (cases err)
    case None
    then have "pend b' = []" using l by (auto simp: image_iff)
    then show ?thesis using None l by (simp add: pend_bytes_def)
  next
    case (Some x)
    then show ?thesis using l assms(2) by auto
  qed
qed

section \<open>Properties\<close>

text \<open>Deferred or not, a batcher over the file-backed store is a store of its own: in an existing table a
  Set succeeds and is read back at once, and every other key of every table keeps its value, whether the
  value still sits in the buffer or has reached the disk.\<close>

theorem batcher_set_then_get:
  assumes inv: "wb_inv sprint b" and t: "t \<in> tables (inner b)" and e: "ok_entity sprint e"
  shows "\<exists>b'. wb_Set (fs_ops sprint decode) jl t e b = (None, b') \<and> wb_inv sprint b'
    \<and> (\<exists>e'. wb_Get (fs_ops sprint decode) t (iKey e) b' = Inr e' \<and> safe sprint e' = safe sprint e)
    \<and> (\<forall>t' k'. (t', k') \<noteq> (t, iKey e) \<longrightarrow> wb_sel sprint b' t' k' = wb_sel sprint b t' k')"
proof -
  obtain b' where b': "wb_Set (fs_ops sprint decode) jl t e b = (None, b')" "wb_inv sprint b'"
      "wb_sel sprint b' = upd t (iKey e) (Some (safe sprint e)) (wb_sel sprint b)"
    using wb.put_law [OF inv t e] by blast
  then show ?thesis using wb.get_after_put [OF inv t e b'(1)] by (auto simp: upd_apply)
qed

lemma demo_batcher:
  obtains d where "CreateTable ''t'' (empty_db [''data'']) = (None, d)" "db_inv d" "''t'' \<in> tables d" "\<And>t k. sel d t k = None"
    "wb_inv sprint (NewWriteBatcher d opts)"
proof -
  obtain d where d: "CreateTable ''t'' (empty_db [''data'']) = (None, d)" "db_inv d" "''t'' \<in> tables d" "\<And>t k. sel d t k = None"
    by (rule demo_db) (rule that)
  then show thesis by (intro that [of d]) (simp_all add: NewWriteBatcher_def bt_inv_def pend_ok_def)
qed

definition demo_deferred :: batcher_options where
  "demo_deferred = \<lparr>MaxDirtyKeys = 2, MaxDirtyBytes = 0, FlushInterval = 0, DeferWrites = True\<rparr>"

theorem batcher_set_then_get_witness:
  "\<exists>d b' e'. CreateTable ''t'' (empty_db [''data'']) = (None, d) \<and>
     wb_Set (fs_ops (\<lambda>_. []) (\<lambda>_. Inl ErrTruncated)) (\<lambda>_. None) ''t'' (demo_ent ''a'' []) (NewWriteBatcher d demo_deferred) = (None, b')
     \<and> wb_Get (fs_ops (\<lambda>_. []) (\<lambda>_. Inl ErrTruncated)) ''t'' ''a'' b' = Inr e' \<and> safe (\<lambda>_. []) e' = demo_ent ''a'' []"
proof -
  obtain d where d: "CreateTable ''t'' (empty_db [''data'']) = (None, d)" "''t'' \<in> tables d" "wb_inv (\<lambda>_. []) (NewWriteBatcher d demo_deferred)"
    by (rule demo_batcher) (rule that)
  show ?thesis
    using batcher_set_then_get [OF d(3), of "''t''" "demo_ent ''a'' []" "\<lambda>_. Inl ErrTruncated" "\<lambda>_. None"] d(1,2)
    by (auto simp: NewWriteBatcher_def)
qed

text \<open>C11. Flush refines the buffer into the store: from any consistent batcher it succeeds, empties the
  buffer, and the store then holds exactly what the batcher represented, the last operation on each key
  winning.\<close>

theorem flush_writes_the_overlay:
  assumes "wb_inv sprint b"
  shows "\<exists>b'. Flush (fs_ops sprint decode) b = (None, b') \<and> pend b' = [] \<and> db_inv (inner b')
    \<and> sel (inner b') = wb_sel sprint b"
  using fs.flush_law [of "fs_ops sprint decode" sprint b] assms by (auto simp: fs_ops_def Flush_def bt_inv_def)

theorem flush_writes_the_overlay_witness:
  "\<exists>d b'. CreateTable ''t'' (empty_db [''data'']) = (None, d) \<and>
     Flush (fs_ops (\<lambda>_. []) (\<lambda>_. Inl ErrTruncated))
       \<lparr>inner = d, bopts = demo_deferred, pend = [((''t'', ''a''), BatchSet (demo_ent ''a'' [])), ((''t'', ''b''), BatchDel)], bytesN = 0\<rparr> = (None, b')
     \<and> sel (inner b') ''t'' ''a'' = Some (demo_ent ''a'' []) \<and> pend b' = []"
proof -
  obtain d where d: "CreateTable ''t'' (empty_db [''data'']) = (None, d)" "db_inv d" "''t'' \<in> tables d"
    by (rule demo_db) (rule that)
  let ?b = "\<lparr>inner = d, bopts = demo_deferred, pend = [((''t'', ''a''), BatchSet (demo_ent ''a'' [])), ((''t'', ''b''), BatchDel)], bytesN = 0\<rparr>"
  have "wb_inv (\<lambda>_. []) ?b" using d by (simp add: bt_inv_def pend_ok_def bop_ok_def demo_deferred_def)
  then show ?thesis
    using flush_writes_the_overlay [of "\<lambda>_. []" ?b "\<lambda>_. Inl ErrTruncated"] d(1) by (auto simp: overlay_def)
qed

lemma finish_bounded:
  assumes "finish_write db b = (r, b')" and "bytesN b \<ge> pend_bytes jl (pend b)"
  shows "pend_bytes jl (pend b') \<le> bytesN b' \<and> bopts b' = bopts b
    \<and> (r = None \<and> MaxDirtyKeys (bopts b) > 0 \<and> MaxDirtyBytes (bopts b) > 0 \<and> (pend b \<noteq> [] \<or> bytesN b = 0) \<longrightarrow>
        int (length (pend b')) < MaxDirtyKeys (bopts b) \<and> bytesN b' < MaxDirtyBytes (bopts b))"
proof (cases "DeferWrites (bopts b) \<and> \<not> overLimitsLocked b")
  case True
  then have "b' = b" using assms(1) by (simp add: finish_write_def)
  then show ?thesis using True assms(2) by (auto simp: overLimitsLocked_def split: if_splits)
next
  case False
  then have f: "flushAllLocked db b = (r, b')" using assms(1) by (auto simp: finish_write_def split: if_splits)
  then have "pend b = [] \<longrightarrow> b' = b" by (auto simp: flushAllLocked_def)
  with flush_bytes [OF f assms(2)] show ?thesis by auto
qed

section \<open>Reachable batchers\<close>

text \<open>A mutation with its result, and a step; the inner store is arbitrary and may fail.\<close>

inductive wb_write :: "'s inner_db \<Rightarrow> (entity \<Rightarrow> nat option) \<Rightarrow> 's batcher \<Rightarrow> goerr option \<Rightarrow> 's batcher \<Rightarrow> bool" for db jl where
  set: "wb_Set db jl t e b = (r, b') \<Longrightarrow> wb_write db jl b r b'"
| bulk_set: "wb_BulkSet db jl t es b = (r, b') \<Longrightarrow> wb_write db jl b r b'"
| del: "wb_Del db jl t k b = (r, b') \<Longrightarrow> wb_write db jl b r b'"
| bulk_del: "wb_BulkDel db jl t ks b = (r, b') \<Longrightarrow> wb_write db jl b r b'"

inductive wb_step :: "'s inner_db \<Rightarrow> (entity \<Rightarrow> nat option) \<Rightarrow> 's batcher \<Rightarrow> 's batcher \<Rightarrow> bool" for db jl where
  mutate: "wb_write db jl b r b' \<Longrightarrow> wb_step db jl b b'"
| create: "wb_CreateTable db t b = (r, b') \<Longrightarrow> wb_step db jl b b'"
| flush: "Flush db b = (r, b') \<Longrightarrow> wb_step db jl b b'"
| query: "wb_GetBySk db t s b = (x, b') \<Longrightarrow> wb_step db jl b b'"
| hydrate: "wb_ReplaceWithCheckpointBlobs db ts b = (r, b') \<Longrightarrow> wb_step db jl b b'"

definition sized :: "(entity \<Rightarrow> nat option) \<Rightarrow> 's batcher \<Rightarrow> bool" where
  "sized jl b \<longleftrightarrow> pend_bytes jl (pend b) \<le> bytesN b \<and> (pend b = [] \<longrightarrow> bytesN b = 0)
     \<and> distinct (map fst (pend b)) \<and> MaxDirtyKeys (bopts b) > 0 \<and> MaxDirtyBytes (bopts b) > 0"

lemma update_ne [simp]: "AList.update k v p \<noteq> []"
  by (cases p) auto

lemma sized_upsert: "sized jl b \<Longrightarrow> sized jl (upsertLocked jl mk bop b) \<and> bopts (upsertLocked jl mk bop b) = bopts b"
  using upsert_bytes [of jl mk bop b] by (auto simp: sized_def upsertLocked_def Let_def intro: distinct_update)

lemma sized_fold: "sized jl b \<Longrightarrow> sized jl (fold (\<lambda>x. upsertLocked jl (f x) (g x)) xs b) \<and> bopts (fold (\<lambda>x. upsertLocked jl (f x) (g x)) xs b) = bopts b"
proof (induction xs arbitrary: b)
  case (Cons x xs)
  show ?case using Cons.IH [of "upsertLocked jl (f x) (g x) b"] sized_upsert [OF Cons.prems, of "f x" "g x"] by simp
qed simp

lemma flush_loop_pend_ne:
  "flush_loop db mks b = (Some err, b') \<Longrightarrow> set mks \<subseteq> fst ` set (pend b) \<Longrightarrow> distinct mks \<Longrightarrow> pend b' \<noteq> []"
proof (induction mks arbitrary: b)
  case (Cons mk mks)
  obtain bop where bop: "map_of (pend b) mk = Some bop"
    using Cons.prems(2) by (metis image_subset_iff insert_subset list.set(2) map_of_eq_None_iff not_None_eq)
  show ?case
  proof (cases "fst (applyOneLocked db mk bop (inner b))")
    case None
    then show ?thesis
      using Cons.prems bop by (intro Cons.IH [of "b\<lparr>inner := snd (applyOneLocked db mk bop (inner b)), pend := AList.delete mk (pend b)\<rparr>"])
        (auto simp: delete_key_set split: prod.splits)
  next
    case (Some e)
    then have "pend b' = pend b" using Cons.prems(1) bop by (auto split: prod.splits)
    then show ?thesis using bop by auto
  qed
qed simp

lemma flush_loop_distinct: "flush_loop db mks b = (r, b') \<Longrightarrow> distinct (map fst (pend b)) \<Longrightarrow> distinct (map fst (pend b'))"
proof (induction mks arbitrary: b)
  case (Cons mk mks)
  have d: "distinct (map fst (AList.delete mk (pend b)))" by (rule distinct_delete [OF Cons.prems(2)])
  show ?case
    using Cons.prems Cons.IH [of "b\<lparr>inner := _, pend := AList.delete mk (pend b)\<rparr>"] d
    by (auto split: option.splits prod.splits)
qed auto

lemma sized_flush:
  assumes "flushAllLocked db b = (r, b')" and "sized jl b"
  shows "sized jl b' \<and> bopts b' = bopts b"
proof -
  have "pend b' = [] \<longrightarrow> bytesN b' = 0"
  proof (cases "pend b = []")
    case True
    then show ?thesis using assms by (auto simp: flushAllLocked_def sized_def)
  next
    case False
    show ?thesis
    proof (cases r)
      case None
      then show ?thesis using flush_bytes [OF assms(1)] assms(2) False by (auto simp: sized_def)
    next
      case (Some e)
      have "flush_loop db (sort (map fst (pend b))) b = (Some e, b')" using assms(1) False Some by (simp add: flushAllLocked_def)
      moreover have "set (sort (map fst (pend b))) \<subseteq> fst ` set (pend b)" "distinct (sort (map fst (pend b)))"
        using assms(2) by (simp_all add: sized_def)
      ultimately show ?thesis using flush_loop_pend_ne by blast
    qed
  qed
  moreover have "distinct (map fst (pend b'))"
    using assms flush_loop_distinct by (auto simp: flushAllLocked_def sized_def split: if_splits)
  ultimately show ?thesis using flush_bytes [OF assms(1)] assms(2) by (auto simp: sized_def)
qed

lemma sized_finish:
  assumes "finish_write db b = (r, b')" and "sized jl b"
  shows "sized jl b' \<and> bopts b' = bopts b"
  using assms sized_flush [of db b r b' jl] by (auto simp: finish_write_def split: if_splits)

lemma wb_write_finish:
  assumes "wb_write db jl b r b'" and "sized jl b"
  obtains b1 where "finish_write db b1 = (r, b')" "sized jl b1" "bopts b1 = bopts b"
  using assms
proof (cases rule: wb_write.cases)
  case (set t e)
  then show ?thesis using sized_upsert [OF assms(2), of "(t, iKey e)" "BatchSet e"]
    by (intro that [of "upsertLocked jl (t, iKey e) (BatchSet e) b"]) (simp_all add: wb_Set_def)
next
  case (bulk_set t es)
  then show ?thesis using sized_fold [OF assms(2), of "\<lambda>e. (t, iKey e)" BatchSet es]
    by (intro that [of "fold (\<lambda>e. upsertLocked jl (t, iKey e) (BatchSet e)) es b"]) (simp_all add: wb_BulkSet_def)
next
  case (del t k)
  then show ?thesis using sized_upsert [OF assms(2), of "(t, k)" BatchDel]
    by (intro that [of "upsertLocked jl (t, k) BatchDel b"]) (simp_all add: wb_Del_def)
next
  case (bulk_del t ks)
  then show ?thesis using sized_fold [OF assms(2), of "\<lambda>k. (t, k)" "\<lambda>_. BatchDel" ks]
    by (intro that [of "fold (\<lambda>k. upsertLocked jl (t, k) BatchDel) ks b"]) (simp_all add: wb_BulkDel_def)
qed

lemma sized_step:
  assumes "wb_step db jl b b'" and "sized jl b"
  shows "sized jl b' \<and> bopts b' = bopts b"
  using assms(1)
proof (cases rule: wb_step.cases)
  case (mutate r)
  obtain b1 where "finish_write db b1 = (r, b')" "sized jl b1" "bopts b1 = bopts b"
    using wb_write_finish [OF mutate assms(2)] by blast
  then show ?thesis using sized_finish by metis
next
  case (create t r)
  then show ?thesis using assms(2) by (auto simp: wb_CreateTable_def sized_def split: prod.splits)
next
  case (flush r)
  then show ?thesis using sized_flush [OF _ assms(2)] by (simp add: Flush_def)
next
  case (query t s x)
  then show ?thesis using sized_flush [OF _ assms(2)]
    by (auto simp: wb_GetBySk_def Flush_def split: prod.splits option.splits)
next
  case (hydrate ts r)
  then show ?thesis using assms(2)
    by (auto simp: wb_ReplaceWithCheckpointBlobs_def sized_def Let_def pend_bytes_def split: option.splits prod.splits)
qed

lemma sized_steps: "(wb_step db jl)\<^sup>*\<^sup>* b b' \<Longrightarrow> sized jl b \<Longrightarrow> sized jl b' \<and> bopts b' = bopts b"
  by (induction rule: rtranclp_induct) (auto dest: sized_step)

lemma sized_new: "sized jl (NewWriteBatcher s opts)"
  by (auto simp: sized_def NewWriteBatcher_def normalized_def Let_def pend_bytes_def)

text \<open>C28. The buffer stays bounded, whatever the inner store answers: in every batcher reachable from a new one
  the accounted size is at least the size of what is buffered, and after a mutation that reports success the
  number of buffered keys and the accounted size are below the limits of the options (with the defaults
  4096 and 32 MiB where they are not positive).\<close>

theorem batcher_buffer_bounded:
  assumes "(wb_step db jl)\<^sup>*\<^sup>* (NewWriteBatcher s opts) b" and "wb_write db jl b r b'"
  shows "pend_bytes jl (pend b') \<le> bytesN b' \<and> (r = None \<longrightarrow>
    int (length (pend b')) < MaxDirtyKeys (normalized opts) \<and> bytesN b' < MaxDirtyBytes (normalized opts))"
proof -
  have sz: "sized jl b" and o: "bopts b = normalized opts"
    using sized_steps [OF assms(1) sized_new] by (simp_all add: NewWriteBatcher_def)
  obtain b1 where b1: "finish_write db b1 = (r, b')" "sized jl b1" "bopts b1 = bopts b"
    using wb_write_finish [OF assms(2) sz] by blast
  then show ?thesis
    using finish_bounded [OF b1(1), of jl] o by (auto simp: sized_def)
qed

theorem batcher_buffer_bounded_witness:
  "\<exists>b'. wb_Set \<lparr>dbCreateTable = \<lambda>t s. (None, s), dbSet = \<lambda>t e s. (None, s @ [iKey e]), dbDel = \<lambda>t k s. (None, s), dbGet = \<lambda>t k s. Inl ErrNotFound,
       dbGetBySk = \<lambda>t k s. Inr [], dbHydrate = None\<rparr> (\<lambda>_. None) ''t'' (demo_ent ''a'' []) (NewWriteBatcher [] demo_deferred) = (None, b')
     \<and> length (pend b') = 1 \<and> bytesN b' < 32 * 2 ^ 20"
proof -
  let ?db = "\<lparr>dbCreateTable = \<lambda>t s. (None, s), dbSet = \<lambda>t e s. (None, s @ [iKey e]), dbDel = \<lambda>t k s. (None, s), dbGet = \<lambda>t k s. Inl ErrNotFound,
       dbGetBySk = \<lambda>t k s. Inr [], dbHydrate = None\<rparr> :: string list inner_db"
  let ?b = "NewWriteBatcher [] demo_deferred :: string list batcher"
  obtain b' where b': "wb_Set ?db (\<lambda>_. None) ''t'' (demo_ent ''a'' []) ?b = (None, b')" "length (pend b') = 1"
    by (simp add: wb_Set_def finish_write_def overLimitsLocked_def upsertLocked_def NewWriteBatcher_def normalized_def demo_deferred_def
        mergeKeyBytes_def opBytes_def Let_def)
  show ?thesis
    using batcher_buffer_bounded [OF rtranclp.rtrancl_refl wb_write.set [OF b'(1)]] b'
    by (auto simp: normalized_def demo_deferred_def)
qed


text \<open>One failed Set blocks the batcher: an item for a table that does not exist stays in the buffer of a
  write-through batcher, and a later valid Set that sorts after it fails with the same error and is not
  written to its existing table.\<close>

theorem failed_set_blocks_later_sets:
  assumes inv: "db_inv d" and t: "simple t" "t \<notin> tables d" and e: "ok_entity sprint e"
    and lt: "(t, iKey e) < (t2, iKey e2)" and w: "\<not> DeferWrites opts"
  shows "\<exists>b1 b2. wb_Set (fs_ops sprint decode) jl t e (NewWriteBatcher d opts)
       = (Some (ErrWrap ''fsdb write batcher: set'' ErrTableNotFound), b1)
     \<and> wb_Set (fs_ops sprint decode) jl t2 e2 b1 = (Some (ErrWrap ''fsdb write batcher: set'' ErrTableNotFound), b2)
     \<and> inner b2 = d"
proof -
  let ?db = "fs_ops sprint decode" and ?a = "(t, iKey e)" and ?c = "(t2, iKey e2)"
  have ap: "applyOneLocked ?db ?a (BatchSet e) d = (Some (ErrWrap ''fsdb write batcher: set'' ErrTableNotFound), d)"
    using fsdb_Set_no_table [OF inv t e] by (simp add: applyOneLocked_def fs_ops_def)
  have fl: "flush_loop ?db (?a # mks) b = (Some (ErrWrap ''fsdb write batcher: set'' ErrTableNotFound), b)"
    if "inner b = d" "map_of (pend b) ?a = Some (BatchSet e)" for b mks
    using that ap by simp
  have w': "\<not> DeferWrites (normalized opts)" using w by (simp add: normalized_def Let_def)
  have ne: "?a \<noteq> ?c" using lt by auto
  let ?b0 = "NewWriteBatcher d opts"
  let ?b1 = "upsertLocked jl ?a (BatchSet e) ?b0"
  have b1: "inner ?b1 = d" "pend ?b1 = [(?a, BatchSet e)]" "bopts ?b1 = normalized opts"
    by (simp_all add: upsertLocked_def NewWriteBatcher_def Let_def)
  have s1: "wb_Set ?db jl t e ?b0 = (Some (ErrWrap ''fsdb write batcher: set'' ErrTableNotFound), ?b1)"
    using fl [of ?b1 "[]"] b1 w' by (simp add: wb_Set_def finish_write_def flushAllLocked_def)
  let ?b2 = "upsertLocked jl ?c (BatchSet e2) ?b1"
  have b2: "inner ?b2 = d" "pend ?b2 = [(?a, BatchSet e), (?c, BatchSet e2)]" "bopts ?b2 = normalized opts"
    using b1 ne by (auto simp: upsertLocked_def Let_def)
  have "sort [?a, ?c] = [?a, ?c]" using lt by (simp only: sort_key_simps insort_key.simps id_apply if_True order_less_imp_le)
  then have "wb_Set ?db jl t2 e2 ?b1 = (Some (ErrWrap ''fsdb write batcher: set'' ErrTableNotFound), ?b2)"
    using fl [of ?b2 "[?c]"] b2 w' by (simp add: wb_Set_def finish_write_def flushAllLocked_def del: sort_key_simps)
  then show ?thesis using s1 b2(1) by blast
qed

theorem failed_set_blocks_later_sets_witness:
  "\<exists>d b1 b2. CreateTable ''t'' (empty_db [''data'']) = (None, d) \<and> ''t'' \<in> tables d \<and>
     wb_Set (fs_ops (\<lambda>_. []) (\<lambda>_. Inl ErrTruncated)) (\<lambda>_. None) ''a'' (demo_ent ''a'' []) (NewWriteBatcher d (demo_deferred\<lparr>DeferWrites := False\<rparr>))
       = (Some (ErrWrap ''fsdb write batcher: set'' ErrTableNotFound), b1)
     \<and> wb_Set (fs_ops (\<lambda>_. []) (\<lambda>_. Inl ErrTruncated)) (\<lambda>_. None) ''t'' (demo_ent ''b'' []) b1
       = (Some (ErrWrap ''fsdb write batcher: set'' ErrTableNotFound), b2) \<and> inner b2 = d"
proof (rule CreateTable_law [OF empty_db_inv(1), of "''t''" "[''data'']"])
  show "simple ''t''" by simp
next
  fix d assume d: "CreateTable ''t'' (empty_db [''data'']) = (None, d)" "db_inv d" "tables d = insert ''t'' (tables (empty_db [''data'']))"
  have "''a'' \<notin> tables d" using d(3) by (auto simp: tables_def has_table_def dirs_ok_def empty_db_def)
  moreover have "(''a'', iKey (demo_ent ''a'' [])) < (''t'', iKey (demo_ent ''b'' []))" by (simp add: less_char_def)
  ultimately show ?thesis
    using failed_set_blocks_later_sets [OF d(2), of "''a''" "\<lambda>_. []" "demo_ent ''a'' []" "''t''" "demo_ent ''b'' []"
        "demo_deferred\<lparr>DeferWrites := False\<rparr>" "\<lambda>_. Inl ErrTruncated" "\<lambda>_. None"] d(1,3) by auto
qed

end
