(* ===== verification/Wal_Recovery.thy ===== *)
theory Wal_Recovery
  imports Wal
begin

text \<open>
  What the write-ahead log guarantees: replay of a well-formed log with a torn tail, atomicity and
  durability of appends, the order of a checkpoint's steps, recovery from a checkpoint, and the cases in
  which recovery drops records that were acknowledged.
\<close>

section \<open>Replaying a well-formed log\<close>

text \<open>The bytes of a list of records, and the records that replay can read back.\<close>

definition entry_frame :: "entry \<Rightarrow> bytes" where
  "entry_frame e = frame (entry_header e @ value_part e)"

definition frames :: "entry list \<Rightarrow> bytes" where
  "frames es = concat (map entry_frame es)"

definition loggable :: "entry \<Rightarrow> bool" where
  "loggable e \<longleftrightarrow> valid_entry e \<and> payload_size e \<le> 268435456"

text \<open>The specification of a replay: which records reach \<open>app\<close>, in which order.\<close>

fun run_entries :: "u64 \<Rightarrow> (entry \<Rightarrow> 's \<Rightarrow> goerr option \<times> 's) \<Rightarrow> entry list \<Rightarrow> 's \<Rightarrow> u64 \<Rightarrow> goerr option \<times> 's \<times> u64" where
  "run_entries skip app [] s m = (None, s, m)"
| "run_entries skip app (e # es) s m =
     (let m = max m (eSeq e) in
      if eSeq e > skip then
        (case app e s of
           (Some err, s) \<Rightarrow> (Some err, s, m)
         | (None, s) \<Rightarrow> run_entries skip app es s m)
      else run_entries skip app es s m)"

lemma frames_simps [simp]: "frames [] = []" "frames (e # es) = entry_frame e @ frames es"
  "frames (es @ es') = frames es @ frames es'"
  by (simp_all add: frames_def)

lemma drop_advance:
  assumes "drop p d = a @ b" and "n \<le> length a"
  shows "drop (p + n) d = drop n a @ b"
proof -
  have "drop (p + n) d = drop n (drop p d)" by (simp add: add.commute)
  then show ?thesis using assms by simp
qed

lemma length_entry_frame: "length (entry_frame e) = payload_size e + 8"
  using length_entry_payload [of e] by (simp add: entry_frame_def)

lemma MarshalBinary_loggable: "loggable e \<Longrightarrow> MarshalBinary e = Inr (entry_frame e)"
  by (simp add: loggable_def MarshalBinary_valid entry_frame_def)

lemma frame_prefix_len:
  assumes "payload_size e \<le> 268435456"
  shows "(word_of_int (be_val (take 4 (entry_frame e))) :: u32) = of_nat (payload_size e)"
    and "unat (of_nat (payload_size e) :: u32) = payload_size e"
    and "\<not> (of_nat (payload_size e) :: u32) > 0x10000000"
proof -
  have "take 4 (entry_frame e) = be_bytes 4 (uint (of_nat (payload_size e) :: u32))"
    using length_entry_payload [of e] by (simp add: entry_frame_def frame_eq)
  then show "(word_of_int (be_val (take 4 (entry_frame e))) :: u32) = of_nat (payload_size e)"
    by (simp add: be_roundtrip_u32)
  show u: "unat (of_nat (payload_size e) :: u32) = payload_size e"
    using assms by (intro unat_of_nat_u32) simp
  show "\<not> (of_nat (payload_size e) :: u32) > 0x10000000"
    using assms u by (simp add: word_less_nat_alt)
qed

lemma read_frame_ok:
  assumes q: "foutcomes f = []" and d: "drop (fpos f) (fdata f) = entry_frame e @ rest" and l: "loggable e"
  shows "read_frame f = (FrOk e (length (entry_frame e)), f\<lparr>fpos := fpos f + length (entry_frame e)\<rparr>)"
proof -
  let ?n = "payload_size e" and ?fr = "entry_frame e"
  have v: "valid_entry e" and sz: "?n \<le> 268435456" using l by (simp_all add: loggable_def)
  have len: "length ?fr = ?n + 8" by (rule length_entry_frame)
  let ?f1 = "f\<lparr>fpos := fpos f + 4\<rparr>"
  have t4: "take 4 (drop (fpos f) (fdata f)) = take 4 ?fr"
    using d len by simp
  have r1: "file_ReadFull 4 f = (take 4 ?fr, None, ?f1)"
    using len by (simp add: file_ReadFull_quiet [OF q] Let_def t4)
  have d2: "drop (fpos f + 4) (fdata f) = drop 4 ?fr @ rest"
    using drop_advance [OF d, of 4] len by simp
  have t8: "take (?n + 4) (drop (fpos f + 4) (fdata f)) = drop 4 ?fr"
    unfolding d2 using len by simp
  have r2: "file_ReadFull (?n + 4) ?f1 = (drop 4 ?fr, None, f\<lparr>fpos := fpos f + length ?fr\<rparr>)"
    using q len t8 by (simp add: file_ReadFull_quiet Let_def)
  have un: "UnmarshalBinary ?fr = Inr e"
    using UnmarshalBinary_valid [OF v, of "[]"] sz by (simp add: entry_frame_def)
  show ?thesis
    unfolding read_frame_def r1 prod.case Let_def frame_prefix_len [OF sz] r2 option.case
    using len un frame_prefix_len(3) [OF sz] by simp
qed

lemma read_frame_eof:
  assumes "foutcomes f = []" and "drop (fpos f) (fdata f) = []"
  shows "read_frame f = (FrEof, f)"
  using assms by (simp add: read_frame_def file_ReadFull_quiet Let_def)

text \<open>A torn record: a non-empty, proper prefix of a frame, as a crash in mid-write leaves it.\<close>

definition torn :: "bytes \<Rightarrow> bool" where
  "torn t \<longleftrightarrow> t \<noteq> [] \<and> (\<exists>e k. loggable e \<and> k < length (entry_frame e) \<and> t = take k (entry_frame e))"

lemma read_frame_torn:
  assumes q: "foutcomes f = []" and d: "drop (fpos f) (fdata f) = t" and t: "torn t"
  shows "\<exists>p. read_frame f = (FrBad, f\<lparr>fpos := p\<rparr>)"
proof -
  obtain e k where e: "loggable e" "k < length (entry_frame e)" "t = take k (entry_frame e)" "t \<noteq> []"
    using t by (auto simp: torn_def)
  show ?thesis
  proof (cases "length t < 4")
    case True
    then show ?thesis
      using e(4) d q by (auto simp: read_frame_def file_ReadFull_quiet Let_def)
  next
    case False
    let ?n = "payload_size e"
    have sz: "?n \<le> 268435456" using e(1) by (simp add: loggable_def)
    let ?f1 = "f\<lparr>fpos := fpos f + 4\<rparr>"
    have k4: "4 \<le> k" using False e(3) by simp
    have "take 4 t = take 4 (entry_frame e)" using e(3) k4 by (simp add: min_def)
    then have r1: "file_ReadFull 4 f = (take 4 (entry_frame e), None, ?f1)"
      using False d by (simp add: file_ReadFull_quiet [OF q] Let_def length_entry_frame)
    have short: "length (take (?n + 4) (drop (fpos f + 4) (fdata f))) \<noteq> ?n + 4"
    proof -
      have "length (drop (fpos f + 4) (fdata f)) = length t - 4"
        using d by auto
      moreover have "length t - 4 < ?n + 4"
        using e(2,3) k4 by (simp add: length_entry_frame)
      ultimately show ?thesis by simp
    qed
    have "\<exists>g err p. file_ReadFull (?n + 4) ?f1 = (g, Some err, f\<lparr>fpos := p\<rparr>)"
      using file_ReadFull_quiet [of ?f1 "?n + 4"] q short by (auto simp: Let_def)
    then obtain g err p where r2: "file_ReadFull (?n + 4) ?f1 = (g, Some err, f\<lparr>fpos := p\<rparr>)"
      by blast
    show ?thesis
      unfolding read_frame_def r1 prod.case Let_def frame_prefix_len [OF sz] r2 option.case
      using frame_prefix_len(3) [OF sz] by (auto simp: length_entry_frame)
  qed
qed

lemma replay_loop_ok:
  assumes "foutcomes f = []" and "drop (fpos f) (fdata f) = frames es @ rest"
    and "\<forall>e\<in>set es. loggable e" and "run_entries skip app es s m = (None, s', m')"
  shows "replay_loop skip app f s g m
    = replay_loop skip app (f\<lparr>fpos := fpos f + length (frames es)\<rparr>) s' (g + length (frames es)) m'"
  using assms
proof (induction es arbitrary: f s g m)
  case Nil
  then show ?case by simp
next
  case (Cons e es)
  let ?f = "f\<lparr>fpos := fpos f + length (entry_frame e)\<rparr>"
  have rf: "read_frame f = (FrOk e (length (entry_frame e)), ?f)"
    using Cons.prems by (intro read_frame_ok [where rest = "frames es @ rest"]) simp_all
  have d: "drop (fpos ?f) (fdata ?f) = frames es @ rest"
    using drop_advance [of "fpos f" "fdata f" "entry_frame e" "frames es @ rest" "length (entry_frame e)"]
      Cons.prems(2) by simp
  have mx: "(if eSeq e > m then eSeq e else m) = max m (eSeq e)"
    by (auto simp: max_def)
  obtain s1 where s1: "run_entries skip app es s1 (max m (eSeq e)) = (None, s', m')"
    and st: "(if eSeq e > skip then app e s else (None, s)) = (None, s1)"
    using Cons.prems(4) by (auto simp: Let_def split: if_splits option.splits prod.splits)
  have "replay_loop skip app f s g m = replay_loop skip app ?f s1 (g + length (entry_frame e)) (max m (eSeq e))"
    using st by (subst replay_loop.simps) (auto simp: rf mx Let_def split: if_splits)
  also have "\<dots> = replay_loop skip app (?f\<lparr>fpos := fpos ?f + length (frames es)\<rparr>) s'
      (g + length (entry_frame e) + length (frames es)) m'"
    by (rule Cons.IH) (use Cons.prems d s1 in simp_all)
  finally show ?case by (simp add: add.assoc)
qed

lemma replay_loop_err:
  assumes "foutcomes f = []" and "drop (fpos f) (fdata f) = frames es @ rest"
    and "\<forall>e\<in>set es. loggable e" and "run_entries skip app es s m = (Some err, s', m')"
  shows "\<exists>p. replay_loop skip app f s g m = (Some err, f\<lparr>fpos := p\<rparr>, s', m')"
  using assms
proof (induction es arbitrary: f s g m)
  case Nil
  then show ?case by simp
next
  case (Cons e es)
  let ?f = "f\<lparr>fpos := fpos f + length (entry_frame e)\<rparr>"
  have rf: "read_frame f = (FrOk e (length (entry_frame e)), ?f)"
    using Cons.prems by (intro read_frame_ok [where rest = "frames es @ rest"]) simp_all
  have d: "drop (fpos ?f) (fdata ?f) = frames es @ rest"
    using drop_advance [of "fpos f" "fdata f" "entry_frame e" "frames es @ rest" "length (entry_frame e)"]
      Cons.prems(2) by simp
  have mx: "(if eSeq e > m then eSeq e else m) = max m (eSeq e)"
    by (auto simp: max_def)
  show ?case
  proof (cases "eSeq e > skip \<and> fst (app e s) \<noteq> None")
    case True
    then have "app e s = (Some err, s')" "m' = max m (eSeq e)"
      using Cons.prems(4) by (auto simp: Let_def split: if_splits option.splits prod.splits)
    then have "replay_loop skip app f s g m = (Some err, ?f, s', m')"
      using True by (subst replay_loop.simps) (auto simp: rf mx Let_def)
    then show ?thesis by blast
  next
    case False
    then obtain s1 where s1: "run_entries skip app es s1 (max m (eSeq e)) = (Some err, s', m')"
      and st: "(if eSeq e > skip then app e s else (None, s)) = (None, s1)"
      using Cons.prems(4) by (cases "app e s") (auto simp: Let_def split: if_splits option.splits)
    have step: "replay_loop skip app f s g m = replay_loop skip app ?f s1 (g + length (entry_frame e)) (max m (eSeq e))"
      using st by (subst replay_loop.simps) (auto simp: rf mx Let_def split: if_splits)
    have "\<exists>p. replay_loop skip app ?f s1 (g + length (entry_frame e)) (max m (eSeq e))
        = (Some err, ?f\<lparr>fpos := p\<rparr>, s', m')"
      by (rule Cons.IH) (use Cons.prems d s1 in simp_all)
    then show ?thesis unfolding step by auto
  qed
qed

text \<open>What replay makes of a tail: nothing to read, or a record to cut off.\<close>

definition bad_tail :: "bytes \<Rightarrow> bool" where
  "bad_tail t \<longleftrightarrow> (\<forall>f. foutcomes f = [] \<and> drop (fpos f) (fdata f) = t \<longrightarrow>
     (\<exists>p. read_frame f = (FrBad, f\<lparr>fpos := p\<rparr>)))"

lemma torn_bad_tail: "torn t \<Longrightarrow> bad_tail t"
  using read_frame_torn by (auto simp: bad_tail_def)

lemma replay_loop_tail:
  assumes q: "foutcomes f = []" and d: "fdata f = frames es @ t" and p: "fpos f = length (frames es)"
    and t: "t = [] \<or> bad_tail t"
  shows "\<exists>p. replay_loop skip app f s (length (frames es)) m
    = (None, f\<lparr>fdata := frames es, fpos := p\<rparr>, s, m)"
proof (cases "t = []")
  case True
  then have rf: "read_frame f = (FrEof, f)"
    using q d p by (intro read_frame_eof) simp_all
  have "f\<lparr>fdata := frames es, fpos := fpos f\<rparr> = f" using d True by simp
  then show ?thesis
    by (intro exI [of _ "fpos f"], subst replay_loop.simps) (simp add: rf)
next
  case False
  then have "bad_tail t" using t by simp
  then obtain k where rf: "read_frame f = (FrBad, f\<lparr>fpos := k\<rparr>)"
    using q d p unfolding bad_tail_def by fastforce
  show ?thesis
    by (subst replay_loop.simps) (auto simp: rf truncate_def q d)
qed

lemma replaySince_ok:
  assumes q: "foutcomes (wFile w) = []" and d: "fdata (wFile w) = frames es @ t"
    and t: "t = [] \<or> bad_tail t" and l: "\<forall>e\<in>set es. loggable e"
    and r: "run_entries skip app es s 0 = (None, s', m)"
  shows "replaySince skip app w s
    = (None, w\<lparr>wFile := (wFile w)\<lparr>fdata := frames es, fpos := length (frames es)\<rparr>\<rparr>, s', m)"
proof -
  let ?f = "(wFile w)\<lparr>fpos := 0\<rparr>"
  have 1: "replay_loop skip app ?f s 0 0 = replay_loop skip app ((wFile w)\<lparr>fpos := length (frames es)\<rparr>) s' (length (frames es)) m"
    using replay_loop_ok [of ?f es t skip app s 0 s' m 0] q d l r by simp
  obtain p where 2: "replay_loop skip app ((wFile w)\<lparr>fpos := length (frames es)\<rparr>) s' (length (frames es)) m
      = (None, (wFile w)\<lparr>fdata := frames es, fpos := p\<rparr>, s', m)"
    using replay_loop_tail [of "(wFile w)\<lparr>fpos := length (frames es)\<rparr>" es t skip app s' m] q d t by auto
  show ?thesis
    by (simp add: replaySince_def q 1 2)
qed

lemma replaySince_err:
  assumes q: "foutcomes (wFile w) = []" and d: "fdata (wFile w) = frames es @ t"
    and l: "\<forall>e\<in>set es. loggable e" and r: "run_entries skip app es s 0 = (Some err, s', m)"
  shows "\<exists>p. replaySince skip app w s = (Some err, w\<lparr>wFile := (wFile w)\<lparr>fpos := p\<rparr>\<rparr>, s', m)"
  using replay_loop_err [of "(wFile w)\<lparr>fpos := 0\<rparr>" es t skip app s 0 err s' m 0] q d l r
  by (auto simp: replaySince_def)

section \<open>Appending\<close>

text \<open>
  The invariant of a log opened with \<^verbatim>\<open>SyncEveryWrite\<close>: the file holds whole
  records, numbered in increasing order up to the log's counter.
\<close>

definition wal_inv :: "wal \<Rightarrow> entry list \<Rightarrow> bool" where
  "wal_inv w es \<longleftrightarrow>
     Durability (wOpts w) = SyncEveryWrite \<and> wBufw w = None
     \<and> fdata (wFile w) = frames es
     \<and> fpos (wFile w) = length (frames es)
     \<and> (\<forall>e\<in>set es. loggable e \<and> eSeq e \<le> wSeq w) \<and> sorted_wrt (<) (map eSeq es)"

lemma file_Write_append:
  assumes "file_Write bs f = (err, n, f')" and "fpos f = length (fdata f)"
  shows "fdata f' = fdata f @ take n bs \<and> fpos f' = length (fdata f') \<and> fsynced f' = fsynced f
    \<and> n \<le> length bs \<and> (err = None \<longrightarrow> n = length bs)"
proof -
  obtain r g where r: "next_outcome f = (r, g)" by (cases "next_outcome f")
  note g = next_outcome_data [OF r]
  show ?thesis
    using assms g by (cases r) (auto simp: file_Write_def r min_def)
qed

lemma file_Sync_frame:
  assumes "file_Sync f = (err, f')"
  shows "fdata f' = fdata f \<and> fpos f' = fpos f \<and> (err = None \<longrightarrow> fsynced f' = fdata f)
    \<and> fsynced f' \<in> {fsynced f, fdata f}"
proof -
  obtain r g where r: "next_outcome f = (r, g)" by (cases "next_outcome f")
  show ?thesis
    using assms next_outcome_data [OF r] by (cases r) (auto simp: file_Sync_def r)
qed

lemma write_record_append:
  assumes "write_record rec w = (err, w')" and "wBufw w = None"
    and "fpos (wFile w) = length (fdata (wFile w))"
  shows "\<exists>f'. w' = w\<lparr>wFile := f'\<rparr> \<and> fpos f' = length (fdata f')
    \<and> (\<exists>k\<le>length rec. fdata f' = fdata (wFile w) @ take k rec)
    \<and> (err = None \<longrightarrow> fdata f' = fdata (wFile w) @ rec)
    \<and> (err = None \<longrightarrow> Durability (wOpts w) = SyncEveryWrite \<longrightarrow> fsynced f' = fdata f')"
proof -
  obtain e1 n f1 where w1: "file_Write rec (wFile w) = (e1, n, f1)"
    by (cases "file_Write rec (wFile w)") auto
  note a = file_Write_append [OF w1 assms(3)]
  obtain e2 f2 where s: "file_Sync f1 = (e2, f2)" by (cases "file_Sync f1")
  have b: "fdata f2 = fdata f1" "fpos f2 = fpos f1" "e2 = None \<longrightarrow> fsynced f2 = fdata f1"
    using file_Sync_frame [OF s] by simp_all
  show ?thesis
  proof (cases "e1 = None \<and> Durability (wOpts w) = SyncEveryWrite")
    case True
    then have "err = e2" "w' = w\<lparr>wFile := f2\<rparr>"
      using assms w1 s by (auto simp: write_record_def syncAndHook_def Let_def)
    then show ?thesis using a b True by (auto intro!: exI [of _ f2] exI [of _ "length rec"])
  next
    case False
    then have "err = e1" "w' = w\<lparr>wFile := f1\<rparr>"
      using assms w1 by (auto simp: write_record_def Let_def split: option.splits)
    then show ?thesis using a False by (auto intro!: exI [of _ f1])
  qed
qed

lemma MarshalBinary_valid_conv:
  assumes "MarshalBinary e = Inr rec" and "eOp e = OpDel \<longrightarrow> eValueBytes e = []"
  shows "valid_entry e \<and> rec = entry_frame e"
proof -
  have "valid_entry e"
    using assms by (auto simp: MarshalBinary_def entry_payload_def valid_entry_def Let_def
        split: if_splits sum.splits)
  then show ?thesis using assms by (simp add: MarshalBinary_valid entry_frame_def)
qed

lemma appendLocked_ok:
  assumes "appendLocked e w = (None, w')" and "wal_inv w es" and "payload_size e \<le> 268435456"
    and "\<forall>d\<in>set es. eSeq d < eSeq e" and "eOp e = OpDel \<longrightarrow> eValueBytes e = []"
  shows "wal_inv (w'\<lparr>wSeq := eSeq e\<rparr>) (es @ [e]) \<and> wOpts w' = wOpts w \<and> wSeq w' = wSeq w
    \<and> fsynced (wFile w') = frames (es @ [e])"
proof -
  obtain rec where m: "MarshalBinary e = Inr rec"
    using assms(1) by (cases "MarshalBinary e") (auto simp: appendLocked_def)
  have v: "valid_entry e" and rec: "rec = entry_frame e"
    using MarshalBinary_valid_conv [OF m assms(5)] by simp_all
  have l: "loggable e"
    using v assms(3) by (simp add: loggable_def)
  obtain w1 where w1: "write_record rec w = (None, w1)" and w': "w' = w1\<lparr>writesSinceCkpt := writesSinceCkpt w1 + 1,
      bytesSinceCkpt := bytesSinceCkpt w1 + int (length rec)\<rparr>"
    using assms(1) m by (auto simp: appendLocked_def split: prod.splits option.splits)
  obtain f' where f': "w1 = w\<lparr>wFile := f'\<rparr>" "fpos f' = length (fdata f')" "fdata f' = fdata (wFile w) @ rec" "fsynced f' = fdata f'"
    using write_record_append [OF w1] assms(2) by (auto simp: wal_inv_def)
  have "\<forall>d\<in>set es. eSeq d \<le> eSeq e" using assms(4) by (auto intro: order_less_imp_le)
  then show ?thesis
    using assms l rec w' f' by (simp add: wal_inv_def sorted_wrt_append)
qed

text \<open>A failed append leaves the old records and a (possibly complete) prefix of the new one.\<close>

lemma appendLocked_any:
  assumes "appendLocked e w = (err, w')" and "wal_inv w es" and "eOp e = OpDel \<longrightarrow> eValueBytes e = []"
  shows "\<exists>k \<le> length (entry_frame e). fdata (wFile w') = frames es @ take k (entry_frame e)
     \<and> (err = None \<longrightarrow> k = length (entry_frame e)) \<and> (k = 0 \<or> valid_entry e)"
proof (cases "MarshalBinary e")
  case (Inl a)
  then show ?thesis using assms by (auto simp: appendLocked_def wal_inv_def)
next
  case (Inr rec)
  have rec: "rec = entry_frame e" "valid_entry e"
    using MarshalBinary_valid_conv [OF Inr assms(3)] by simp_all
  obtain err1 w1 where w1: "write_record rec w = (err1, w1)"
    by (cases "write_record rec w")
  have "err = err1" "wFile w' = wFile w1"
    using assms(1) Inr w1 by (auto simp: appendLocked_def split: prod.splits option.splits)
  moreover have pre: "wBufw w = None" "fpos (wFile w) = length (fdata (wFile w))"
    using assms(2) by (simp_all add: wal_inv_def)
  moreover obtain f' k where "w1 = w\<lparr>wFile := f'\<rparr>" "k \<le> length rec" "fdata f' = fdata (wFile w) @ take k rec"
      "err1 = None \<longrightarrow> fdata f' = fdata (wFile w) @ rec"
    using write_record_append [OF w1 pre] by blast
  ultimately show ?thesis
    using assms(2) rec by (cases "err1 = None") (auto simp: wal_inv_def)
qed

section \<open>Checkpoints\<close>

lemma flushLocked_frame:
  assumes "flushLocked w = (err, w')" and "wBufw w = None"
  shows "\<exists>f'. w' = w\<lparr>wFile := f'\<rparr> \<and> fdata f' = fdata (wFile w) \<and> fpos f' = fpos (wFile w)
    \<and> (err = None \<longrightarrow> fsynced f' = fdata f')"
proof -
  obtain e2 f2 where s: "file_Sync (wFile w) = (e2, f2)" by (cases "file_Sync (wFile w)")
  show ?thesis
    using assms file_Sync_frame [OF s] by (auto simp: flushLocked_def syncAndHook_def s)
qed

lemma truncate0_cases:
  assumes "truncate 0 f = (err, f')"
  shows "fdata f' = fdata f \<and> err \<noteq> None \<or> fdata f' = []" and "err = None \<Longrightarrow> fdata f' = [] \<and> fpos f' = 0"
proof -
  obtain r g where r: "next_outcome f = (r, g)" by (cases "next_outcome f")
  let ?g = "g\<lparr>fdata := []\<rparr>"
  obtain r2 g2 where r2: "next_outcome ?g = (r2, g2)" by (cases "next_outcome ?g")
  show "fdata f' = fdata f \<and> err \<noteq> None \<or> fdata f' = []" and "err = None \<Longrightarrow> fdata f' = [] \<and> fpos f' = 0"
    using assms next_outcome_data [OF r] next_outcome_data [OF r2] r2
    by (cases r; cases r2; auto simp: truncate_def file_Truncate_def file_SeekEnd_def r)+
qed

lemma file_SeekEnd_frame:
  assumes "file_SeekEnd f = (err, f')"
  shows "fdata f' = fdata f \<and> (err = None \<longrightarrow> fpos f' = length (fdata f))"
proof -
  obtain r g where r: "next_outcome f = (r, g)" by (cases "next_outcome f")
  show ?thesis
    using assms next_outcome_data [OF r] by (cases r) (auto simp: file_SeekEnd_def r)
qed

lemma checkpoint_finish_ok:
  assumes "checkpoint_finish w = (None, w')" and "wal_inv w es"
  shows "wal_inv w' (if TruncateAfterCheckpoint (CheckpointPolicy (wOpts w)) then [] else es)
    \<and> wSeq w' = wSeq w \<and> wOpts w' = wOpts w \<and> writesSinceCkpt w' = 0 \<and> bytesSinceCkpt w' = 0"
proof (cases "TruncateAfterCheckpoint (CheckpointPolicy (wOpts w))")
  case True
  obtain e1 f1 where t: "truncate 0 (wFile w) = (e1, f1)" by (cases "truncate 0 (wFile w)")
  obtain e2 f2 where s: "file_SeekEnd f1 = (e2, f2)" by (cases "file_SeekEnd f1")
  have "e1 = None" "e2 = None" "w' = w\<lparr>wFile := f2, writesSinceCkpt := 0, bytesSinceCkpt := 0\<rparr>"
    using assms(1) True t s by (auto simp: checkpoint_finish_def Let_def split: option.splits)
  then show ?thesis
    using True assms(2) truncate0_cases(2) [OF t] file_SeekEnd_frame [OF s] by (auto simp: wal_inv_def)
next
  case False
  then show ?thesis
    using assms by (auto simp: checkpoint_finish_def Let_def wal_inv_def)
qed

lemma checkpointLocked_ok:
  assumes "checkpointLocked env w x = (None, w', x')" and "wal_inv w es"
  shows "\<exists>x1. run_before env x = (None, x1)
      \<and> SaveLastSeq env (CheckpointDir (wOpts w)) (wSeq w) x1 = (None, x')
      \<and> wal_inv w' (if TruncateAfterCheckpoint (CheckpointPolicy (wOpts w)) then [] else es)
      \<and> wSeq w' = wSeq w \<and> wOpts w' = wOpts w \<and> writesSinceCkpt w' = 0 \<and> bytesSinceCkpt w' = 0"
proof -
  obtain e1 w1 where f: "flushLocked w = (e1, w1)" by (cases "flushLocked w")
  have b: "wBufw w = None" using assms(2) by (simp add: wal_inv_def)
  obtain f1 where f1: "w1 = w\<lparr>wFile := f1\<rparr>" "fdata f1 = fdata (wFile w)" "fpos f1 = fpos (wFile w)"
    using flushLocked_frame [OF f b] by blast
  then have inv1: "wal_inv w1 es" using assms(2) by (simp add: wal_inv_def)
  obtain x1 where x1: "run_before env x = (None, x1)"
      "SaveLastSeq env (CheckpointDir (wOpts w)) (wSeq w) x1 = (None, x')" "checkpoint_finish w1 = (None, w')"
    using assms(1) f f1 by (auto simp: checkpointLocked_def split: if_splits option.splits prod.splits)
  show ?thesis
    using checkpoint_finish_ok [OF x1(3) inv1] x1 f1 by auto
qed

text \<open>A checkpoint that keeps the log has synchronised it.\<close>

lemma checkpoint_synced:
  assumes "checkpointLocked env w x = (None, w', x')" and "wBufw w = None" and "\<not> TruncateAfterCheckpoint (CheckpointPolicy (wOpts w))"
  shows "fsynced (wFile w') = fdata (wFile w)"
proof -
  obtain e1 w1 where f: "flushLocked w = (e1, w1)" by (cases "flushLocked w")
  obtain f1 where f1: "w1 = w\<lparr>wFile := f1\<rparr>" "fdata f1 = fdata (wFile w)" "e1 = None \<longrightarrow> fsynced f1 = fdata f1"
    using flushLocked_frame [OF f assms(2)] by blast
  show ?thesis
    using assms(1,3) f f1 by (auto simp: checkpointLocked_def checkpoint_finish_def Let_def split: if_splits option.splits prod.splits)
qed

text \<open>Whatever fails in a checkpoint, the log is only cut after its position has been saved.\<close>

lemma checkpoint_finish_any:
  assumes "checkpoint_finish w = (err, w')"
  shows "fdata (wFile w') = fdata (wFile w) \<or> fdata (wFile w') = []"
proof -
  obtain e1 f1 where t: "truncate 0 (wFile w) = (e1, f1)" by (cases "truncate 0 (wFile w)")
  obtain e2 f2 where s: "file_SeekEnd f1 = (e2, f2)" by (cases "file_SeekEnd f1")
  show ?thesis
    using assms truncate0_cases(1) [OF t] file_SeekEnd_frame [OF s]
    by (auto simp: checkpoint_finish_def Let_def t s split: if_splits option.splits)
qed

lemma checkpointLocked_any:
  assumes "checkpointLocked env w x = (err, w', x')" and "wBufw w = None"
  shows "fdata (wFile w') = fdata (wFile w)
     \<or> fdata (wFile w') = [] \<and>
       (\<exists>x1. run_before env x = (None, x1) \<and> SaveLastSeq env (CheckpointDir (wOpts w)) (wSeq w) x1 = (None, x'))"
proof -
  obtain e1 w1 where f: "flushLocked w = (e1, w1)" by (cases "flushLocked w")
  obtain f1 where f1: "w1 = w\<lparr>wFile := f1\<rparr>" "fdata f1 = fdata (wFile w)"
    using flushLocked_frame [OF f assms(2)] by blast
  obtain e2 x2 where b: "run_before env x = (e2, x2)" by (cases "run_before env x")
  obtain e3 x3 where s: "SaveLastSeq env (CheckpointDir (wOpts w)) (wSeq w) x2 = (e3, x3)"
    by (cases "SaveLastSeq env (CheckpointDir (wOpts w)) (wSeq w) x2")
  obtain e4 w4 where c: "checkpoint_finish w1 = (e4, w4)" by (cases "checkpoint_finish w1")
  show ?thesis
    using assms(1) f f1 b s c checkpoint_finish_any [OF c]
    by (auto simp: checkpointLocked_def split: if_splits option.splits)
qed

section \<open>Requests and recovery\<close>

text \<open>A logged request, the record it appends and its execution.\<close>

datatype wal_req = ReqSet string entity | ReqDel string string

fun req_entry :: "codec \<Rightarrow> u64 \<Rightarrow> wal_req \<Rightarrow> goerr + entry" where
  "req_entry c seq (ReqSet t ent) =
     (case Encode c ent of Inl err \<Rightarrow> Inl err | Inr b \<Rightarrow> Inr (set_entry seq t ent b))"
| "req_entry c seq (ReqDel t k) = Inr (del_entry seq t k)"

fun wal_exec :: "codec \<Rightarrow> 'x wal_env \<Rightarrow> wal_req \<Rightarrow> wal \<Rightarrow> 'x \<Rightarrow> goerr option \<times> wal \<times> 'x" where
  "wal_exec c env (ReqSet t ent) w x = wal_Set c env t ent w x"
| "wal_exec c env (ReqDel t k) w x = wal_Delete env t k w x"

fun wal_run :: "codec \<Rightarrow> 'x wal_env \<Rightarrow> wal_req list \<Rightarrow> wal \<Rightarrow> 'x \<Rightarrow> goerr option \<times> wal \<times> 'x" where
  "wal_run c env [] w x = (None, w, x)"
| "wal_run c env (r # rs) w x =
     (case wal_exec c env r w x of
        (Some err, w, x) \<Rightarrow> (Some err, w, x)
      | (None, w, x) \<Rightarrow> wal_run c env rs w x)"

fun req_entries :: "codec \<Rightarrow> u64 \<Rightarrow> wal_req list \<Rightarrow> entry list" where
  "req_entries c seq [] = []"
| "req_entries c seq (r # rs) =
     (case req_entry c (seq + 1) r of Inl err \<Rightarrow> [] | Inr e \<Rightarrow> e # req_entries c (seq + 1) rs)"

lemma wal_exec_appends:
  assumes "wal_exec c env r w x = (None, w', x')"
  shows "\<exists>e w1. req_entry c (wSeq w + 1) r = Inr e \<and> eSeq e = wSeq w + 1
     \<and> (eOp e = OpDel \<longrightarrow> eValueBytes e = []) \<and> appendLocked e w = (None, w1)
     \<and> maybeAutoCheckpointLocked env (w1\<lparr>wSeq := wSeq w + 1\<rparr>) x = (None, w', x')"
  using assms
  by (cases r) (auto simp: wal_Set_def wal_Delete_def Let_def set_entry_def del_entry_def
      split: sum.splits option.splits prod.splits)

lemma word_less_Suc:
  assumes "a \<le> w" and "w + 1 \<noteq> (0 :: u64)"
  shows "a < w + 1"
  using assms unatSuc [of w] by (simp add: add.commute word_less_nat_alt word_le_nat_alt)

lemma unat_plus1_u64:
  assumes "unat (w :: u64) + 1 < 18446744073709551616"
  shows "unat (w + 1) = unat w + 1" and "w + 1 \<noteq> 0"
proof -
  show "w + 1 \<noteq> 0"
  proof
    assume "w + 1 = 0"
    then have "w = - 1" by (simp add: eq_neg_iff_add_eq_0)
    then show False using assms by (simp add: unsigned_minus_1_eq_mask mask_eq_exp_minus_1)
  qed
  then show "unat (w + 1) = unat w + 1"
    using unatSuc [of w] by (simp add: add.commute)
qed

lemma wal_exec_ok:
  assumes "wal_exec c env r w x = (None, w', x')" and "wal_inv w es" and "wSeq w + 1 \<noteq> 0"
    and "req_entry c (wSeq w + 1) r = Inr e" and "payload_size e \<le> 268435456"
  shows "\<exists>w1. wal_inv w1 (es @ [e]) \<and> fsynced (wFile w1) = frames (es @ [e])
     \<and> wSeq w1 = wSeq w + 1 \<and> wOpts w1 = wOpts w
     \<and> maybeAutoCheckpointLocked env w1 x = (None, w', x')"
proof -
  obtain e' w1 where e: "req_entry c (wSeq w + 1) r = Inr e'" "eSeq e' = wSeq w + 1"
      "eOp e' = OpDel \<longrightarrow> eValueBytes e' = []" "appendLocked e' w = (None, w1)"
      "maybeAutoCheckpointLocked env (w1\<lparr>wSeq := wSeq w + 1\<rparr>) x = (None, w', x')"
    using wal_exec_appends [OF assms(1)] by blast
  have ee: "e' = e" using e(1) assms(4) by simp
  have "\<forall>d\<in>set es. eSeq d < eSeq e"
    using assms(2,3) e(2) ee by (auto simp: wal_inv_def intro: word_less_Suc)
  then show ?thesis
    using appendLocked_ok [OF e(4) assms(2)] e assms(5) ee
    by (intro exI [of _ "w1\<lparr>wSeq := wSeq w + 1\<rparr>"]) auto
qed

text \<open>Successful requests on a log without checkpoints: their records, numbered from the counter on.\<close>

lemma wal_run_records:
  assumes "wal_run c env rs w x = (None, w', x')" and "wal_inv w es" and "auto_off (wOpts w)"
    and "unat (wSeq w) + length rs < 18446744073709551616"
    and "\<forall>e\<in>set (req_entries c (wSeq w) rs). payload_size e \<le> 268435456"
  shows "wal_inv w' (es @ req_entries c (wSeq w) rs) \<and> wOpts w' = wOpts w \<and> x' = x
     \<and> length (req_entries c (wSeq w) rs) = length rs
     \<and> (rs \<noteq> [] \<longrightarrow> fsynced (wFile w') = frames (es @ req_entries c (wSeq w) rs))"
  using assms
proof (induction rs arbitrary: w es x)
  case Nil
  then show ?case by simp
next
  case (Cons r rs)
  obtain w1 x1 where r1: "wal_exec c env r w x = (None, w1, x1)" and run: "wal_run c env rs w1 x1 = (None, w', x')"
    using Cons.prems(1) by (auto split: prod.splits option.splits)
  have u: "unat (wSeq w + 1) = unat (wSeq w) + 1" and nz: "wSeq w + 1 \<noteq> 0"
    using Cons.prems(4) unat_plus1_u64 [of "wSeq w"] by auto
  obtain e where e: "req_entry c (wSeq w + 1) r = Inr e"
    using wal_exec_appends [OF r1] by blast
  have sz: "payload_size e \<le> 268435456" using Cons.prems(5) e by simp
  obtain w2 where w2: "wal_inv w2 (es @ [e])" "fsynced (wFile w2) = frames (es @ [e])" "wSeq w2 = wSeq w + 1"
      "wOpts w2 = wOpts w" "maybeAutoCheckpointLocked env w2 x = (None, w1, x1)"
    using wal_exec_ok [OF r1 Cons.prems(2) nz e sz] by blast
  have w1: "w1 = w2" "x1 = x"
    using w2(4,5) Cons.prems(3) by (simp_all add: maybeAuto_off)
  have "wal_inv w' ((es @ [e]) @ req_entries c (wSeq w1) rs) \<and> wOpts w' = wOpts w1 \<and> x' = x1
     \<and> length (req_entries c (wSeq w1) rs) = length rs
     \<and> (rs \<noteq> [] \<longrightarrow> fsynced (wFile w') = frames ((es @ [e]) @ req_entries c (wSeq w1) rs))"
    by (rule Cons.IH [OF run]) (use w1 w2 Cons.prems u e in auto)
  then show ?case
    using w1 w2 e run by (cases rs) auto
qed

text \<open>Replay applies, in order, the records above the given position; the first error stops it.\<close>

fun apply_all :: "(entry \<Rightarrow> 's \<Rightarrow> goerr option \<times> 's) \<Rightarrow> entry list \<Rightarrow> 's \<Rightarrow> goerr option \<times> 's" where
  "apply_all app [] s = (None, s)"
| "apply_all app (e # es) s =
     (case app e s of (Some err, s) \<Rightarrow> (Some err, s) | (None, s) \<Rightarrow> apply_all app es s)"

definition max_seq :: "entry list \<Rightarrow> u64 \<Rightarrow> u64" where
  "max_seq es m = fold (\<lambda>e m. max m (eSeq e)) es m"

lemma run_entries_ok_iff:
  "run_entries skip app es s m = (None, s', m') \<longleftrightarrow>
     apply_all app (filter (\<lambda>e. eSeq e > skip) es) s = (None, s') \<and> m' = max_seq es m"
  by (induction es arbitrary: s m) (auto simp: Let_def max_seq_def split: option.splits prod.splits)

lemma run_entries_err:
  "apply_all app (filter (\<lambda>e. eSeq e > skip) es) s = (Some err, s') \<Longrightarrow>
     \<exists>m'. run_entries skip app es s m = (Some err, s', m')"
  by (induction es arbitrary: s m) (auto simp: Let_def split: option.splits prod.splits)

lemma replaySince_apply:
  assumes "foutcomes (wFile w) = []" and "fdata (wFile w) = frames es @ t"
    and "t = [] \<or> bad_tail t" and "\<forall>e\<in>set es. loggable e"
    and "apply_all app (filter (\<lambda>e. eSeq e > skip) es) s = (None, s')"
  shows "replaySince skip app w s
    = (None, w\<lparr>wFile := (wFile w)\<lparr>fdata := frames es, fpos := length (frames es)\<rparr>\<rparr>, s', max_seq es 0)"
  using assms by (intro replaySince_ok) (simp_all add: run_entries_ok_iff)

lemma req_entry_seq: "req_entry c s r = Inr e \<Longrightarrow> eSeq e = s"
  by (cases r) (auto simp: set_entry_def del_entry_def split: sum.splits)

lemma max_seq_simps [simp]: "max_seq [] m = m" "max_seq (e # es) m = max_seq es (max m (eSeq e))"
  by (simp_all add: max_seq_def)

lemma req_entries_seqs:
  assumes "length (req_entries c s rs) = length rs" and "unat s + length rs < 18446744073709551616" and "m \<le> s"
  shows "max_seq (req_entries c s rs) m = (if rs = [] then m else s + of_nat (length rs))
     \<and> (\<forall>e\<in>set (req_entries c s rs). s < eSeq e)"
  using assms
proof (induction rs arbitrary: s m)
  case Nil
  then show ?case by simp
next
  case (Cons r rs)
  have u: "unat (s + 1) = unat s + 1" using Cons.prems(2) by (intro unat_plus1_u64) simp
  have lt: "s < s + 1" using u by (simp add: word_less_nat_alt)
  obtain e where e: "req_entry c (s + 1) r = Inr e" "length (req_entries c (s + 1) rs) = length rs"
    using Cons.prems(1) by (auto split: sum.splits)
  have mx: "max m (eSeq e) = s + 1"
    using req_entry_seq [OF e(1)] order_trans [OF Cons.prems(3) order_less_imp_le [OF lt]] by simp
  have IH: "max_seq (req_entries c (s + 1) rs) (s + 1) = (if rs = [] then s + 1 else s + 1 + of_nat (length rs))
     \<and> (\<forall>e\<in>set (req_entries c (s + 1) rs). s + 1 < eSeq e)"
    using Cons.prems(2) e(2) u by (intro Cons.IH) simp_all
  then show ?case
    using e mx lt req_entry_seq [OF e(1)] by (auto simp: algebra_simps)
qed

lemma max_seq_start: "m \<le> max_seq es m"
proof (induction es arbitrary: m)
  case (Cons e es)
  have "m \<le> max m (eSeq e)" by simp
  then show ?case using Cons [of "max m (eSeq e)"] by (simp del: max.cobounded1)
qed simp

lemma max_seq_ge: "e \<in> set es \<Longrightarrow> eSeq e \<le> max_seq es m"
proof (induction es arbitrary: m)
  case (Cons d es)
  have "eSeq d \<le> max_seq es (max m (eSeq d))"
    by (rule order_trans [OF _ max_seq_start]) simp
  then show ?case using Cons by auto
qed simp

text \<open>Opening a log on what a crash left of it.\<close>

lemma New_fields:
  assumes "New f opts = Inr w" and "Durability opts = SyncEveryWrite"
  shows "w = \<lparr>wFile = f, wOpts = opts, wBufw = None, wSeq = 0, writesSinceCkpt = 0, bytesSinceCkpt = 0\<rparr>"
  using assms by (auto simp: New_def split: option.splits)

lemma wal_Load_plain:
  assumes "\<not> CheckpointConfigured (wOpts w)" and "replaySince 0 (applyEntry c ops) w x = (None, w', x', m)"
    and "wOpts w' = wOpts w"
  shows "wal_Load c env [ops] w x = (None, w'\<lparr>wSeq := m\<rparr>, x')"
  using assms by (simp add: wal_Load_def load_tail_def hydrateCheckpointIfNeeded_def maxUint64_def Let_def word_gt_0)

lemma small_frame_prefix:
  assumes "payload_size e < 256"
  shows "\<exists>b tl. entry_frame e = 0 # 0 # 0 # b # tl"
proof -
  have z: "be_bytes 3 0 = [0, 0, 0]" by (simp add: numeral_3_eq_3)
  have "be_bytes 4 (int (payload_size e)) = be_bytes 3 (int (payload_size e) div 256) @ [word_of_int (int (payload_size e))]"
    by (simp add: numeral_eq_Suc)
  also have "int (payload_size e) div 256 = 0" using assms by simp
  finally have "be_bytes 4 (int (payload_size e)) = [0, 0, 0, word_of_int (int (payload_size e))]"
    unfolding z by simp
  then show ?thesis
    using length_entry_payload [of e] uint_of_nat_u32 [of "payload_size e"] assms
    by (simp add: entry_frame_def frame_eq)
qed

definition demo_codec :: codec where
  "demo_codec = \<lparr>Encode = (\<lambda>ent. Inr (bytes_of_string (iKey ent))),
     Decode = (\<lambda>b. Inr \<lparr>iKey = string_of_bytes b, iSK = [], iValue = VNil, iVersion = []\<rparr>),
     DecodeAny = (\<lambda>b. Inr VNil)\<rparr>"

definition demo_ops :: "(string \<times> string) list operations" where
  "demo_ops = \<lparr>opCreateTable = (\<lambda>t x. (None, x)), opSet = (\<lambda>t ent x. (None, x @ [(t, iKey ent)])),
     opDel = (\<lambda>t k x. (None, filter (\<lambda>p. p \<noteq> (t, k)) x)), opHydrate = None\<rparr>"

definition demo_env :: "(string \<times> string) list wal_env" where
  "demo_env = \<lparr>ReadCheckpointTables = (\<lambda>d x. Inr (0, [])), SaveLastSeq = (\<lambda>d s x. (None, x)),
     BeforeCheckpoint = None\<rparr>"

definition demo_opts :: options where
  "demo_opts = \<lparr>Durability = SyncEveryWrite, CheckpointDir = [], HasCheckpointStore = False,
     CheckpointPolicy = \<lparr>EveryNWrites = 0, MaxWalBytes = 0, TruncateAfterCheckpoint = False\<rparr>\<rparr>"

abbreviation demo_entity :: "string \<Rightarrow> entity" where
  "demo_entity k \<equiv> \<lparr>iKey = k, iSK = [], iValue = VNil, iVersion = []\<rparr>"

lemmas demo_defs = demo_codec_def demo_ops_def demo_env_def demo_opts_def

lemma apply_all_collect: "apply_all (\<lambda>e s. (None, s @ [e])) es s = (None, s @ es)"
  by (induction es arbitrary: s) auto

lemma appendLocked_seq: "appendLocked e w = (err, w') \<Longrightarrow> wSeq w' = wSeq w \<and> wOpts w' = wOpts w"
  by (auto simp: appendLocked_def write_record_def syncAndHook_def Let_def
      split: sum.splits option.splits prod.splits if_splits)

lemma wal_seq_same: "wSeq w = s \<Longrightarrow> w\<lparr>wSeq := s\<rparr> = w"
  by auto

lemma bulk_set_loop_opts: "bulk_set_loop c t ents seq w = (err, w') \<Longrightarrow> wOpts w' = wOpts w"
  by (induction ents arbitrary: seq w)
    (auto simp: Let_def split: sum.splits prod.splits option.splits dest!: appendLocked_seq)

section \<open>Where recovery loses acknowledged records\<close>

text \<open>A record above 256 MiB is appended and acknowledged, but not readable.\<close>

lemma oversize_bad_tail:
  assumes "268435456 < payload_size e" and "payload_size e < 4294967296"
  shows "bad_tail (entry_frame e @ rest)"
  unfolding bad_tail_def
proof (intro allI impI, elim conjE)
  fix f :: osfile assume q: "foutcomes f = []" and d: "drop (fpos f) (fdata f) = entry_frame e @ rest"
  have "take 4 (entry_frame e) = be_bytes 4 (uint (of_nat (payload_size e) :: u32))"
    using length_entry_payload [of e] by (simp add: entry_frame_def frame_eq)
  then have l: "(word_of_int (be_val (take 4 (entry_frame e))) :: u32) = of_nat (payload_size e)"
    by (simp add: be_roundtrip_u32)
  have big: "(of_nat (payload_size e) :: u32) > 0x10000000"
    using assms by (simp add: word_less_nat_alt unat_of_nat_u32)
  have r1: "file_ReadFull 4 f = (take 4 (entry_frame e), None, f\<lparr>fpos := fpos f + 4\<rparr>)"
    using d by (simp add: file_ReadFull_quiet [OF q] Let_def length_entry_frame)
  show "\<exists>p. read_frame f = (FrBad, f\<lparr>fpos := p\<rparr>)"
    using big by (auto simp: read_frame_def r1 l Let_def length_entry_frame)
qed

lemma appendLocked_end:
  assumes "appendLocked e w = (err, w')" and "wBufw w = None" and "fpos (wFile w) = length (fdata (wFile w))"
  shows "wBufw w' = None \<and> fpos (wFile w') = length (fdata (wFile w'))"
proof (cases "MarshalBinary e")
  case (Inl a)
  then show ?thesis using assms by (auto simp: appendLocked_def)
next
  case (Inr rec)
  obtain err1 w1 where w1: "write_record rec w = (err1, w1)" by (cases "write_record rec w")
  have "wFile w' = wFile w1" "wBufw w' = wBufw w1"
    using assms(1) Inr w1 by (auto simp: appendLocked_def split: prod.splits option.splits)
  moreover obtain f' where "w1 = w\<lparr>wFile := f'\<rparr>" "fpos f' = length (fdata f')"
    using write_record_append [OF w1 assms(2,3)] by blast
  ultimately show ?thesis using assms(2) by simp
qed

text \<open>One byte of a failed append stays in the file; the next record is written after it.\<close>

lemma zero_length_bad_tail: "bad_tail (0 # 0 # 0 # 0 # rest)"
  unfolding bad_tail_def
proof (intro allI impI, elim conjE)
  fix f :: osfile assume q: "foutcomes f = []" and d: "drop (fpos f) (fdata f) = 0 # 0 # 0 # 0 # rest"
  have r1: "file_ReadFull 4 f = ([0, 0, 0, 0], None, f\<lparr>fpos := fpos f + 4\<rparr>)"
    using d by (simp add: file_ReadFull_quiet [OF q] Let_def)
  have z: "be_val [0, 0, 0, 0] = 0" by (simp add: be_val_def)
  obtain b r f2 where r2: "file_ReadFull 4 (f\<lparr>fpos := fpos f + 4\<rparr>) = (b, r, f2)"
    by (cases "file_ReadFull 4 (f\<lparr>fpos := fpos f + 4\<rparr>)") auto
  have f2: "\<exists>p. f2 = f\<lparr>fpos := p\<rparr>"
    using r2 q by (auto simp: file_ReadFull_quiet Let_def)
  have "UnmarshalBinary ([0, 0, 0, 0] @ b) = Inl ErrTruncated \<or> UnmarshalBinary ([0, 0, 0, 0] @ b) = Inl ErrCorruptRecord"
    if "length b = 4"
    using that by (simp add: UnmarshalBinary_def Let_def z go_slice_def parse_payload_def)
  then show "\<exists>p. read_frame f = (FrBad, f\<lparr>fpos := p\<rparr>)"
    using f2 file_ReadFull_ok(1) [of 4 "f\<lparr>fpos := fpos f + 4\<rparr>" b f2] r2
    by (cases r) (auto simp: read_frame_def r1 z Let_def)
qed

text \<open>A frame with a correct checksum that is not a log record.\<close>

lemma repair_frame_ok:
  assumes q: "foutcomes f = []" and d: "drop (fpos f) (fdata f) = frame p @ rest"
    and sz: "15 \<le> length p" "length p \<le> 268435456"
  shows "\<exists>e. repair_frame f = (FrOk e (length p + 8), f\<lparr>fpos := fpos f + (length p + 8)\<rparr>)"
proof -
  let ?n = "length p"
  have u: "(word_of_int (be_val (take 4 (frame p))) :: u32) = of_nat ?n" "unat (of_nat ?n :: u32) = ?n"
    "\<not> (of_nat ?n :: u32) > 0x10000000"
    using sz frame_len_prefix [of p "[]"] by (simp_all add: be_roundtrip_u32 unat_of_nat_u32 word_less_nat_alt)
  have r1: "file_ReadFull 4 f = (take 4 (frame p), None, f\<lparr>fpos := fpos f + 4\<rparr>)"
    using d by (simp add: file_ReadFull_quiet [OF q] Let_def)
  have "drop (fpos f + 4) (fdata f) = drop 4 (frame p) @ rest"
    using drop_advance [OF d, of 4] by simp
  then have r2: "file_ReadFull (?n + 4) (f\<lparr>fpos := fpos f + 4\<rparr>) = (drop 4 (frame p), None, f\<lparr>fpos := fpos f + (?n + 8)\<rparr>)"
    using q by (simp add: file_ReadFull_quiet Let_def)
  have b: "drop 4 (frame p) = p @ be_bytes 4 (uint (crc32 p))"
    by (simp add: frame_eq)
  show ?thesis
    unfolding repair_frame_def r1 prod.case Let_def u r2 option.case b
    using sz u(3) by (simp add: be_roundtrip_u32 add.commute)
qed

definition demo_wal :: "options \<Rightarrow> bytes \<Rightarrow> io_outcome list \<Rightarrow> wal" where
  "demo_wal opts d io = \<lparr>wFile = \<lparr>fdata = d, fpos = length d, fsynced = [], foutcomes = io\<rparr>, wOpts = opts,
     wBufw = None, wSeq = 0, writesSinceCkpt = 0, bytesSinceCkpt = 0\<rparr>"

lemma demo_wal_fields [simp]:
  "wFile (demo_wal opts d io) = \<lparr>fdata = d, fpos = length d, fsynced = [], foutcomes = io\<rparr>"
  "wOpts (demo_wal opts d io) = opts" "wBufw (demo_wal opts d io) = None" "wSeq (demo_wal opts d io) = 0"
  by (simp_all add: demo_wal_def)

definition demo_ckpt_opts :: options where
  "demo_ckpt_opts = demo_opts\<lparr>CheckpointDir := ''d'', HasCheckpointStore := True,
     CheckpointPolicy := \<lparr>EveryNWrites = 0, MaxWalBytes = 0, TruncateAfterCheckpoint = True\<rparr>\<rparr>"

lemma demo_inv: "wal_inv (demo_wal demo_opts [] io) []" "wal_inv (demo_wal demo_ckpt_opts [] io) []"
  by (simp_all add: wal_inv_def demo_opts_def demo_ckpt_opts_def)

lemma demo_torn_append:
  "payload_size e < 256 \<Longrightarrow> valid_entry e \<Longrightarrow>
   appendLocked e (demo_wal demo_opts [] [IoFail 1]) = (Some (ErrIO ''write''), demo_wal demo_opts [0] [])"
  using small_frame_prefix [of e]
  by (auto simp: appendLocked_def MarshalBinary_valid write_record_def file_Write_def next_outcome_def
      write_bytes_def put_at_def entry_frame_def [symmetric] demo_wal_def)

abbreviation demo_del :: "string \<Rightarrow> entry" where
  "demo_del k \<equiv> del_entry 1 ''t'' k"

lemma demo_del_facts [simp]: "payload_size (del_entry s ''t'' ''a'') = 33" "valid_entry (del_entry s ''t'' ''a'')"
  "loggable (del_entry s ''t'' ''a'')"
  by (simp_all add: del_entry_def payload_size_def valid_entry_def loggable_def)

text \<open>Reopening and loading after a crash, for the property below and for the adapter.\<close>

lemma unat_of_nat_u64: "n < 18446744073709551616 \<Longrightarrow> unat (of_nat n :: u64) = n"
  by (simp add: unsigned_of_nat take_bit_nat_eq_self)

lemma req_entries_after:
  assumes "length (req_entries c s rs) = length rs" and "unat s + length rs < 18446744073709551616" and "n \<le> length rs"
  shows "filter (\<lambda>e. eSeq e > s + of_nat n) (req_entries c s rs) = drop n (req_entries c s rs)"
  using assms
proof (induction rs arbitrary: s n)
  case Nil
  then show ?case by simp
next
  case (Cons r rs)
  have u: "unat (s + 1) = unat s + 1" using Cons.prems(2) by (intro unat_plus1_u64) simp
  obtain e where e: "req_entry c (s + 1) r = Inr e" "length (req_entries c (s + 1) rs) = length rs"
    using Cons.prems(1) by (auto split: sum.splits)
  show ?case
  proof (cases n)
    case 0
    have "\<forall>e\<in>set (req_entries c s (r # rs)). s < eSeq e"
      using req_entries_seqs [OF Cons.prems(1,2), of 0] by simp
    then show ?thesis using 0 by (simp add: filter_id_conv)
  next
    case (Suc m)
    have small: "m \<le> length rs" "m < 18446744073709551616" using Suc Cons.prems(2,3) by simp_all
    have shift: "s + of_nat n = s + 1 + of_nat m" using Suc by simp
    have "unat (of_nat m :: u64) = m" using small(2) by (rule unat_of_nat_u64)
    then have "s + 1 \<le> s + 1 + of_nat m"
      using u Cons.prems(2) small(1) by (intro word_le_nat_alt [THEN iffD2]) (simp add: unat_plus_if_size word_size)
    then have "\<not> eSeq e > s + of_nat n" unfolding shift req_entry_seq [OF e(1)] by (simp only: not_less)
    then show ?thesis
      using Cons.IH [OF e(2), of m] u Cons.prems(2) small(1) e(1) Suc by (simp add: add.assoc)
  qed
qed

text \<open>On a file without faults a checkpoint succeeds when its two callbacks do.\<close>

lemma checkpoint_quiet:
  assumes "CheckpointConfigured (wOpts w)" and "wBufw w = None" and "foutcomes (wFile w) = []"
    and "run_before env x = (None, x1)" and "SaveLastSeq env (CheckpointDir (wOpts w)) (wSeq w) x1 = (None, x2)"
  shows "\<exists>w'. checkpointLocked env w x = (None, w', x2)"
  using assms
  by (auto simp: checkpointLocked_def flushLocked_def syncAndHook_def checkpoint_finish_def Let_def truncate_def)

text \<open>Replaying an empty file, whatever its faults.\<close>

lemma read_frame_empty:
  assumes "fdata f = []" and "fpos f = 0" and "read_frame f = (r, f')"
  shows "(r = FrEof \<or> r = FrBad \<or> (\<exists>err. r = FrErr err)) \<and> fdata f' = [] \<and> fpos f' = 0"
proof -
  obtain q g where o: "next_outcome f = (q, g)" by (cases "next_outcome f")
  note d = next_outcome_data [OF o]
  show ?thesis using assms d by (cases q) (auto simp: read_frame_def file_ReadFull_def o Let_def split: if_splits)
qed

lemma file_ops_empty:
  assumes "fdata f = []"
  shows "file_SeekStart f = (None, f') \<Longrightarrow> fdata f' = [] \<and> fpos f' = 0"
    and "file_SeekEnd f = (None, f') \<Longrightarrow> fdata f' = [] \<and> fpos f' = 0"
    and "file_Truncate 0 f = (None, f') \<Longrightarrow> fdata f' = []"
proof -
  obtain q g where o: "next_outcome f = (q, g)" by (cases "next_outcome f")
  note d = next_outcome_data [OF o]
  show "file_SeekStart f = (None, f') \<Longrightarrow> fdata f' = [] \<and> fpos f' = 0"
    using assms d by (cases q) (auto simp: file_SeekStart_def o)
  show "file_SeekEnd f = (None, f') \<Longrightarrow> fdata f' = [] \<and> fpos f' = 0"
    using assms d by (cases q) (auto simp: file_SeekEnd_def o)
  show "file_Truncate 0 f = (None, f') \<Longrightarrow> fdata f' = []"
    using assms d by (cases q) (auto simp: file_Truncate_def o)
qed

lemma Replay_empty:
  assumes f: "fdata (wFile w) = []" and r: "Replay app w s = (None, w', s', q)"
  shows "(\<exists>f'. w' = w\<lparr>wFile := f'\<rparr> \<and> fdata f' = [] \<and> fpos f' = 0) \<and> s' = s \<and> q = 0"
proof -
  obtain f1 where f1: "file_SeekStart (wFile w) = (None, f1)"
    using r by (cases "file_SeekStart (wFile w)") (auto simp: Replay_def replaySince_def split: option.splits)
  note e1 = file_ops_empty(1) [OF f f1]
  obtain fr f2 where f2: "read_frame f1 = (fr, f2)" by (cases "read_frame f1")
  have e2: "fr = FrEof \<or> fr = FrBad \<or> (\<exists>err. fr = FrErr err)" "fdata f2 = []"
    using read_frame_empty [OF _ _ f2] e1 by simp_all
  obtain err f3 where l: "replay_loop 0 app f1 s 0 0 = (err, f3, s, 0)" and e3: "err = None \<longrightarrow> fdata f3 = []"
  proof (cases fr)
    case FrEof
    then have "replay_loop 0 app f1 s 0 0 = (None, f2, s, 0)" by (subst replay_loop.simps) (simp add: f2)
    then show ?thesis using that e2(2) by blast
  next
    case FrBad
    obtain err f3 where t: "Wal.truncate 0 f2 = (err, f3)" by (cases "Wal.truncate 0 f2")
    have "replay_loop 0 app f1 s 0 0 = (err, f3, s, 0)" using FrBad by (subst replay_loop.simps) (simp add: f2 t)
    moreover obtain err4 f4 where f4: "file_Truncate 0 f2 = (err4, f4)" by (cases "file_Truncate 0 f2")
    have "err = None \<longrightarrow> fdata f3 = []"
      using t f4 file_ops_empty(3) [OF e2(2), of f4] file_ops_empty(2) [of f4 f3]
      by (auto simp: Wal.truncate_def split: option.splits)
    ultimately show ?thesis using that by blast
  next
    case (FrErr x)
    then have "replay_loop 0 app f1 s 0 0 = (Some x, f2, s, 0)" by (subst replay_loop.simps) (simp add: f2)
    then show ?thesis using that by blast
  qed (use e2 in auto)
  have "err = None" using r f1 l by (cases err) (auto simp: Replay_def replaySince_def)
  obtain err5 f5 where f5: "file_SeekEnd f3 = (err5, f5)" by (cases "file_SeekEnd f3")
  have fin: "file_SeekEnd f3 = (None, f5)" "w' = w\<lparr>wFile := f5\<rparr>" "s' = s" "q = 0"
    using r f1 l f5 \<open>err = None\<close> by (simp_all add: Replay_def replaySince_def)
  show ?thesis using file_ops_empty(2) [OF _ fin(1)] e3 \<open>err = None\<close> fin by blast
qed

lemma New_inv:
  assumes "New \<lparr>fdata = [], fpos = 0, fsynced = [], foutcomes = io\<rparr> opts = Inr w0" and "Durability opts = SyncEveryWrite"
  shows "wal_inv w0 []" "wSeq w0 = 0" "wOpts w0 = opts"
  using New_fields [OF assms] assms(2) by (simp_all add: wal_inv_def)

lemma reload_log:
  assumes opts: "Durability opts = SyncEveryWrite" "auto_off opts"
    and inv: "wal_inv w1 (req_entries c 0 rs)" and nl: "length (req_entries c 0 rs) = length rs" and sy: "fsynced (wFile w1) = frames (req_entries c 0 rs)"
    and len: "length rs < 18446744073709551616"
    and crash: "foutcomes f2 = []" "fdata f2 = fsynced (wFile w1) @ t" "t = [] \<or> torn t"
    and reopen: "New f2 opts = Inr w2"
    and ck: "if CheckpointConfigured opts then ReadCheckpointTables env (CheckpointDir opts) y = Inr (of_nat n, []) else n = 0"
    and n: "n \<le> length rs"
    and app: "apply_all (applyEntry c ops) (drop n (req_entries c 0 rs)) y = (None, y1)"
    and save: "if CheckpointConfigured opts
      then run_before env y1 = (None, y2) \<and> SaveLastSeq env (CheckpointDir opts) (of_nat (length rs)) y2 = (None, y3) else y3 = y1"
  shows "\<exists>w3. wal_Load c env [ops] w2 y = (None, w3, y3) \<and> wSeq w3 = of_nat (length rs)
    \<and> wal_inv w3 (if CheckpointConfigured opts \<and> TruncateAfterCheckpoint (CheckpointPolicy opts) then [] else req_entries c 0 rs)
    \<and> wOpts w3 = opts \<and> (CheckpointConfigured opts \<and> \<not> TruncateAfterCheckpoint (CheckpointPolicy opts) \<longrightarrow> fsynced (wFile w3) = frames (req_entries c 0 rs))"
proof -
  let ?es = "req_entries c 0 rs"
  have w2: "w2 = \<lparr>wFile = f2, wOpts = opts, wBufw = None, wSeq = 0, writesSinceCkpt = 0, bytesSinceCkpt = 0\<rparr>"
    by (rule New_fields [OF reopen opts(1)])
  have seqs: "max_seq ?es 0 = of_nat (length rs)"
    using req_entries_seqs [OF nl, of 0] len by (cases rs) (simp_all add: max_seq_def)
  have f: "filter (\<lambda>e. eSeq e > of_nat n) ?es = drop n ?es"
    using req_entries_after [OF nl _ n] len by simp
  have mx: "maxUint64 (of_nat n) (of_nat (length rs)) = (of_nat (length rs) :: u64)"
    using n len by (simp add: maxUint64_def word_less_nat_alt unat_of_nat_u64)
  have lg: "\<forall>e\<in>set ?es. loggable e" and srt: "sorted_wrt (<) (map eSeq ?es)"
    using inv by (simp_all add: wal_inv_def)
  let ?f3 = "f2\<lparr>fdata := frames ?es, fpos := length (frames ?es)\<rparr>"
  let ?w3 = "w2\<lparr>wFile := ?f3, wSeq := of_nat (length rs)\<rparr>"
  have rep: "replaySince (of_nat n) (applyEntry c ops) w2 y = (None, w2\<lparr>wFile := ?f3\<rparr>, y1, of_nat (length rs))"
    using replaySince_apply [of w2 ?es t "applyEntry c ops" "of_nat n" y y1] crash sy w2 lg app f seqs torn_bad_tail by auto
  have inv3: "wal_inv ?w3 ?es"
    using lg srt w2 opts max_seq_ge [of _ ?es 0] seqs by (simp add: wal_inv_def)
  show ?thesis
  proof (cases "CheckpointConfigured opts")
    case True
    have sv: "run_before env y1 = (None, y2)" "SaveLastSeq env (CheckpointDir (wOpts ?w3)) (wSeq ?w3) y2 = (None, y3)"
      using save True w2 by simp_all
    obtain w4 where w4: "checkpointLocked env ?w3 y1 = (None, w4, y3)"
      using checkpoint_quiet [OF _ _ _ sv] True w2 crash(1) by auto
    have "wal_Load c env [ops] w2 y = (None, w4\<lparr>writesSinceCkpt := 0, bytesSinceCkpt := 0\<rparr>, y3)"
      using True ck rep w4 mx w2 by (simp add: wal_Load_def load_tail_def hydrateCheckpointIfNeeded_def Let_def)
    then show ?thesis
      using checkpointLocked_ok [OF w4 inv3] checkpoint_synced [OF w4] True w2 inv3 by (auto simp: wal_inv_def)
  next
    case False
    then have "wal_Load c env [ops] w2 y = (None, ?w3, y3)"
      using ck rep w2 save by (subst wal_Load_plain) auto
    then show ?thesis using inv3 False w2 by auto
  qed
qed

lemma load_recovers:
  assumes opts: "Durability opts = SyncEveryWrite" "auto_off opts"
    and w0: "wal_inv w0 []" "wSeq w0 = 0" "wOpts w0 = opts"
    and run: "wal_run c env rs w0 x = (None, w1, x1)" and ne: "rs \<noteq> []"
    and len: "length rs < 18446744073709551616"
    and sz: "\<forall>e\<in>set (req_entries c 0 rs). payload_size e \<le> 268435456"
    and crash: "foutcomes f2 = []" "fdata f2 = fsynced (wFile w1) @ t" "t = [] \<or> torn t"
    and reopen: "New f2 opts = Inr w2"
    and ck: "if CheckpointConfigured opts then ReadCheckpointTables env (CheckpointDir opts) y = Inr (of_nat n, []) else n = 0"
    and n: "n \<le> length rs"
    and app: "apply_all (applyEntry c ops) (drop n (req_entries c 0 rs)) y = (None, y1)"
    and save: "if CheckpointConfigured opts
      then run_before env y1 = (None, y2) \<and> SaveLastSeq env (CheckpointDir opts) (of_nat (length rs)) y2 = (None, y3) else y3 = y1"
  shows "\<exists>w3. wal_Load c env [ops] w2 y = (None, w3, y3) \<and> wSeq w3 = of_nat (length rs)
    \<and> wal_inv w3 (if CheckpointConfigured opts \<and> TruncateAfterCheckpoint (CheckpointPolicy opts) then [] else req_entries c 0 rs)"
  using reload_log [OF opts _ _ _ len crash reopen ck n app save] wal_run_records [OF run, of "[]"] w0 opts ne len sz by auto

section \<open>Calls of the log\<close>

text \<open>A bulk operation that succeeded logged what its single requests would have.\<close>

lemma wal_step_set:
  assumes "auto_off (wOpts w)" and "Encode c e = Inr b" and "appendLocked (set_entry (wSeq w + 1) t e b) w = (None, w1)"
  shows "wal_exec c env (ReqSet t e) w x = (None, w1\<lparr>wSeq := wSeq w + 1\<rparr>, x) \<and> auto_off (wOpts w1)"
  using assms appendLocked_seq [OF assms(3)] by (simp add: wal_Set_def Let_def maybeAuto_off)

lemma wal_step_del:
  assumes "auto_off (wOpts w)" and "appendLocked (del_entry (wSeq w + 1) t k) w = (None, w1)"
  shows "wal_exec c env (ReqDel t k) w x = (None, w1\<lparr>wSeq := wSeq w + 1\<rparr>, x) \<and> auto_off (wOpts w1)"
  using assms appendLocked_seq [OF assms(2)] by (simp add: wal_Delete_def Let_def maybeAuto_off)

lemma bulk_set_loop_run:
  assumes "bulk_set_loop c t es (wSeq w) w = (None, w')" and "auto_off (wOpts w)"
  shows "wal_run c env (map (ReqSet t) es) w x = (None, w', x) \<and> auto_off (wOpts w')"
  using assms
proof (induction es arbitrary: w)
  case (Cons e es)
  obtain b w1 where b: "Encode c e = Inr b" "appendLocked (set_entry (wSeq w + 1) t e b) w = (None, w1)"
      "bulk_set_loop c t es (wSeq w + 1) (w1\<lparr>wSeq := wSeq w + 1\<rparr>) = (None, w')"
    using Cons.prems(1) by (auto simp: Let_def split: sum.splits prod.splits option.splits)
  note l = wal_step_set [OF Cons.prems(2) b(1,2), of env x]
  show ?case using Cons.IH [of "w1\<lparr>wSeq := wSeq w + 1\<rparr>"] b(3) l by simp
qed simp

lemma bulk_delete_loop_run:
  assumes "bulk_delete_loop t ks (wSeq w) w = (None, w')" and "auto_off (wOpts w)"
  shows "wal_run c env (map (ReqDel t) ks) w x = (None, w', x) \<and> auto_off (wOpts w')"
  using assms
proof (induction ks arbitrary: w)
  case (Cons k ks)
  obtain w1 where b: "appendLocked (del_entry (wSeq w + 1) t k) w = (None, w1)"
      "bulk_delete_loop t ks (wSeq w + 1) (w1\<lparr>wSeq := wSeq w + 1\<rparr>) = (None, w')"
    using Cons.prems(1) by (auto simp: Let_def split: prod.splits option.splits)
  note l = wal_step_del [OF Cons.prems(2) b(1), of c env x]
  show ?case using Cons.IH [of "w1\<lparr>wSeq := wSeq w + 1\<rparr>"] b(2) l by simp
qed simp

text \<open>The four writing calls, the records each asks for, and a sequence of calls up to the first that fails.\<close>

datatype wal_call = LogSet string entity | LogDelete string string | LogBulkSet string "entity list" | LogBulkDelete string "string list"

fun log_exec :: "codec \<Rightarrow> 'x wal_env \<Rightarrow> wal_call \<Rightarrow> wal \<Rightarrow> 'x \<Rightarrow> goerr option \<times> wal \<times> 'x" where
  "log_exec c env (LogSet t e) w x = wal_Set c env t e w x"
| "log_exec c env (LogDelete t k) w x = wal_Delete env t k w x"
| "log_exec c env (LogBulkSet t es) w x = wal_BulkSet c env t es w x"
| "log_exec c env (LogBulkDelete t ks) w x = wal_BulkDelete env t ks w x"

fun log_reqs :: "wal_call \<Rightarrow> wal_req list" where
  "log_reqs (LogSet t e) = [ReqSet t e]"
| "log_reqs (LogDelete t k) = [ReqDel t k]"
| "log_reqs (LogBulkSet t es) = map (ReqSet t) es"
| "log_reqs (LogBulkDelete t ks) = map (ReqDel t) ks"

fun log_run :: "codec \<Rightarrow> 'x wal_env \<Rightarrow> wal_call list \<Rightarrow> wal \<Rightarrow> 'x \<Rightarrow> goerr option \<times> wal \<times> 'x" where
  "log_run c env [] w x = (None, w, x)"
| "log_run c env (r # rs) w x =
     (case log_exec c env r w x of
        (Some err, w, x) \<Rightarrow> (Some err, w, x)
      | (None, w, x) \<Rightarrow> log_run c env rs w x)"

lemma wal_run_append:
  "wal_run c env (rs @ qs) w x = (case wal_run c env rs w x of (Some err, w, x) \<Rightarrow> (Some err, w, x) | (None, w, x) \<Rightarrow> wal_run c env qs w x)"
  by (induction rs arbitrary: w x) (auto split: prod.splits option.splits)

lemma wal_run_still:
  assumes "wal_run c env rs w x = (None, w', x')" and "auto_off (wOpts w)"
  shows "wOpts w' = wOpts w \<and> x' = x"
  using assms
proof (induction rs arbitrary: w x)
  case (Cons r rs)
  obtain w1 x1 where r1: "wal_exec c env r w x = (None, w1, x1)" "wal_run c env rs w1 x1 = (None, w', x')"
    using Cons.prems(1) by (auto split: prod.splits option.splits)
  obtain e w2 where e: "appendLocked e w = (None, w2)" "maybeAutoCheckpointLocked env (w2\<lparr>wSeq := wSeq w + 1\<rparr>) x = (None, w1, x1)"
    using wal_exec_appends [OF r1(1)] by blast
  have "w1 = w2\<lparr>wSeq := wSeq w + 1\<rparr>" "x1 = x" "wOpts w2 = wOpts w"
    using e(2) Cons.prems(2) appendLocked_seq [OF e(1)] by (simp_all add: maybeAuto_off)
  then show ?case using Cons.IH [OF r1(2)] Cons.prems(2) by simp
qed simp

lemma log_exec_run:
  assumes "log_exec c env r w x = (None, w', x')" and "auto_off (wOpts w)"
  shows "wal_run c env (log_reqs r) w x = (None, w', x) \<and> x' = x"
proof (cases r)
  case (LogBulkSet t es)
  obtain w1 where w1: "bulk_set_loop c t es (wSeq w) w = (None, w1)" "maybeAutoCheckpointLocked env w1 x = (None, w', x')"
    using assms(1) LogBulkSet by (auto simp: wal_BulkSet_def split: prod.splits option.splits)
  then show ?thesis using bulk_set_loop_run [OF w1(1) assms(2), of env x] LogBulkSet by (auto simp: maybeAuto_off)
next
  case (LogBulkDelete t ks)
  obtain w1 where w1: "bulk_delete_loop t ks (wSeq w) w = (None, w1)" "maybeAutoCheckpointLocked env w1 x = (None, w', x')"
    using assms(1) LogBulkDelete by (auto simp: wal_BulkDelete_def split: prod.splits option.splits)
  then show ?thesis using bulk_delete_loop_run [OF w1(1) assms(2), of c env x] LogBulkDelete by (auto simp: maybeAuto_off)
next
  case (LogSet t e)
  then have run: "wal_run c env (log_reqs r) w x = (None, w', x')" using assms(1) by simp
  then show ?thesis using wal_run_still [OF run assms(2)] by simp
next
  case (LogDelete t k)
  then have run: "wal_run c env (log_reqs r) w x = (None, w', x')" using assms(1) by simp
  then show ?thesis using wal_run_still [OF run assms(2)] by simp
qed

lemma wal_bulk_run:
  assumes "auto_off (wOpts w)"
  shows "wal_BulkSet c env t es w x = (None, w', x') \<Longrightarrow> wal_run c env (map (ReqSet t) es) w x = (None, w', x)"
    and "wal_BulkDelete env t ks w x = (None, w', x') \<Longrightarrow> wal_run c env (map (ReqDel t) ks) w x = (None, w', x)"
  using log_exec_run [of c env "LogBulkSet t es" w x w' x'] log_exec_run [of c env "LogBulkDelete t ks" w x w' x'] assms by simp_all

lemma log_run_run:
  assumes "log_run c env cs w x = (None, w', x')" and "auto_off (wOpts w)"
  shows "wal_run c env (concat (map log_reqs cs)) w x = (None, w', x)"
  using assms
proof (induction cs arbitrary: w x)
  case (Cons r cs)
  obtain w1 x1 where r1: "log_exec c env r w x = (None, w1, x1)" "log_run c env cs w1 x1 = (None, w', x')"
    using Cons.prems(1) by (auto split: prod.splits option.splits)
  have run: "wal_run c env (log_reqs r) w x = (None, w1, x)" "x1 = x" using log_exec_run [OF r1(1) Cons.prems(2)] by simp_all
  then show ?case using Cons.IH [OF r1(2)] wal_run_still [OF run(1) Cons.prems(2)] Cons.prems(2) by (simp add: wal_run_append)
qed simp

section \<open>Properties\<close>

text \<open>C9. Crash recovery: on a new log opened with SyncEveryWrite and without automatic checkpoints, take any sequence of
  Set, Delete, BulkSet and BulkDelete calls that were all acknowledged, asking for fewer than 2^64 records, each with a
  payload of at most 256 MiB.  Reopen what was synchronised, with or without a torn record behind it, on a device
  without faults, from a checkpoint at the n-th record that holds no tables (n = 0 without checkpoints), over a store
  that takes the later records and, with checkpoints, can save the new position.  Then Load succeeds with exactly those
  records applied in order, cuts off the torn tail, saves the position of the last record where checkpoints are
  configured, and continues numbering after it.\<close>

theorem acked_requests_recovered:
  assumes opts: "Durability opts = SyncEveryWrite" "auto_off opts"
    and new: "New \<lparr>fdata = [], fpos = 0, fsynced = [], foutcomes = io\<rparr> opts = Inr w0"
    and run: "log_run c env cs w0 x = (None, w1, x1)" and rs: "rs = concat (map log_reqs cs)"
    and len: "length rs < 18446744073709551616"
    and sz: "\<forall>e\<in>set (req_entries c 0 rs). payload_size e \<le> 268435456"
    and crash: "foutcomes f2 = []" "fdata f2 = fsynced (wFile w1) @ t" "t = [] \<or> torn t"
    and reopen: "New f2 opts = Inr w2"
    and ck: "if CheckpointConfigured opts then ReadCheckpointTables env (CheckpointDir opts) y = Inr (of_nat n, []) else n = 0"
    and n: "n \<le> length rs"
    and app: "apply_all (applyEntry c ops) (drop n (req_entries c 0 rs)) y = (None, y1)"
    and save: "if CheckpointConfigured opts
      then run_before env y1 = (None, y2) \<and> SaveLastSeq env (CheckpointDir opts) (of_nat (length rs)) y2 = (None, y3) else y3 = y1"
  shows "\<exists>w3. wal_Load c env [ops] w2 y = (None, w3, y3) \<and> wSeq w3 = of_nat (length rs)
    \<and> wal_inv w3 (if CheckpointConfigured opts \<and> TruncateAfterCheckpoint (CheckpointPolicy opts) then [] else req_entries c 0 rs)"
proof -
  note w0 = New_inv [OF new opts(1)]
  have r: "wal_run c env rs w0 x = (None, w1, x)" using log_run_run [OF run] w0(3) opts(2) rs by simp
  have l: "wal_inv w1 (req_entries c 0 rs)" "length (req_entries c 0 rs) = length rs" "rs \<noteq> [] \<longrightarrow> fsynced (wFile w1) = frames (req_entries c 0 rs)"
    using wal_run_records [OF r w0(1)] w0(2,3) opts(2) len sz by simp_all
  have sy: "fsynced (wFile w1) = frames (req_entries c 0 rs)"
    using l(3) r New_fields [OF new opts(1)] by (cases "rs = []") (auto simp: frames_def)
  show ?thesis using reload_log [OF opts l(1,2) sy len crash reopen ck n app save] by auto
qed

theorem acked_requests_recovered_witness:
  "\<exists>w1 w3. log_run demo_codec demo_env [LogBulkSet ''t'' [demo_entity ''a'', demo_entity ''b''], LogDelete ''t'' ''a'']
       \<lparr>wFile = \<lparr>fdata = [], fpos = 0, fsynced = [], foutcomes = []\<rparr>, wOpts = demo_opts, wBufw = None,
         wSeq = 0, writesSinceCkpt = 0, bytesSinceCkpt = 0\<rparr> [] = (None, w1, [])
     \<and> wal_Load demo_codec demo_env [demo_ops]
       \<lparr>wFile = \<lparr>fdata = fsynced (wFile w1) @ [0, 0], fpos = 0, fsynced = [], foutcomes = []\<rparr>, wOpts = demo_opts,
         wBufw = None, wSeq = 0, writesSinceCkpt = 0, bytesSinceCkpt = 0\<rparr> [] = (None, w3, [(''t'', ''b'')])"
proof -
  let ?cs = "[LogBulkSet ''t'' [demo_entity ''a'', demo_entity ''b''], LogDelete ''t'' ''a'']"
  let ?rs = "[ReqSet ''t'' (demo_entity ''a''), ReqSet ''t'' (demo_entity ''b''), ReqDel ''t'' ''a'']"
  let ?f = "\<lparr>fdata = [], fpos = 0, fsynced = [], foutcomes = []\<rparr>"
  have new: "New f demo_opts = Inr \<lparr>wFile = f, wOpts = demo_opts, wBufw = None, wSeq = 0, writesSinceCkpt = 0,
      bytesSinceCkpt = 0\<rparr>" for f
    by (simp add: New_def demo_opts_def Validate_def CheckpointConfigured_def)
  obtain w1 where w1: "log_run demo_codec demo_env ?cs \<lparr>wFile = ?f, wOpts = demo_opts, wBufw = None,
       wSeq = 0, writesSinceCkpt = 0, bytesSinceCkpt = 0\<rparr> [] = (None, w1, [])"
    by (simp add: demo_defs wal_BulkSet_def wal_Delete_def appendLocked_def MarshalBinary_valid valid_entry_def set_entry_def
      del_entry_def write_record_def syncAndHook_def Let_def maybeAutoCheckpointLocked_def CheckpointConfigured_def)
  have t: "torn [0, 0]"
    using small_frame_prefix [of "del_entry 1 ''t'' ''a''"] unfolding torn_def
    by (intro conjI exI [of _ "del_entry 1 ''t'' ''a''"] exI [of _ 2])
      (auto simp: loggable_def valid_entry_def del_entry_def payload_size_def length_entry_frame)
  have app: "apply_all (applyEntry demo_codec demo_ops) (drop 0 (req_entries demo_codec 0 ?rs)) [] = (None, [(''t'', ''b'')])"
    by (simp add: demo_defs applyEntry_def decodeEntity_def set_entry_def del_entry_def)
  have sz: "\<forall>e\<in>set (req_entries demo_codec 0 ?rs). payload_size e \<le> 268435456"
    by (simp add: demo_defs set_entry_def del_entry_def payload_size_def)
  have rs: "?rs = concat (map log_reqs ?cs)" by simp
  show ?thesis
    using acked_requests_recovered [of demo_opts "[]" _ demo_codec demo_env ?cs "[]" w1 "[]" ?rs
        "\<lparr>fdata = fsynced (wFile w1) @ [0, 0], fpos = 0, fsynced = [], foutcomes = []\<rparr>" "[0, 0]" _ "[]" 0 demo_ops "[(''t'', ''b'')]",
        OF _ _ new w1 rs _ sz _ _ _ new _ _ app] w1 t
    by (auto simp: demo_opts_def CheckpointConfigured_def auto_off_def)
qed

text \<open>Atomicity of one append under any failure of the write or of the synchronisation: replaying what is
  left in the file yields the old records, with the new one complete or absent; complete if the append
  succeeded.\<close>

theorem failed_append_is_atomic:
  assumes app: "appendLocked e w = (err, w')" and inv: "wal_inv w es"
    and del: "eOp e = OpDel \<longrightarrow> eValueBytes e = []" and sz: "payload_size e \<le> 268435456"
    and crash: "foutcomes (wFile w2) = []" "fdata (wFile w2) = fdata (wFile w')"
  shows "\<exists>es'. es' \<in> {es, es @ [e]} \<and> (err = None \<longrightarrow> es' = es @ [e])
     \<and> Replay (\<lambda>e s. (None, s @ [e])) w2 []
         = (None, w2\<lparr>wFile := (wFile w2)\<lparr>fdata := frames es', fpos := length (frames es')\<rparr>\<rparr>,
            filter (\<lambda>e. 0 < eSeq e) es', max_seq es' 0)"
proof -
  obtain k where k: "k \<le> length (entry_frame e)" "fdata (wFile w') = frames es @ take k (entry_frame e)"
      "err = None \<longrightarrow> k = length (entry_frame e)" "k = 0 \<or> valid_entry e"
    using appendLocked_any [OF app inv del] by blast
  have lg: "\<forall>e\<in>set es. loggable e" using inv by (simp add: wal_inv_def)
  have rep: "Replay (\<lambda>e s. (None, s @ [e])) w2 []
         = (None, w2\<lparr>wFile := (wFile w2)\<lparr>fdata := frames es', fpos := length (frames es')\<rparr>\<rparr>,
            filter (\<lambda>e. 0 < eSeq e) es', max_seq es' 0)"
    if "fdata (wFile w2) = frames es' @ t" "t = [] \<or> bad_tail t" "\<forall>e\<in>set es'. loggable e" for es' t
    unfolding Replay_def using that crash(1) by (intro replaySince_apply) (simp_all add: apply_all_collect)
  show ?thesis
  proof (cases "k = length (entry_frame e)")
    case True
    then have "loggable e" using k(4) sz by (auto simp: loggable_def length_entry_frame)
    then show ?thesis
      using rep [of "es @ [e]" "[]"] lg crash(2) k(2) True by auto
  next
    case False
    have "take k (entry_frame e) = [] \<or> torn (take k (entry_frame e))"
    proof (cases "k = 0")
      case nz: False
      then have "loggable e" "k < length (entry_frame e)" "take k (entry_frame e) \<noteq> []"
        using False k sz length_entry_frame [of e] by (auto simp: loggable_def)
      then show ?thesis unfolding torn_def by blast
    qed simp
    then show ?thesis
      using rep [of es "take k (entry_frame e)"] lg crash(2) k False torn_bad_tail by auto
  qed
qed

theorem failed_append_is_atomic_witness:
  "\<exists>es'. es' \<in> {[], [demo_del ''a'']} \<and>
     Replay (\<lambda>e s. (None, s @ [e])) (demo_wal demo_opts [0] []) []
       = (None, demo_wal demo_opts (frames es') [], es', max_seq es' 0)"
proof -
  have "\<exists>es'. es' \<in> {[], [] @ [demo_del ''a'']} \<and> (Some (ErrIO ''write'') = None \<longrightarrow> es' = [] @ [demo_del ''a''])
     \<and> Replay (\<lambda>e s. (None, s @ [e])) (demo_wal demo_opts [0] []) []
         = (None, (demo_wal demo_opts [0] [])\<lparr>wFile := (wFile (demo_wal demo_opts [0] []))\<lparr>fdata := frames es', fpos := length (frames es')\<rparr>\<rparr>,
            filter (\<lambda>e. 0 < eSeq e) es', max_seq es' 0)"
    by (rule failed_append_is_atomic [OF demo_torn_append demo_inv(1)]) (simp_all add: del_entry_def payload_size_def valid_entry_def)
  then show ?thesis by (auto simp: demo_wal_def del_entry_def)
qed

lemma load_after:
  assumes "CheckpointConfigured (wOpts w)"
    and "ReadCheckpointTables env (CheckpointDir (wOpts w)) x = Inr (lastSeq, bs)"
    and "hydrateCheckpointIfNeeded ops bs x = (None, x1)"
    and "foutcomes (wFile w) = []" and "fdata (wFile w) = frames es @ t" and "t = [] \<or> torn t"
    and "\<forall>e\<in>set es. loggable e"
    and "apply_all (applyEntry c ops) (filter (\<lambda>e. eSeq e > lastSeq) es) x1 = (None, x2)"
    and "checkpointLocked env (w\<lparr>wFile := (wFile w)\<lparr>fdata := frames es, fpos := length (frames es)\<rparr>,
        wSeq := max lastSeq (max_seq es 0)\<rparr>) x2 = (None, w3, x3)"
  shows "wal_Load c env [ops] w x = (None, w3\<lparr>writesSinceCkpt := 0, bytesSinceCkpt := 0\<rparr>, x3)"
proof -
  have "replaySince lastSeq (applyEntry c ops) w x1
    = (None, w\<lparr>wFile := (wFile w)\<lparr>fdata := frames es, fpos := length (frames es)\<rparr>\<rparr>, x2, max_seq es 0)"
    using assms torn_bad_tail by (intro replaySince_apply) auto
  moreover have "maxUint64 lastSeq (max_seq es 0) = max lastSeq (max_seq es 0)"
    by (simp add: maxUint64_def max_def linorder_not_less [symmetric])
  ultimately show ?thesis
    using assms by (simp add: wal_Load_def load_tail_def Let_def)
qed

text \<open>Load from a checkpoint: the snapshot is hydrated first, then exactly the records numbered above its
  sequence number are applied; the counter continues from the larger of the two and a new checkpoint is taken.\<close>

theorem load_replays_after_checkpoint:
  assumes "CheckpointConfigured (wOpts w)"
    and "ReadCheckpointTables env (CheckpointDir (wOpts w)) x = Inr (lastSeq, bs)"
    and "hydrateCheckpointIfNeeded ops bs x = (None, x1)"
    and "foutcomes (wFile w) = []" and "fdata (wFile w) = frames es @ t" and "t = [] \<or> torn t"
    and "\<forall>e\<in>set es. loggable e"
    and "apply_all (applyEntry c ops) (filter (\<lambda>e. eSeq e > lastSeq) es) x1 = (None, x2)"
    and "checkpointLocked env (w\<lparr>wFile := (wFile w)\<lparr>fdata := frames es, fpos := length (frames es)\<rparr>,
        wSeq := max lastSeq (max_seq es 0)\<rparr>) x2 = (None, w3, x3)"
  shows "wal_Load c env [ops] w x = (None, w3\<lparr>writesSinceCkpt := 0, bytesSinceCkpt := 0\<rparr>, x3)"
  using assms by (rule load_after)

theorem load_replays_after_checkpoint_witness:
  "\<exists>w3. wal_Load demo_codec (demo_env\<lparr>ReadCheckpointTables := (\<lambda>d x. Inr (1, []))\<rparr>) [demo_ops]
      (demo_wal demo_ckpt_opts (frames [del_entry 1 ''t'' ''a'', del_entry 2 ''t'' ''a'']) []) [(''t'', ''a''), (''t'', ''b'')]
    = (None, w3, [(''t'', ''b'')]) \<and> wSeq w3 = 2"
proof -
  let ?env = "demo_env\<lparr>ReadCheckpointTables := (\<lambda>d x. Inr (1, []))\<rparr>"
  let ?es = "[del_entry 1 ''t'' ''a'', del_entry 2 ''t'' ''a'']"
  let ?w = "demo_wal demo_ckpt_opts (frames ?es) []"
  let ?x = "[(''t'', ''a''), (''t'', ''b'')]"
  have mx: "max 1 (max_seq ?es 0) = 2" by (simp add: del_entry_def max_def)
  obtain w3 where w3: "checkpointLocked ?env (?w\<lparr>wFile := (wFile ?w)\<lparr>fdata := frames ?es, fpos := length (frames ?es)\<rparr>,
        wSeq := max 1 (max_seq ?es 0)\<rparr>) [(''t'', ''b'')] = (None, w3, [(''t'', ''b'')])" "wSeq w3 = 2"
    unfolding mx by (simp add: Checkpoint_def checkpointLocked_def flushLocked_def syncAndHook_def run_before_def demo_env_def
        checkpoint_finish_def truncate_def Let_def CheckpointConfigured_def demo_ckpt_opts_def demo_opts_def del: frames_simps)
  have h: "hydrateCheckpointIfNeeded demo_ops [] ?x = (None, ?x)"
    by (simp add: hydrateCheckpointIfNeeded_def)
  have a: "apply_all (applyEntry demo_codec demo_ops) (filter (\<lambda>e. eSeq e > 1) ?es) ?x = (None, [(''t'', ''b'')])"
    by (simp add: applyEntry_def demo_ops_def del_entry_def)
  show ?thesis
    using load_replays_after_checkpoint [of ?w ?env ?x 1 "[]" demo_ops ?x ?es "[]" demo_codec, OF _ _ h _ _ _ _ a w3(1)] w3(2)
    by (simp add: demo_env_def CheckpointConfigured_def demo_ckpt_opts_def del: frames_simps)
qed

text \<open>C24. Checkpoint ordering under every failure: the log is either left as it was, or it has been cut after
  BeforeCheckpoint and SaveLastSeq succeeded with the number of the last record; a successful checkpoint keeps
  the invariant.\<close>

theorem checkpoint_cuts_only_after_saving:
  assumes "Checkpoint env w x = (err, w', x')" and "wal_inv w es"
  shows "(fdata (wFile w') = frames es
       \<or> fdata (wFile w') = [] \<and>
         (\<exists>x1. run_before env x = (None, x1) \<and> SaveLastSeq env (CheckpointDir (wOpts w)) (wSeq w) x1 = (None, x')))
     \<and> (err = None \<longrightarrow>
          wal_inv w' (if TruncateAfterCheckpoint (CheckpointPolicy (wOpts w)) then [] else es) \<and> wSeq w' = wSeq w)"
  using checkpointLocked_any [of env w x err w' x'] checkpointLocked_ok [of env w x w' x' es] assms
  by (auto simp: Checkpoint_def wal_inv_def)

theorem checkpoint_cuts_only_after_saving_witness:
  "\<exists>w'. Checkpoint demo_env (demo_wal demo_ckpt_opts [] []) [] = (None, w', []) \<and> wal_inv w' []"
proof -
  obtain w' where w': "Checkpoint demo_env (demo_wal demo_ckpt_opts [] []) [] = (None, w', [])"
    by (simp add: Checkpoint_def checkpointLocked_def flushLocked_def syncAndHook_def run_before_def demo_env_def
        checkpoint_finish_def truncate_def Let_def CheckpointConfigured_def demo_ckpt_opts_def demo_opts_def)
  then show ?thesis
    using checkpoint_cuts_only_after_saving [OF w' demo_inv(2)] by (auto split: if_splits)
qed

text \<open>BulkSet without checkpoints is the sequence of its Sets: same error, same file, same counter, also
  when an item in the middle fails.\<close>

theorem bulk_set_is_sequence_of_sets:
  assumes "\<not> CheckpointConfigured (wOpts w)"
  shows "wal_BulkSet c env t ents w x = wal_run c env (map (ReqSet t) ents) w x"
proof -
  have "(case bulk_set_loop c t ents (wSeq w) w of (err, w) \<Rightarrow> (err, w, x)) = wal_run c env (map (ReqSet t) ents) w x"
    using assms
  proof (induction ents arbitrary: w)
    case Nil
    then show ?case by simp
  next
    case (Cons ent ents)
    show ?case
    proof (cases "Encode c ent")
      case (Inl a)
      then show ?thesis by (simp add: wal_Set_def)
    next
      case (Inr b)
      obtain err w1 where a: "appendLocked (set_entry (wSeq w + 1) t ent b) w = (err, w1)"
        by (cases "appendLocked (set_entry (wSeq w + 1) t ent b) w")
      show ?thesis
        using Cons.prems Cons.IH [of "w1\<lparr>wSeq := wSeq w + 1\<rparr>"] appendLocked_seq [OF a] Inr a
        by (cases err) (auto simp: wal_Set_def Let_def maybeAutoCheckpointLocked_def wal_seq_same)
    qed
  qed
  then show ?thesis
    using assms by (auto simp: wal_BulkSet_def maybeAutoCheckpointLocked_def
        split: prod.splits option.splits dest: bulk_set_loop_opts)
qed

theorem bulk_set_is_sequence_of_sets_witness:
  "wal_BulkSet demo_codec demo_env ''t'' [demo_entity ''a'', demo_entity ''b''] (demo_wal demo_opts [] []) []
   = wal_run demo_codec demo_env [ReqSet ''t'' (demo_entity ''a''), ReqSet ''t'' (demo_entity ''b'')] (demo_wal demo_opts [] []) []"
  using bulk_set_is_sequence_of_sets [of "demo_wal demo_opts [] []" demo_codec demo_env "''t''" "[demo_entity ''a'', demo_entity ''b'']" "[]"]
  by (simp add: demo_opts_def CheckpointConfigured_def del: wal_run.simps)

text \<open>C36. A failed append that left one byte in the file is not rolled back: the next append is acknowledged,
  but replay stops at the stray byte and cuts the acknowledged record off.\<close>

theorem acked_append_after_torn_append_is_lost:
  assumes "wal_inv w es" and "appendLocked e1 w = (Some err, w1)"
    and "fdata (wFile w1) = frames es @ take 1 (entry_frame e1)"
    and "appendLocked e2 w1 = (None, w2)"
    and "valid_entry e2" and "payload_size e1 < 256" and "payload_size e2 < 256"
    and "foutcomes (wFile w3) = []" and "fdata (wFile w3) = fdata (wFile w2)"
  shows "fdata (wFile w2) = frames es @ [0] @ entry_frame e2
     \<and> Replay (\<lambda>e s. (None, s @ [e])) w3 []
         = (None, w3\<lparr>wFile := (wFile w3)\<lparr>fdata := frames es, fpos := length (frames es)\<rparr>\<rparr>,
            filter (\<lambda>e. 0 < eSeq e) es, max_seq es 0)"
proof -
  obtain b tl where e1: "entry_frame e1 = 0 # 0 # 0 # b # tl" using small_frame_prefix [OF assms(6)] by blast
  obtain b2 tl2 where e2: "entry_frame e2 = 0 # 0 # 0 # b2 # tl2" using small_frame_prefix [OF assms(7)] by blast
  have pre: "wBufw w1 = None \<and> fpos (wFile w1) = length (fdata (wFile w1))"
    using appendLocked_end [OF assms(2)] assms(1) by (simp add: wal_inv_def)
  have m: "MarshalBinary e2 = Inr (entry_frame e2)"
    using assms(5) by (simp add: MarshalBinary_valid entry_frame_def)
  obtain w2' where w2': "write_record (entry_frame e2) w1 = (None, w2')" "wFile w2 = wFile w2'"
    using assms(4) m by (auto simp: appendLocked_def split: prod.splits option.splits)
  have d: "fdata (wFile w2) = frames es @ [0] @ entry_frame e2"
    using write_record_append [OF w2'(1)] pre w2'(2) assms(3) e1 by auto
  have "bad_tail ([0] @ entry_frame e2)"
    using zero_length_bad_tail [of "b2 # tl2"] e2 by simp
  then have "Replay (\<lambda>e s. (None, s @ [e])) w3 []
         = (None, w3\<lparr>wFile := (wFile w3)\<lparr>fdata := frames es, fpos := length (frames es)\<rparr>\<rparr>,
            filter (\<lambda>e. 0 < eSeq e) es, max_seq es 0)"
    unfolding Replay_def using assms d
    by (intro replaySince_apply [where t = "[0] @ entry_frame e2"]) (auto simp: apply_all_collect wal_inv_def)
  with d show ?thesis by blast
qed

theorem acked_append_after_torn_append_is_lost_witness:
  "\<exists>w2. appendLocked (demo_del ''a'') (demo_wal demo_opts [0] []) = (None, w2)
     \<and> Replay (\<lambda>e s. (None, s @ [e])) w2 [] = (None, w2\<lparr>wFile := (wFile w2)\<lparr>fdata := [], fpos := 0\<rparr>\<rparr>, [], 0)"
proof -
  let ?e = "demo_del ''a''"
  have v: "valid_entry ?e" "payload_size ?e < 256" by simp_all
  obtain w2 where w2: "appendLocked ?e (demo_wal demo_opts [0] []) = (None, w2)" "foutcomes (wFile w2) = []"
    using v(1) by (simp add: appendLocked_def MarshalBinary_valid write_record_def syncAndHook_def Let_def demo_opts_def)
  have d: "fdata (wFile (demo_wal demo_opts [0] [])) = frames [] @ take 1 (entry_frame ?e)"
    using small_frame_prefix [OF v(2)] by auto
  show ?thesis
    using acked_append_after_torn_append_is_lost [OF demo_inv(1) demo_torn_append [OF v(2,1)] d w2(1) v(1) v(2) v(2) w2(2)] w2
    by simp
qed

text \<open>A record with a payload above 256 MiB is encoded and appended, but replay takes its length for damage:
  it cuts the record and every later one off, without an error.\<close>

theorem oversize_record_drops_the_rest:
  assumes "foutcomes (wFile w) = []" and "fdata (wFile w) = frames es @ entry_frame e @ frames es2"
    and "\<forall>d\<in>set es. loggable d" and "valid_entry e"
    and "268435456 < payload_size e" and "payload_size e < 4294967296"
    and "apply_all app (filter (\<lambda>d. eSeq d > 0) es) s = (None, s')"
  shows "MarshalBinary e = Inr (entry_frame e)
     \<and> Replay app w s = (None, w\<lparr>wFile := (wFile w)\<lparr>fdata := frames es, fpos := length (frames es)\<rparr>\<rparr>, s', max_seq es 0)"
  unfolding Replay_def using assms oversize_bad_tail
  by (auto intro!: replaySince_apply simp: MarshalBinary_valid entry_frame_def)

theorem oversize_record_drops_the_rest_witness:
  "\<exists>e. MarshalBinary e = Inr (entry_frame e) \<and>
     Replay (\<lambda>e s. (None, s @ [e])) (demo_wal demo_opts (entry_frame e @ entry_frame (demo_del ''a'')) []) []
       = (None, demo_wal demo_opts [] [], [], 0)"
proof -
  define n :: nat where "n = 268435456"
  define e where "e = \<lparr>eSeq = 1, eOp = OpSet, eTable = ''t'', eKey = ''k'', eFk = [], eValueBytes = replicate n 0\<rparr>"
  have sz: "payload_size e = 33 + n" by (simp add: e_def payload_size_def)
  show ?thesis
    using oversize_record_drops_the_rest [of "demo_wal demo_opts (entry_frame e @ entry_frame (demo_del ''a'')) []"
        "[]" e "[demo_del ''a'']" "\<lambda>e s. (None, s @ [e])" "[]" "[]"]
    by (intro exI [of _ e]) (simp add: sz n_def demo_wal_def, simp add: e_def valid_entry_def)
qed

text \<open>An I/O error within the first four bytes of replay is taken for a torn tail: the whole log is
  truncated and Replay reports success.\<close>

theorem read_fault_wipes_log:
  assumes "foutcomes (wFile w) = [IoOk, IoFail k]" and "k < 4"
    and "1 \<le> k" and "k \<le> length (fdata (wFile w))"
  shows "Replay app w s = (None, w\<lparr>wFile := (wFile w)\<lparr>fdata := [], fpos := 0, foutcomes := []\<rparr>\<rparr>, s, 0)"
proof -
  let ?f = "(wFile w)\<lparr>fpos := 0, foutcomes := [IoFail k]\<rparr>"
  have r: "file_ReadFull 4 ?f = (take k (fdata (wFile w)), Some ReadIO, (wFile w)\<lparr>fpos := k, foutcomes := []\<rparr>)"
    using assms(2,4) by (simp add: file_ReadFull_def next_outcome_def Let_def min_def)
  have rf: "read_frame ?f = (FrBad, (wFile w)\<lparr>fpos := k, foutcomes := []\<rparr>)"
    using assms(2-4) by (simp add: read_frame_def r)
  have l: "replay_loop 0 app ?f s 0 0 = (None, (wFile w)\<lparr>fdata := [], fpos := 0, foutcomes := []\<rparr>, s, 0)"
    by (subst replay_loop.simps) (simp add: rf truncate_def)
  have st: "file_SeekStart (wFile w) = (None, ?f)"
    using assms(1) by (simp add: file_SeekStart_def next_outcome_def)
  show ?thesis
    unfolding Replay_def replaySince_def st by (simp add: l)
qed

theorem read_fault_wipes_log_witness:
  "Replay (\<lambda>e s. (None, s @ [e])) (demo_wal demo_opts (entry_frame (demo_del ''a'')) [IoOk, IoFail 2]) []
     = (None, demo_wal demo_opts [] [], [], 0)"
  using read_fault_wipes_log [of "demo_wal demo_opts (entry_frame (demo_del ''a'')) [IoOk, IoFail 2]" 2]
  by (simp add: length_entry_frame demo_wal_def)

text \<open>RepairTruncatesTail does not apply the rules of Replay: a frame with a correct checksum and a foreign
  magic survives the repair unchanged, while Replay cuts it off.\<close>

theorem repair_keeps_what_replay_cuts:
  assumes "foutcomes f = []" and "fdata f = frame p" and "15 \<le> length p" and "length p \<le> 268435456"
    and "take 4 p \<noteq> walMagic" and "foutcomes (wFile w) = []" and "fdata (wFile w) = frame p"
  shows "\<exists>k. RepairTruncatesTail (Some f) = (None, Some (f\<lparr>fpos := k\<rparr>))
     \<and> Replay app w s = (None, w\<lparr>wFile := (wFile w)\<lparr>fdata := [], fpos := 0\<rparr>\<rparr>, s, 0)"
proof -
  let ?f = "f\<lparr>fpos := 0\<rparr>" and ?g = "f\<lparr>fpos := length p + 8\<rparr>"
  obtain e where 1: "repair_frame ?f = (FrOk e (length p + 8), ?g)"
    using repair_frame_ok [of ?f p "[]"] assms by auto
  have 2: "repair_frame ?g = (FrEof, ?g)"
    using assms by (simp add: repair_frame_def file_ReadFull_quiet Let_def)
  have rep: "RepairTruncatesTail (Some f) = (None, Some ?g)"
    by (simp add: RepairTruncatesTail_def repair_loop.simps [of ?f] 1 repair_loop.simps [of ?g] 2)
  have "bad_tail (frame p)"
    unfolding bad_tail_def
  proof (intro allI impI, elim conjE)
    fix h :: osfile assume q: "foutcomes h = []" and d: "drop (fpos h) (fdata h) = frame p"
    have u: "(word_of_int (be_val (take 4 (frame p))) :: u32) = of_nat (length p)" "unat (of_nat (length p) :: u32) = length p"
      using assms(4) frame_len_prefix [of p "[]"] by (simp_all add: be_roundtrip_u32 unat_of_nat_u32)
    have r1: "file_ReadFull 4 h = (take 4 (frame p), None, h\<lparr>fpos := fpos h + 4\<rparr>)"
      using d by (simp add: file_ReadFull_quiet [OF q] Let_def)
    have "drop (fpos h + 4) (fdata h) = drop 4 (frame p)"
      using drop_advance [of "fpos h" "fdata h" "frame p" "[]" 4] d by simp
    then have r2: "file_ReadFull (length p + 4) (h\<lparr>fpos := fpos h + 4\<rparr>) = (drop 4 (frame p), None, h\<lparr>fpos := fpos h + (length p + 8)\<rparr>)"
      using q by (simp add: file_ReadFull_quiet Let_def)
    have un: "UnmarshalBinary (frame p) = Inl ErrCorruptRecord"
      using UnmarshalBinary_frame [of p "crc32 p" "[]"] assms(3-5) by (simp add: frame_eq parse_payload_def)
    show "\<exists>k. read_frame h = (FrBad, h\<lparr>fpos := k\<rparr>)"
      unfolding read_frame_def r1 prod.case Let_def u r2 option.case using un by auto
  qed
  then have "Replay app w s = (None, w\<lparr>wFile := (wFile w)\<lparr>fdata := [], fpos := 0\<rparr>\<rparr>, s, 0)"
    unfolding Replay_def using replaySince_apply [of w "[]" "frame p" app 0 s s] assms by simp
  with rep show ?thesis by blast
qed

theorem repair_keeps_what_replay_cuts_witness:
  "\<exists>k. RepairTruncatesTail (Some \<lparr>fdata = frame (replicate 15 0), fpos = 0, fsynced = [], foutcomes = []\<rparr>)
      = (None, Some \<lparr>fdata = frame (replicate 15 0), fpos = k, fsynced = [], foutcomes = []\<rparr>)
    \<and> Replay (\<lambda>e s. (None, s @ [e])) (demo_wal demo_opts (frame (replicate 15 0)) []) [] = (None, demo_wal demo_opts [] [], [], 0)"
proof -
  let ?p = "replicate 15 0 :: bytes"
  have "hd walMagic \<noteq> 0" by (simp add: walMagic_def bytes_of_string_def)
  moreover have "hd (take 4 ?p) = 0" by simp
  ultimately have m: "take 4 ?p \<noteq> walMagic" by metis
  have l: "length ?p = 15" by simp
  show ?thesis
    using repair_keeps_what_replay_cuts [of "\<lparr>fdata = frame ?p, fpos = 0, fsynced = [], foutcomes = []\<rparr>" ?p
        "demo_wal demo_opts (frame ?p) []" "\<lambda>e s. (None, s @ [e])" "[]", OF _ _ _ _ m] l
    by (simp add: demo_wal_def)
qed

end
