(* ===== verification/Adapter_Correct.thy ===== *)
theory Adapter_Correct
  imports Adapter Batcher_Correct Wal_Recovery
begin

text \<open>
  The adapter over a store that fulfils the contract of a keyed store.  The locale \<open>adapter_store\<close> adds the
  bulk mutations and the indexed read to that contract; inside it, the cache stays coherent with the one
  table that is used, and a log replayed into the store rebuilds its contents.  The locale is interpreted on
  the write batcher over the file-backed store, which is what \<^verbatim>\<open>cmd/node/setup/kv.go\<close> builds.
\<close>

section \<open>Bulk mutations of a batcher over any keyed store\<close>

context kv_store
begin

lemma bulk_del_upserts:
  assumes "pend_ok inv tabs okname okent b" and "t \<in> tabs (inner b)" and "\<forall>k\<in>set ks. okname k"
  shows "pend_ok inv tabs okname okent (fold (\<lambda>k. upsertLocked jl (t, k) BatchDel) ks b)
    \<and> inner (fold (\<lambda>k. upsertLocked jl (t, k) BatchDel) ks b) = inner b
    \<and> overlay norm (content (inner b)) (pend (fold (\<lambda>k. upsertLocked jl (t, k) BatchDel) ks b))
      = fold (\<lambda>k. upd t k None) ks (overlay norm (content (inner b)) (pend b))"
  using assms
proof (induction ks arbitrary: b)
  case (Cons k ks)
  have k: "okname k" using Cons.prems(3) by simp
  note u = upsert_law [OF Cons.prems(1,2) k, of BatchDel jl]
  have t': "t \<in> tabs (inner (upsertLocked jl (t, k) BatchDel b))" using u(2) Cons.prems(2) by simp
  show ?case using Cons.IH [OF u(1)] t' u(2,4) Cons.prems(3) by simp
qed simp

lemma bulk_set_upserts:
  assumes "pend_ok inv tabs okname okent b" and "t \<in> tabs (inner b)" and "\<forall>e\<in>set es. okent e"
  shows "pend_ok inv tabs okname okent (fold (\<lambda>e. upsertLocked jl (t, iKey e) (BatchSet e)) es b)
    \<and> inner (fold (\<lambda>e. upsertLocked jl (t, iKey e) (BatchSet e)) es b) = inner b
    \<and> overlay norm (content (inner b)) (pend (fold (\<lambda>e. upsertLocked jl (t, iKey e) (BatchSet e)) es b))
      = fold (\<lambda>e. upd t (iKey e) (Some (norm e))) es (overlay norm (content (inner b)) (pend b))"
  using assms
proof (induction es arbitrary: b)
  case (Cons e es)
  have e: "okent e" using Cons.prems(3) by simp
  note u = upsert_law [OF Cons.prems(1,2) okent_key [OF e], of "BatchSet e" jl]
  have u': "pend_ok inv tabs okname okent (upsertLocked jl (t, iKey e) (BatchSet e) b)" using u(1) e by simp
  have t': "t \<in> tabs (inner (upsertLocked jl (t, iKey e) (BatchSet e) b))" using u(2) e Cons.prems(2) by simp
  show ?case using Cons.IH [OF u' t'] u(2,4) e Cons.prems(3) by simp
qed simp

lemma batcher_bulk_del:
  assumes "dbSet db = put" and "dbDel db = del" and "bt_inv inv tabs okname okent b" and "t \<in> tabs (inner b)"
    and "\<forall>k\<in>set ks. okname k"
  shows "\<exists>b'. wb_BulkDel db jl t ks b = (None, b') \<and> bt_inv inv tabs okname okent b'
      \<and> tabs (inner b') = tabs (inner b)
      \<and> overlay norm (content (inner b')) (pend b') = fold (\<lambda>k. upd t k None) ks (overlay norm (content (inner b)) (pend b))"
proof -
  have p: "pend_ok inv tabs okname okent b" using assms(3) by (simp add: bt_inv_def)
  note u = bulk_del_upserts [OF p assms(4,5), of jl]
  show ?thesis using finish_law [OF assms(1,2) u [THEN conjunct1]] u by (auto simp: wb_BulkDel_def)
qed

lemma batcher_bulk_set:
  assumes "dbSet db = put" and "dbDel db = del" and "bt_inv inv tabs okname okent b" and "t \<in> tabs (inner b)"
    and "\<forall>e\<in>set es. okent e"
  shows "\<exists>b'. wb_BulkSet db jl t es b = (None, b') \<and> bt_inv inv tabs okname okent b'
      \<and> tabs (inner b') = tabs (inner b)
      \<and> overlay norm (content (inner b')) (pend b')
        = fold (\<lambda>e. upd t (iKey e) (Some (norm e))) es (overlay norm (content (inner b)) (pend b))"
proof -
  have p: "pend_ok inv tabs okname okent b" using assms(3) by (simp add: bt_inv_def)
  note u = bulk_set_upserts [OF p assms(4,5), of jl]
  show ?thesis using finish_law [OF assms(1,2) u [THEN conjunct1]] u by (auto simp: wb_BulkSet_def)
qed

lemma batcher_get_by_sk:
  assumes "dbSet db = put" and "dbDel db = del" and "bt_inv inv tabs okname okent b"
  shows "bt_inv inv tabs okname okent (snd (wb_GetBySk db t sk b)) \<and> tabs (inner (snd (wb_GetBySk db t sk b))) = tabs (inner b)
    \<and> overlay norm (content (inner (snd (wb_GetBySk db t sk b)))) (pend (snd (wb_GetBySk db t sk b)))
      = overlay norm (content (inner b)) (pend b)"
proof -
  have p: "pend_ok inv tabs okname okent b" using assms(3) by (simp add: bt_inv_def)
  obtain b' where b': "flushAllLocked db b = (None, b')" "pend b' = []" "inv (inner b')" "tabs (inner b') = tabs (inner b)"
      "content (inner b') = overlay norm (content (inner b)) (pend b)"
    using flush_law [OF assms(1,2) p] by auto
  have "snd (wb_GetBySk db t sk b) = b'" using b'(1) by (simp add: wb_GetBySk_def Flush_def)
  then show ?thesis using b'(2-) by (simp add: bt_inv_def pend_ok_def)
qed

end

lemma fold_upd_None: "fold (\<lambda>k. upd t k None) ks m t' k' = (if t' = t \<and> k' \<in> set ks then None else m t' k')"
  by (induction ks arbitrary: m) (auto simp: upd_apply)

lemma fold_upd_Some: "t' \<noteq> t \<or> k' \<notin> iKey ` set es \<Longrightarrow> fold (\<lambda>e. upd t (iKey e) (Some (nf e))) es m t' k' = m t' k'"
  by (induction es arbitrary: m) (auto simp: upd_apply)

lemma adapter_key_inj [simp]: "adapter_key k = adapter_key k' \<longleftrightarrow> k = k'"
  by (simp add: adapter_key_def)

text \<open>Without automatic checkpoints, a call of the log leaves the store and the cache alone.\<close>

definition auto_ckpt_off :: "'x adapter \<Rightarrow> bool" where
  "auto_ckpt_off a \<longleftrightarrow> (\<forall>w. aLog a = Some w \<longrightarrow> auto_off (wOpts w))"

lemma log_call_frame:
  assumes "log_call f a = (err, a')" and "auto_ckpt_off a"
    and "\<And>w w' x' e. aLog a = Some w \<Longrightarrow> f w (aStore a) = (e, w', x') \<Longrightarrow> x' = aStore a \<and> wOpts w' = wOpts w"
  shows "aStore a' = aStore a \<and> aCache a' = aCache a \<and> auto_ckpt_off a'
    \<and> (err = None \<longrightarrow> (\<exists>w w'. aLog a = Some w \<and> aLog a' = Some w' \<and> f w (aStore a) = (None, w', aStore a)))"
proof (cases "aLog a")
  case None
  then show ?thesis using assms(1,2) by (auto simp: log_call_def)
next
  case (Some w)
  obtain e w' x' where f: "f w (aStore a) = (e, w', x')" by (cases "f w (aStore a)")
  show ?thesis using assms(1,2) assms(3) [OF Some f] Some f by (auto simp: log_call_def auto_ckpt_off_def)
qed

lemma auto_ckpt_off_log: "auto_ckpt_off a \<Longrightarrow> aLog a = Some w \<Longrightarrow> auto_off (wOpts w)"
  by (simp add: auto_ckpt_off_def)

lemma log_frames:
  shows "log_call (wal_Set c env t e) a = (err, a') \<Longrightarrow> auto_ckpt_off a \<Longrightarrow> aStore a' = aStore a \<and> aCache a' = aCache a \<and> auto_ckpt_off a'
    \<and> (err = None \<longrightarrow> (\<exists>w w'. aLog a = Some w \<and> aLog a' = Some w' \<and> wal_Set c env t e w (aStore a) = (None, w', aStore a)))"
    and "log_call (wal_Delete env t k) a = (err, a') \<Longrightarrow> auto_ckpt_off a \<Longrightarrow> aStore a' = aStore a \<and> aCache a' = aCache a \<and> auto_ckpt_off a'
    \<and> (err = None \<longrightarrow> (\<exists>w w'. aLog a = Some w \<and> aLog a' = Some w' \<and> wal_Delete env t k w (aStore a) = (None, w', aStore a)))"
    and "log_call (wal_BulkSet c env t es) a = (err, a') \<Longrightarrow> auto_ckpt_off a \<Longrightarrow> aStore a' = aStore a \<and> aCache a' = aCache a \<and> auto_ckpt_off a'
    \<and> (err = None \<longrightarrow> (\<exists>w w'. aLog a = Some w \<and> aLog a' = Some w' \<and> wal_BulkSet c env t es w (aStore a) = (None, w', aStore a)))"
    and "log_call (wal_BulkDelete env t ks) a = (err, a') \<Longrightarrow> auto_ckpt_off a \<Longrightarrow> aStore a' = aStore a \<and> aCache a' = aCache a \<and> auto_ckpt_off a'
    \<and> (err = None \<longrightarrow> (\<exists>w w'. aLog a = Some w \<and> aLog a' = Some w' \<and> wal_BulkDelete env t ks w (aStore a) = (None, w', aStore a)))"
  by (erule (1) log_call_frame, erule (2) wal_ops_store [OF auto_ckpt_off_log])+

section \<open>Keys the cache may be wrong about\<close>

text \<open>
  Every table shares the cache, and bulk puts bypass it.  From the point of view of the table \<open>t\<close>, what is cached under
  a key may be wrong after a bulk put of it in \<open>t\<close>, or after a put or a read of it in another table \<open>u\<close>; a put in \<open>t\<close> or a
  deletion in any table makes it right again.
\<close>

definition after_put :: "string \<Rightarrow> string \<Rightarrow> string \<Rightarrow> goerr option \<Rightarrow> string set \<Rightarrow> string set" where
  "after_put t u k err S = (if err \<noteq> None then S else if u = t then S - {k} else insert k S)"

definition after_del :: "string list \<Rightarrow> goerr option \<Rightarrow> string set \<Rightarrow> string set" where
  "after_del ks err S = (if err = None then S - set ks else S)"

definition after_bulk :: "string \<Rightarrow> string \<Rightarrow> string list \<Rightarrow> string set \<Rightarrow> string set" where
  "after_bulk t u ks S = (if u = t then S \<union> set ks else S)"

definition after_get :: "string \<Rightarrow> string \<Rightarrow> string \<Rightarrow> string set \<Rightarrow> string set" where
  "after_get t u k S = (if u = t then S else insert k S)"

section \<open>The contract the adapter works on\<close>

locale adapter_store = kv_store inv tabs content norm okname okent create put del get
  for inv :: "'s \<Rightarrow> bool" and tabs content norm okname okent create put del get +
  fixes st :: "'s store_ops"
  assumes st_ops: "stCreateTable st = create \<and> stSet st = put \<and> stDel st = del \<and> stGet st = get"
    and bulk_set_law: "inv s \<Longrightarrow> t \<in> tabs s \<Longrightarrow> \<forall>e\<in>set es. okent e \<Longrightarrow>
      \<exists>s'. stBulkSet st t es s = (None, s') \<and> inv s' \<and> tabs s' = tabs s
        \<and> content s' = fold (\<lambda>e. upd t (iKey e) (Some (norm e))) es (content s)"
    and bulk_del_law: "inv s \<Longrightarrow> t \<in> tabs s \<Longrightarrow> \<forall>k\<in>set ks. okname k \<Longrightarrow>
      \<exists>s'. stBulkDel st t ks s = (None, s') \<and> inv s' \<and> tabs s' = tabs s
        \<and> content s' = fold (\<lambda>k. upd t k None) ks (content s)"
    and get_by_sk_law: "inv s \<Longrightarrow> t \<in> tabs s \<Longrightarrow> okname sk \<Longrightarrow>
      inv (snd (stGetBySk st t sk s)) \<and> tabs (snd (stGetBySk st t sk s)) = tabs s
        \<and> content (snd (stGetBySk st t sk s)) = content s"
    and norm_version: "iVersion (norm e) = iVersion e"
begin

text \<open>
  Writing through the log, the store and the cache.  The cache is coherent with \<open>P\<close> before and, where \<open>Q\<close>
  of the new store holds of the entry written and inherits the others from \<open>P\<close>, coherent with \<open>Q\<close> after.
\<close>

lemma write_through_law:
  assumes i: "inv (aStore a)" "t \<in> tabs (aStore a)" "auto_ckpt_off a" and co: "mem.coherent (aCache a) P" and e: "okent e"
    and g: "cfgStore g = st" and w: "write_through msg g t e a = (err, a')"
    and Q: "\<And>s'. content s' = upd t (iKey e) (Some (norm e)) (content (aStore a)) \<Longrightarrow>
      Q s' (adapter_key (iKey e)) e \<and> (\<forall>j v. j \<noteq> adapter_key (iKey e) \<longrightarrow> P j v \<longrightarrow> Q s' j v)"
  shows "inv (aStore a') \<and> tabs (aStore a') = tabs (aStore a) \<and> auto_ckpt_off a'
    \<and> (err = None \<longrightarrow> content (aStore a') = upd t (iKey e) (Some (norm e)) (content (aStore a))
        \<and> mem.coherent (aCache a') (Q (aStore a'))
        \<and> (\<exists>w w'. aLog a = Some w \<and> aLog a' = Some w' \<and> wal_Set (cfgCodec g) (cfgEnv g) t e w (aStore a) = (None, w', aStore a)))
    \<and> (err \<noteq> None \<longrightarrow> aStore a' = aStore a \<and> aCache a' = aCache a)"
proof -
  obtain e1 a1 where l: "log_call (wal_Set (cfgCodec g) (cfgEnv g) t e) a = (e1, a1)"
    by (cases "log_call (wal_Set (cfgCodec g) (cfgEnv g) t e) a")
  note fr = log_frames(1) [OF l i(3)]
  show ?thesis
  proof (cases e1)
    case (Some x)
    then show ?thesis using w l i fr by (auto simp: write_through_def)
  next
    case None
    obtain s' where s': "put t e (aStore a) = (None, s')" "inv s'" "tabs s' = tabs (aStore a)"
        "content s' = upd t (iKey e) (Some (norm e)) (content (aStore a))"
      using put_law [OF i(1,2) e] by auto
    let ?fn = "\<lambda>x. case stSet (cfgStore g) t e x of (err, x) \<Rightarrow> (wrap ''db: put entity'' err, x)"
    obtain e2 c2 x2 where sv: "SaveIfOk (adapter_key (iKey e)) e ?fn (aCache a) (aStore a) = (e2, c2, x2)"
      by (cases "SaveIfOk (adapter_key (iKey e)) e ?fn (aCache a) (aStore a)")
    have fn: "?fn (aStore a) = (None, s')" using s'(1) g st_ops by (simp add: wrap_def)
    have ci: "cache_inv (aCache a)" using co by (simp add: mem.coherent_def)
    have e2: "e2 = None" "x2 = s'" using mem.save_law [OF ci sv] fn by simp_all
    have c2: "mem.coherent c2 (Q s')"
      using mem.save_coherent [OF co sv [unfolded e2], of "Q s'"] Q [OF s'(4)] by auto
    have a': "err = None" "a' = a1\<lparr>aCache := c2, aStore := s'\<rparr>"
      using w l None sv e2 fr by (auto simp: write_through_def)
    show ?thesis unfolding a' using c2 s' i fr None by (auto simp: auto_ckpt_off_def)
  qed
qed

lemma delete_through_law:
  assumes i: "inv (aStore a)" "t \<in> tabs (aStore a)" "auto_ckpt_off a" and co: "mem.coherent (aCache a) P" and k: "okname k"
    and g: "cfgStore g = st" and w: "delete_through m1 m2 g t k a = (err, a')"
    and Q: "\<And>s' j v. content s' = upd t k None (content (aStore a)) \<Longrightarrow> j \<noteq> adapter_key k \<Longrightarrow> P j v \<Longrightarrow> Q s' j v"
    and Q': "\<And>s' j v. content s' = content (aStore a) \<Longrightarrow> P j v \<Longrightarrow> Q s' j v"
  shows "inv (aStore a') \<and> tabs (aStore a') = tabs (aStore a) \<and> auto_ckpt_off a' \<and> mem.coherent (aCache a') (Q (aStore a'))
    \<and> (err = None \<longrightarrow> content (aStore a') = upd t k None (content (aStore a))
        \<and> (\<exists>w w'. aLog a = Some w \<and> aLog a' = Some w' \<and> wal_Delete (cfgEnv g) t k w (aStore a) = (None, w', aStore a)))
    \<and> (err \<noteq> None \<longrightarrow> content (aStore a') = content (aStore a))"
proof -
  obtain e1 a1 where l: "log_call (wal_Delete (cfgEnv g) t k) a = (e1, a1)"
    by (cases "log_call (wal_Delete (cfgEnv g) t k) a")
  note fr = log_frames(2) [OF l i(3)]
  show ?thesis
  proof (cases e1)
    case (Some x)
    have "mem.coherent (aCache a) (Q (aStore a))" using co Q' by (auto simp: mem.coherent_def)
    then show ?thesis using w l i fr Some by (auto simp: delete_through_def)
  next
    case None
    obtain r s' where s': "del t k (aStore a) = (r, s')" "r = None \<or> r = Some ErrNotFound \<and> content (aStore a) t k = None"
        "inv s'" "tabs s' = tabs (aStore a)" "content s' = upd t k None (content (aStore a))"
      using del_law [OF i(1,2) k] by auto
    let ?fn = "\<lambda>x. case stDel (cfgStore g) t k x of (err, x) \<Rightarrow> (wrap m2 err, x)"
    obtain e2 c2 x2 where sv: "DelIfOk (adapter_key k) ?fn (aCache a) (aStore a) = (e2, c2, x2)"
      by (cases "DelIfOk (adapter_key k) ?fn (aCache a) (aStore a)")
    have fn: "?fn (aStore a) = (wrap m2 r, s')" using s'(1) g st_ops by simp
    have ci: "cache_inv (aCache a)" using co by (simp add: mem.coherent_def)
    have e2: "e2 = wrap m2 r" "x2 = s'" using mem.evict_if_law [OF ci sv] fn by simp_all
    have same: "content s' = content (aStore a)" if "e2 \<noteq> None"
      using that s'(2,5) e2(1) by (intro ext) (auto simp: wrap_def upd_apply)
    have c2: "mem.coherent c2 (Q s')"
      using mem.evict_if_coherent [OF co sv, of "Q s'"] Q [OF s'(5)] Q' [OF same] by simp
    have a': "err = e2" "a' = a1\<lparr>aCache := c2, aStore := s'\<rparr>"
      using w l None sv e2(2) fr by (auto simp: delete_through_def)
    show ?thesis unfolding a' using c2 s'(3-5) i fr same None by (simp add: auto_ckpt_off_def)
  qed
qed

lemma delete_through_evicts:
  assumes i: "inv (aStore a)" "u \<in> tabs (aStore a)" "auto_ckpt_off a" and co: "mem.coherent (aCache a) P" and k: "okname k"
    and g: "cfgStore g = st" and w: "delete_through m1 m2 g u k a = (None, a')"
    and Q: "\<And>s' j v. content s' = upd u k None (content (aStore a)) \<Longrightarrow> j \<noteq> adapter_key k \<Longrightarrow> P j v \<Longrightarrow> Q s' j v"
  shows "inv (aStore a') \<and> tabs (aStore a') = tabs (aStore a) \<and> auto_ckpt_off a' \<and> mem.coherent (aCache a') (Q (aStore a'))
    \<and> content (aStore a') = upd u k None (content (aStore a))"
proof -
  have l: "inv (aStore a') \<and> tabs (aStore a') = tabs (aStore a) \<and> auto_ckpt_off a' \<and> content (aStore a') = upd u k None (content (aStore a))"
    using delete_through_law [OF i co k g w, of "\<lambda>_ _ _. True"] by simp
  obtain a1 where a1: "log_call (wal_Delete (cfgEnv g) u k) a = (None, a1)"
    using w by (auto simp: delete_through_def split: prod.splits option.splits)
  note fr = log_frames(2) [OF a1 i(3)]
  let ?fn = "\<lambda>x. case stDel (cfgStore g) u k x of (err, x) \<Rightarrow> (wrap m2 err, x)"
  obtain c2 x2 where sv: "DelIfOk (adapter_key k) ?fn (aCache a) (aStore a) = (None, c2, x2)" and a': "a' = a1\<lparr>aCache := c2, aStore := x2\<rparr>"
    using w a1 fr by (auto simp: delete_through_def split: prod.splits)
  have "mem.coherent c2 (Q x2)"
    using mem.evict_if_coherent [OF co sv, of "Q x2"] Q [of x2] l a' by simp
  then show ?thesis using l a' by simp
qed

text \<open>The cache holds what the table \<open>t\<close> holds, except under the keys in \<open>S\<close>.\<close>

definition agrees :: "string \<Rightarrow> string set \<Rightarrow> 's \<Rightarrow> string \<Rightarrow> entity \<Rightarrow> bool" where
  "agrees t S x ck v \<longleftrightarrow> (\<forall>k. ck = adapter_key k \<and> k \<notin> S \<longrightarrow> content x t k = Some (norm v))"

definition ad_inv :: "string \<Rightarrow> string set \<Rightarrow> 's adapter \<Rightarrow> bool" where
  "ad_inv t S a \<longleftrightarrow> inv (aStore a) \<and> t \<in> tabs (aStore a) \<and> auto_ckpt_off a \<and> mem.coherent (aCache a) (agrees t S (aStore a))"

lemma coherent_mono: "mem.coherent c P \<Longrightarrow> (\<And>j v. P j v \<Longrightarrow> Q j v) \<Longrightarrow> mem.coherent c Q"
  by (auto simp: mem.coherent_def)

lemma agrees_mono: "agrees t S x j v \<Longrightarrow> S \<subseteq> S' \<Longrightarrow> agrees t S' x j v"
  unfolding agrees_def by blast

lemma ad_inv_mono: "ad_inv t S a \<Longrightarrow> S \<subseteq> S' \<Longrightarrow> ad_inv t S' a"
  by (auto simp: ad_inv_def intro: coherent_mono agrees_mono)

lemma write_through_step:
  assumes i: "ad_inv t S a" and u: "u \<in> tabs (aStore a)" and e: "okent e" and g: "cfgStore g = st" and w: "write_through msg g u e a = (err, a')"
  shows "ad_inv t (after_put t u (iKey e) err S) a'
    \<and> (err = None \<longrightarrow> content (aStore a') = upd u (iKey e) (Some (norm e)) (content (aStore a)))"
proof -
  have h: "inv (aStore a)" "auto_ckpt_off a" "mem.coherent (aCache a) (agrees t S (aStore a))" and t: "t \<in> tabs (aStore a)"
    using i by (simp_all add: ad_inv_def)
  show ?thesis
    using write_through_law [OF h(1) u h(2,3) e g w, of "agrees t (after_put t u (iKey e) None S)"] h t
    by (cases err) (auto simp: ad_inv_def agrees_def after_put_def upd_apply)
qed

lemma write_through_inv:
  assumes i: "ad_inv t S a" and e: "okent e" and g: "cfgStore g = st" and w: "write_through msg g t e a = (err, a')"
  shows "ad_inv t S a' \<and> (err = None \<longrightarrow> content (aStore a') = upd t (iKey e) (Some (norm e)) (content (aStore a)))"
  using write_through_step [OF i _ e g w] i by (auto simp: ad_inv_def [of t S a] after_put_def intro: ad_inv_mono split: if_splits)

lemma delete_through_step:
  assumes i: "ad_inv t S a" and u: "u \<in> tabs (aStore a)" and k: "okname k" and g: "cfgStore g = st" and w: "delete_through m1 m2 g u k a = (err, a')"
  shows "ad_inv t (after_del [k] err S) a' \<and> (err = None \<longrightarrow> content (aStore a') = upd u k None (content (aStore a)))"
proof -
  have h: "inv (aStore a)" "auto_ckpt_off a" "mem.coherent (aCache a) (agrees t S (aStore a))" and t: "t \<in> tabs (aStore a)"
    using i by (simp_all add: ad_inv_def)
  show ?thesis
  proof (cases err)
    case None
    have Q: "agrees t (S - {k}) s' j v" if "content s' = upd u k None (content (aStore a))" "j \<noteq> adapter_key k" "agrees t S (aStore a) j v" for s' j v
      using that by (auto simp: agrees_def upd_apply)
    have "inv (aStore a') \<and> tabs (aStore a') = tabs (aStore a) \<and> auto_ckpt_off a' \<and> mem.coherent (aCache a') (agrees t (S - {k}) (aStore a'))
        \<and> content (aStore a') = upd u k None (content (aStore a))"
      by (rule delete_through_evicts [OF h(1) u h(2,3) k g w [unfolded None]]) (rule Q)
    then show ?thesis using t None by (simp add: ad_inv_def after_del_def)
  next
    case (Some x)
    show ?thesis
      using delete_through_law [OF h(1) u h(2,3) k g w, of "agrees t S"] t Some
      by (auto simp: ad_inv_def agrees_def after_del_def upd_apply)
  qed
qed

lemma delete_through_inv:
  assumes i: "ad_inv t S a" and k: "okname k" and g: "cfgStore g = st" and w: "delete_through m1 m2 g t k a = (err, a')"
  shows "ad_inv t S a' \<and> (err = None \<longrightarrow> content (aStore a') = upd t k None (content (aStore a)))"
  using delete_through_step [OF i _ k g w] i by (auto simp: ad_inv_def [of t S a] after_del_def intro: ad_inv_mono split: if_splits)

lemma bulkDelLocked_step:
  assumes i: "ad_inv t S a" and u: "u \<in> tabs (aStore a)" and k: "\<forall>d\<in>set ds. okname (dKey d)" and g: "cfgStore g = st"
    and w: "bulkDelLocked g u ds msg a = (err, a')"
  shows "ad_inv t (after_del (map dKey ds) err S) a'"
proof -
  let ?ks = "map dKey ds"
  obtain e1 a1 where l: "log_call (wal_BulkDelete (cfgEnv g) u ?ks) a = (e1, a1)"
    by (cases "log_call (wal_BulkDelete (cfgEnv g) u ?ks) a")
  have nc: "auto_ckpt_off a" using i by (simp add: ad_inv_def)
  note fr = log_frames(4) [OF l nc]
  have i1: "ad_inv t S a1" using i fr by (simp add: ad_inv_def)
  show ?thesis
  proof (cases e1)
    case (Some x)
    then show ?thesis using w l i1 fr by (auto simp: bulkDelLocked_def del_Keys_def after_del_def)
  next
    case None
    obtain s' where s': "stBulkDel st u ?ks (aStore a1) = (None, s')" "inv s'" "tabs s' = tabs (aStore a1)"
        "content s' = fold (\<lambda>k. upd u k None) ?ks (content (aStore a1))"
      using bulk_del_law [of "aStore a1" u ?ks] i1 k u fr by (auto simp: ad_inv_def)
    have co: "mem.coherent (aCache a1) (agrees t S (aStore a1))" using i1 by (simp add: ad_inv_def)
    have "mem.coherent (fold cache_Del (map adapter_key ?ks) (aCache a1)) (agrees t (S - set ?ks) s')"
      using co by (rule mem.evict_list_coherent) (auto simp: agrees_def s'(4) fold_upd_None)
    then have c: "mem.coherent (fold (\<lambda>k. cache_Del (adapter_key k)) ?ks (aCache a1)) (agrees t (S - set ?ks) s')"
      by (simp add: fold_map comp_def)
    have a': "err = None" "a' = a1\<lparr>aStore := s', aCache := fold (\<lambda>k. cache_Del (adapter_key k)) ?ks (aCache a1)\<rparr>"
      using w l None s'(1) g by (auto simp: bulkDelLocked_def del_Keys_def)
    show ?thesis unfolding a' using c s'(2-4) i1 fr by (simp add: ad_inv_def auto_ckpt_off_def after_del_def)
  qed
qed

lemma bulk_write_step:
  assumes i: "ad_inv t S a" and u: "u \<in> tabs (aStore a)" and e: "\<forall>it\<in>set its. okent (item_Entity it)" and g: "cfgStore g = st"
    and w: "bulk_write m1 m2 g u its a = (err, a')"
  shows "ad_inv t (after_bulk t u (map itKey its) S) a'"
proof -
  let ?es = "map item_Entity its"
  have ie: "items_Entities its = ?es" by (simp add: items_Entities_def)
  have keys: "iKey (item_Entity it) = itKey it" for it by (simp add: item_Entity_def Let_def split: option.splits)
  obtain e1 a1 where l: "log_call (wal_BulkSet (cfgCodec g) (cfgEnv g) u ?es) a = (e1, a1)"
    by (cases "log_call (wal_BulkSet (cfgCodec g) (cfgEnv g) u ?es) a")
  have nc: "auto_ckpt_off a" using i by (simp add: ad_inv_def)
  note fr = log_frames(3) [OF l nc]
  have i1: "ad_inv t S a1" using i fr by (simp add: ad_inv_def)
  show ?thesis
  proof (cases e1)
    case (Some x)
    then have "a' = a1" using w l by (simp add: bulk_write_def ie)
    then show ?thesis using i1 by (auto simp: after_bulk_def intro: ad_inv_mono)
  next
    case None
    obtain s' where s': "stBulkSet st u ?es (aStore a1) = (None, s')" "inv s'" "tabs s' = tabs (aStore a1)"
        "content s' = fold (\<lambda>e. upd u (iKey e) (Some (norm e))) ?es (content (aStore a1))"
      using bulk_set_law [of "aStore a1" u ?es] i1 e u fr by (auto simp: ad_inv_def)
    have same: "content s' t k = content (aStore a1) t k" if "u \<noteq> t \<or> k \<notin> set (map itKey its)" for k
      using that unfolding s'(4) by (subst fold_upd_Some) (auto simp: keys)
    have co: "mem.coherent (aCache a1) (agrees t S (aStore a1))" using i1 by (simp add: ad_inv_def)
    have c: "mem.coherent (aCache a1) (agrees t (after_bulk t u (map itKey its) S) s')"
      using co by (rule coherent_mono) (use same in \<open>auto simp: agrees_def after_bulk_def split: if_splits\<close>)
    have a': "a' = a1\<lparr>aStore := s'\<rparr>" using w l None s'(1) g by (auto simp: bulk_write_def ie)
    show ?thesis unfolding a' using c s'(2,3) i1 by (simp add: ad_inv_def auto_ckpt_off_def)
  qed
qed

lemma ad_Get_step:
  assumes i: "ad_inv t S a" and u: "u \<in> tabs (aStore a)" and k: "okname k" and g: "cfgStore g = st" and w: "ad_Get g u k a = (r, a')"
  shows "ad_inv t (after_get t u k S) a' \<and> aStore a' = aStore a
    \<and> (u = t \<and> k \<notin> S \<longrightarrow>
        (case content (aStore a) t k of None \<Rightarrow> r = Inl ErrNotFound | Some e \<Rightarrow> \<exists>v. r = Inr v \<and> norm v = e))"
proof -
  let ?fn = "\<lambda>x. (stGet (cfgStore g) u k x, x)" and ?P = "agrees t (after_get t u k S) (aStore a)"
  obtain c2 x2 where o: "Once (adapter_key k) ?fn (aCache a) (aStore a) = (r, c2, x2)" and a': "a' = a\<lparr>aCache := c2, aStore := x2\<rparr>"
    using w by (auto simp: ad_Get_def split: prod.splits)
  have i': "ad_inv t (after_get t u k S) a" using i by (rule ad_inv_mono) (auto simp: after_get_def)
  have co: "mem.coherent (aCache a) ?P" and iv: "inv (aStore a)" "t \<in> tabs (aStore a)"
    using i' by (simp_all add: ad_inv_def)
  note gl = get_law [OF iv(1) u k]
  have fn: "?fn (aStore a) = (get u k (aStore a), aStore a)" using g st_ops by simp
  have "?P (adapter_key k) v" if "get u k (aStore a) = Inr v" for v
    using gl that by (cases "content (aStore a) u k") (auto simp: agrees_def after_get_def)
  then have r: "mem.coherent c2 ?P \<and> x2 = aStore a \<and> (r = get u k (aStore a) \<or> (\<exists>v. r = Inr v \<and> ?P (adapter_key k) v))"
    by (intro mem.once_coherent [OF co fn _ o])
  have "case content (aStore a) t k of None \<Rightarrow> r = Inl ErrNotFound | Some e \<Rightarrow> \<exists>v. r = Inr v \<and> norm v = e" if "u = t" "k \<notin> S"
    using r gl that by (cases "content (aStore a) t k") (auto simp: agrees_def after_get_def)
  then show ?thesis unfolding a' using r i' by (simp add: ad_inv_def auto_ckpt_off_def)
qed

lemma ad_Get_inv:
  assumes i: "ad_inv t S a" and k: "okname k" and g: "cfgStore g = st" and w: "ad_Get g t k a = (r, a')"
  shows "ad_inv t S a' \<and> aStore a' = aStore a
    \<and> (k \<notin> S \<longrightarrow> (case content (aStore a) t k of None \<Rightarrow> r = Inl ErrNotFound | Some e \<Rightarrow> \<exists>v. r = Inr v \<and> norm v = e))"
  using ad_Get_step [OF i _ k g w] i by (auto simp: ad_inv_def [of t S a] after_get_def)

lemma ad_GetBySk_inv:
  assumes i: "ad_inv t S a" and u: "u \<in> tabs (aStore a)" and k: "okname sk" and g: "cfgStore g = st" and w: "ad_GetBySecondaryKey g u sk a = (r, a')"
  shows "ad_inv t S a'"
proof -
  obtain x2 where o: "stGetBySk st u sk (aStore a) = (r, x2)" and a': "a' = a\<lparr>aStore := x2\<rparr>"
    using w g by (auto simp: ad_GetBySecondaryKey_def split: prod.splits)
  have l: "inv x2 \<and> tabs x2 = tabs (aStore a) \<and> content x2 = content (aStore a)"
    using get_by_sk_law [of "aStore a" u sk] i u k o by (auto simp: ad_inv_def)
  then have "agrees t S x2 = agrees t S (aStore a)" by (intro ext) (simp add: agrees_def)
  then show ?thesis unfolding a' using i l by (simp add: ad_inv_def auto_ckpt_off_def)
qed

lemma ad_CreateTable_inv:
  assumes i: "ad_inv t S a" and u: "okname u" and g: "cfgStore g = st" and w: "ad_CreateTable g u a = (err, a')"
  shows "ad_inv t S a'"
proof -
  obtain x2 where x2: "create u (aStore a) = (None, x2)" "inv x2" "tabs x2 = insert u (tabs (aStore a))" "content x2 = content (aStore a)"
    using create_law [of "aStore a" u] i u by (auto simp: ad_inv_def)
  have "agrees t S x2 = agrees t S (aStore a)" using x2(4) by (intro ext) (simp add: agrees_def)
  moreover have "a' = a\<lparr>aStore := x2\<rparr>" using w g st_ops x2(1) by (simp add: ad_CreateTable_def)
  ultimately show ?thesis using i x2 by (simp add: ad_inv_def auto_ckpt_off_def)
qed

text \<open>The optimistic lock compares the version the store holds; a missing item has the empty version.\<close>

lemma validate_law:
  assumes "inv x" and "t \<in> tabs x" and "okname (itKey it)" and "cfgStore g = st" and "itVersion it = Some ver"
  shows "validateConsistency g t it x =
    (if (case content x t (itKey it) of None \<Rightarrow> [] | Some e \<Rightarrow> iVersion e) = OldVersion ver then None
     else Some ErrNotCompatibleVersion)"
proof (cases "content x t (itKey it)")
  case None
  then have "get t (itKey it) x = Inl ErrNotFound" using get_law [OF assms(1-3)] by simp
  then show ?thesis using None assms(4,5) st_ops by (simp add: validateConsistency_def zero_entity_def)
next
  case (Some e)
  then obtain e' where e': "get t (itKey it) x = Inr e'" "norm e' = e" using get_law [OF assms(1-3)] by auto
  have "iVersion e' = iVersion e" using norm_version [of e'] e'(2) by simp
  then show ?thesis using Some e' assms(4,5) st_ops by (simp add: validateConsistency_def)
qed

end

section \<open>Histories of the adapter\<close>

text \<open>
  Any sequence of calls on tables that exist, whatever the log answers; with each state, the keys under which a read of
  the table \<open>t\<close> may miss what the store holds.
\<close>

inductive ad_step ::
  "'x adapter_cfg \<Rightarrow> ('x \<Rightarrow> string set) \<Rightarrow> (string \<Rightarrow> bool) \<Rightarrow> (entity \<Rightarrow> bool) \<Rightarrow> string \<Rightarrow> 'x adapter \<times> string set \<Rightarrow> 'x adapter \<times> string set \<Rightarrow> bool"
  for g tabs okname okent t where
  create_table: "okname u \<Longrightarrow> ad_CreateTable g u a = (err, a') \<Longrightarrow> ad_step g tabs okname okent t (a, S) (a', S)"
| set: "u \<in> tabs (aStore a) \<Longrightarrow> okent (item_Entity it) \<Longrightarrow> ad_Set g u it a = (err, a') \<Longrightarrow>
    ad_step g tabs okname okent t (a, S) (a', after_put t u (itKey it) err S)"
| apply_replicated: "u \<in> tabs (aStore a) \<Longrightarrow> okent (item_Entity it) \<Longrightarrow> ad_ApplyReplicated g u it a = (err, a') \<Longrightarrow>
    ad_step g tabs okname okent t (a, S) (a', after_put t u (itKey it) err S)"
| delete: "u \<in> tabs (aStore a) \<Longrightarrow> okname (dKey d) \<Longrightarrow> ad_Delete g u d a = (err, a') \<Longrightarrow>
    ad_step g tabs okname okent t (a, S) (a', after_del [dKey d] err S)"
| apply_replicated_delete: "u \<in> tabs (aStore a) \<Longrightarrow> okname (dKey d) \<Longrightarrow> ad_ApplyReplicatedDelete g u d a = (err, a') \<Longrightarrow>
    ad_step g tabs okname okent t (a, S) (a', after_del [dKey d] err S)"
| bulk_set: "u \<in> tabs (aStore a) \<Longrightarrow> \<forall>it\<in>set its. okent (item_Entity it) \<Longrightarrow> ad_BulkSet g u its a = (err, a') \<Longrightarrow>
    ad_step g tabs okname okent t (a, S) (a', after_bulk t u (map itKey its) S)"
| apply_replicated_bulk: "u \<in> tabs (aStore a) \<Longrightarrow> \<forall>it\<in>set its. okent (item_Entity it) \<Longrightarrow> ad_ApplyReplicatedBulk g u its a = (err, a') \<Longrightarrow>
    ad_step g tabs okname okent t (a, S) (a', after_bulk t u (map itKey its) S)"
| bulk_del: "u \<in> tabs (aStore a) \<Longrightarrow> \<forall>d\<in>set ds. okname (dKey d) \<Longrightarrow> ad_BulkDel g u ds a = (err, a') \<Longrightarrow>
    ad_step g tabs okname okent t (a, S) (a', after_del (map dKey ds) err S)"
| apply_replicated_bulk_delete: "u \<in> tabs (aStore a) \<Longrightarrow> \<forall>d\<in>set ds. okname (dKey d) \<Longrightarrow> ad_ApplyReplicatedBulkDelete g u ds a = (err, a') \<Longrightarrow>
    ad_step g tabs okname okent t (a, S) (a', after_del (map dKey ds) err S)"
| get: "u \<in> tabs (aStore a) \<Longrightarrow> okname k \<Longrightarrow> ad_Get g u k a = (r, a') \<Longrightarrow>
    ad_step g tabs okname okent t (a, S) (a', after_get t u k S)"
| get_by_sk: "u \<in> tabs (aStore a) \<Longrightarrow> okname sk \<Longrightarrow> ad_GetBySecondaryKey g u sk a = (rs, a') \<Longrightarrow>
    ad_step g tabs okname okent t (a, S) (a', S)"

text \<open>An adapter as it is built: a consistent store, an empty cache, a log without automatic checkpoints.\<close>

definition ad_fresh :: "(any \<Rightarrow> string) \<Rightarrow> fsdb batcher adapter \<Rightarrow> bool" where
  "ad_fresh sprint a \<longleftrightarrow> wb_inv sprint (aStore a) \<and> cache_inv (aCache a) \<and> look (aCache a) = Map.empty \<and> auto_ckpt_off a"

context adapter_store
begin

lemma ad_Set_unfold: "ad_Set g t it a = (err, a') \<Longrightarrow>
    a' = a \<and> err \<noteq> None \<and> validateConsistency g t it (aStore a) = err
    \<or> validateConsistency g t it (aStore a) = None \<and> write_through ''db: wal set'' g t (item_Entity it) a = (err, a')"
  by (auto simp: ad_Set_def Let_def split: option.splits)

lemma ad_Delete_unfold: "ad_Delete g t d a = (err, a') \<Longrightarrow>
    a' = a \<and> err \<noteq> None \<and> validateConsistency g t (del_Item d) (aStore a) = err
    \<or> validateConsistency g t (del_Item d) (aStore a) = None
      \<and> delete_through ''db: wal delete'' ''db: delete entity'' g t (dKey d) a = (err, a')"
  by (auto simp: ad_Delete_def Let_def del_Item_def split: option.splits)

lemma ad_step_inv:
  assumes "ad_step g tabs okname okent t p q" and g: "cfgStore g = st" and "ad_inv t (snd p) (fst p)"
  shows "ad_inv t (snd q) (fst q)"
  using assms(1,3)
proof (induction rule: ad_step.induct)
  case (create_table u a err a' S)
  then show ?case using ad_CreateTable_inv [OF _ create_table(1) g] by simp
next
  case (set u a it err a' S)
  have k: "iKey (item_Entity it) = itKey it" by (simp add: item_Entity_def Let_def split: option.splits)
  show ?case using ad_Set_unfold [OF set(3)] write_through_step [OF _ set(1,2) g] set(4) k by (auto simp: after_put_def [where err = "Some _"])
next
  case (apply_replicated u a it err a' S)
  have k: "iKey (item_Entity it) = itKey it" by (simp add: item_Entity_def Let_def split: option.splits)
  show ?case
    using write_through_step [OF _ apply_replicated(1,2) g] apply_replicated(3,4) k by (auto simp: ad_ApplyReplicated_def)
next
  case (delete u a d err a' S)
  show ?case using ad_Delete_unfold [OF delete(3)] delete_through_step [OF _ delete(1,2) g] delete(4) by (auto simp: after_del_def [where err = "Some _"])
next
  case (apply_replicated_delete u a d err a' S)
  then show ?case using delete_through_step [OF _ apply_replicated_delete(1,2) g] by (auto simp: ad_ApplyReplicatedDelete_def)
next
  case (bulk_set u a its err a' S)
  then show ?case using bulk_write_step [OF _ bulk_set(1,2) g] by (auto simp: ad_BulkSet_def)
next
  case (apply_replicated_bulk u a its err a' S)
  then show ?case using bulk_write_step [OF _ apply_replicated_bulk(1,2) g] by (auto simp: ad_ApplyReplicatedBulk_def)
next
  case (bulk_del u a ds err a' S)
  then show ?case using bulkDelLocked_step [OF _ bulk_del(1,2) g] by (auto simp: ad_BulkDel_def)
next
  case (apply_replicated_bulk_delete u a ds err a' S)
  then show ?case
    using bulkDelLocked_step [OF _ apply_replicated_bulk_delete(1,2) g] by (auto simp: ad_ApplyReplicatedBulkDelete_def)
next
  case (get u a k r a' S)
  then show ?case using ad_Get_step [OF _ get(1,2) g get(3)] by simp
next
  case (get_by_sk u a sk rs a' S)
  then show ?case using ad_GetBySk_inv [OF _ get_by_sk(1,2) g get_by_sk(3)] by simp
qed

lemma ad_reach_inv:
  assumes "(ad_step g tabs okname okent t)\<^sup>*\<^sup>* (a, S) (a', S')" and "cfgStore g = st" and "ad_inv t S a"
  shows "ad_inv t S' a'"
proof -
  have "ad_inv t (snd q) (fst q)" if "(ad_step g tabs okname okent t)\<^sup>*\<^sup>* (a, S) q" for q
    using that by (induction rule: rtranclp_induct) (use assms(3) in \<open>auto intro: ad_step_inv [OF _ assms(2)]\<close>)
  then show ?thesis using assms(1) by fastforce
qed

lemma ad_inv_start:
  assumes "inv (aStore a)" and "t \<in> tabs (aStore a)" and "cache_inv (aCache a)" and "look (aCache a) = Map.empty" and "auto_ckpt_off a"
  shows "ad_inv t S a"
  using assms by (simp add: ad_inv_def mem.coherent_def)

text \<open>Compare and set: two writers that read the same version cannot both succeed.\<close>

lemma optimistic_set:
  assumes i: "ad_inv t S a" and g: "cfgStore g = st"
    and it: "okent (item_Entity it)" "itVersion it = Some v" and s: "ad_Set g t it a = (None, a')"
  shows "(case content (aStore a) t (itKey it) of None \<Rightarrow> [] | Some e \<Rightarrow> iVersion e) = OldVersion v
    \<and> ad_inv t S a' \<and> (\<exists>e. content (aStore a') t (itKey it) = Some e \<and> iVersion e = PromoteVersion v)"
proof -
  have h: "inv (aStore a)" "t \<in> tabs (aStore a)" using i by (simp_all add: ad_inv_def)
  have k: "iKey (item_Entity it) = itKey it" by (simp add: item_Entity_def Let_def split: option.splits)
  have nm: "okname (itKey it)" using okent_key [OF it(1)] k by simp
  have v: "validateConsistency g t it (aStore a) = None" and w: "write_through ''db: wal set'' g t (item_Entity it) a = (None, a')"
    using ad_Set_unfold [OF s] by auto
  have ver: "iVersion (norm (item_Entity it)) = PromoteVersion v"
    using it(2) by (simp add: norm_version item_Entity_def)
  show ?thesis
    using v validate_law [OF h nm g it(2)] write_through_inv [OF i it(1) g w] k ver
    by (auto simp: upd_apply split: if_splits)
qed

lemma optimistic_reject:
  assumes i: "ad_inv t S a" and g: "cfgStore g = st" and it: "okname (itKey it)" "itVersion it = Some v"
    and ne: "(case content (aStore a) t (itKey it) of None \<Rightarrow> [] | Some e \<Rightarrow> iVersion e) \<noteq> OldVersion v"
  shows "ad_Set g t it a = (Some ErrNotCompatibleVersion, a)"
proof -
  have h: "inv (aStore a)" "t \<in> tabs (aStore a)" using i by (simp_all add: ad_inv_def)
  show ?thesis using validate_law [OF h it(1) g it(2)] ne by (simp add: ad_Set_def Let_def)
qed

end

section \<open>Recovery\<close>

text \<open>The effect of an acknowledged request on the contents of a store.\<close>

fun req_effect :: "(entity \<Rightarrow> entity) \<Rightarrow> wal_req \<Rightarrow> contents \<Rightarrow> contents" where
  "req_effect nf (ReqSet t e) = upd t (iKey e) (Some (nf e))"
| "req_effect nf (ReqDel t k) = upd t k None"

fun req_ok :: "(string \<Rightarrow> bool) \<Rightarrow> (entity \<Rightarrow> bool) \<Rightarrow> wal_req \<Rightarrow> bool" where
  "req_ok okname okent (ReqSet t e) \<longleftrightarrow> okname t \<and> okent e"
| "req_ok okname okent (ReqDel t k) \<longleftrightarrow> okname t \<and> okname k"

text \<open>What the log relies on in its codec: decoding what was encoded gives the entity back, up to its normal form.\<close>

definition codec_faithful :: "codec \<Rightarrow> (entity \<Rightarrow> bool) \<Rightarrow> (entity \<Rightarrow> entity) \<Rightarrow> wal_req list \<Rightarrow> bool" where
  "codec_faithful c okent nf rs \<longleftrightarrow> (\<forall>t e b. ReqSet t e \<in> set rs \<longrightarrow> Encode c e = Inr b \<longrightarrow>
     (\<exists>e'. Decode c b = Inr e' \<and> okent e' \<and> iKey e' = iKey e \<and> nf e' = nf e))"

context kv_store
begin

lemma apply_req:
  assumes i: "inv s" and ok: "req_ok okname okent r" and ne: "\<And>k. okname k \<Longrightarrow> k \<noteq> []"
    and c: "codec_faithful c okent norm [r]" and e: "req_entry c n r = Inr e"
    and ops: "opCreateTable ops = create" "opSet ops = put" "opDel ops = del"
  shows "\<exists>s'. applyEntry c ops e s = (None, s') \<and> inv s' \<and> tabs s \<subseteq> tabs s' \<and> content s' = req_effect norm r (content s)"
proof (cases r)
  case (ReqSet t ent)
  obtain b where b: "Encode c ent = Inr b" "e = set_entry n t ent b"
    using e ReqSet by (auto split: sum.splits)
  obtain ent' where d: "Decode c b = Inr ent'" "okent ent'" "iKey ent' = iKey ent" "norm ent' = norm ent"
    using c b(1) ReqSet by (auto simp: codec_faithful_def)
  have "iKey ent' \<noteq> []" using ne okent_key d(2) by blast
  then have de: "decodeEntity c e = Inr ent'" using d(1) b(2) by (simp add: decodeEntity_def set_entry_def)
  have t: "okname t" using ok ReqSet by simp
  obtain s1 where s1: "create t s = (None, s1)" "inv s1" "tabs s1 = insert t (tabs s)" "content s1 = content s"
    using create_law [OF i t] by auto
  have ts: "t \<in> tabs s1" using s1(3) by simp
  obtain s2 where "put t ent' s1 = (None, s2)" "inv s2" "tabs s2 = tabs s1" "content s2 = upd t (iKey ent') (Some (norm ent')) (content s1)"
    using put_law [OF s1(2) ts d(2)] by auto
  then show ?thesis
    using s1 de b(2) d ops ReqSet by (auto simp: applyEntry_def set_entry_def)
next
  case (ReqDel t k)
  have en: "e = del_entry n t k" and t: "okname t" and k: "okname k" using e ok ReqDel by simp_all
  obtain s1 where s1: "create t s = (None, s1)" "inv s1" "tabs s1 = insert t (tabs s)" "content s1 = content s"
    using create_law [OF i t] by auto
  have ts: "t \<in> tabs s1" using s1(3) by simp
  obtain r' s2 where "del t k s1 = (r', s2)" "r' = None \<or> r' = Some ErrNotFound" "inv s2" "tabs s2 = tabs s1" "content s2 = upd t k None (content s1)"
    using del_law [OF s1(2) ts k] by auto
  then show ?thesis
    using s1 en ops ReqDel by (auto simp: applyEntry_def del_entry_def)
qed

lemma apply_reqs:
  assumes "inv s" and "\<forall>r\<in>set rs. req_ok okname okent r" and ne: "\<And>k. okname k \<Longrightarrow> k \<noteq> []"
    and "codec_faithful c okent norm rs" and "length (req_entries c n rs) = length rs"
    and ops: "opCreateTable ops = create" "opSet ops = put" "opDel ops = del"
  shows "\<exists>s'. apply_all (applyEntry c ops) (req_entries c n rs) s = (None, s') \<and> inv s' \<and> tabs s \<subseteq> tabs s'
    \<and> content s' = fold (req_effect norm) rs (content s)"
  using assms(1,2,4,5)
proof (induction rs arbitrary: s n)
  case Nil
  then show ?case by simp
next
  case (Cons r rs)
  obtain e where e: "req_entry c (n + 1) r = Inr e" using Cons.prems(4) by (cases "req_entry c (n + 1) r") auto
  have c1: "codec_faithful c okent norm [r]" and c2: "codec_faithful c okent norm rs"
    using Cons.prems(3) by (auto simp: codec_faithful_def)
  have ok: "req_ok okname okent r" using Cons.prems(2) by simp
  obtain s1 where s1: "applyEntry c ops e s = (None, s1)" "inv s1" "content s1 = req_effect norm r (content s)" "tabs s \<subseteq> tabs s1"
    using apply_req [OF Cons.prems(1) ok ne c1 e ops] by auto
  show ?case using Cons.IH [OF s1(2) _ c2, of "n + 1"] Cons.prems(2,4) e s1 by auto
qed

end

section \<open>The adapter over the batched file store\<close>

definition wb_store :: "(any \<Rightarrow> string) \<Rightarrow> (bytes \<Rightarrow> goerr + entity) \<Rightarrow> (entity \<Rightarrow> nat option) \<Rightarrow> fsdb batcher store_ops" where
  "wb_store sprint decode jl =
     (let db = fs_ops sprint decode in
      \<lparr>stCreateTable = wb_CreateTable db, stSet = wb_Set db jl, stBulkSet = wb_BulkSet db jl, stBulkDel = wb_BulkDel db jl,
       stGet = wb_Get db, stGetBySk = wb_GetBySk db, stDel = wb_Del db jl, stFlush = Some (Flush db),
       stHydrate = Some (wb_ReplaceWithCheckpointBlobs db)\<rparr>)"

lemma wb_store_simps [simp]:
  "stSet (wb_store sprint decode jl) = wb_Set (fs_ops sprint decode) jl"
  "stDel (wb_store sprint decode jl) = wb_Del (fs_ops sprint decode) jl"
  "stGet (wb_store sprint decode jl) = wb_Get (fs_ops sprint decode)"
  "stGetBySk (wb_store sprint decode jl) = wb_GetBySk (fs_ops sprint decode)"
  "stBulkDel (wb_store sprint decode jl) = wb_BulkDel (fs_ops sprint decode) jl"
  "stBulkSet (wb_store sprint decode jl) = wb_BulkSet (fs_ops sprint decode) jl"
  "stCreateTable (wb_store sprint decode jl) = wb_CreateTable (fs_ops sprint decode)"
  by (simp_all add: wb_store_def Let_def)

lemma fs_ops_simps [simp]: "dbSet (fs_ops sprint decode) = fsdb_Set sprint" "dbDel (fs_ops sprint decode) = fsdb_Del"
  by (simp_all add: fs_ops_def)

interpretation ad: adapter_store "wb_inv sprint" "\<lambda>b. tables (inner b)" "wb_sel sprint" "safe sprint" simple "ok_entity sprint"
  "wb_CreateTable (fs_ops sprint decode)" "wb_Set (fs_ops sprint decode) jl" "wb_Del (fs_ops sprint decode) jl"
  "wb_Get (fs_ops sprint decode)" "wb_store sprint decode jl" for sprint decode jl
proof (unfold_locales, goal_cases)
  case 1
  show ?case by simp
next
  case (2 s t es)
  show ?case using fs.batcher_bulk_set [OF _ _ 2, of "fs_ops sprint decode" jl] by simp
next
  case (3 s t ks)
  show ?case using fs.batcher_bulk_del [OF _ _ 3, of "fs_ops sprint decode" jl] by simp
next
  case (4 s t sk)
  show ?case using fs.batcher_get_by_sk [OF _ _ 4(1), of "fs_ops sprint decode"] by simp
next
  case (5 e)
  show ?case by simp
qed

end
