(* ===== verification/Adapter_Properties.thy ===== *)
theory Adapter_Properties
  imports Adapter_Correct
begin

text \<open>
  What the adapter guarantees over the write batcher and the file-backed store: reads through the cache, the
  optimistic lock, recovery of everything acknowledged, and three behaviours of the code that break them.
\<close>

section \<open>Acknowledged requests\<close>

datatype ad_req = AdSet string item | AdDel string delete_item

fun ad_exec :: "'x adapter_cfg \<Rightarrow> ad_req \<Rightarrow> 'x adapter \<Rightarrow> goerr option \<times> 'x adapter" where
  "ad_exec g (AdSet t it) a = ad_Set g t it a"
| "ad_exec g (AdDel t d) a = ad_Delete g t d a"

fun ad_run :: "'x adapter_cfg \<Rightarrow> ad_req list \<Rightarrow> 'x adapter \<Rightarrow> goerr option \<times> 'x adapter" where
  "ad_run g [] a = (None, a)"
| "ad_run g (r # rs) a = (case ad_exec g r a of (Some err, a) \<Rightarrow> (Some err, a) | (None, a) \<Rightarrow> ad_run g rs a)"

fun logged :: "ad_req \<Rightarrow> wal_req" where
  "logged (AdSet t it) = ReqSet t (item_Entity it)"
| "logged (AdDel t d) = ReqDel t (dKey d)"

fun req_table :: "wal_req \<Rightarrow> string" where
  "req_table (ReqSet t e) = t"
| "req_table (ReqDel t k) = t"

fun req_target :: "wal_req \<Rightarrow> string \<times> string" where
  "req_target (ReqSet t e) = (t, iKey e)"
| "req_target (ReqDel t k) = (t, k)"

lemma effects_override:
  assumes "\<forall>t k. (t, k) \<notin> req_target ` set rs \<longrightarrow> m t k = m' t k"
  shows "fold (req_effect nf) rs m = fold (req_effect nf) rs m'"
  using assms
proof (induction rs arbitrary: m m')
  case Nil
  then show ?case by (intro ext) simp
next
  case (Cons r rs)
  have "\<forall>t k. (t, k) \<notin> req_target ` set rs \<longrightarrow> req_effect nf r m t k = req_effect nf r m' t k"
    using Cons.prems by (cases r) (auto simp: upd_apply)
  then show ?case using Cons.IH by simp
qed

lemma req_entries_drop:
  assumes "length (req_entries c s rs) = length rs" and "n \<le> length rs"
  shows "drop n (req_entries c s rs) = req_entries c (s + of_nat n) (drop n rs)"
  using assms
proof (induction rs arbitrary: s n)
  case (Cons r rs)
  then show ?case by (cases n) (auto simp: add.assoc split: sum.splits)
qed simp

context kv_store
begin

text \<open>Replaying the tail of a log over what is left of a store.\<close>

lemma replay_rebuilds:
  assumes i: "inv y" and ok: "\<forall>r\<in>set rs. req_ok okname okent r" and ne: "\<And>k. okname k \<Longrightarrow> k \<noteq> []"
    and codec: "codec_faithful c okent norm rs" and nl: "length (req_entries c 0 rs) = length rs" and n: "n \<le> length rs"
    and ops: "opCreateTable ops = create" "opSet ops = put" "opDel ops = del"
    and left: "\<forall>t k. (t, k) \<notin> req_target ` set (drop n rs) \<longrightarrow> content y t k = fold (req_effect norm) (take n rs) m t k"
  shows "\<exists>y1. apply_all (applyEntry c ops) (drop n (req_entries c 0 rs)) y = (None, y1) \<and> inv y1 \<and> tabs y \<subseteq> tabs y1
    \<and> content y1 = fold (req_effect norm) rs m"
proof -
  note dr = req_entries_drop [OF nl n]
  have ok': "\<forall>r\<in>set (drop n rs). req_ok okname okent r" using ok by (auto dest: in_set_dropD)
  have cf: "codec_faithful c okent norm (drop n rs)"
    using codec set_drop_subset [of n rs] unfolding codec_faithful_def by blast
  have len: "length (req_entries c (of_nat n) (drop n rs)) = length (drop n rs)"
    using arg_cong [OF dr, of length] nl by simp
  obtain y1 where y1: "apply_all (applyEntry c ops) (req_entries c (of_nat n) (drop n rs)) y = (None, y1)"
      "inv y1" "content y1 = fold (req_effect norm) (drop n rs) (content y)" "tabs y \<subseteq> tabs y1"
    using apply_reqs [OF i ok' ne cf len ops] by auto
  have "content y1 = fold (req_effect norm) (drop n rs) (fold (req_effect norm) (take n rs) m)"
    unfolding y1(3) by (rule effects_override [OF left])
  also have "\<dots> = fold (req_effect norm) rs m"
    using fold_append [of "req_effect norm" "take n rs" "drop n rs"] by simp
  finally show ?thesis using y1 dr by auto
qed

end

lemma wal_exec_any_store:
  assumes "auto_off (wOpts w)" and "wal_exec c env r w x = (None, w', x')"
  shows "wal_exec c env r w y = (None, w', y) \<and> auto_off (wOpts w')"
proof -
  obtain e w1 where e: "req_entry c (wSeq w + 1) r = Inr e" "appendLocked e w = (None, w1)"
      "maybeAutoCheckpointLocked env (w1\<lparr>wSeq := wSeq w + 1\<rparr>) x = (None, w', x')"
    using wal_exec_appends [OF assms(2)] by blast
  have o: "wOpts w1 = wOpts w" using appendLocked_seq [OF e(2)] by simp
  have w': "w' = w1\<lparr>wSeq := wSeq w + 1\<rparr>" using e(3) assms(1) o by (simp add: maybeAuto_off)
  have "wal_exec c env r w y = (None, w', y)"
    using e(1,2) assms(1) o w'
    by (cases r) (auto simp: wal_Set_def wal_Delete_def Let_def maybeAuto_off split: sum.splits)
  then show ?thesis using assms(1) o w' by simp
qed

lemma wal_run_any_store:
  assumes "auto_off (wOpts w)" and "wal_run c env rs w x = (None, w', x')"
  shows "wal_run c env rs w y = (None, w', y)"
  using assms
proof (induction rs arbitrary: w x)
  case (Cons r rs)
  obtain w1 x1 where r: "wal_exec c env r w x = (None, w1, x1)" "wal_run c env rs w1 x1 = (None, w', x')"
    using Cons.prems(2) by (auto split: prod.splits option.splits)
  show ?case using wal_exec_any_store [OF Cons.prems(1) r(1), of y] Cons.IH [OF _ r(2)] by simp
qed auto

context adapter_store
begin

lemma ad_exec_law:
  assumes i: "inv (aStore a)" "req_table (logged r) \<in> tabs (aStore a)" "auto_ckpt_off a" "cache_inv (aCache a)"
    and ok: "req_ok okname okent (logged r)" and g: "cfgStore g = st" and run: "ad_exec g r a = (None, a')"
  shows "inv (aStore a') \<and> tabs (aStore a') = tabs (aStore a) \<and> auto_ckpt_off a' \<and> cache_inv (aCache a')
    \<and> content (aStore a') = req_effect norm (logged r) (content (aStore a))
    \<and> (\<exists>w w'. aLog a = Some w \<and> aLog a' = Some w' \<and> wal_exec (cfgCodec g) (cfgEnv g) (logged r) w (aStore a) = (None, w', aStore a))"
proof -
  have co: "mem.coherent (aCache a) (\<lambda>_ _. True)" using i(4) by (simp add: mem.coherent_def)
  show ?thesis
  proof (cases r)
    case (AdSet t it)
    have w: "write_through ''db: wal set'' g t (item_Entity it) a = (None, a')" and t: "t \<in> tabs (aStore a)" and e: "okent (item_Entity it)"
      using run ad_Set_unfold [of g t it a None a'] AdSet i(2) ok by auto
    show ?thesis
      using write_through_law [OF i(1) t i(3) co e g w, of "\<lambda>_ _ _. True"] AdSet by (simp add: mem.coherent_def)
  next
    case (AdDel t d)
    have w: "delete_through ''db: wal delete'' ''db: delete entity'' g t (dKey d) a = (None, a')" and t: "t \<in> tabs (aStore a)"
        and k: "okname (dKey d)"
      using run ad_Delete_unfold [of g t d a None a'] AdDel i(2) ok by auto
    show ?thesis
      using delete_through_law [OF i(1) t i(3) co k g w, of "\<lambda>_ _ _. True"] AdDel by (simp add: mem.coherent_def)
  qed
qed

lemma ad_run_law:
  assumes "inv (aStore a)" "auto_ckpt_off a" "cache_inv (aCache a)"
    and "\<forall>r\<in>set rs. req_table (logged r) \<in> tabs (aStore a) \<and> req_ok okname okent (logged r)"
    and g: "cfgStore g = st" and "ad_run g rs a = (None, a')" and "aLog a = Some w"
  shows "\<exists>w'. aLog a' = Some w' \<and> wal_run (cfgCodec g) (cfgEnv g) (map logged rs) w (aStore a) = (None, w', aStore a)
    \<and> content (aStore a') = fold (req_effect norm) (map logged rs) (content (aStore a))"
  using assms(1-4,6,7)
proof (induction rs arbitrary: a w)
  case (Cons r rs)
  obtain a1 where a1: "ad_exec g r a = (None, a1)" "ad_run g rs a1 = (None, a')"
    using Cons.prems(5) by (auto split: prod.splits option.splits)
  have t: "req_table (logged r) \<in> tabs (aStore a)" and ok: "req_ok okname okent (logged r)" using Cons.prems(4) by simp_all
  note l = ad_exec_law [OF Cons.prems(1) t Cons.prems(2,3) ok g a1(1)]
  obtain w1 where w1: "aLog a1 = Some w1" "wal_exec (cfgCodec g) (cfgEnv g) (logged r) w (aStore a) = (None, w1, aStore a)"
    using l Cons.prems(6) by auto
  obtain w' where w': "aLog a' = Some w'" "wal_run (cfgCodec g) (cfgEnv g) (map logged rs) w1 (aStore a1) = (None, w', aStore a1)"
      "content (aStore a') = fold (req_effect norm) (map logged rs) (content (aStore a1))"
    using Cons.IH [OF _ _ _ _ a1(2) w1(1)] l Cons.prems(4) by auto
  have nc: "auto_off (wOpts w1)" using l w1(1) by (auto simp: auto_ckpt_off_def)
  show ?case using w' w1 l wal_run_any_store [OF nc w'(2), of "aStore a"] by simp
qed auto

text \<open>Load after a crash rebuilds the contents, whatever the crash left under the keys of the requests behind the checkpoint.\<close>

lemma reload_rebuilds:
  assumes opts: "Durability opts = SyncEveryWrite" "auto_off opts"
    and w1: "wal_inv w1 (req_entries (cfgCodec g) 0 rs)" "length (req_entries (cfgCodec g) 0 rs) = length rs"
      "fsynced (wFile w1) = frames (req_entries (cfgCodec g) 0 rs)" and len: "length rs < 18446744073709551616"
    and g: "cfgStore g = st" and names: "\<And>k. okname k \<Longrightarrow> k \<noteq> []" and ok: "\<forall>r\<in>set rs. req_ok okname okent r"
    and codec: "codec_faithful (cfgCodec g) okent norm rs"
    and crash: "foutcomes f2 = []" "fdata f2 = fsynced (wFile w1) @ t" "t = [] \<or> torn t"
    and reopen: "New f2 opts = Inr w2"
    and a2: "inv (aStore a2)" "aLog a2 = Some w2"
    and left: "\<forall>t k. (t, k) \<notin> req_target ` set (drop n rs) \<longrightarrow> content (aStore a2) t k = fold (req_effect norm) (take n rs) m t k"
    and ck: "if CheckpointConfigured opts then ReadCheckpointTables (cfgEnv g) (CheckpointDir opts) (aStore a2) = Inr (of_nat n, []) else n = 0"
      "n \<le> length rs"
    and env: "\<And>es y. CheckpointConfigured opts \<Longrightarrow> apply_all (applyEntry (cfgCodec g) (store_operations st)) es (aStore a2) = (None, y) \<Longrightarrow> inv y \<Longrightarrow> tabs (aStore a2) \<subseteq> tabs y \<Longrightarrow>
      content y = fold (req_effect norm) rs m \<Longrightarrow> \<exists>y2 y3. run_before (cfgEnv g) y = (None, y2)
      \<and> SaveLastSeq (cfgEnv g) (CheckpointDir opts) (of_nat (length rs)) y2 = (None, y3) \<and> content y3 = content y \<and> Q y3"
  shows "\<exists>w3 y3. ad_Load g a2 = (None, a2\<lparr>aLog := Some w3, aStore := y3\<rparr>) \<and> content y3 = fold (req_effect norm) rs m \<and> (CheckpointConfigured opts \<longrightarrow> Q y3)
    \<and> wSeq w3 = of_nat (length rs) \<and> wOpts w3 = opts
    \<and> (\<not> TruncateAfterCheckpoint (CheckpointPolicy opts) \<longrightarrow> wal_inv w3 (req_entries (cfgCodec g) 0 rs)
        \<and> (CheckpointConfigured opts \<longrightarrow> fsynced (wFile w3) = frames (req_entries (cfgCodec g) 0 rs)))"
proof -
  let ?app = "apply_all (applyEntry (cfgCodec g) (store_operations st))"
  have ops: "opCreateTable (store_operations st) = create" "opSet (store_operations st) = put" "opDel (store_operations st) = del"
    using st_ops by (simp_all add: store_operations_def)
  obtain y1 where y1: "?app (drop n (req_entries (cfgCodec g) 0 rs)) (aStore a2) = (None, y1)"
      "inv y1" "tabs (aStore a2) \<subseteq> tabs y1" "content y1 = fold (req_effect norm) rs m"
    using replay_rebuilds [OF a2(1) ok names codec w1(2) ck(2) ops left] by auto
  obtain y2 y3 where save: "if CheckpointConfigured opts then run_before (cfgEnv g) y1 = (None, y2)
      \<and> SaveLastSeq (cfgEnv g) (CheckpointDir opts) (of_nat (length rs)) y2 = (None, y3) else y3 = y1" "content y3 = content y1"
      "CheckpointConfigured opts \<longrightarrow> Q y3"
    using env [OF _ y1] by (cases "CheckpointConfigured opts") auto
  obtain w3 where w3: "wal_Load (cfgCodec g) (cfgEnv g) [store_operations st] w2 (aStore a2) = (None, w3, y3)" "wSeq w3 = of_nat (length rs)"
      "wal_inv w3 (if CheckpointConfigured opts \<and> TruncateAfterCheckpoint (CheckpointPolicy opts) then [] else req_entries (cfgCodec g) 0 rs)"
      "wOpts w3 = opts" "CheckpointConfigured opts \<and> \<not> TruncateAfterCheckpoint (CheckpointPolicy opts)
        \<longrightarrow> fsynced (wFile w3) = frames (req_entries (cfgCodec g) 0 rs)"
    using reload_log [OF opts w1 len crash reopen ck y1(1) save(1)] by blast
  have "ad_Load g a2 = (None, a2\<lparr>aLog := Some w3, aStore := y3\<rparr>)" using w3(1) a2(2) g by (simp add: ad_Load_def log_call_def wrap_def)
  then show ?thesis using w3(2-) save(2,3) y1(4) by (intro exI [of _ w3] exI [of _ y3]) auto
qed

lemma restart_rebuilds:
  assumes opts: "Durability opts = SyncEveryWrite" "auto_off opts"
    and w0: "wal_inv w0 []" "wSeq w0 = 0" "wOpts w0 = opts"
    and a0: "inv (aStore a0)" "auto_ckpt_off a0" "cache_inv (aCache a0)" "aLog a0 = Some w0"
    and g: "cfgStore g = st" and names: "\<And>k. okname k \<Longrightarrow> k \<noteq> []"
    and reqs: "\<forall>r\<in>set rs. req_table (logged r) \<in> tabs (aStore a0) \<and> req_ok okname okent (logged r)"
    and run: "ad_run g rs a0 = (None, a1)" "rs \<noteq> []" "length rs < 18446744073709551616"
    and sz: "\<forall>e\<in>set (req_entries (cfgCodec g) 0 (map logged rs)). payload_size e \<le> 268435456"
    and codec: "codec_faithful (cfgCodec g) okent norm (map logged rs)"
    and crash: "foutcomes f2 = []" "fdata f2 = fsynced (wFile (the (aLog a1))) @ t" "t = [] \<or> torn t"
    and reopen: "New f2 opts = Inr w2"
    and a2: "inv (aStore a2)" "aLog a2 = Some w2"
    and left: "\<forall>t k. (t, k) \<notin> req_target ` set (map logged (drop n rs)) \<longrightarrow>
      content (aStore a2) t k = fold (req_effect norm) (map logged (take n rs)) (content (aStore a0)) t k"
    and ck: "if CheckpointConfigured opts then ReadCheckpointTables (cfgEnv g) (CheckpointDir opts) (aStore a2) = Inr (of_nat n, []) else n = 0"
      "n \<le> length rs"
    and env: "\<And>y. CheckpointConfigured opts \<Longrightarrow> inv y \<Longrightarrow> content y = content (aStore a1) \<Longrightarrow> \<exists>y2 y3. run_before (cfgEnv g) y = (None, y2)
      \<and> SaveLastSeq (cfgEnv g) (CheckpointDir opts) (of_nat (length rs)) y2 = (None, y3) \<and> content y3 = content y"
  shows "\<exists>a3. ad_Load g a2 = (None, a3) \<and> content (aStore a3) = content (aStore a1)"
proof -
  let ?rs = "map logged rs"
  obtain w1 where w1: "aLog a1 = Some w1" "wal_run (cfgCodec g) (cfgEnv g) ?rs w0 (aStore a0) = (None, w1, aStore a0)"
      "content (aStore a1) = fold (req_effect norm) ?rs (content (aStore a0))"
    using ad_run_law [OF a0(1-3) reqs g run(1) a0(4)] by auto
  have log: "wal_inv w1 (req_entries (cfgCodec g) 0 ?rs)" "length (req_entries (cfgCodec g) 0 ?rs) = length ?rs"
      "fsynced (wFile w1) = frames (req_entries (cfgCodec g) 0 ?rs)" "length ?rs < 18446744073709551616"
    using wal_run_records [OF w1(2), of "[]"] w0 opts run(2,3) sz by simp_all
  have ok: "\<forall>r\<in>set ?rs. req_ok okname okent r" and nd: "n \<le> length ?rs" and cr: "fdata f2 = fsynced (wFile w1) @ t"
    using reqs ck(2) crash(2) w1(1) by auto
  have lf: "\<forall>t k. (t, k) \<notin> req_target ` set (drop n ?rs) \<longrightarrow> content (aStore a2) t k = fold (req_effect norm) (take n ?rs) (content (aStore a0)) t k"
    using left by (simp add: drop_map take_map)
  show ?thesis
    using reload_rebuilds [OF opts log g names ok codec crash(1) cr crash(3) reopen a2 lf ck(1) nd, of "\<lambda>_. True"] env w1(3) by auto
qed

text \<open>A record the log took reaches the store and the cache.\<close>

lemma write_through_succeeds:
  assumes i: "inv (aStore a)" "t \<in> tabs (aStore a)" and e: "okent e" and g: "cfgStore g = st"
    and w: "aLog a = Some w" "wal_Set (cfgCodec g) (cfgEnv g) t e w (aStore a) = (None, w', aStore a)"
  shows "\<exists>a'. write_through msg g t e a = (None, a') \<and> aLog a' = Some w'"
proof -
  obtain s' where "put t e (aStore a) = (None, s')" using put_law [OF i e] by auto
  then show ?thesis using g st_ops w by (simp add: write_through_def log_call_def SaveIfOk_def wrap_def Let_def)
qed

end

section \<open>Properties\<close>

lemma ad_fresh_inv:
  assumes "ad_fresh sprint a" and "t \<in> tables (inner (aStore a))"
  shows "ad.ad_inv sprint t S a"
  using assms by (intro ad.ad_inv_start) (simp_all add: ad_fresh_def)

text \<open>C2. Reads of a table go through the cache that all tables share, and yet see the store: from a newly built adapter over
  the batched file store, with a log that takes no automatic checkpoints, after any history of table creations, Sets,
  Deletes, bulk puts, bulk deletes, replicated entries and reads, on any existing tables, with plain file names and values
  JSON can carry, whatever the log's failures and the cache's capacity, time-to-live and clock, Get of a plain key in a
  table t that existed from the start answers with the item the store holds there, or with ErrNotFound where it holds none, provided that since the last acknowledged single put of the key
  in t or deletion of it in any table (or since the start) no bulk put wrote the key in t and no put or Get of the key went
  to another table.\<close>

theorem adapter_reads_what_the_store_holds:
  assumes fresh: "ad_fresh sprint a0" "t \<in> tables (inner (aStore a0))" and g: "cfgStore g = wb_store sprint decode jl"
    and steps: "(ad_step g (\<lambda>b. tables (inner b)) simple (ok_entity sprint) t)\<^sup>*\<^sup>* (a0, {}) (a, S)" and k: "simple k" "k \<notin> S"
    and get: "ad_Get g t k a = (r, a')"
  shows "(case wb_sel sprint (aStore a) t k of None \<Rightarrow> r = Inl ErrNotFound
      | Some e \<Rightarrow> \<exists>v. r = Inr v \<and> safe sprint v = e) \<and> aStore a' = aStore a"
  using ad.ad_Get_inv [OF ad.ad_reach_inv [OF steps g ad_fresh_inv [OF fresh]] k(1) g get] k(2) by simp

text \<open>C3. The optimistic lock prevents lost updates: from a newly built adapter over the batched file store, with a log that takes
  no automatic checkpoints, after any history of calls on existing tables, with plain file names and values JSON can
  carry, a Set with a version into a table that existed from the start succeeds only if the store held the item under its OldVersion (the empty
  version where there is no item); afterwards the store holds its PromoteVersion, and every second writer that still
  expects another version is refused with ErrNotCompatibleVersion and changes nothing, neither store, cache nor log.\<close>

theorem optimistic_lock_prevents_lost_update:
  assumes fresh: "ad_fresh sprint a0" "t \<in> tables (inner (aStore a0))" and g: "cfgStore g = wb_store sprint decode jl"
    and steps: "(ad_step g (\<lambda>b. tables (inner b)) simple (ok_entity sprint) t)\<^sup>*\<^sup>* (a0, {}) (a, S)"
    and w1: "ok_entity sprint (item_Entity it1)" "itVersion it1 = Some v1" "ad_Set g t it1 a = (None, a1)"
    and w2: "itKey it2 = itKey it1" "itVersion it2 = Some v2" "OldVersion v2 \<noteq> PromoteVersion v1"
  shows "(case wb_sel sprint (aStore a) t (itKey it1) of None \<Rightarrow> [] | Some e \<Rightarrow> iVersion e) = OldVersion v1
    \<and> (\<exists>e. wb_sel sprint (aStore a1) t (itKey it1) = Some e \<and> iVersion e = PromoteVersion v1)
    \<and> ad_Set g t it2 a1 = (Some ErrNotCompatibleVersion, a1)"
proof -
  have i: "ad.ad_inv sprint t S a" by (rule ad.ad_reach_inv [OF steps g ad_fresh_inv [OF fresh]])
  note l = ad.optimistic_set [OF i g w1]
  have k: "simple (itKey it2)"
    using w1(1) w2(1) by (simp add: ok_entity_def item_Entity_def Let_def split: option.splits)
  have "ad_Set g t it2 a1 = (Some ErrNotCompatibleVersion, a1)"
    using l w2 by (intro ad.optimistic_reject [OF _ g k w2(2)]) auto
  then show ?thesis using l by simp
qed

text \<open>A restart loses nothing that was acknowledged: over the batched file store, with a log that
  synchronises every write, take any acknowledged sequence of Sets and Deletes (optimistic or not).  After a
  crash, possibly with a torn record at the end of the log, from a checkpoint at the n-th request, and
  whatever the crash left in the store under the keys of the later requests, Load rebuilds exactly the
  contents the store had before the crash.\<close>

theorem restart_recovers_contents:
  assumes opts: "Durability opts = SyncEveryWrite" "auto_off opts"
    and new: "New \<lparr>fdata = [], fpos = 0, fsynced = [], foutcomes = io\<rparr> opts = Inr w0"
    and a0: "ad_fresh sprint a0" "aLog a0 = Some w0" and g: "cfgStore g = wb_store sprint decode jl"
    and reqs: "\<forall>r\<in>set rs. req_table (logged r) \<in> tables (inner (aStore a0)) \<and> req_ok simple (ok_entity sprint) (logged r)"
    and run: "ad_run g rs a0 = (None, a1)" "rs \<noteq> []" "length rs < 18446744073709551616"
    and sz: "\<forall>e\<in>set (req_entries (cfgCodec g) 0 (map logged rs)). payload_size e \<le> 268435456"
    and codec: "codec_faithful (cfgCodec g) (ok_entity sprint) (safe sprint) (map logged rs)"
    and crash: "foutcomes f2 = []" "fdata f2 = fsynced (wFile (the (aLog a1))) @ t" "t = [] \<or> torn t"
    and reopen: "New f2 opts = Inr w2"
    and a2: "wb_inv sprint (aStore a2)" "aLog a2 = Some w2"
    and left: "\<forall>t k. (t, k) \<notin> req_target ` set (map logged (drop n rs)) \<longrightarrow>
      wb_sel sprint (aStore a2) t k = fold (req_effect (safe sprint)) (map logged (take n rs)) (wb_sel sprint (aStore a0)) t k"
    and ck: "if CheckpointConfigured opts then ReadCheckpointTables (cfgEnv g) (CheckpointDir opts) (aStore a2) = Inr (of_nat n, []) else n = 0"
      "n \<le> length rs"
    and env: "BeforeCheckpoint (cfgEnv g) = Some (Flush (fs_ops sprint decode))"
      "\<forall>s x. SaveLastSeq (cfgEnv g) (CheckpointDir opts) s x = (None, x)"
  shows "\<exists>a3. ad_Load g a2 = (None, a3) \<and> wb_sel sprint (aStore a3) = wb_sel sprint (aStore a1)"
proof -
  have h: "wb_inv sprint (aStore a0)" "auto_ckpt_off a0" "cache_inv (aCache a0)" using a0(1) by (simp_all add: ad_fresh_def)
  have e: "\<exists>y2 y3. run_before (cfgEnv g) y = (None, y2)
      \<and> SaveLastSeq (cfgEnv g) (CheckpointDir opts) (of_nat (length rs)) y2 = (None, y3) \<and> wb_sel sprint y3 = wb_sel sprint y"
    if "wb_inv sprint y" for y
    using fs.flush_law [of "fs_ops sprint decode" sprint y] that env by (auto simp: bt_inv_def Flush_def run_before_def)
  show ?thesis
    by (rule ad.restart_rebuilds [OF opts New_inv [OF new opts(1)] h a0(2) g _ reqs run sz codec crash reopen a2 left ck], simp add: simple_def, rule e)
qed

section \<open>Where the cache and the log go wrong\<close>

text \<open>
  The cache has no time-to-live, or every reading of its clock, past and future, falls within one of them; then nothing
  it holds expires.
\<close>

definition within_ttl :: "'v cache \<Rightarrow> bool" where
  "within_ttl c \<longleftrightarrow> ttl c \<le> 0 \<or> (\<forall>x\<in>clock_times c. \<forall>y\<in>clock_times c. y < x + ttl c)"

definition alive :: "'v cache \<Rightarrow> bool" where
  "alive c \<longleftrightarrow> ttl c \<le> 0 \<or> (\<forall>p\<in>set (ll c). \<forall>now\<in>clock_times c. now < expiresAt (snd p))"

lemma alive_sweep:
  assumes "alive c"
  shows "ll (maybeSweepExpiredTail c) = ll c \<and> items (maybeSweepExpiredTail c) = items c \<and> ttl (maybeSweepExpiredTail c) = ttl c
    \<and> clock_times (maybeSweepExpiredTail c) \<subseteq> clock_times c"
proof (cases "ttl c \<le> 0 \<or> ll c = []")
  case True
  then show ?thesis by (auto simp: maybeSweepExpiredTail_def sweep_loop.simps)
next
  case False
  obtain dead c' where e: "expired (snd (last (ll c))) c = (dead, c')" by (cases "expired (snd (last (ll c))) c")
  have "last (ll c) \<in> set (ll c)" using False by simp
  then have "\<not> dead" using expired_times [OF e] assms False by (auto simp: alive_def)
  then have "maybeSweepExpiredTail c = c'" using False e by (simp add: maybeSweepExpiredTail_def sweep_loop.simps)
  then show ?thesis using expired_frame [OF e] expired_times [OF e] by simp
qed

lemma Once_hit:
  assumes "cache_inv c" and "alive c" and "look c k = Some v"
  shows "\<exists>c'. Once k fn c s = (Inr v, c', s)"
proof -
  let ?c = "maybeSweepExpiredTail c"
  have ok: "cache_ok c" using assms(1) by (simp add: cache_inv_def)
  note sw = alive_sweep [OF assms(2)]
  obtain ent where ent: "kv_map (ll c) k = Some ent" "kvValue ent = v" using assms(3) by (auto simp: look_def)
  then obtain e where e: "id_map (ll c) k = Some e" using id_map_None [of "ll c" k] by auto
  have m: "map_of (ll c) e = Some ent" using id_map_lookup [OF e] ok ent(1) by (auto simp: cache_ok_def)
  obtain dead c1 where x: "expired ent ?c = (dead, c1)" by (cases "expired ent ?c")
  have "\<not> dead"
  proof (cases "ttl c \<le> 0")
    case True
    then show ?thesis using x sw by (simp add: expired_def)
  next
    case False
    then show ?thesis using expired_times [OF x] sw assms(2) map_of_SomeD [OF m] by (fastforce simp: alive_def)
  qed
  moreover obtain ent' c2 where "touch ent c1 = (ent', c2)" by (cases "touch ent c1")
  ultimately show ?thesis
    using e ok ent(2) m sw x touch_frame [of ent c1 ent' c2] by (simp add: Once_def Let_def cache_ok_def)
qed

lemma cache_set_first:
  assumes "cache_inv c" and "ll c = []" and "within_ttl c"
  shows "alive (cache_set k v c)"
proof -
  have it: "map_of (items c) k = None" using assms(1,2) by (simp add: cache_inv_def cache_ok_def id_map_def)
  have sw: "maybeSweepExpiredTail c = c" using assms(2) by (simp add: maybeSweepExpiredTail_def sweep_loop.simps)
  have ev: "evict_loop c = c" using assms(2) by (subst evict_loop.simps) auto
  obtain ent c1 where t: "touch \<lparr>kvKey = k, kvValue = v, expiresAt = 0\<rparr> c = (ent, c1)" by (cases "touch \<lparr>kvKey = k, kvValue = v, expiresAt = 0\<rparr> c")
  have ct: "clock_times c1 \<subseteq> clock_times c" "ttl c > 0 \<longrightarrow> (\<exists>x\<in>clock_times c. expiresAt ent = x + ttl c)"
    using t by (auto simp: touch_def Now_def clock_times_def split: if_splits list.splits)
  have "ll c1 = []" "ttl c1 = ttl c" using touch_frame [OF t] assms(2) by simp_all
  then have "ll (cache_set k v c) = [(nextElem c1, ent)]" "ttl (cache_set k v c) = ttl c" "clock_times (cache_set k v c) = clock_times c1"
    using t it sw ev by (simp_all add: cache_set_def Let_def clock_times_def)
  moreover have "now < expiresAt ent" if "ttl c > 0" "now \<in> clock_times c1" for now
    using that ct assms(3) by (auto simp: within_ttl_def)
  ultimately show ?thesis by (cases "ttl c \<le> 0") (auto simp: alive_def)
qed

lemma write_through_caches:
  assumes "write_through msg g t e a = (None, a')" and "cache_inv (aCache a)" and "look (aCache a) = Map.empty" and "within_ttl (aCache a)"
  shows "look (aCache a') (adapter_key (iKey e)) = Some e \<and> alive (aCache a') \<and> cache_inv (aCache a')"
proof -
  have ll: "ll (aCache a) = []" using assms(3) by (cases "ll (aCache a)") (auto simp: look_def fun_eq_iff split: if_splits)
  obtain a1 where l: "log_call (wal_Set (cfgCodec g) (cfgEnv g) t e) a = (None, a1)"
    using assms(1) by (auto simp: write_through_def split: prod.splits option.splits)
  have c1: "aCache a1 = aCache a" using l by (auto simp: log_call_def split: option.splits prod.splits)
  have "aCache a' = cache_set (adapter_key (iKey e)) e (aCache a)"
    using assms(1) l c1 ll
    by (auto simp: write_through_def SaveIfOk_def maybeSweepExpiredTail_def sweep_loop.simps Let_def wrap_def split: prod.splits option.splits)
  then show ?thesis
    using cache_set_inv [OF assms(2), of "adapter_key (iKey e)" e] cache_set_first [OF assms(2) ll assms(4)] by auto
qed

lemma ad_Get_hit:
  assumes "cache_inv (aCache a)" and "alive (aCache a)" and "look (aCache a) (adapter_key k) = Some e"
  shows "fst (ad_Get g t k a) = Inr e"
proof -
  obtain c' where "Once (adapter_key k) (\<lambda>x. (stGet (cfgStore g) t k x, x)) (aCache a) (aStore a) = (Inr e, c', aStore a)"
    using Once_hit [OF assms, of "\<lambda>x. (stGet (cfgStore g) t k x, x)" "aStore a"] by blast
  then show ?thesis by (simp add: ad_Get_def)
qed

text \<open>C38. The cache key of the adapter leaves out the table: in a newly built adapter whose cache has no time-to-live, or
  while all readings of its clock fall within one time-to-live, after an acknowledged Set in an existing table t of
  an item with plain file names and a value JSON can carry, Get of the same key in any other table where the store held
  no such item returns the item of t, although the store still holds none there.\<close>

theorem cached_read_crosses_tables:
  assumes fresh: "ad_fresh sprint a0" "t \<in> tables (inner (aStore a0))" "within_ttl (aCache a0)"
    and g: "cfgStore g = wb_store sprint decode jl" and e: "ok_entity sprint (item_Entity it)"
    and set: "ad_Set g t it a0 = (None, a1)" and u: "u \<noteq> t" "wb_sel sprint (aStore a0) u (itKey it) = None"
  shows "fst (ad_Get g u (itKey it) a1) = Inr (item_Entity it) \<and> wb_sel sprint (aStore a1) u (itKey it) = None"
proof -
  have k: "iKey (item_Entity it) = itKey it" by (simp add: item_Entity_def Let_def split: option.splits)
  have w: "write_through ''db: wal set'' g t (item_Entity it) a0 = (None, a1)" using ad.ad_Set_unfold [OF set] by auto
  have ci: "cache_inv (aCache a0)" "look (aCache a0) = Map.empty" using fresh(1) by (simp_all add: ad_fresh_def)
  note c = write_through_caches [OF w ci fresh(3), unfolded k]
  have "wb_sel sprint (aStore a1) = upd t (itKey it) (Some (safe sprint (item_Entity it))) (wb_sel sprint (aStore a0))"
    using ad.write_through_inv [OF ad_fresh_inv [OF fresh(1,2)] e g w] k by simp
  then show ?thesis using ad_Get_hit [of a1] c u by (simp add: upd_apply)
qed

text \<open>C39. BulkSet bypasses the cache: in a newly built adapter whose cache has no time-to-live, or while all readings of its
  clock fall within one time-to-live, after an acknowledged Set in an existing table and an acknowledged BulkSet there
  of one item with the same key, both with plain file names and values JSON can carry, Get still returns the item of the
  Set, while the store holds the item of the BulkSet.\<close>

theorem bulk_set_leaves_stale_cache:
  assumes fresh: "ad_fresh sprint a0" "t \<in> tables (inner (aStore a0))" "within_ttl (aCache a0)"
    and g: "cfgStore g = wb_store sprint decode jl"
    and e: "ok_entity sprint (item_Entity it)" "ok_entity sprint (item_Entity it2)" "itKey it2 = itKey it"
    and set: "ad_Set g t it a0 = (None, a1)" and bulk: "ad_BulkSet g t [it2] a1 = (None, a2)"
  shows "fst (ad_Get g t (itKey it) a2) = Inr (item_Entity it)
    \<and> wb_sel sprint (aStore a2) t (itKey it) = Some (safe sprint (item_Entity it2))"
proof -
  have k: "iKey (item_Entity i) = itKey i" for i by (simp add: item_Entity_def Let_def split: option.splits)
  have w: "write_through ''db: wal set'' g t (item_Entity it) a0 = (None, a1)" using ad.ad_Set_unfold [OF set] by auto
  have ci: "cache_inv (aCache a0)" "look (aCache a0) = Map.empty" using fresh(1) by (simp_all add: ad_fresh_def)
  note c = write_through_caches [OF w ci fresh(3), unfolded k]
  have i1: "ad.ad_inv sprint t {} a1" using ad.write_through_inv [OF ad_fresh_inv [OF fresh(1,2)] e(1) g w] by simp
  then have h: "wb_inv sprint (aStore a1)" "t \<in> tables (inner (aStore a1))" "auto_ckpt_off a1" by (simp_all add: ad.ad_inv_def)
  obtain a3 where l: "log_call (wal_BulkSet (cfgCodec g) (cfgEnv g) t [item_Entity it2]) a1 = (None, a3)"
    using bulk by (auto simp: ad_BulkSet_def bulk_write_def items_Entities_def Let_def split: prod.splits option.splits)
  note fr = log_frames(3) [OF l h(3)]
  obtain s' where s': "wb_BulkSet (fs_ops sprint decode) jl t [item_Entity it2] (aStore a1) = (None, s')"
      "wb_sel sprint s' = upd t (itKey it2) (Some (safe sprint (item_Entity it2))) (wb_sel sprint (aStore a1))"
    using ad.bulk_set_law [OF h(1,2), of "[item_Entity it2]" decode jl] e(2) k by auto
  have "aCache a2 = aCache a1 \<and> aStore a2 = s'"
    using bulk l fr s'(1) g
    by (auto simp: ad_BulkSet_def bulk_write_def items_Entities_def Let_def split: prod.splits)
  then show ?thesis using ad_Get_hit [of a2] c s'(2) e(3) by (simp add: upd_apply)
qed

text \<open>Logs on a file without faults take every valid record.\<close>

definition quiet :: "wal \<Rightarrow> bool" where
  "quiet w \<longleftrightarrow> wBufw w = None \<and> foutcomes (wFile w) = [] \<and> auto_off (wOpts w)"

lemma append_quiet: "quiet w \<Longrightarrow> valid_entry e \<Longrightarrow> \<exists>w'. appendLocked e w = (None, w') \<and> quiet w'"
  by (auto simp: quiet_def appendLocked_def MarshalBinary_valid write_record_def syncAndHook_def Let_def)

lemma set_entry_valid: "t \<noteq> [] \<Longrightarrow> length t < 4294967296 \<Longrightarrow> length (iKey e) < 4294967296 \<Longrightarrow> length (iSK e) < 4294967296
    \<Longrightarrow> length b < 4294967296 \<Longrightarrow> valid_entry (set_entry n t e b)"
  by (simp add: valid_entry_def set_entry_def)

lemma wal_Set_quiet:
  assumes "quiet w" and "Encode c e = Inr b" and "\<And>n. valid_entry (set_entry n t e b)"
  shows "\<exists>w'. quiet w' \<and> (\<forall>x. wal_Set c env t e w x = (None, w', x) \<and> wal_BulkSet c env t [e] w x = (None, w', x))"
proof -
  obtain w' where w': "appendLocked (set_entry (wSeq w + 1) t e b) w = (None, w')" "quiet w'"
    using append_quiet [OF assms(1,3)] by blast
  then have "auto_off (wOpts (w'\<lparr>wSeq := wSeq w + 1\<rparr>))" "quiet (w'\<lparr>wSeq := wSeq w + 1\<rparr>)" by (simp_all add: quiet_def)
  then show ?thesis
    using w'(1) assms(2) by (intro exI [of _ "w'\<lparr>wSeq := wSeq w + 1\<rparr>"]) (simp add: wal_Set_def wal_BulkSet_def Let_def maybeAuto_off)
qed

lemma set_record_small:
  assumes "payload_size (set_entry n t e b) \<le> 268435456" and "t \<noteq> []"
  shows "valid_entry (set_entry m t e b)" "payload_size (set_entry m t e b) \<le> 268435456"
  using assms by (simp_all add: set_entry_def payload_size_def valid_entry_def)

text \<open>C40. A refused Set comes back after a restart: over a store that does not defer its writes, with a new log on a device
  without faults (checkpoints configured or not, none automatic), a Set without version of an item with plain file names
  and a value JSON can carry into a table with a plain file name that does not exist is answered with ErrTableNotFound;
  but its record, if the codec encodes the item in at most
  256 MiB and reads it back, is then in the log.  When the process restarts before the next checkpoint, Load of that log
  over any consistent store, with a checkpoint that can be saved, puts the item into the table.\<close>

theorem refused_set_resurrected:
  assumes opts: "Durability opts = SyncEveryWrite" "auto_off opts"
    and new: "New \<lparr>fdata = [], fpos = 0, fsynced = [], foutcomes = []\<rparr> opts = Inr w0"
    and a0: "aLog a0 = Some w0" "aStore a0 = NewWriteBatcher d bo" "db_inv d" "\<not> DeferWrites bo"
    and g: "cfgStore g = wb_store sprint decode jl"
    and it: "simple t" "t \<notin> tables d" "ok_entity sprint (item_Entity it)" "itVersion it = None"
    and enc: "Encode (cfgCodec g) (item_Entity it) = Inr b" "payload_size (set_entry 1 t (item_Entity it) b) \<le> 268435456"
      "codec_faithful (cfgCodec g) (ok_entity sprint) (safe sprint) [ReqSet t (item_Entity it)]"
    and set: "ad_Set g t it a0 = (err, a1)"
    and reopen: "New \<lparr>fdata = fsynced (wFile (the (aLog a1))), fpos = 0, fsynced = [], foutcomes = []\<rparr> opts = Inr w2"
    and a2: "wb_inv sprint (aStore a2)" "aLog a2 = Some w2"
    and ck: "CheckpointConfigured opts \<longrightarrow> ReadCheckpointTables (cfgEnv g) (CheckpointDir opts) (aStore a2) = Inr (0, [])"
      "BeforeCheckpoint (cfgEnv g) = Some (Flush (fs_ops sprint decode))" "\<forall>s x. SaveLastSeq (cfgEnv g) (CheckpointDir opts) s x = (None, x)"
  shows "err = Some (ErrWrap ''db: put entity'' (ErrWrap ''fsdb write batcher: set'' ErrTableNotFound))
    \<and> (\<exists>a3. ad_Load g a2 = (None, a3) \<and> wb_sel sprint (aStore a3) t (itKey it) = Some (safe sprint (item_Entity it)))"
proof -
  let ?e = "item_Entity it" and ?db = "fs_ops sprint decode"
  let ?b = "upsertLocked jl (t, iKey ?e) (BatchSet ?e) (NewWriteBatcher d bo)" and ?rs = "[ReqSet t ?e]"
  have k: "iKey ?e = itKey it" by (simp add: item_Entity_def Let_def split: option.splits)
  have tn: "t \<noteq> []" using it(1) by (simp add: simple_def)
  note small = set_record_small [OF enc(2) tn]
  note w0 = New_inv [OF new opts(1)]
  have q: "quiet w0" using New_fields [OF new opts(1)] opts(2) by (simp add: quiet_def)
  obtain w1 where "\<forall>x. wal_Set (cfgCodec g) (cfgEnv g) t ?e w0 x = (None, w1, x)"
    using wal_Set_quiet [OF q enc(1) small(1), of "cfgEnv g"] by auto
  then have w1: "wal_Set (cfgCodec g) (cfgEnv g) t ?e w0 x = (None, w1, x)" for x by simp
  have "applyOneLocked ?db (t, iKey ?e) (BatchSet ?e) d = (Some (ErrWrap ''fsdb write batcher: set'' ErrTableNotFound), d)"
    using fsdb_Set_no_table [OF a0(3) it(1,2,3)] by (simp add: applyOneLocked_def)
  then have "wb_Set ?db jl t ?e (aStore a0) = (Some (ErrWrap ''fsdb write batcher: set'' ErrTableNotFound), ?b)"
    using a0(2,4) by (simp add: wb_Set_def finish_write_def flushAllLocked_def upsertLocked_def NewWriteBatcher_def normalized_def Let_def)
  then have "fst (ad_Set g t it a0) = Some (ErrWrap ''db: put entity'' (ErrWrap ''fsdb write batcher: set'' ErrTableNotFound))
      \<and> aLog (snd (ad_Set g t it a0)) = Some w1"
    using a0(1) w1 it(4) g by (simp add: ad_Set_def validateConsistency_def write_through_def log_call_def SaveIfOk_def wrap_def Let_def)
  then have refused: "err = Some (ErrWrap ''db: put entity'' (ErrWrap ''fsdb write batcher: set'' ErrTableNotFound))" "aLog a1 = Some w1"
    using set by simp_all
  have run: "wal_run (cfgCodec g) (cfgEnv g) ?rs w0 (aStore a0) = (None, w1, aStore a0)" using w1 by simp
  have sz: "\<forall>e\<in>set (req_entries (cfgCodec g) 0 ?rs). payload_size e \<le> 268435456" using enc(1) small(2) by simp
  have log: "wal_inv w1 (req_entries (cfgCodec g) 0 ?rs)" "length (req_entries (cfgCodec g) 0 ?rs) = length ?rs"
      "fsynced (wFile w1) = frames (req_entries (cfgCodec g) 0 ?rs)"
    using wal_run_records [OF run w0(1)] w0(2,3) opts sz by simp_all
  have e: "\<exists>y2. run_before (cfgEnv g) y = (None, y2) \<and> wb_sel sprint y2 = wb_sel sprint y" if "wb_inv sprint y" for y
    using fs.flush_law [of "fs_ops sprint decode" sprint y] that ck(2) by (auto simp: bt_inv_def Flush_def run_before_def)
  have "\<exists>w3 y3. ad_Load g a2 = (None, a2\<lparr>aLog := Some w3, aStore := y3\<rparr>) \<and> wb_sel sprint y3 = fold (req_effect (safe sprint)) ?rs (wb_sel sprint (aStore a2))
      \<and> (CheckpointConfigured opts \<longrightarrow> True) \<and> wSeq w3 = of_nat (length ?rs) \<and> wOpts w3 = opts
      \<and> (\<not> TruncateAfterCheckpoint (CheckpointPolicy opts) \<longrightarrow> wal_inv w3 (req_entries (cfgCodec g) 0 ?rs)
        \<and> (CheckpointConfigured opts \<longrightarrow> fsynced (wFile w3) = frames (req_entries (cfgCodec g) 0 ?rs)))"
    by (rule ad.reload_rebuilds [OF opts log _ g _ _ enc(3) _ _ _ reopen a2, where n = 0 and t = "[]"])
      (use it refused(2) ck(1,3) in \<open>auto simp: simple_def dest!: e\<close>)
  then show ?thesis using refused(1) k by (fastforce simp: upd_apply)
qed

section \<open>A small deployment\<close>

definition demo_item :: "string \<Rightarrow> version option \<Rightarrow> item" where
  "demo_item k ver = \<lparr>itKey = k, itSK = [], itValue = [(''v'', VNil)], itVersion = ver\<rparr>"

definition item_codec :: codec where
  "item_codec = \<lparr>Encode = (\<lambda>e. Inr (bytes_of_string (iKey e))),
     Decode = (\<lambda>b. Inr \<lparr>iKey = string_of_bytes b, iSK = [], iValue = VMapS [(''v'', VNil)], iVersion = []\<rparr>),
     DecodeAny = (\<lambda>b. Inr VNil)\<rparr>"

definition demo_cfg :: "fsdb batcher adapter_cfg" where
  "demo_cfg = \<lparr>cfgStore = wb_store (\<lambda>_. []) (\<lambda>_. Inl ErrTruncated) (\<lambda>_. None), cfgCodec = item_codec,
     cfgEnv = \<lparr>ReadCheckpointTables = (\<lambda>d x. Inr (0, [])), SaveLastSeq = (\<lambda>d s x. (None, x)),
       BeforeCheckpoint = Some (Flush (fs_ops (\<lambda>_. []) (\<lambda>_. Inl ErrTruncated)))\<rparr>\<rparr>"

definition demo_ad :: "fsdb \<Rightarrow> batcher_options \<Rightarrow> fsdb batcher adapter" where
  "demo_ad d bo = \<lparr>aStore = NewWriteBatcher d bo, aLog = Some (demo_wal demo_opts [] []), aCache = New_cache 0 0 0 []\<rparr>"

lemma demo_cfg_simps [simp]:
  "cfgStore demo_cfg = wb_store (\<lambda>_. []) (\<lambda>_. Inl ErrTruncated) (\<lambda>_. None)" "cfgCodec demo_cfg = item_codec"
  by (simp_all add: demo_cfg_def)

lemma demo_item_Entity:
  "item_Entity (demo_item k ver) = \<lparr>iKey = k, iSK = [], iValue = VMapS [(''v'', VNil)],
     iVersion = (case ver of None \<Rightarrow> [] | Some v \<Rightarrow> PromoteVersion v)\<rparr>"
  by (simp add: demo_item_def item_Entity_def split: option.splits)

lemma demo_item_ok [simp]: "simple k \<Longrightarrow> ok_entity sprint (item_Entity (demo_item k ver))"
  "safe sprint (item_Entity (demo_item k ver)) = item_Entity (demo_item k ver)" "itKey (demo_item k ver) = k" "itVersion (demo_item k ver) = ver"
  "iKey (item_Entity (demo_item k ver)) = k" "iSK (item_Entity (demo_item k ver)) = []"
  by (simp_all add: ok_entity_def safe_def demo_item_Entity) (simp_all add: demo_item_def)

lemma item_codec_Encode [simp]: "Encode item_codec e = Inr (bytes_of_string (iKey e))"
  by (simp add: item_codec_def)

lemma demo_quiet: "quiet (demo_wal demo_opts [] [])"
  by (simp add: quiet_def auto_off_def demo_opts_def CheckpointConfigured_def)

lemma demo_new: "New \<lparr>fdata = [], fpos = 0, fsynced = [], foutcomes = []\<rparr> demo_opts = Inr (demo_wal demo_opts [] [])"
  by (simp add: New_def demo_opts_def Validate_def CheckpointConfigured_def demo_wal_def)

lemma demo_valid: "valid_entry (set_entry n ''t'' (item_Entity (demo_item ''a'' ver)) (bytes_of_string ''a''))"
  by (simp add: set_entry_valid)

lemma demo_ad_fresh:
  obtains d where "CreateTable ''t'' (empty_db [''data'']) = (None, d)" "''t'' \<in> tables d" "db_inv d"
    "\<And>t k. sel d t k = None" "\<And>bo. ad_fresh (\<lambda>_. []) (demo_ad d bo)"
proof -
  obtain d where d: "CreateTable ''t'' (empty_db [''data'']) = (None, d)" "''t'' \<in> tables d" "db_inv d" "\<And>t k. sel d t k = None"
    by (rule demo_db) (rule that)
  have "ad_fresh (\<lambda>_. []) (demo_ad d bo)" for bo
    using d(3) by (auto simp: ad_fresh_def demo_ad_def auto_ckpt_off_def NewWriteBatcher_def bt_inv_def pend_ok_def auto_off_def
        demo_opts_def CheckpointConfigured_def cache_inv_def cache_ok_def New_cache_def id_map_def look_def kv_map_def)
  then show thesis using that d by blast
qed

lemma demo_ad_simps [simp]: "inner (aStore (demo_ad d bo)) = d" "pend (aStore (demo_ad d bo)) = []" "within_ttl (aCache (demo_ad d bo))"
  "aLog (demo_ad d bo) = Some (demo_wal demo_opts [] [])"
  by (simp_all add: demo_ad_def NewWriteBatcher_def New_cache_def within_ttl_def)

lemma demo_set:
  assumes d: "ad_fresh (\<lambda>_. []) (demo_ad d bo)" "''t'' \<in> tables d" "sel d ''t'' ''a'' = None"
    and ver: "\<And>v. ver = Some v \<Longrightarrow> OldVersion v = []"
  shows "\<exists>a1 w. ad_Set demo_cfg ''t'' (demo_item ''a'' ver) (demo_ad d bo) = (None, a1) \<and> aLog a1 = Some w \<and> quiet w"
proof -
  let ?it = "demo_item ''a'' ver"
  have h: "wb_inv (\<lambda>_. []) (aStore (demo_ad d bo))" "''t'' \<in> tables (inner (aStore (demo_ad d bo)))"
    using d by (simp_all add: ad_fresh_def)
  have v: "validateConsistency demo_cfg ''t'' ?it (aStore (demo_ad d bo)) = None"
  proof (cases ver)
    case None
    then show ?thesis by (simp add: validateConsistency_def)
  next
    case (Some v)
    then show ?thesis
      using ad.validate_law [OF h _ demo_cfg_simps(1), of ?it v] d(3) ver by simp
  qed
  obtain w' where w': "quiet w'" "\<And>x. wal_Set item_codec (cfgEnv demo_cfg) ''t'' (item_Entity ?it) (demo_wal demo_opts [] []) x = (None, w', x)"
    using wal_Set_quiet [OF demo_quiet _ demo_valid, of item_codec ver "cfgEnv demo_cfg"] by auto
  show ?thesis
    using ad.write_through_succeeds [OF h _ demo_cfg_simps(1), of "item_Entity ?it" "demo_wal demo_opts [] []" w' "''db: wal set''"] w' v
    by (auto simp: ad_Set_def Let_def)
qed

theorem adapter_reads_what_the_store_holds_witness:
  "\<exists>d a1 v. CreateTable ''t'' (empty_db [''data'']) = (None, d)
     \<and> ad_Set demo_cfg ''t'' (demo_item ''a'' None) (demo_ad d demo_deferred) = (None, a1)
     \<and> fst (ad_Get demo_cfg ''t'' ''a'' a1) = Inr v \<and> safe (\<lambda>_. []) v = item_Entity (demo_item ''a'' None)"
proof -
  obtain d where d: "CreateTable ''t'' (empty_db [''data'']) = (None, d)" "''t'' \<in> tables d" "db_inv d"
      "\<And>t k. sel d t k = None" "\<And>bo. ad_fresh (\<lambda>_. []) (demo_ad d bo)" by (rule demo_ad_fresh) (rule that)
  let ?a = "demo_ad d demo_deferred" and ?it = "demo_item ''a'' None"
  obtain a1 where a1: "ad_Set demo_cfg ''t'' ?it ?a = (None, a1)" using demo_set [OF d(5,2,4)] by blast
  have t: "''t'' \<in> tables (inner (aStore ?a))" using d(2) by simp
  have st: "(ad_step demo_cfg (\<lambda>b. tables (inner b)) simple (ok_entity (\<lambda>_. [])) ''t'')\<^sup>*\<^sup>* (?a, {}) (a1, after_put ''t'' ''t'' (itKey ?it) None {})"
    by (intro r_into_rtranclp ad_step.set) (use t a1 in simp_all)
  obtain r a2 where g: "ad_Get demo_cfg ''t'' ''a'' a1 = (r, a2)" by (cases "ad_Get demo_cfg ''t'' ''a'' a1")
  have w: "write_through ''db: wal set'' demo_cfg ''t'' (item_Entity ?it) ?a = (None, a1)" using ad.ad_Set_unfold [OF a1] by auto
  have "wb_sel (\<lambda>_. []) (aStore a1) ''t'' ''a'' = Some (item_Entity ?it)"
    using ad.write_through_inv [OF ad_fresh_inv [OF d(5) t] _ demo_cfg_simps(1) w] by (simp add: upd_apply)
  then show ?thesis
    using adapter_reads_what_the_store_holds [OF d(5) t demo_cfg_simps(1) st _ _ g] d(1) a1 g by (auto simp: after_put_def)
qed

theorem optimistic_lock_prevents_lost_update_witness:
  "\<exists>d a1. CreateTable ''t'' (empty_db [''data'']) = (None, d)
     \<and> ad_Set demo_cfg ''t'' (demo_item ''a'' (Some \<lparr>PromoteVersion = ''1'', OldVersion = []\<rparr>)) (demo_ad d demo_deferred) = (None, a1)
     \<and> ad_Set demo_cfg ''t'' (demo_item ''a'' (Some \<lparr>PromoteVersion = ''2'', OldVersion = []\<rparr>)) a1 = (Some ErrNotCompatibleVersion, a1)"
proof -
  obtain d where d: "CreateTable ''t'' (empty_db [''data'']) = (None, d)" "''t'' \<in> tables d" "db_inv d"
      "\<And>t k. sel d t k = None" "\<And>bo. ad_fresh (\<lambda>_. []) (demo_ad d bo)" by (rule demo_ad_fresh) (rule that)
  let ?v = "\<lambda>p. Some \<lparr>PromoteVersion = p, OldVersion = []\<rparr>"
  obtain a1 where a1: "ad_Set demo_cfg ''t'' (demo_item ''a'' (?v ''1'')) (demo_ad d demo_deferred) = (None, a1)"
    using demo_set [OF d(5,2,4), of "?v ''1''" demo_deferred] by auto
  have t: "''t'' \<in> tables (inner (aStore (demo_ad d demo_deferred)))" using d(2) by simp
  show ?thesis
    using optimistic_lock_prevents_lost_update [OF d(5) t demo_cfg_simps(1) rtranclp.rtrancl_refl _ _ a1, of _ "demo_item ''a'' (?v ''2'')"] d(1) a1
    by auto
qed

theorem restart_recovers_contents_witness:
  "\<exists>d a1 a3. CreateTable ''t'' (empty_db [''data'']) = (None, d)
     \<and> ad_Set demo_cfg ''t'' (demo_item ''a'' None) (demo_ad d demo_deferred) = (None, a1)
     \<and> ad_Load demo_cfg ((demo_ad d demo_deferred)
         \<lparr>aLog := Some ((demo_wal demo_opts [] [])\<lparr>wFile := \<lparr>fdata = fsynced (wFile (the (aLog a1))), fpos = 0, fsynced = [], foutcomes = []\<rparr>\<rparr>)\<rparr>) = (None, a3)
     \<and> wb_sel (\<lambda>_. []) (aStore a3) ''t'' ''a'' = Some (item_Entity (demo_item ''a'' None))"
proof -
  obtain d where d: "CreateTable ''t'' (empty_db [''data'']) = (None, d)" "''t'' \<in> tables d" "db_inv d"
      "\<And>t k. sel d t k = None" "\<And>bo. ad_fresh (\<lambda>_. []) (demo_ad d bo)" by (rule demo_ad_fresh) (rule that)
  let ?a = "demo_ad d demo_deferred" and ?it = "demo_item ''a'' None" and ?rs = "[AdSet ''t'' (demo_item ''a'' None)]"
  obtain a1 where a1: "ad_Set demo_cfg ''t'' ?it ?a = (None, a1)" using demo_set [OF d(5,2,4)] by blast
  have t: "''t'' \<in> tables (inner (aStore ?a))" using d(2) by simp
  let ?f = "\<lparr>fdata = fsynced (wFile (the (aLog a1))), fpos = 0, fsynced = [], foutcomes = []\<rparr>"
  let ?w2 = "(demo_wal demo_opts [] [])\<lparr>wFile := ?f\<rparr>" and ?a2 = "?a\<lparr>aLog := Some ((demo_wal demo_opts [] [])\<lparr>wFile := ?f\<rparr>)\<rparr>"
  have re: "New ?f demo_opts = Inr ?w2"
    by (simp add: New_def demo_opts_def Validate_def CheckpointConfigured_def demo_wal_def)
  have o: "Durability demo_opts = SyncEveryWrite" "auto_off demo_opts" "\<not> CheckpointConfigured demo_opts"
    by (simp_all add: demo_opts_def auto_off_def CheckpointConfigured_def)
  have cf: "codec_faithful (cfgCodec demo_cfg) (ok_entity (\<lambda>_. [])) (safe (\<lambda>_. [])) (map logged ?rs)"
    by (simp add: codec_faithful_def item_codec_def demo_item_Entity ok_entity_def safe_def)
  have sz: "\<forall>e\<in>set (req_entries (cfgCodec demo_cfg) 0 (map logged ?rs)). payload_size e \<le> 268435456"
    by (simp add: set_entry_def payload_size_def)
  have w: "write_through ''db: wal set'' demo_cfg ''t'' (item_Entity ?it) ?a = (None, a1)" using ad.ad_Set_unfold [OF a1] by auto
  have c: "wb_sel (\<lambda>_. []) (aStore a1) ''t'' ''a'' = Some (item_Entity ?it)"
    using ad.write_through_inv [OF ad_fresh_inv [OF d(5) t] _ demo_cfg_simps(1) w] by (simp add: upd_apply)
  have b: "BeforeCheckpoint (cfgEnv demo_cfg) = Some (Flush (fs_ops (\<lambda>_. []) (\<lambda>_. Inl ErrTruncated)))"
      "\<forall>s x. SaveLastSeq (cfgEnv demo_cfg) (CheckpointDir demo_opts) s x = (None, x)" by (simp_all add: demo_cfg_def)
  have "\<exists>a3. ad_Load demo_cfg ?a2 = (None, a3) \<and> wb_sel (\<lambda>_. []) (aStore a3) = wb_sel (\<lambda>_. []) (aStore a1)"
    by (rule restart_recovers_contents [OF o(1,2) demo_new d(5) [of demo_deferred] _ demo_cfg_simps(1) _ _ _ _ sz cf _ _ _ re, where n = 0 and t = "[]"])
      (use d(2) d(5) [of demo_deferred] a1 o(3) b in \<open>simp_all add: ad_fresh_def\<close>)
  then show ?thesis using d(1) a1 c by auto
qed

theorem cached_read_crosses_tables_witness:
  "\<exists>d a1. CreateTable ''t'' (empty_db [''data'']) = (None, d)
     \<and> ad_Set demo_cfg ''t'' (demo_item ''a'' None) (demo_ad d demo_deferred) = (None, a1)
     \<and> fst (ad_Get demo_cfg ''u'' ''a'' a1) = Inr (item_Entity (demo_item ''a'' None)) \<and> wb_sel (\<lambda>_. []) (aStore a1) ''u'' ''a'' = None"
proof -
  obtain d where d: "CreateTable ''t'' (empty_db [''data'']) = (None, d)" "''t'' \<in> tables d" "db_inv d"
      "\<And>t k. sel d t k = None" "\<And>bo. ad_fresh (\<lambda>_. []) (demo_ad d bo)" by (rule demo_ad_fresh) (rule that)
  obtain a1 where a1: "ad_Set demo_cfg ''t'' (demo_item ''a'' None) (demo_ad d demo_deferred) = (None, a1)"
    using demo_set [OF d(5,2,4)] by blast
  show ?thesis
    using cached_read_crosses_tables [OF d(5) _ _ demo_cfg_simps(1) _ a1, of "''u''"] d(1,2,4) a1 by auto
qed

theorem bulk_set_leaves_stale_cache_witness:
  "\<exists>d a1 a2. CreateTable ''t'' (empty_db [''data'']) = (None, d)
     \<and> ad_Set demo_cfg ''t'' (demo_item ''a'' None) (demo_ad d demo_deferred) = (None, a1)
     \<and> ad_BulkSet demo_cfg ''t'' [demo_item ''a'' (Some \<lparr>PromoteVersion = ''2'', OldVersion = []\<rparr>)] a1 = (None, a2)
     \<and> fst (ad_Get demo_cfg ''t'' ''a'' a2) = Inr (item_Entity (demo_item ''a'' None))
     \<and> wb_sel (\<lambda>_. []) (aStore a2) ''t'' ''a'' = Some (item_Entity (demo_item ''a'' (Some \<lparr>PromoteVersion = ''2'', OldVersion = []\<rparr>)))"
proof -
  obtain d where d: "CreateTable ''t'' (empty_db [''data'']) = (None, d)" "''t'' \<in> tables d" "db_inv d"
      "\<And>t k. sel d t k = None" "\<And>bo. ad_fresh (\<lambda>_. []) (demo_ad d bo)" by (rule demo_ad_fresh) (rule that)
  let ?a = "demo_ad d demo_deferred" and ?it = "demo_item ''a'' None" and ?it2 = "demo_item ''a'' (Some \<lparr>PromoteVersion = ''2'', OldVersion = []\<rparr>)"
  obtain a1 w where a1: "ad_Set demo_cfg ''t'' ?it ?a = (None, a1)" "aLog a1 = Some w" "quiet w" using demo_set [OF d(5,2,4)] by blast
  have t: "''t'' \<in> tables (inner (aStore ?a))" using d(2) by simp
  have wt: "write_through ''db: wal set'' demo_cfg ''t'' (item_Entity ?it) ?a = (None, a1)" using ad.ad_Set_unfold [OF a1(1)] by auto
  have i: "wb_inv (\<lambda>_. []) (aStore a1)" "''t'' \<in> tables (inner (aStore a1))"
    using ad.write_through_inv [OF ad_fresh_inv [OF d(5) t] _ demo_cfg_simps(1) wt] by (simp_all add: ad.ad_inv_def)
  obtain w' where w': "\<And>x. wal_BulkSet item_codec (cfgEnv demo_cfg) ''t'' [item_Entity ?it2] w x = (None, w', x)"
    using wal_Set_quiet [OF a1(3) _ demo_valid, of item_codec "itVersion ?it2" "cfgEnv demo_cfg"] by auto
  obtain s' where "wb_BulkSet (fs_ops (\<lambda>_. []) (\<lambda>_. Inl ErrTruncated)) (\<lambda>_. None) ''t'' [item_Entity ?it2] (aStore a1) = (None, s')"
    using ad.bulk_set_law [OF i, of "[item_Entity ?it2]" "\<lambda>_. Inl ErrTruncated" "\<lambda>_. None"] by auto
  then obtain a2 where a2: "ad_BulkSet demo_cfg ''t'' [?it2] a1 = (None, a2)"
    using w' a1(2) by (simp add: ad_BulkSet_def bulk_write_def items_Entities_def Let_def log_call_def wrap_def)
  show ?thesis
    using bulk_set_leaves_stale_cache [OF d(5) t _ demo_cfg_simps(1) _ _ _ a1(1) a2] d(1) a1(1) a2 by auto
qed

theorem refused_set_resurrected_witness:
  "\<exists>err a1 a3. ad_Set demo_cfg ''t'' (demo_item ''a'' None) (demo_ad (empty_db [''data'']) (demo_deferred\<lparr>DeferWrites := False\<rparr>)) = (Some err, a1)
     \<and> ad_Load demo_cfg ((demo_ad (empty_db [''data'']) demo_deferred)
         \<lparr>aLog := Some ((demo_wal demo_opts [] [])\<lparr>wFile := \<lparr>fdata = fsynced (wFile (the (aLog a1))), fpos = 0, fsynced = [], foutcomes = []\<rparr>\<rparr>)\<rparr>) = (None, a3)
     \<and> wb_sel (\<lambda>_. []) (aStore a3) ''t'' ''a'' = Some (item_Entity (demo_item ''a'' None))"
proof -
  let ?d = "empty_db [''data'']" and ?it = "demo_item ''a'' None" and ?bo = "demo_deferred\<lparr>DeferWrites := False\<rparr>"
  have nt: "''t'' \<notin> tables ?d" by (auto simp: tables_def has_table_def dirs_ok_def empty_db_def)
  obtain err a1 where set: "ad_Set demo_cfg ''t'' ?it (demo_ad ?d ?bo) = (err, a1)" by (cases "ad_Set demo_cfg ''t'' ?it (demo_ad ?d ?bo)")
  let ?f = "\<lparr>fdata = fsynced (wFile (the (aLog a1))), fpos = 0, fsynced = [], foutcomes = []\<rparr>"
  let ?a2 = "(demo_ad ?d demo_deferred)\<lparr>aLog := Some ((demo_wal demo_opts [] [])\<lparr>wFile := ?f\<rparr>)\<rparr>"
  have re: "New ?f demo_opts = Inr ((demo_wal demo_opts [] [])\<lparr>wFile := ?f\<rparr>)"
    by (simp add: New_def demo_opts_def Validate_def CheckpointConfigured_def demo_wal_def)
  have o: "Durability demo_opts = SyncEveryWrite" "auto_off demo_opts" by (simp_all add: demo_opts_def auto_off_def CheckpointConfigured_def)
  have cf: "codec_faithful (cfgCodec demo_cfg) (ok_entity (\<lambda>_. [])) (safe (\<lambda>_. [])) [ReqSet ''t'' (item_Entity ?it)]"
    by (simp add: codec_faithful_def item_codec_def demo_item_Entity ok_entity_def safe_def)
  have en: "Encode (cfgCodec demo_cfg) (item_Entity ?it) = Inr (bytes_of_string ''a'')" by simp
  have sz: "payload_size (set_entry 1 ''t'' (item_Entity ?it) (bytes_of_string ''a'')) \<le> 268435456" by (simp add: set_entry_def payload_size_def)
  have st: "aStore (demo_ad ?d ?bo) = NewWriteBatcher ?d ?bo" by (simp add: demo_ad_def)
  have i2: "wb_inv (\<lambda>_. []) (aStore ?a2)"
    using empty_db_inv(1) [of "[''data'']"] by (simp add: demo_ad_def NewWriteBatcher_def bt_inv_def pend_ok_def)
  have ck: "CheckpointConfigured demo_opts \<longrightarrow> ReadCheckpointTables (cfgEnv demo_cfg) (CheckpointDir demo_opts) (aStore ?a2) = Inr (0, [])"
      "BeforeCheckpoint (cfgEnv demo_cfg) = Some (Flush (fs_ops (\<lambda>_. []) (\<lambda>_. Inl ErrTruncated)))"
      "\<forall>s x. SaveLastSeq (cfgEnv demo_cfg) (CheckpointDir demo_opts) s x = (None, x)" by (simp_all add: demo_cfg_def)
  have "err \<noteq> None \<and> (\<exists>a3. ad_Load demo_cfg ?a2 = (None, a3) \<and> wb_sel (\<lambda>_. []) (aStore a3) ''t'' ''a'' = Some (item_Entity ?it))"
    using refused_set_resurrected [OF o demo_new demo_ad_simps(4) st empty_db_inv(1) _ demo_cfg_simps(1) _ nt _ _ en sz cf set re i2 _ ck] by simp
  then show ?thesis using set by blast
qed

end
