(* ===== verification/Raft_Cluster.thy ===== *)
theory Raft_Cluster
  imports Raft_Node
begin

text \<open>
  A cluster of consensus nodes.  Every step is one section of \<^verbatim>\<open>node.go\<close> under one node's mutex;
  sections of all nodes interleave freely.  \<open>run_pc\<close> is where the goroutine of \<^verbatim>\<open>Run\<close> stands.
  Messages stay in their sets, so delays, losses, reordering and repeated delivery are all covered.  The
  handlers' \<open>enter\<close> and \<open>finish\<close> parts are separate steps.  With \<open>races\<close> a suspended AppendEntries handler
  may go on in whatever term it finds; without, only in the term it was called with.  \<open>cVotes\<close>, \<open>cLed\<close> and
  the log kept with an AppendEntries message are history variables.
\<close>

section \<open>The cluster\<close>

datatype run_pc =
    AtLoop
  | RunFollower
  | EnterCandidate
  | RunCandidate int "string set"
  | EnterLeader
  | RunLeader int

record cluster =
  cNodes :: "string \<Rightarrow> raft_node"
  cPc :: "string \<Rightarrow> run_pc"
  cVoteReqs :: "(string \<times> request_vote_args) set"
  cVoteRun :: "(string \<times> request_vote_args) set"
  cVoteReps :: "(string \<times> request_vote_args \<times> request_vote_reply) set"
  cBallots :: "(string \<times> string \<times> int \<times> bool) set"
  cAppReqs :: "(string \<times> append_entries_args \<times> log_entry list) set"
  cAppRun :: "(string \<times> append_entries_args \<times> log_entry list) set"
  cAppReps :: "(string \<times> append_entries_args \<times> append_entries_reply) set"
  cVotes :: "(string \<times> int \<times> string) set"
  cLed :: "(string \<times> int) set"

definition put :: "string \<Rightarrow> raft_node \<Rightarrow> cluster \<Rightarrow> cluster" where
  "put i n c = c\<lparr>cNodes := (cNodes c)(i := n)\<rparr>"

definition goto :: "string \<Rightarrow> run_pc \<Rightarrow> cluster \<Rightarrow> cluster" where
  "goto i pc c = c\<lparr>cPc := (cPc c)(i := pc)\<rparr>"

definition cluster_init :: "string list \<Rightarrow> bool \<Rightarrow> cluster" where
  "cluster_init ms persist =
     \<lparr>cNodes = (\<lambda>i. (NewNode i (filter (\<lambda>p. p \<noteq> i) ms))\<lparr>hasPersister := persist\<rparr>), cPc = (\<lambda>_. AtLoop),
      cVoteReqs = {}, cVoteRun = {}, cVoteReps = {}, cBallots = {}, cAppReqs = {}, cAppRun = {}, cAppReps = {},
      cVotes = {}, cLed = {}\<rparr>"

text \<open>The switch of \<^verbatim>\<open>Run\<close>.\<close>

definition run_dispatch :: "role \<Rightarrow> run_pc" where
  "run_dispatch s = (case s of Follower \<Rightarrow> RunFollower | Candidate \<Rightarrow> EnterCandidate | Leader \<Rightarrow> EnterLeader)"

inductive cstep :: "string list \<Rightarrow> bool \<Rightarrow> cluster \<Rightarrow> cluster \<Rightarrow> bool" for ms races where
  dispatch: "\<lbrakk>i \<in> set ms; cPc c i = AtLoop\<rbrakk> \<Longrightarrow> cstep ms races c (goto i (run_dispatch (nState (cNodes c i))) c)"
| reset: "\<lbrakk>i \<in> set ms; cPc c i = RunFollower\<rbrakk> \<Longrightarrow> cstep ms races c (put i (follower_reset (cNodes c i)) c)"
| timeout: "\<lbrakk>i \<in> set ms; cPc c i = RunFollower\<rbrakk> \<Longrightarrow>
    cstep ms races c (goto i AtLoop (put i (follower_timeout (cNodes c i)) c))"
| campaign: "\<lbrakk>i \<in> set ms; cPc c i = EnterCandidate; n = cNodes c i\<rbrakk> \<Longrightarrow>
    cstep ms races c (goto i (RunCandidate (currentTerm n + 1) {}) (put i (campaign n)
      (c\<lparr>cVoteReqs := cVoteReqs c \<union> {(p, vote_request n) |p. p \<in> set (nPeers n)},
         cVotes := insert (i, currentTerm n + 1, nId n) (cVotes c)\<rparr>)))"
| abandon: "\<lbrakk>i \<in> set ms; cPc c i = RunCandidate T G; n' = cNodes c i \<or> n' = follower_reset (cNodes c i)\<rbrakk> \<Longrightarrow>
    cstep ms races c (goto i AtLoop (put i n' c))"
| vote_reject: "\<lbrakk>(p, args) \<in> cVoteReqs c; rvTerm args < currentTerm (cNodes c p)\<rbrakk> \<Longrightarrow>
    cstep ms races c (c\<lparr>cVoteReps := insert (p, args, \<lparr>rrTerm = currentTerm (cNodes c p), rrVoteGranted = False\<rparr>) (cVoteReps c)\<rparr>)"
| vote_enter: "\<lbrakk>(p, args) \<in> cVoteReqs c; \<not> rvTerm args < currentTerm (cNodes c p)\<rbrakk> \<Longrightarrow>
    cstep ms races c (put p (rv_enter args (cNodes c p)) (c\<lparr>cVoteRun := insert (p, args) (cVoteRun c)\<rparr>))"
| vote_finish: "\<lbrakk>(p, args) \<in> cVoteRun c; rv_finish args (cNodes c p) = (n', reply)\<rbrakk> \<Longrightarrow>
    cstep ms races c (put p n' (c\<lparr>cVoteRun := cVoteRun c - {(p, args)},
      cVoteReps := insert (p, args, reply) (cVoteReps c),
      cVotes := (if rrVoteGranted reply then insert (p, rrTerm reply, rvCandidateID args) (cVotes c) else cVotes c)\<rparr>))"
| vote_return: "\<lbrakk>(p, args, reply) \<in> cVoteReps c; i = rvCandidateID args\<rbrakk> \<Longrightarrow>
    cstep ms races c (put i (vote_reply reply (cNodes c i))
      (c\<lparr>cBallots := insert (i, p, rvTerm args, rrVoteGranted reply) (cBallots c)\<rparr>))"
| count: "\<lbrakk>cPc c i = RunCandidate T G; (i, p, T, g) \<in> cBallots c\<rbrakk> \<Longrightarrow>
    cstep ms races c (goto i (RunCandidate T (if g then insert p G else G)) c)"
| win: "\<lbrakk>i \<in> set ms; cPc c i = RunCandidate T G; n = cNodes c i; 1 + int (card G) \<ge> majority n\<rbrakk> \<Longrightarrow>
    cstep ms races c (goto i AtLoop (put i (win T n)
      (c\<lparr>cLed := (if nState n = Candidate \<and> currentTerm n = T then insert (i, T) (cLed c) else cLed c)\<rparr>)))"
| lead: "\<lbrakk>i \<in> set ms; cPc c i = EnterLeader; n = cNodes c i\<rbrakk> \<Longrightarrow>
    cstep ms races c (goto i (RunLeader (currentTerm n)) (put i (become_leader n) c))"
| resign: "\<lbrakk>i \<in> set ms; cPc c i = RunLeader T; nState (cNodes c i) \<noteq> Leader \<or> currentTerm (cNodes c i) \<noteq> T\<rbrakk> \<Longrightarrow>
    cstep ms races c (goto i AtLoop c)"
| send: "\<lbrakk>i \<in> set ms; cPc c i = RunLeader T; p \<in> set (nPeers (cNodes c i)); send_begin p T (cNodes c i) = Inr (Some args)\<rbrakk> \<Longrightarrow>
    cstep ms races c (c\<lparr>cAppReqs := insert (p, args, nLog (cNodes c i)) (cAppReqs c)\<rparr>)"
| app_reject: "\<lbrakk>(p, args, m) \<in> cAppReqs c; aeTerm args < currentTerm (cNodes c p)\<rbrakk> \<Longrightarrow>
    cstep ms races c (c\<lparr>cAppReps := insert (p, args, \<lparr>arTerm = currentTerm (cNodes c p), arSuccess = False\<rparr>) (cAppReps c)\<rparr>)"
| app_enter: "\<lbrakk>(p, args, m) \<in> cAppReqs c; \<not> aeTerm args < currentTerm (cNodes c p)\<rbrakk> \<Longrightarrow>
    cstep ms races c (put p (ae_enter args (cNodes c p)) (c\<lparr>cAppRun := insert (p, args, m) (cAppRun c)\<rparr>))"
| app_finish: "\<lbrakk>(p, args, m) \<in> cAppRun c; races \<or> aeTerm args = currentTerm (cNodes c p);
      ae_finish args (cNodes c p) = Inr (n', reply)\<rbrakk> \<Longrightarrow>
    cstep ms races c (put p n' (c\<lparr>cAppRun := cAppRun c - {(p, args, m)}, cAppReps := insert (p, args, reply) (cAppReps c)\<rparr>))"
| app_return: "\<lbrakk>(p, args, reply) \<in> cAppReps c; i = aeLeaderID args\<rbrakk> \<Longrightarrow>
    cstep ms races c (put i (send_finish p args reply (cNodes c i)) c)"
| propose: "i \<in> set ms \<Longrightarrow> cstep ms races c (put i (snd (ProposeCommand cmd (cNodes c i))) c)"
| deliver: "\<lbrakk>i \<in> set ms; deliver_one (cNodes c i) = Some (Inr n')\<rbrakk> \<Longrightarrow> cstep ms races c (put i n' c)"

lemma put_simps [simp]:
  "cNodes (put i n c) = (cNodes c)(i := n)" "cPc (put i n c) = cPc c" "cVoteReqs (put i n c) = cVoteReqs c"
  "cVoteRun (put i n c) = cVoteRun c" "cVoteReps (put i n c) = cVoteReps c" "cBallots (put i n c) = cBallots c"
  "cAppReqs (put i n c) = cAppReqs c" "cAppRun (put i n c) = cAppRun c" "cAppReps (put i n c) = cAppReps c"
  "cVotes (put i n c) = cVotes c" "cLed (put i n c) = cLed c"
  by (simp_all add: put_def)

lemma goto_simps [simp]:
  "cPc (goto i pc c) = (cPc c)(i := pc)" "cNodes (goto i pc c) = cNodes c" "cVoteReqs (goto i pc c) = cVoteReqs c"
  "cVoteRun (goto i pc c) = cVoteRun c" "cVoteReps (goto i pc c) = cVoteReps c" "cBallots (goto i pc c) = cBallots c"
  "cAppReqs (goto i pc c) = cAppReqs c" "cAppRun (goto i pc c) = cAppRun c" "cAppReps (goto i pc c) = cAppReps c"
  "cVotes (goto i pc c) = cVotes c" "cLed (goto i pc c) = cLed c"
  by (simp_all add: goto_def)

section \<open>What a section does to the election\<close>

text \<open>
  The election sees of a node its term, vote and role.  A section leaves them alone, takes the node out of
  leadership within its term, or steps down to a later term.
\<close>

definition view :: "raft_node \<Rightarrow> int \<times> string \<times> role" where
  "view n = (currentTerm n, votedFor n, nState n)"

definition quiet_or_down :: "raft_node \<Rightarrow> raft_node \<Rightarrow> bool" where
  "quiet_or_down n n' \<longleftrightarrow> nId n' = nId n \<and> nPeers n' = nPeers n
     \<and> (view n' = view n \<or> (\<exists>s. s \<noteq> Leader \<and> view n' = (currentTerm n, votedFor n, s))
        \<or> (\<exists>t > currentTerm n. view n' = (t, [], Follower)))"

lemma notify_simps [raft_simps, simp]:
  "nId (notifyMetaChange n) = nId n" "nPeers (notifyMetaChange n) = nPeers n" "currentTerm (notifyMetaChange n) = currentTerm n"
  "votedFor (notifyMetaChange n) = votedFor n" "nState (notifyMetaChange n) = nState n" "nLog (notifyMetaChange n) = nLog n"
  "commitIndex (notifyMetaChange n) = commitIndex n" "nextIndex (notifyMetaChange n) = nextIndex n"
  by (simp_all add: notifyMetaChange_def)

lemma stepDown_simps [raft_simps, simp]:
  "nId (stepDown t n) = nId n" "nPeers (stepDown t n) = nPeers n" "currentTerm (stepDown t n) = t"
  "votedFor (stepDown t n) = []" "nState (stepDown t n) = Follower" "nLog (stepDown t n) = nLog n"
  "commitIndex (stepDown t n) = commitIndex n" "nextIndex (stepDown t n) = nextIndex n"
  by (simp_all add: stepDown_def)

lemma maybeAdvanceCommit_frame:
  "snd (maybeAdvanceCommit t n) = n\<lparr>commitIndex := commitIndex (snd (maybeAdvanceCommit t n))\<rparr>"
proof (induction t n rule: maybeAdvanceCommit.induct)
  case (1 t n)
  show ?case
  proof (cases "may_commit t (commitIndex n + 1) n")
    case True
    let ?n = "n\<lparr>commitIndex := commitIndex n + 1\<rparr>"
    have e: "snd (maybeAdvanceCommit t n) = snd (maybeAdvanceCommit t ?n)"
      using True by (simp add: maybeAdvanceCommit.simps [of t n])
    show ?thesis using 1 [OF refl True] unfolding e by simp
  next
    case False
    then show ?thesis by (simp add: maybeAdvanceCommit.simps [of t n])
  qed
qed

lemma maybeAdvanceCommit_simps [simp]:
  "nId (snd (maybeAdvanceCommit t n)) = nId n" "nPeers (snd (maybeAdvanceCommit t n)) = nPeers n"
  "currentTerm (snd (maybeAdvanceCommit t n)) = currentTerm n" "votedFor (snd (maybeAdvanceCommit t n)) = votedFor n"
  "nState (snd (maybeAdvanceCommit t n)) = nState n" "nLog (snd (maybeAdvanceCommit t n)) = nLog n"
  "nextIndex (snd (maybeAdvanceCommit t n)) = nextIndex n" "matchIndex (snd (maybeAdvanceCommit t n)) = matchIndex n"
  by (subst maybeAdvanceCommit_frame, simp)+

lemma send_finish_quiet: "quiet_or_down n (send_finish p aa ar n)"
  by (simp add: quiet_or_down_def view_def send_finish_def Let_def case_prod_unfold)

lemma quiet_or_down_sections:
  "quiet_or_down n (follower_reset n)" "quiet_or_down n (follower_timeout n)"
  "quiet_or_down n (rv_enter ra n)" "quiet_or_down n (vote_reply rr n)" "quiet_or_down n (become_leader n)"
  "quiet_or_down n (ae_enter aa n)" "ae_finish aa n = Inr (n', reply) \<Longrightarrow> quiet_or_down n n'"
  "quiet_or_down n (snd (ProposeCommand cmd n))"
  "deliver_one n = Some (Inr n') \<Longrightarrow> quiet_or_down n n'"
  by (auto simp: quiet_or_down_def view_def follower_reset_def follower_timeout_def rv_enter_def vote_reply_def become_leader_def ae_enter_def
    ae_finish_def signalReset_def advance_commit_def ProposeCommand_def deliver_one_def Let_def
    split: if_splits option.splits)

section \<open>Votes\<close>

definition members_ok :: "string list \<Rightarrow> cluster \<Rightarrow> bool" where
  "members_ok ms c \<longleftrightarrow> distinct ms \<and> [] \<notin> set ms
     \<and> (\<forall>i. nId (cNodes c i) = i \<and> nPeers (cNodes c i) = filter (\<lambda>p. p \<noteq> i) ms)"

definition votes_ok :: "cluster \<Rightarrow> bool" where
  "votes_ok c \<longleftrightarrow> (\<forall>p t x. (p, t, x) \<in> cVotes c \<longrightarrow>
     x \<noteq> [] \<and> t \<le> currentTerm (cNodes c p) \<and> (t = currentTerm (cNodes c p) \<longrightarrow> votedFor (cNodes c p) = x))"

definition once_ok :: "cluster \<Rightarrow> bool" where
  "once_ok c \<longleftrightarrow> (\<forall>p t x y. (p, t, x) \<in> cVotes c \<longrightarrow> (p, t, y) \<in> cVotes c \<longrightarrow> x = y)"

definition requests_ok :: "string list \<Rightarrow> cluster \<Rightarrow> bool" where
  "requests_ok ms c \<longleftrightarrow>
     (\<forall>p a. (p, a) \<in> cVoteReqs c \<union> cVoteRun c \<longrightarrow> p \<in> set ms \<and> rvCandidateID a \<in> set ms \<and> p \<noteq> rvCandidateID a)
     \<and> (\<forall>p a. (p, a) \<in> cVoteRun c \<longrightarrow> rvTerm a \<le> currentTerm (cNodes c p))"

definition replies_ok :: "string list \<Rightarrow> cluster \<Rightarrow> bool" where
  "replies_ok ms c \<longleftrightarrow> (\<forall>p a r. (p, a, r) \<in> cVoteReps c \<longrightarrow>
     p \<in> set ms \<and> rvCandidateID a \<in> set ms \<and> p \<noteq> rvCandidateID a
     \<and> (rrVoteGranted r \<longrightarrow> rvTerm a \<le> rrTerm r \<and> (p, rrTerm r, rvCandidateID a) \<in> cVotes c))"

definition ballots_ok :: "string list \<Rightarrow> cluster \<Rightarrow> bool" where
  "ballots_ok ms c \<longleftrightarrow> (\<forall>i p T g. (i, p, T, g) \<in> cBallots c \<longrightarrow>
     p \<in> set ms \<and> p \<noteq> i \<and> (g \<longrightarrow> currentTerm (cNodes c i) > T \<or> (p, T, i) \<in> cVotes c))"

definition pc_ok :: "string list \<Rightarrow> cluster \<Rightarrow> string \<Rightarrow> run_pc \<Rightarrow> bool" where
  "pc_ok ms c i pc \<longleftrightarrow> (case pc of
       EnterCandidate \<Rightarrow> nState (cNodes c i) \<noteq> Leader
     | RunCandidate T G \<Rightarrow> T \<le> currentTerm (cNodes c i) \<and> G \<subseteq> set ms - {i} \<and> (i, T, i) \<in> cVotes c \<and> (i, T) \<notin> cLed c
         \<and> (currentTerm (cNodes c i) > T \<or> (\<forall>p \<in> G. (p, T, i) \<in> cVotes c))
     | _ \<Rightarrow> True)"

definition elected_by :: "string list \<Rightarrow> cluster \<Rightarrow> string \<Rightarrow> int \<Rightarrow> string set \<Rightarrow> bool" where
  "elected_by ms c i T Q \<longleftrightarrow> Q \<subseteq> set ms \<and> length ms < 2 * card Q \<and> (\<forall>p \<in> Q. (p, T, i) \<in> cVotes c)"

definition led_ok :: "string list \<Rightarrow> cluster \<Rightarrow> bool" where
  "led_ok ms c \<longleftrightarrow> (\<forall>i T. (i, T) \<in> cLed c \<longrightarrow> T \<le> currentTerm (cNodes c i) \<and> (\<exists>Q. elected_by ms c i T Q))
     \<and> (\<forall>i. nState (cNodes c i) = Leader \<longrightarrow> (i, currentTerm (cNodes c i)) \<in> cLed c)"

definition election_inv :: "string list \<Rightarrow> cluster \<Rightarrow> bool" where
  "election_inv ms c \<longleftrightarrow> members_ok ms c \<and> votes_ok c \<and> once_ok c \<and> requests_ok ms c \<and> replies_ok ms c \<and> ballots_ok ms c
     \<and> (\<forall>i. pc_ok ms c i (cPc c i)) \<and> led_ok ms c"

lemmas election_defs = members_ok_def votes_ok_def once_ok_def requests_ok_def replies_ok_def ballots_ok_def led_ok_def

lemma quiet_or_downE:
  assumes "quiet_or_down n n'"
  obtains "nId n' = nId n" "nPeers n' = nPeers n" "currentTerm n' = currentTerm n" "votedFor n' = votedFor n"
      "nState n' = nState n \<or> nState n' \<noteq> Leader"
    | "nId n' = nId n" "nPeers n' = nPeers n" "currentTerm n' > currentTerm n" "votedFor n' = []" "nState n' = Follower"
  using assms by (auto simp: quiet_or_down_def view_def)

lemma quiet_put:
  assumes i: "election_inv ms c" and q: "quiet_or_down (cNodes c i) n'"
  shows "election_inv ms (put i n' c)"
proof -
  note d = i [unfolded election_inv_def]
  have t: "currentTerm (cNodes c i) \<le> currentTerm n'" using q by (rule quiet_or_downE) auto
  have "members_ok ms (put i n' c)" using d q by (auto simp: members_ok_def quiet_or_down_def)
  moreover have "votes_ok (put i n' c)"
    using q d by (elim quiet_or_downE) (fastforce simp: votes_ok_def)+
  moreover have "once_ok (put i n' c)" using d by (simp add: once_ok_def)
  moreover have "requests_ok ms (put i n' c)" using d t by (fastforce simp: requests_ok_def)
  moreover have "replies_ok ms (put i n' c)" using d by (simp add: replies_ok_def)
  moreover have "ballots_ok ms (put i n' c)" using d t by (fastforce simp: ballots_ok_def)
  moreover have "pc_ok ms (put i n' c) j (cPc c j)" for j
  proof -
    have p: "pc_ok ms c j (cPc c j)" using d by blast
    show ?thesis using q p by (elim quiet_or_downE) (auto simp: pc_ok_def split: run_pc.splits)
  qed
  moreover have "led_ok ms (put i n' c)"
  proof -
    have "elected_by ms (put i n' c) j T Q = elected_by ms c j T Q" for j T Q by (simp add: elected_by_def)
    then show ?thesis using q d t by (elim quiet_or_downE) (force simp: led_ok_def)+
  qed
  ultimately show ?thesis by (simp add: election_inv_def)
qed

lemma election_pc: "election_inv ms c \<Longrightarrow> cPc c i = pc \<Longrightarrow> pc_ok ms c i pc"
  by (auto simp: election_inv_def)

lemma length_others:
  assumes "distinct ms" and "i \<in> set ms"
  shows "length (filter (\<lambda>p. p \<noteq> i) ms) + 1 = length ms"
proof -
  have "length (filter (\<lambda>p. p \<noteq> i) ms) = card (set ms - {i})"
    using assms(1) by (subst distinct_card [symmetric]) (auto intro!: arg_cong [where f = card])
  also have "Suc (card (set ms - {i})) = card (set ms)" using assms(2) by (intro card.remove [symmetric]) auto
  finally show ?thesis using assms(1) by (simp add: distinct_card)
qed

lemma pc_ok_goto [simp]: "pc_ok ms (goto i pc c) = pc_ok ms c"
  by (simp add: pc_ok_def fun_eq_iff split: run_pc.splits)

lemma goto_ok: "election_inv ms c \<Longrightarrow> pc_ok ms c i pc \<Longrightarrow> election_inv ms (goto i pc c)"
  by (simp add: election_inv_def election_defs elected_by_def)

text \<open>A node casts a vote: it may enter a later term while doing so, unless it leads.\<close>

lemma vote_cast:
  assumes inv: "election_inv ms c" and x: "x \<noteq> []"
    and n': "nId n' = nId n" "nPeers n' = nPeers n" "nState n' = nState n" "votedFor n' = x"
    and t: "currentTerm n' = currentTerm n \<and> (votedFor n = [] \<or> votedFor n = x) \<or> currentTerm n' > currentTerm n \<and> nState n \<noteq> Leader"
    and n: "n = cNodes c i"
  shows "election_inv ms ((put i n' c)\<lparr>cVotes := insert (i, currentTerm n', x) (cVotes c)\<rparr>)" (is "election_inv ms ?c")
proof -
  note d = inv [unfolded election_inv_def]
  have le: "currentTerm n \<le> currentTerm n'" using t by auto
  have v: "y \<noteq> [] \<and> s \<le> currentTerm (cNodes c p) \<and> (s = currentTerm (cNodes c p) \<longrightarrow> votedFor (cNodes c p) = y)"
    if "(p, s, y) \<in> cVotes c" for p s y
    using d that unfolding votes_ok_def by blast
  have new: "y = x" if "(i, currentTerm n', y) \<in> cVotes c" for y using v [OF that] t n by auto
  have old: "s < currentTerm n' \<or> s = currentTerm n' \<and> y = x" if "(i, s, y) \<in> cVotes c" for s y
    using v [OF that] t n by auto
  have "members_ok ms ?c" using d n' n by (auto simp: members_ok_def)
  moreover have "votes_ok ?c" unfolding votes_ok_def
  proof (intro allI impI)
    fix p s y assume "(p, s, y) \<in> cVotes ?c"
    then show "y \<noteq> [] \<and> s \<le> currentTerm (cNodes ?c p) \<and> (s = currentTerm (cNodes ?c p) \<longrightarrow> votedFor (cNodes ?c p) = y)"
      using v [of p s y] old [of s y] x n' by (cases "p = i") auto
  qed
  moreover have "once_ok ?c" unfolding once_ok_def
  proof (intro allI impI)
    fix p s y z assume "(p, s, y) \<in> cVotes ?c" "(p, s, z) \<in> cVotes ?c"
    then show "y = z" using new d by (auto simp: once_ok_def)
  qed
  moreover have "requests_ok ms ?c" using d le n by (fastforce simp: requests_ok_def)
  moreover have "replies_ok ms ?c" using d by (simp add: replies_ok_def)
  moreover have "ballots_ok ms ?c" using d le n by (fastforce simp: ballots_ok_def)
  moreover have "pc_ok ms ?c j (cPc c j)" for j
  proof -
    have p: "pc_ok ms c j (cPc c j)" using d by blast
    show ?thesis using p n' n le by (auto simp: pc_ok_def split: run_pc.splits)
  qed
  moreover have "led_ok ms ?c" unfolding led_ok_def
  proof (intro conjI allI impI)
    fix j T assume j: "(j, T) \<in> cLed ?c"
    then have *: "T \<le> currentTerm (cNodes c j) \<and> (\<exists>Q. elected_by ms c j T Q)" using d by (simp add: led_ok_def)
    show "T \<le> currentTerm (cNodes ?c j)" using * le n by auto
    show "\<exists>Q. elected_by ms ?c j T Q" using * by (auto simp: elected_by_def)
  next
    fix j assume "nState (cNodes ?c j) = Leader"
    then show "(j, currentTerm (cNodes ?c j)) \<in> cLed ?c" using d t n n' by (auto simp: led_ok_def split: if_splits)
  qed
  ultimately show ?thesis by (simp add: election_inv_def)
qed

text \<open>A candidate with a majority of the votes of its term becomes leader.\<close>

lemma win_ok:
  assumes inv: "election_inv ms c" and pc: "cPc c i = RunCandidate T G" and i: "i \<in> set ms"
    and n: "n = cNodes c i" and maj: "1 + int (card G) \<ge> majority n" and st: "nState n = Candidate" "currentTerm n = T"
  shows "election_inv ms (goto i AtLoop (put i (win T n) (c\<lparr>cLed := insert (i, T) (cLed c)\<rparr>)))" (is "election_inv ms ?c")
proof -
  note d = inv [unfolded election_inv_def]
  have p: "G \<subseteq> set ms - {i}" "(i, T, i) \<in> cVotes c" "\<forall>p \<in> G. (p, T, i) \<in> cVotes c"
  proof -
    show "G \<subseteq> set ms - {i}" "(i, T, i) \<in> cVotes c" "\<forall>p \<in> G. (p, T, i) \<in> cVotes c"
      using election_pc [OF inv pc] st n by (auto simp: pc_ok_def)
  qed
  have len: "length (filter (\<lambda>p. p \<noteq> i) ms) + 1 = length ms"
    using d i by (intro length_others) (simp_all add: members_ok_def)
  have card: "card (insert i G) = Suc (card G)"
    using p(1) finite_subset [of G "set ms"] by (subst card_insert_disjoint) auto
  have "length ms < 2 * card (insert i G)"
    using maj d n len unfolding card by (simp add: majority_def members_ok_def)
  then have e: "elected_by ms c i T (insert i G)" using p i by (auto simp: elected_by_def)
  have w: "win T (cNodes c i) = (cNodes c i)\<lparr>nState := Leader\<rparr>" using st n by (simp add: win_def)
  have el: "elected_by ms ?c = elected_by ms c" by (simp add: elected_by_def fun_eq_iff)
  have "members_ok ms ?c" unfolding n using d by (auto simp: members_ok_def w)
  moreover have "votes_ok ?c" unfolding n using d by (auto simp: votes_ok_def w)
  moreover have "once_ok ?c" using d by (simp add: once_ok_def)
  moreover have "requests_ok ms ?c" unfolding n using d by (auto simp: requests_ok_def w)
  moreover have "replies_ok ms ?c" using d by (simp add: replies_ok_def)
  moreover have "ballots_ok ms ?c" unfolding n using d by (auto simp: ballots_ok_def w)
  moreover have "pc_ok ms ?c j (cPc ?c j)" for j
  proof (cases "j = i")
    case False
    have p: "pc_ok ms c j (cPc c j)" using d by blast
    show ?thesis using p False by (auto simp: pc_ok_def split: run_pc.splits)
  qed (simp add: pc_ok_def)
  moreover have "led_ok ms ?c" unfolding led_ok_def el
    unfolding n using d st [unfolded n] e by (auto simp: led_ok_def w)
  ultimately show ?thesis by (simp add: election_inv_def)
qed

text \<open>Every step keeps the invariant.\<close>

lemma vote_enter_ok:
  assumes inv: "election_inv ms c" and a: "(p, args) \<in> cVoteReqs c"
  shows "election_inv ms (put p (rv_enter args (cNodes c p)) (c\<lparr>cVoteRun := insert (p, args) (cVoteRun c)\<rparr>))"
proof -
  let ?n = "rv_enter args (cNodes c p)"
  have q: "election_inv ms (put p ?n c)" by (rule quiet_put [OF inv quiet_or_down_sections(3)])
  have t: "rvTerm args \<le> currentTerm ?n" by (simp add: rv_enter_def)
  have r: "p \<in> set ms \<and> rvCandidateID args \<in> set ms \<and> p \<noteq> rvCandidateID args"
    using inv a by (simp add: election_inv_def requests_ok_def)
  have e: "put p ?n (c\<lparr>cVoteRun := insert (p, args) (cVoteRun c)\<rparr>) = (put p ?n c)\<lparr>cVoteRun := insert (p, args) (cVoteRun c)\<rparr>"
    by (simp add: put_def)
  have pc: "pc_ok ms ((put p ?n c)\<lparr>cVoteRun := insert (p, args) (cVoteRun c)\<rparr>) = pc_ok ms (put p ?n c)"
    by (simp add: pc_ok_def fun_eq_iff split: run_pc.splits)
  have "requests_ok ms ((put p ?n c)\<lparr>cVoteRun := insert (p, args) (cVoteRun c)\<rparr>)"
    using q t r by (auto simp: election_inv_def requests_ok_def)
  then show ?thesis unfolding e using q
    by (simp add: election_inv_def pc members_ok_def votes_ok_def once_ok_def replies_ok_def ballots_ok_def led_ok_def elected_by_def)
qed

text \<open>Steps that only touch messages keep it when the messages are right.\<close>

definition same_election :: "cluster \<Rightarrow> cluster \<Rightarrow> bool" where
  "same_election c c' \<longleftrightarrow> cNodes c' = cNodes c \<and> cPc c' = cPc c \<and> cVotes c' = cVotes c \<and> cLed c' = cLed c"

lemma messages_ok:
  assumes inv: "election_inv ms c" and s: "same_election c c'"
    and "requests_ok ms c'" and "replies_ok ms c'" and "ballots_ok ms c'"
  shows "election_inv ms c'"
proof -
  have "pc_ok ms c' i pc = pc_ok ms c i pc" for i pc using s by (simp add: pc_ok_def same_election_def split: run_pc.splits)
  moreover have "elected_by ms c' i T Q = elected_by ms c i T Q" for i T Q using s by (simp add: elected_by_def same_election_def)
  ultimately show ?thesis using assms
    by (simp add: election_inv_def same_election_def members_ok_def votes_ok_def once_ok_def led_ok_def)
qed

lemma messages_okI:
  assumes "election_inv ms c" and "same_election c c'" and "cVoteReqs c' = cVoteReqs c" and "cVoteRun c' = cVoteRun c"
    and "cVoteReps c' = cVoteReps c" and "cBallots c' = cBallots c"
  shows "election_inv ms c'"
proof (rule messages_ok [OF assms(1,2)])
  note d = assms(1) [unfolded election_inv_def] assms(2) [unfolded same_election_def]
  have "requests_ok ms c" "cNodes c' = cNodes c" using d by simp_all
  then show "requests_ok ms c'" using assms(3,4) unfolding requests_ok_def by simp
  show "replies_ok ms c'" using d assms(5) unfolding replies_ok_def by simp
  show "ballots_ok ms c'" using d assms(6) unfolding ballots_ok_def by simp
qed

lemma cast_reply_ok:
  assumes inv: "election_inv ms c" and r: "(p, args) \<in> cVoteRun c" and f: "rv_finish args (cNodes c p) = (n', reply)"
  shows "election_inv ms (put p n' (c\<lparr>cVoteRun := cVoteRun c - {(p, args)}, cVoteReps := insert (p, args, reply) (cVoteReps c),
      cVotes := (if rrVoteGranted reply then insert (p, rrTerm reply, rvCandidateID args) (cVotes c) else cVotes c)\<rparr>))"
    (is "election_inv ms ?c'")
proof -
  let ?n = "cNodes c p"
  note d = inv [unfolded election_inv_def]
  have w: "p \<in> set ms" "rvCandidateID args \<in> set ms" "p \<noteq> rvCandidateID args" "rvTerm args \<le> currentTerm ?n" "rvCandidateID args \<noteq> []"
  proof -
    show "p \<in> set ms" "p \<noteq> rvCandidateID args" "rvTerm args \<le> currentTerm ?n" and c: "rvCandidateID args \<in> set ms"
      using d r by (auto simp: requests_ok_def)
    show "rvCandidateID args \<noteq> []" using c d by (auto simp: members_ok_def)
  qed
  define c1 where "c1 = (if rrVoteGranted reply
    then (put p n' c)\<lparr>cVotes := insert (p, currentTerm n', rvCandidateID args) (cVotes c)\<rparr> else put p n' c)"
  have n': "currentTerm n' = currentTerm ?n" "rrTerm reply = currentTerm ?n"
    and g: "rrVoteGranted reply \<Longrightarrow> nId n' = nId ?n \<and> nPeers n' = nPeers ?n \<and> nState n' = nState ?n \<and> votedFor n' = rvCandidateID args
      \<and> (votedFor ?n = [] \<or> votedFor ?n = rvCandidateID args)" and ng: "\<not> rrVoteGranted reply \<Longrightarrow> n' = ?n"
    using f by (auto simp: rv_finish_def signalReset_def split: if_splits)
  have c1: "election_inv ms c1"
  proof (cases "rrVoteGranted reply")
    case True
    show ?thesis using vote_cast [OF inv w(5), of n' ?n p] g [OF True] n' True by (simp add: c1_def)
  next
    case False
    then show ?thesis using ng [OF False] inv by (simp add: c1_def put_def)
  qed
  show ?thesis
  proof (rule messages_ok [OF c1])
    show "same_election c1 ?c'" using n' by (simp add: same_election_def c1_def)
    show "requests_ok ms ?c'" using d n'(1) by (auto simp: requests_ok_def)
    show "replies_ok ms ?c'" using d w n' by (auto simp: replies_ok_def)
    show "ballots_ok ms ?c'" using d n'(1) by (auto simp: ballots_ok_def)
  qed
qed

lemma campaign_ok:
  assumes inv: "election_inv ms c" and i: "i \<in> set ms" and pc: "cPc c i = EnterCandidate" and n: "n = cNodes c i"
  shows "election_inv ms (goto i (RunCandidate (currentTerm n + 1) {}) (put i (campaign n)
      (c\<lparr>cVoteReqs := cVoteReqs c \<union> {(p, vote_request n) |p. p \<in> set (nPeers n)},
         cVotes := insert (i, currentTerm n + 1, nId n) (cVotes c)\<rparr>)))"
proof -
  note d = inv [unfolded election_inv_def]
  have st: "nState n \<noteq> Leader" using election_pc [OF inv pc] n by (simp add: pc_ok_def)
  have id: "nId n = i" "nPeers n = filter (\<lambda>p. p \<noteq> i) ms" "i \<noteq> []" using d n i by (auto simp: members_ok_def)
  let ?c1 = "(put i (campaign n) c)\<lparr>cVotes := insert (i, currentTerm (campaign n), i) (cVotes c)\<rparr>"
  have cs: "nId (campaign n) = nId n" "nPeers (campaign n) = nPeers n" "nState (campaign n) = nState n"
    "votedFor (campaign n) = i" "currentTerm (campaign n) = currentTerm n + 1"
    using id by (simp_all add: campaign_def)
  have c1: "election_inv ms ?c1" using cs st n by (intro vote_cast [OF inv id(3)]) auto
  let ?c2 = "?c1\<lparr>cVoteReqs := cVoteReqs c \<union> {(p, vote_request n) |p. p \<in> set (nPeers n)}\<rparr>"
  have c2: "election_inv ms ?c2"
  proof (rule messages_ok [OF c1])
    show "requests_ok ms ?c2"
      using c1 id i by (auto simp: election_inv_def requests_ok_def vote_request_def split: prod.splits)
    show "replies_ok ms ?c2" using c1 by (simp add: election_inv_def replies_ok_def)
    show "ballots_ok ms ?c2" using c1 by (simp add: election_inv_def ballots_ok_def)
  qed (simp add: same_election_def)
  have new: "(i, currentTerm n + 1) \<notin> cLed c" using d n by (force simp: led_ok_def)
  have "election_inv ms (goto i (RunCandidate (currentTerm n + 1) {}) ?c2)"
    by (rule goto_ok [OF c2]) (simp add: pc_ok_def cs new)
  moreover have "?c2 = put i (campaign n) (c\<lparr>cVoteReqs := cVoteReqs c \<union> {(p, vote_request n) |p. p \<in> set (nPeers n)},
         cVotes := insert (i, currentTerm n + 1, nId n) (cVotes c)\<rparr>)"
    by (simp add: put_def cs id)
  ultimately show ?thesis by simp
qed

lemma vote_return_ok:
  assumes inv: "election_inv ms c" and r: "(p, args, reply) \<in> cVoteReps c" and i: "i = rvCandidateID args"
  shows "election_inv ms (put i (vote_reply reply (cNodes c i))
      (c\<lparr>cBallots := insert (i, p, rvTerm args, rrVoteGranted reply) (cBallots c)\<rparr>))" (is "election_inv ms ?c'")
proof (rule messages_ok)
  let ?n = "vote_reply reply (cNodes c i)"
  show c1: "election_inv ms (put i ?n c)" by (rule quiet_put [OF inv quiet_or_down_sections(4)])
  have t: "rrTerm reply \<le> currentTerm ?n" by (simp add: vote_reply_def)
  have w: "p \<in> set ms \<and> p \<noteq> i \<and> (rrVoteGranted reply \<longrightarrow> rvTerm args \<le> rrTerm reply \<and> (p, rrTerm reply, i) \<in> cVotes c)"
    using inv r i by (auto simp: election_inv_def replies_ok_def)
  show "same_election (put i ?n c) ?c'" by (simp add: same_election_def)
  show "requests_ok ms ?c'" using c1 by (simp add: election_inv_def requests_ok_def)
  show "replies_ok ms ?c'" using c1 by (simp add: election_inv_def replies_ok_def)
  have "currentTerm ?n > rvTerm args \<or> (p, rvTerm args, i) \<in> cVotes c" if "rrVoteGranted reply"
    using w t that by (cases "rvTerm args = rrTerm reply") auto
  then show "ballots_ok ms ?c'" using c1 w by (auto simp: election_inv_def ballots_ok_def)
qed

theorem election_inv_step:
  assumes "cstep ms races c c'" and inv: "election_inv ms c"
  shows "election_inv ms c'"
  using assms(1)
proof cases
  case (dispatch i)
  have "pc_ok ms c i (run_dispatch (nState (cNodes c i)))" by (simp add: pc_ok_def run_dispatch_def split: role.splits)
  then show ?thesis using dispatch goto_ok [OF inv] by simp
next
  case (reset i)
  then show ?thesis using quiet_put [OF inv quiet_or_down_sections(1)] by simp
next
  case (timeout i)
  have "election_inv ms (put i (follower_timeout (cNodes c i)) c)" by (rule quiet_put [OF inv quiet_or_down_sections(2)])
  then show ?thesis using timeout by (simp add: goto_ok pc_ok_def)
next
  case (campaign i n)
  then show ?thesis using campaign_ok [OF inv] by simp
next
  case (abandon i T G n')
  have "election_inv ms (put i n' c)"
    using abandon(4) quiet_put [OF inv quiet_or_down_sections(1), of i] inv by (auto simp: put_def)
  then show ?thesis using abandon by (simp add: goto_ok pc_ok_def)
next
  case (vote_reject p args)
  show ?thesis
  proof (rule messages_ok [OF inv])
    have "p \<in> set ms \<and> rvCandidateID args \<in> set ms \<and> p \<noteq> rvCandidateID args"
      using vote_reject inv by (simp add: election_inv_def requests_ok_def)
    then show "replies_ok ms c'" using vote_reject inv by (auto simp: election_inv_def replies_ok_def)
    show "requests_ok ms c'" using vote_reject(1) inv by (simp add: election_inv_def requests_ok_def)
    show "ballots_ok ms c'" using vote_reject(1) inv by (simp add: election_inv_def ballots_ok_def)
  qed (simp add: same_election_def vote_reject(1))
next
  case (vote_enter p args)
  then show ?thesis using vote_enter_ok [OF inv] by simp
next
  case (vote_finish p args n' reply)
  then show ?thesis using cast_reply_ok [OF inv] by simp
next
  case (vote_return p args reply i)
  then show ?thesis using vote_return_ok [OF inv] by simp
next
  case (count i T G p g)
  have b: "p \<in> set ms \<and> p \<noteq> i \<and> (g \<longrightarrow> currentTerm (cNodes c i) > T \<or> (p, T, i) \<in> cVotes c)"
    using count(3) inv by (simp add: election_inv_def ballots_ok_def)
  have "pc_ok ms c i (RunCandidate T (if g then insert p G else G))"
    using election_pc [OF inv count(2)] b by (auto simp: pc_ok_def)
  then show ?thesis using count goto_ok [OF inv] by simp
next
  case (win i T G n)
  show ?thesis
  proof (cases "nState n = Candidate \<and> currentTerm n = T")
    case True
    then show ?thesis using win_ok [OF inv win(3,2,4,5)] win(1) by simp
  next
    case False
    have "win T n = n" using False by (auto simp: Raft_Node.win_def)
    then have e: "c' = goto i AtLoop c" using False unfolding win(1,4) by (auto simp: put_def)
    show ?thesis unfolding e using goto_ok [OF inv] by (simp add: pc_ok_def)
  qed
next
  case (lead i n)
  then show ?thesis using quiet_put [OF inv quiet_or_down_sections(5)] by (simp add: goto_ok pc_ok_def)
next
  case (resign i T)
  then show ?thesis using goto_ok [OF inv] by (simp add: pc_ok_def)
next
  case (send i T p args)
  show ?thesis by (rule messages_okI [OF inv]) (simp_all add: send(1) same_election_def)
next
  case (app_reject p args m)
  show ?thesis by (rule messages_okI [OF inv]) (simp_all add: app_reject(1) same_election_def)
next
  case (app_enter p args m)
  show ?thesis
    by (rule messages_okI [OF quiet_put [OF inv quiet_or_down_sections(6) [of "cNodes c p" args]]])
       (simp_all add: app_enter(1) same_election_def)
next
  case (app_finish p args m n' reply)
  show ?thesis
    by (rule messages_okI [OF quiet_put [OF inv quiet_or_down_sections(7) [OF app_finish(4)]]])
       (simp_all add: app_finish(1) same_election_def)
next
  case (app_return p args reply i)
  then show ?thesis using quiet_put [OF inv send_finish_quiet] by simp
next
  case (propose i cmd)
  then show ?thesis using quiet_put [OF inv quiet_or_down_sections(8)] by simp
next
  case (deliver i n')
  then show ?thesis using quiet_put [OF inv quiet_or_down_sections(9)] by simp
qed

lemma election_inv_init: "distinct ms \<Longrightarrow> [] \<notin> set ms \<Longrightarrow> election_inv ms (cluster_init ms persist)"
  by (simp add: election_inv_def election_defs cluster_init_def pc_ok_def NewNode_def)

section \<open>Election safety\<close>

text \<open>Two quorums meet; voters vote once; so what two quorums chose is the same.\<close>

locale quorums =
  fixes quorum :: "'a set \<Rightarrow> bool"
  assumes meet: "quorum A \<Longrightarrow> quorum B \<Longrightarrow> A \<inter> B \<noteq> {}"
begin

lemma one_choice:
  assumes "quorum A" and "quorum B" and "\<And>p. p \<in> A \<Longrightarrow> (p, x) \<in> votes" and "\<And>p. p \<in> B \<Longrightarrow> (p, y) \<in> votes"
    and "\<And>p x y. (p, x) \<in> votes \<Longrightarrow> (p, y) \<in> votes \<Longrightarrow> x = y"
  shows "x = y"
proof -
  obtain p where "p \<in> A" "p \<in> B" using meet [OF assms(1,2)] by blast
  then show ?thesis using assms(3-5) by blast
qed

end

interpretation majorities: quorums "\<lambda>Q. Q \<subseteq> set ms \<and> length ms < 2 * card Q" for ms :: "'a list"
proof
  fix A B :: "'a set"
  assume a: "A \<subseteq> set ms \<and> length ms < 2 * card A" and b: "B \<subseteq> set ms \<and> length ms < 2 * card B"
  have fin: "finite A" "finite B" using a b finite_subset by blast+
  have "card (A \<union> B) \<le> card (set ms)" using a b by (intro card_mono) auto
  also have "\<dots> \<le> length ms" by (rule card_length)
  finally have "card A + card B \<le> length ms + card (A \<inter> B)" using card_Un_Int [OF fin] by simp
  then show "A \<inter> B \<noteq> {}" using a b by auto
qed

lemma led_facts:
  assumes "election_inv ms c" and "(i, T) \<in> cLed c"
  shows "T \<le> currentTerm (cNodes c i)" and "\<exists>Q. elected_by ms c i T Q"
  using assms by (simp_all add: election_inv_def led_ok_def)

lemma leader_led: "election_inv ms c \<Longrightarrow> nState (cNodes c i) = Leader \<Longrightarrow> (i, currentTerm (cNodes c i)) \<in> cLed c"
  by (simp add: election_inv_def led_ok_def)

lemma one_leader:
  assumes inv: "election_inv ms c" and "(i, T) \<in> cLed c" and "(j, T) \<in> cLed c"
  shows "i = j"
proof -
  obtain A B where A: "elected_by ms c i T A" and B: "elected_by ms c j T B"
    using led_facts(2) [OF inv assms(2)] led_facts(2) [OF inv assms(3)] by blast
  show ?thesis
  proof (rule majorities.one_choice [where A = A and B = B and ms = ms and votes = "{(p, x). (p, T, x) \<in> cVotes c}"])
    show "x = y" if "(p, x) \<in> {(p, x). (p, T, x) \<in> cVotes c}" "(p, y) \<in> {(p, x). (p, T, x) \<in> cVotes c}" for p x y
      using that inv by (auto simp: election_inv_def once_ok_def)
  qed (use A B in \<open>auto simp: elected_by_def\<close>)
qed

definition reachable :: "string list \<Rightarrow> bool \<Rightarrow> bool \<Rightarrow> cluster \<Rightarrow> bool" where
  "reachable ms persist races c \<longleftrightarrow> (cstep ms races)\<^sup>*\<^sup>* (cluster_init ms persist) c"

lemma reachable_init: "reachable ms persist races (cluster_init ms persist)"
  by (simp add: reachable_def)

lemma reachable_step: "reachable ms persist races c \<Longrightarrow> cstep ms races c c' \<Longrightarrow> reachable ms persist races c'"
  by (simp add: reachable_def)

lemma reachable_induct [consumes 1, case_names init step]:
  assumes "reachable ms persist races c" and "P (cluster_init ms persist)"
    and "\<And>c c'. reachable ms persist races c \<Longrightarrow> P c \<Longrightarrow> cstep ms races c c' \<Longrightarrow> P c'"
  shows "P c"
proof -
  have "(cstep ms races)\<^sup>*\<^sup>* (cluster_init ms persist) c" using assms(1) by (simp add: reachable_def)
  then show ?thesis
  proof (induction rule: rtranclp_induct)
    case base
    show ?case by (rule assms(2))
  next
    case (step c c')
    show ?case by (rule assms(3) [OF _ step.IH step.hyps(2)]) (simp add: reachable_def step.hyps(1))
  qed
qed

lemma reachable_election:
  assumes "reachable ms persist races c" and "distinct ms" and "[] \<notin> set ms"
  shows "election_inv ms c"
  using assms by (induction rule: reachable_induct) (auto intro: election_inv_init election_inv_step)

end
