(* ===== verification/Raft_Log.thy ===== *)
theory Raft_Log
  imports Raft_Cluster
begin

text \<open>
  Log matching: in a reachable cluster the logs of all nodes, and the log every AppendEntries message was cut
  from, agree up to any entry they have with the same index and term.  The handler of AppendEntries gives up
  the mutex inside \<open>stepDown\<close>, and goes on in the term it then finds; the result is about runs in which
  that term is still the message's (\<open>races = False\<close>).
\<close>

section \<open>The logs of a cluster\<close>

definition app_msgs :: "cluster \<Rightarrow> (string \<times> append_entries_args \<times> log_entry list) set" where
  "app_msgs c = cAppReqs c \<union> cAppRun c"

definition logs :: "cluster \<Rightarrow> log_entry list set" where
  "logs c = range (\<lambda>i. nLog (cNodes c i)) \<union> {m. \<exists>p a. (p, a, m) \<in> app_msgs c}"

text \<open>What a message carries is the tail of the log it was cut from, with the entry before the tail.\<close>

definition msg_ok :: "cluster \<Rightarrow> string \<Rightarrow> append_entries_args \<Rightarrow> log_entry list \<Rightarrow> bool" where
  "msg_ok c p a m \<longleftrightarrow> p \<noteq> aeLeaderID a \<and> (aeLeaderID a, aeTerm a) \<in> cLed c
     \<and> 0 \<le> aePrevLogIndex a + 1 \<and> aePrevLogIndex a + 1 \<le> int (length m)
     \<and> aeEntries a = drop (nat (aePrevLogIndex a + 1)) m
     \<and> (aePrevLogIndex a + 1 > 0 \<longrightarrow> aePrevLogTerm a = leTerm (m ! nat (aePrevLogIndex a)))"

definition log_inv :: "cluster \<Rightarrow> bool" where
  "log_inv c \<longleftrightarrow> (\<forall>l \<in> logs c. \<forall>l' \<in> logs c. log_match l l')
     \<and> (\<forall>l \<in> logs c. \<forall>e \<in> set l. \<exists>j. (j, leTerm e) \<in> cLed c)
     \<and> (\<forall>i l k. nState (cNodes c i) = Leader \<longrightarrow> l \<in> logs c \<longrightarrow> k < length l \<longrightarrow>
          leTerm (l ! k) = currentTerm (cNodes c i) \<longrightarrow> k < length (nLog (cNodes c i)))
     \<and> (\<forall>p a m. (p, a, m) \<in> app_msgs c \<longrightarrow> msg_ok c p a m)"

lemma log_inv_match: "log_inv c \<Longrightarrow> l \<in> logs c \<Longrightarrow> l' \<in> logs c \<Longrightarrow> log_match l l'"
  by (simp add: log_inv_def)

lemma log_inv_msg: "log_inv c \<Longrightarrow> (p, a, m) \<in> app_msgs c \<Longrightarrow> msg_ok c p a m"
  by (simp add: log_inv_def)

lemma log_inv_leader:
  "log_inv c \<Longrightarrow> nState (cNodes c i) = Leader \<Longrightarrow> l \<in> logs c \<Longrightarrow> k < length l \<Longrightarrow> leTerm (l ! k) = currentTerm (cNodes c i)
   \<Longrightarrow> k < length (nLog (cNodes c i))"
  by (simp add: log_inv_def)

lemma node_log [simp, intro]: "nLog (cNodes c i) \<in> logs c"
  by (simp add: logs_def)

lemma msg_log: "(p, a, m) \<in> app_msgs c \<Longrightarrow> m \<in> logs c"
  by (auto simp: logs_def)

text \<open>
  A step that brings no new log and no new leader keeps the invariant, whatever else it does to the nodes,
  as long as a node that leads keeps its log.
\<close>

lemma log_inv_mono:
  assumes inv: "log_inv c" and logs: "logs c' \<subseteq> logs c" and led: "cLed c \<subseteq> cLed c'"
    and lead: "\<And>i. nState (cNodes c' i) = Leader \<Longrightarrow> nState (cNodes c i) = Leader
      \<and> currentTerm (cNodes c' i) = currentTerm (cNodes c i) \<and> nLog (cNodes c' i) = nLog (cNodes c i)"
    and msgs: "\<And>p a m. (p, a, m) \<in> app_msgs c' \<Longrightarrow> (p, a, m) \<notin> app_msgs c \<Longrightarrow> msg_ok c' p a m"
  shows "log_inv c'"
  unfolding log_inv_def
proof (intro conjI allI impI ballI)
  fix l l' assume "l \<in> logs c'" "l' \<in> logs c'"
  then show "log_match l l'" using inv logs unfolding log_inv_def by blast
next
  fix l e assume "l \<in> logs c'" "e \<in> set l"
  then show "\<exists>j. (j, leTerm e) \<in> cLed c'" using inv logs led unfolding log_inv_def by (meson subsetD)
next
  fix i l k assume a: "nState (cNodes c' i) = Leader" "l \<in> logs c'" "k < length l" "leTerm (l ! k) = currentTerm (cNodes c' i)"
  then have "l \<in> logs c" using logs by blast
  then show "k < length (nLog (cNodes c' i))" using lead [OF a(1)] a inv unfolding log_inv_def by metis
next
  fix p a m assume a: "(p, a, m) \<in> app_msgs c'"
  show "msg_ok c' p a m"
  proof (cases "(p, a, m) \<in> app_msgs c")
    case True
    then have "msg_ok c p a m" using inv by (simp add: log_inv_def)
    then show ?thesis using led by (auto simp: msg_ok_def)
  qed (rule msgs [OF a])
qed

section \<open>The steps\<close>

definition calm :: "raft_node \<Rightarrow> raft_node \<Rightarrow> bool" where
  "calm n n' \<longleftrightarrow> nLog n' = nLog n \<and> (nState n' = Leader \<longrightarrow> nState n = Leader \<and> currentTerm n' = currentTerm n)"

lemma calm_refl [simp]: "calm n n"
  by (simp add: calm_def)

lemma calm_sections:
  "calm n (follower_reset n)" "calm n (follower_timeout n)" "nState n \<noteq> Leader \<Longrightarrow> calm n (campaign n)"
  "calm n (rv_enter ra n)" "calm n (fst (rv_finish ra n))" "calm n (vote_reply rr n)" "calm n (become_leader n)"
  "calm n (ae_enter aa n)" "calm n (send_finish p aa ar n)"
  by (simp_all add: calm_def follower_reset_def follower_timeout_def campaign_def rv_enter_def rv_finish_def signalReset_def
    vote_reply_def become_leader_def ae_enter_def send_finish_def Let_def case_prod_unfold)

lemma calm_deliver: "deliver_one n = Some (Inr n') \<Longrightarrow> calm n n'"
  by (auto simp: calm_def deliver_one_def Let_def split: if_splits)

lemma calm_step:
  assumes inv: "log_inv c" and n: "cNodes c' = (cNodes c)(i := n')" and m: "app_msgs c' = app_msgs c" and l: "cLed c' = cLed c"
    and calm: "calm (cNodes c i) n'"
  shows "log_inv c'"
proof (rule log_inv_mono [OF inv])
  show "logs c' \<subseteq> logs c" using n m calm by (auto simp: logs_def calm_def)
qed (use n m l calm in \<open>auto simp: calm_def split: if_splits\<close>)

lemma win_step:
  assumes inv: "log_inv c" and el: "election_inv ms c'" and n: "cNodes c' = (cNodes c)(i := (cNodes c i)\<lparr>nState := Leader\<rparr>)"
    and m: "app_msgs c' = app_msgs c" and l: "cLed c' = insert (i, currentTerm (cNodes c i)) (cLed c)"
    and new: "(i, currentTerm (cNodes c i)) \<notin> cLed c"
  shows "log_inv c'"
proof -
  have logs: "logs c' = logs c" using n m by (auto simp: logs_def)
  have none: "(j, currentTerm (cNodes c i)) \<notin> cLed c" for j
    using one_leader [OF el, of i "currentTerm (cNodes c i)" j] l new by auto
  have fresh: "leTerm (k ! x) \<noteq> currentTerm (cNodes c i)" if "k \<in> logs c" "x < length k" for k x
    using inv none that nth_mem [of x k] unfolding log_inv_def by metis
  show ?thesis unfolding log_inv_def logs
  proof (intro conjI allI impI ballI)
    fix k k' assume "k \<in> logs c" "k' \<in> logs c"
    then show "log_match k k'" using inv by (simp add: log_inv_def)
  next
    fix k e assume "k \<in> logs c" "e \<in> set k"
    then have "\<exists>j. (j, leTerm e) \<in> cLed c" using inv by (simp add: log_inv_def)
    then show "\<exists>j. (j, leTerm e) \<in> cLed c'" using l by auto
  next
    fix j k x
    assume a: "nState (cNodes c' j) = Leader" "k \<in> logs c" "x < length k" "leTerm (k ! x) = currentTerm (cNodes c' j)"
    then have "j \<noteq> i" using fresh n by auto
    then show "x < length (nLog (cNodes c' j))" using a inv n by (simp add: log_inv_def)
  next
    fix p a k assume "(p, a, k) \<in> app_msgs c'"
    then have "msg_ok c p a k" using inv m by (simp add: log_inv_def)
    then show "msg_ok c' p a k" using l by (simp add: msg_ok_def)
  qed
qed

lemma log_match_snoc:
  assumes "log_match l l'" and "length l < length l' \<Longrightarrow> leTerm (l' ! length l) \<noteq> leTerm e"
  shows "log_match (l @ [e]) l'"
  unfolding log_match_def
proof (intro allI impI)
  fix k assume k: "k < length (l @ [e])" "k < length l'" "leTerm ((l @ [e]) ! k) = leTerm (l' ! k)"
  have "k < length l" using k assms(2) by (cases "k = length l") auto
  then show "take (Suc k) (l @ [e]) = take (Suc k) l'" using k assms(1) by (simp add: log_match_def nth_append)
qed

lemma propose_step:
  assumes inv: "log_inv c" and el: "election_inv ms c"
  shows "log_inv (put i (snd (ProposeCommand cmd (cNodes c i))) c)" (is "log_inv ?c'")
proof (cases "nLog (snd (ProposeCommand cmd (cNodes c i))) = nLog (cNodes c i)")
  case True
  have st: "nState (snd (ProposeCommand cmd (cNodes c i))) = nState (cNodes c i)"
    "currentTerm (snd (ProposeCommand cmd (cNodes c i))) = currentTerm (cNodes c i)"
    by (simp_all add: ProposeCommand_def split: option.splits)
  have "calm (cNodes c i) (snd (ProposeCommand cmd (cNodes c i)))" using True st by (simp add: calm_def)
  then show ?thesis by (intro calm_step [OF inv, of ?c' i]) (simp_all add: app_msgs_def)
next
  case False
  let ?n = "cNodes c i" and ?e = "\<lparr>leTerm = currentTerm (cNodes c i), leData = cmd\<rparr>"
  have n': "snd (ProposeCommand cmd ?n) = ?n\<lparr>nLog := nLog ?n @ [?e]\<rparr>" and L: "nState ?n = Leader"
    using False by (auto simp: ProposeCommand_def split: if_splits option.splits)
  have led: "(i, currentTerm ?n) \<in> cLed c" by (rule leader_led [OF el L])
  have logs: "logs ?c' \<subseteq> insert (nLog ?n @ [?e]) (logs c)" by (auto simp: logs_def app_msgs_def n')
  have old: "nLog ?n \<in> logs c" by (simp add: logs_def)
  have short: "\<not> length (nLog ?n) < length l \<or> leTerm (l ! length (nLog ?n)) \<noteq> currentTerm ?n" if "l \<in> logs c" for l
    using inv L that unfolding log_inv_def by (meson less_irrefl)
  have new: "log_match (nLog ?n @ [?e]) l" if "l \<in> logs c" for l
    by (rule log_match_snoc) (use inv old that short [OF that] in \<open>auto simp: log_inv_def\<close>)
  have other: "currentTerm (cNodes c j) \<noteq> currentTerm ?n" if "nState (cNodes c j) = Leader" "j \<noteq> i" for j
    using one_leader [OF el led, of j] leader_led [OF el that(1)] that(2) by auto
  show ?thesis unfolding log_inv_def
  proof (intro conjI allI impI ballI)
    fix k k' assume "k \<in> logs ?c'" "k' \<in> logs ?c'"
    then have "k = nLog ?n @ [?e] \<or> k \<in> logs c" "k' = nLog ?n @ [?e] \<or> k' \<in> logs c" using logs by auto
    then show "log_match k k'" using new log_match_sym [OF new] inv by (auto simp: log_inv_def)
  next
    fix k e assume a: "k \<in> logs ?c'" "e \<in> set k"
    then have "e = ?e \<or> (\<exists>l \<in> logs c. e \<in> set l)" using logs old by auto
    then show "\<exists>j. (j, leTerm e) \<in> cLed ?c'" using led inv by (auto simp: log_inv_def)
  next
    fix j k x
    assume a: "nState (cNodes ?c' j) = Leader" "k \<in> logs ?c'" "x < length k" "leTerm (k ! x) = currentTerm (cNodes ?c' j)"
    have jl: "nState (cNodes c j) = Leader" "currentTerm (cNodes ?c' j) = currentTerm (cNodes c j)"
      using a(1) L by (auto simp: n' split: if_splits)
    have le: "length (nLog (cNodes c j)) \<le> length (nLog (cNodes ?c' j))" by (simp add: n')
    have base: "x < length (nLog (cNodes c j))" if "k \<in> logs c"
      using inv jl a that unfolding log_inv_def by metis
    show "x < length (nLog (cNodes ?c' j))"
    proof (cases "k \<in> logs c")
      case True
      then show ?thesis using base le by simp
    next
      case False
      then have k: "k = nLog ?n @ [?e]" using a(2) logs by auto
      show ?thesis
      proof (cases "j = i")
        case True
        then show ?thesis using a(3) k by (simp add: n')
      next
        case ne: False
        then have "x < length (nLog ?n)" using a(3,4) k other [OF jl(1) ne] jl(2) by (auto simp: nth_append split: if_splits)
        then show ?thesis using ne log_inv_leader [OF inv jl(1) old] jl(2) a(4) k by (simp add: nth_append)
      qed
    qed
  next
    fix p a k assume "(p, a, k) \<in> app_msgs ?c'"
    then have "msg_ok c p a k" using log_inv_msg [OF inv] by (simp add: app_msgs_def)
    then show "msg_ok ?c' p a k" by (simp add: msg_ok_def)
  qed
qed

lemma send_begin_msg:
  assumes "send_begin p T n = Inr (Some args)"
  shows "nState n = Leader" "currentTerm n = T" "aeTerm args = T" "aeLeaderID args = nId n"
    "0 \<le> aePrevLogIndex args + 1" "aePrevLogIndex args + 1 \<le> int (length (nLog n))"
    "aeEntries args = drop (nat (aePrevLogIndex args + 1)) (nLog n)"
    "aePrevLogIndex args + 1 > 0 \<Longrightarrow> aePrevLogTerm args = leTerm (nLog n ! nat (aePrevLogIndex args))"
  using assms by (auto simp: send_begin_def Let_def split: if_splits)

lemma send_step:
  assumes inv: "log_inv c" and el: "election_inv ms c" and p: "p \<in> set (nPeers (cNodes c i))"
    and s: "send_begin p T (cNodes c i) = Inr (Some args)"
  shows "log_inv (c\<lparr>cAppReqs := insert (p, args, nLog (cNodes c i)) (cAppReqs c)\<rparr>)" (is "log_inv ?c'")
proof (rule log_inv_mono [OF inv])
  note m = send_begin_msg [OF s]
  have id: "nId (cNodes c i) = i" "p \<noteq> i" using el p by (auto simp: election_inv_def members_ok_def)
  have led: "(i, T) \<in> cLed c" using leader_led [OF el m(1)] m(2) by simp
  show "logs ?c' \<subseteq> logs c" by (auto simp: logs_def app_msgs_def)
  show "msg_ok ?c' q a k" if "(q, a, k) \<in> app_msgs ?c'" "(q, a, k) \<notin> app_msgs c" for q a k
    using that m id led by (auto simp: app_msgs_def msg_ok_def)
qed simp_all

lemma accepted_msg:
  assumes inv: "log_inv c" and m: "(p, a, m) \<in> app_msgs c" and f: "ae_finish a (cNodes c p) = Inr (n', reply)"
  shows "nLog n' \<in> {nLog (cNodes c p), m}" and "arSuccess reply \<Longrightarrow> take (length m) (nLog n') = m"
proof -
  note ok = log_inv_msg [OF inv m] and lm = log_inv_match [OF inv node_log msg_log [OF m]]
  note acc = accepted_append [OF lm, where ni = "aePrevLogIndex a + 1" and args = a and n' = n' and reply = reply]
  show "nLog n' \<in> {nLog (cNodes c p), m}" using acc(1) ok f by (auto simp: msg_ok_def)
  show "arSuccess reply \<Longrightarrow> take (length m) (nLog n') = m" using acc(2) ok f by (auto simp: msg_ok_def)
qed

lemma ae_finish_frame:
  "ae_finish a n = Inr (n', reply) \<Longrightarrow> nState n' = nState n \<and> currentTerm n' = currentTerm n"
  by (auto simp: ae_finish_def signalReset_def advance_commit_def Let_def split: if_splits)

lemma app_finish_step:
  assumes inv: "log_inv c" and el: "election_inv ms c" and m: "(p, a, m) \<in> cAppRun c"
    and t: "aeTerm a = currentTerm (cNodes c p)" and f: "ae_finish a (cNodes c p) = Inr (n', reply)"
  shows "log_inv (put p n' (c\<lparr>cAppRun := cAppRun c - {(p, a, m)}, cAppReps := insert (p, a, reply) (cAppReps c)\<rparr>))"
    (is "log_inv ?c'")
proof (rule log_inv_mono [OF inv])
  have mm: "(p, a, m) \<in> app_msgs c" using m by (simp add: app_msgs_def)
  have log: "nLog n' \<in> logs c" using accepted_msg(1) [OF inv mm f] msg_log [OF mm] by auto
  have ok: "msg_ok c p a m" using inv mm by (simp add: log_inv_def)
  have no: "nState (cNodes c p) \<noteq> Leader"
    using leader_led [OF el, of p] one_leader [OF el, of p "aeTerm a" "aeLeaderID a"] ok t by (auto simp: msg_ok_def)
  have am: "app_msgs ?c' \<subseteq> app_msgs c" by (auto simp: app_msgs_def)
  have "nLog (cNodes ?c' i) \<in> logs c" for i using log by simp
  then show "logs ?c' \<subseteq> logs c" using am msg_log [of _ _ _ c] unfolding logs_def [of ?c'] by blast
  show "nState (cNodes c i) = Leader \<and> currentTerm (cNodes ?c' i) = currentTerm (cNodes c i) \<and> nLog (cNodes ?c' i) = nLog (cNodes c i)"
    if "nState (cNodes ?c' i) = Leader" for i
    using that no ae_finish_frame [OF f] by (auto split: if_splits)
qed (auto simp: app_msgs_def)

lemma log_inv_step:
  assumes "cstep ms False c c'" and el: "election_inv ms c" and inv: "log_inv c"
  shows "log_inv c'"
proof -
  note el' = election_inv_step [OF assms(1) el]
  show ?thesis using assms(1)
  proof cases
    case (dispatch i)
    then show ?thesis by (intro calm_step [OF inv, of c' i "cNodes c i"]) (simp_all add: app_msgs_def)
  next
    case (reset i)
    then show ?thesis using calm_sections(1) by (intro calm_step [OF inv, of c' i]) (simp_all add: app_msgs_def)
  next
    case (timeout i)
    then show ?thesis using calm_sections(2) by (intro calm_step [OF inv, of c' i]) (simp_all add: app_msgs_def)
  next
    case (campaign i n)
    then have "calm n (Raft_Node.campaign n)"
      using election_pc [OF el campaign(3)] calm_sections(3) by (simp add: pc_ok_def)
    then show ?thesis using campaign by (intro calm_step [OF inv, of c' i]) (simp_all add: app_msgs_def)
  next
    case (abandon i T G n')
    then have "calm (cNodes c i) n'" using calm_sections(1) by auto
    then show ?thesis using abandon(1) by (intro calm_step [OF inv, of c' i]) (simp_all add: app_msgs_def)
  next
    case (vote_reject p args)
    then show ?thesis by (intro calm_step [OF inv, of c' p "cNodes c p"]) (simp_all add: app_msgs_def)
  next
    case (vote_enter p args)
    then show ?thesis using calm_sections(4) by (intro calm_step [OF inv, of c' p]) (simp_all add: app_msgs_def)
  next
    case (vote_finish p args n' reply)
    then have "calm (cNodes c p) n'" using calm_sections(5) [of "cNodes c p" args] by simp
    then show ?thesis using vote_finish(1) by (intro calm_step [OF inv, of c' p]) (simp_all add: app_msgs_def)
  next
    case (vote_return p args reply i)
    then show ?thesis using calm_sections(6) by (intro calm_step [OF inv, of c' i]) (simp_all add: app_msgs_def)
  next
    case (count i T G p g)
    then show ?thesis by (intro calm_step [OF inv, of c' i "cNodes c i"]) (simp_all add: app_msgs_def)
  next
    case (win i T G n)
    show ?thesis
    proof (cases "nState n = Candidate \<and> currentTerm n = T")
      case True
      have "(i, T) \<notin> cLed c" using election_pc [OF el win(3)] by (simp add: pc_ok_def)
      then show ?thesis using win True
        by (intro win_step [OF inv el', of i]) (simp_all add: app_msgs_def Raft_Node.win_def)
    next
      case False
      then have "Raft_Node.win T n = n" by (auto simp: Raft_Node.win_def)
      then show ?thesis using win(1,4) False
        by (intro calm_step [OF inv, of c' i "cNodes c i"]) (auto simp: app_msgs_def)
    qed
  next
    case (lead i n)
    then show ?thesis using calm_sections(7) by (intro calm_step [OF inv, of c' i]) (simp_all add: app_msgs_def)
  next
    case (resign i T)
    then show ?thesis by (intro calm_step [OF inv, of c' i "cNodes c i"]) (simp_all add: app_msgs_def)
  next
    case (send i T p args)
    then show ?thesis using send_step [OF inv el] by simp
  next
    case (app_reject p args m)
    then show ?thesis by (intro calm_step [OF inv, of c' p "cNodes c p"]) (simp_all add: app_msgs_def)
  next
    case (app_enter p args m)
    have "app_msgs c' = app_msgs c" using app_enter by (auto simp: app_msgs_def)
    then show ?thesis using calm_sections(8) app_enter(1) by (intro calm_step [OF inv, of c' p]) simp_all
  next
    case (app_finish p args m n' reply)
    then show ?thesis using app_finish_step [OF inv el] by simp
  next
    case (app_return p args reply i)
    then show ?thesis using calm_sections(9) by (intro calm_step [OF inv, of c' i]) (simp_all add: app_msgs_def)
  next
    case (propose i cmd)
    then show ?thesis using propose_step [OF inv el] by simp
  next
    case (deliver i n')
    then show ?thesis using calm_deliver by (intro calm_step [OF inv, of c' i]) (simp_all add: app_msgs_def)
  qed
qed

lemma log_inv_init: "log_inv (cluster_init ms persist)"
  by (simp add: log_inv_def logs_def app_msgs_def cluster_init_def NewNode_def)

lemma reachable_logs:
  assumes "reachable ms persist False c" and "distinct ms" and "[] \<notin> set ms"
  shows "log_inv c"
  using assms(1)
proof (induction rule: reachable_induct)
  case init
  show ?case by (rule log_inv_init)
next
  case (step c c')
  show ?case by (rule log_inv_step [OF step.hyps(2) reachable_election [OF step.hyps(1) assms(2,3)] step.IH])
qed

end
