(* ===== verification/Raft_Properties.thy ===== *)
theory Raft_Properties
  imports Raft_Log
begin

text \<open>
  The properties of the consensus layer: election safety and log matching over all runs of a cluster, what one
  round of replication and the commit loop do, and the points at which \<^verbatim>\<open>node.go\<close> departs from
  the Raft protocol.  The witnesses share a run of three nodes in which the first is elected and replicates a
  command.
\<close>

section \<open>A run of three nodes\<close>

definition demo_ms :: "string list" where
  "demo_ms = [''a'', ''b'', ''c'']"

definition demo_rv :: request_vote_args where
  "demo_rv = \<lparr>rvTerm = 1, rvCandidateID = ''a'', rvLastLogIndex = -1, rvLastLogTerm = 0\<rparr>"

definition demo_granted :: request_vote_reply where
  "demo_granted = \<lparr>rrTerm = 1, rrVoteGranted = True\<rparr>"

definition demoA :: "role \<Rightarrow> raft_node" where
  "demoA r = (NewNode ''a'' [''b'', ''c''])\<lparr>hasPersister := True, currentTerm := 1, votedFor := ''a'', nState := r, metaWrites := [(1, ''a'')]\<rparr>"

definition demoB :: raft_node where
  "demoB = (NewNode ''b'' [''a'', ''c''])\<lparr>hasPersister := True, currentTerm := 1, votedFor := ''a'', resetSig := True,
     metaWrites := [(1, []), (1, ''a'')]\<rparr>"

text \<open>The first node times out, campaigns, gets the second node's vote and wins term 1.\<close>

lemma demo_voted:
  obtains c where "reachable demo_ms True races c" "cNodes c ''a'' = demoA Candidate" "cNodes c ''b'' = demoB"
    "cPc c ''a'' = RunCandidate 1 {}" "(''b'', demo_rv, demo_granted) \<in> cVoteReps c" "cAppReqs c = {}" "cAppRun c = {}"
proof -
  note ev = demo_ms_def demo_rv_def demo_granted_def demoA_def demoB_def NewNode_def
  let ?A0 = "(NewNode ''a'' [''b'', ''c''])\<lparr>hasPersister := True\<rparr>" and ?B0 = "(NewNode ''b'' [''a'', ''c''])\<lparr>hasPersister := True\<rparr>"
  define c0 where "c0 = cluster_init demo_ms True"
  have r0: "reachable demo_ms True races c0" unfolding c0_def by (rule reachable_init)
  have f0: "cNodes c0 ''a'' = ?A0" "cNodes c0 ''b'' = ?B0" "cPc c0 ''a'' = AtLoop" "cAppReqs c0 = {}" "cAppRun c0 = {}"
    by (simp_all add: c0_def cluster_init_def demo_ms_def)
  define c1 where "c1 = goto ''a'' RunFollower c0"
  have r1: "reachable demo_ms True races c1"
    using reachable_step [OF r0 cstep.dispatch [of "''a''"]] f0 by (simp add: c1_def demo_ms_def run_dispatch_def NewNode_def)
  define c2 where "c2 = goto ''a'' AtLoop (put ''a'' (?A0\<lparr>nState := Candidate\<rparr>) c1)"
  have r2: "reachable demo_ms True races c2"
    using reachable_step [OF r1 cstep.timeout [of "''a''"]] f0 by (simp add: c1_def c2_def demo_ms_def follower_timeout_def)
  define c3 where "c3 = goto ''a'' EnterCandidate c2"
  have r3: "reachable demo_ms True races c3"
    using reachable_step [OF r2 cstep.dispatch [of "''a''"]] by (simp add: c2_def c3_def demo_ms_def run_dispatch_def)
  have f3: "cNodes c3 ''a'' = ?A0\<lparr>nState := Candidate\<rparr>" "cNodes c3 ''b'' = ?B0" "cPc c3 ''a'' = EnterCandidate" "cAppReqs c3 = {}" "cAppRun c3 = {}"
    using f0 by (simp_all add: c1_def c2_def c3_def)
  define c4 where "c4 = goto ''a'' (RunCandidate (currentTerm (cNodes c3 ''a'') + 1) {}) (put ''a'' (campaign (cNodes c3 ''a''))
     (c3\<lparr>cVoteReqs := cVoteReqs c3 \<union> {(p, vote_request (cNodes c3 ''a'')) |p. p \<in> set (nPeers (cNodes c3 ''a''))},
        cVotes := insert (''a'', currentTerm (cNodes c3 ''a'') + 1, nId (cNodes c3 ''a'')) (cVotes c3)\<rparr>))"
  have r4: "reachable demo_ms True races c4" unfolding c4_def
    by (rule reachable_step [OF r3 cstep.campaign [OF _ f3(3) refl]]) (simp add: demo_ms_def)
  have f4: "cNodes c4 ''a'' = demoA Candidate" "cNodes c4 ''b'' = ?B0" "cPc c4 ''a'' = RunCandidate 1 {}"
      "(''b'', demo_rv) \<in> cVoteReqs c4" "cAppReqs c4 = {}" "cAppRun c4 = {}"
    using f3 by (simp_all add: c4_def ev campaign_def notifyMetaChange_def vote_request_def lastLogInfo_def)
  define c5 where "c5 = put ''b'' (rv_enter demo_rv (cNodes c4 ''b'')) (c4\<lparr>cVoteRun := insert (''b'', demo_rv) (cVoteRun c4)\<rparr>)"
  have r5: "reachable demo_ms True races c5" unfolding c5_def
    by (rule reachable_step [OF r4 cstep.vote_enter [OF f4(4)]]) (simp add: f4 ev)
  have f5: "cNodes c5 ''a'' = demoA Candidate" "cNodes c5 ''b'' = ?B0\<lparr>currentTerm := 1, metaWrites := [(1, [])]\<rparr>"
      "cPc c5 ''a'' = RunCandidate 1 {}" "(''b'', demo_rv) \<in> cVoteRun c5" "cAppReqs c5 = {}" "cAppRun c5 = {}"
    using f4 by (simp_all add: c5_def rv_enter_def stepDown_def notifyMetaChange_def demo_rv_def NewNode_def)
  have v: "rv_finish demo_rv (cNodes c5 ''b'') = (demoB, demo_granted)"
    by (simp add: f5 rv_finish_def ev up_to_date_def lastLogInfo_def signalReset_def notifyMetaChange_def)
  define c6 where "c6 = put ''b'' demoB (c5\<lparr>cVoteRun := cVoteRun c5 - {(''b'', demo_rv)},
      cVoteReps := insert (''b'', demo_rv, demo_granted) (cVoteReps c5),
      cVotes := (if rrVoteGranted demo_granted then insert (''b'', rrTerm demo_granted, rvCandidateID demo_rv) (cVotes c5) else cVotes c5)\<rparr>)"
  have r6: "reachable demo_ms True races c6" unfolding c6_def
    by (rule reachable_step [OF r5 cstep.vote_finish [OF f5(4) v]])
  have f6: "cNodes c6 ''a'' = demoA Candidate" "cNodes c6 ''b'' = demoB" "cPc c6 ''a'' = RunCandidate 1 {}"
      "(''b'', demo_rv, demo_granted) \<in> cVoteReps c6" "cAppReqs c6 = {}" "cAppRun c6 = {}"
    using f5 by (simp_all add: c6_def)
  show ?thesis by (rule that [OF r6 f6])
qed

lemma demo_elected:
  obtains c where "reachable demo_ms True races c" "cNodes c ''a'' = demoA Leader" "cNodes c ''b'' = demoB"
    "cPc c ''a'' = AtLoop" "cAppReqs c = {}" "cAppRun c = {}"
proof -
  note ev = demo_ms_def demo_rv_def demo_granted_def demoA_def demoB_def NewNode_def
  obtain c6 where r6: "reachable demo_ms True races c6" and f6: "cNodes c6 ''a'' = demoA Candidate" "cNodes c6 ''b'' = demoB"
      "cPc c6 ''a'' = RunCandidate 1 {}" "(''b'', demo_rv, demo_granted) \<in> cVoteReps c6" "cAppReqs c6 = {}" "cAppRun c6 = {}"
    by (rule demo_voted) (rule that)
  define c7 where "c7 = put ''a'' (vote_reply demo_granted (cNodes c6 ''a''))
     (c6\<lparr>cBallots := insert (''a'', ''b'', rvTerm demo_rv, rrVoteGranted demo_granted) (cBallots c6)\<rparr>)"
  have r7: "reachable demo_ms True races c7" unfolding c7_def
    by (rule reachable_step [OF r6 cstep.vote_return [OF f6(4)]]) (simp add: demo_rv_def)
  have f7: "cNodes c7 ''a'' = demoA Candidate" "cNodes c7 ''b'' = demoB" "cPc c7 ''a'' = RunCandidate 1 {}"
      "(''a'', ''b'', 1, True) \<in> cBallots c7" "cAppReqs c7 = {}" "cAppRun c7 = {}"
    using f6 by (simp_all add: c7_def vote_reply_def demo_granted_def demo_rv_def demoA_def)
  define c8 where "c8 = goto ''a'' (RunCandidate 1 (if True then insert ''b'' {} else {})) c7"
  have r8: "reachable demo_ms True races c8" unfolding c8_def by (rule reachable_step [OF r7 cstep.count [OF f7(3,4)]])
  have f8: "cNodes c8 ''a'' = demoA Candidate" "cNodes c8 ''b'' = demoB" "cPc c8 ''a'' = RunCandidate 1 {''b''}"
      "cAppReqs c8 = {}" "cAppRun c8 = {}"
    using f7 by (simp_all add: c8_def)
  define c9 where "c9 = goto ''a'' AtLoop (put ''a'' (win 1 (cNodes c8 ''a''))
      (c8\<lparr>cLed := (if nState (cNodes c8 ''a'') = Candidate \<and> currentTerm (cNodes c8 ''a'') = 1 then insert (''a'', 1) (cLed c8) else cLed c8)\<rparr>))"
  have r9: "reachable demo_ms True races c9" unfolding c9_def
    by (rule reachable_step [OF r8 cstep.win [OF _ f8(3) refl]]) (simp_all add: f8 ev majority_def)
  show ?thesis by (rule that [OF r9]) (simp_all add: c9_def f8 win_def demoA_def)
qed

text \<open>The leader takes a command and replicates it to the second node.\<close>

definition demo_cmd :: "string \<Rightarrow> cmd_data" where
  "demo_cmd k = \<lparr>Cmd = SetCmd, TableName = ''t'', cItem = zero_item\<lparr>itKey := k\<rparr>, cItems = [], MinAcks = 0\<rparr>"

definition demo_entry :: "string \<Rightarrow> log_entry" where
  "demo_entry k = \<lparr>leTerm = 1, leData = demo_cmd k\<rparr>"

definition demo_ae :: append_entries_args where
  "demo_ae = \<lparr>aeTerm = 1, aeLeaderID = ''a'', aePrevLogIndex = -1, aePrevLogTerm = 0, aeEntries = [demo_entry ''1''], aeLeaderCommit = -1\<rparr>"

lemma demo_replicated:
  obtains c where "reachable demo_ms True races c" "nLog (cNodes c ''a'') = [demo_entry ''1'']" "nLog (cNodes c ''b'') = [demo_entry ''1'']"
    "nState (cNodes c ''a'') = Leader"
proof -
  note ev = demo_ms_def demoA_def NewNode_def
  obtain c0 where r0: "reachable demo_ms True races c0" and f0: "cNodes c0 ''a'' = demoA Leader" "cNodes c0 ''b'' = demoB"
      "cPc c0 ''a'' = AtLoop" "cAppReqs c0 = {}" "cAppRun c0 = {}"
    by (rule demo_elected) (rule that)
  define c1 where "c1 = goto ''a'' EnterLeader c0"
  have r1: "reachable demo_ms True races c1"
    using reachable_step [OF r0 cstep.dispatch [of "''a''"]] f0 by (simp add: c1_def demo_ms_def run_dispatch_def demoA_def)
  have f1: "cPc c1 ''a'' = EnterLeader" by (simp add: c1_def)
  define c2 where "c2 = goto ''a'' (RunLeader (currentTerm (cNodes c1 ''a''))) (put ''a'' (become_leader (cNodes c1 ''a'')) c1)"
  have r2: "reachable demo_ms True races c2" unfolding c2_def
    by (rule reachable_step [OF r1 cstep.lead [OF _ f1 refl]]) (simp add: demo_ms_def)
  define c3 where "c3 = put ''a'' (snd (ProposeCommand (demo_cmd ''1'') (cNodes c2 ''a''))) c2"
  have r3: "reachable demo_ms True races c3" unfolding c3_def by (rule reachable_step [OF r2 cstep.propose]) (simp add: demo_ms_def)
  have A3: "cNodes c3 ''a'' = (become_leader (demoA Leader))\<lparr>nLog := [demo_entry ''1'']\<rparr>"
    using f0 by (simp add: c1_def c2_def c3_def ProposeCommand_def demo_cmd_def demo_entry_def demoA_def become_leader_def NewNode_def)
  have f3: "cNodes c3 ''b'' = demoB" "cPc c3 ''a'' = RunLeader 1"
    using f0 by (simp_all add: c1_def c2_def c3_def demoA_def)
  have sb: "send_begin ''b'' 1 (cNodes c3 ''a'') = Inr (Some demo_ae)"
    by (simp add: A3 send_begin_def become_leader_def demoA_def NewNode_def demo_ae_def Let_def)
  define c4 where "c4 = c3\<lparr>cAppReqs := insert (''b'', demo_ae, nLog (cNodes c3 ''a'')) (cAppReqs c3)\<rparr>"
  have r4: "reachable demo_ms True races c4" unfolding c4_def
    by (rule reachable_step [OF r3 cstep.send [OF _ f3(2) _ sb]]) (simp_all add: A3 demo_ms_def become_leader_def demoA_def NewNode_def)
  have m4: "(''b'', demo_ae, [demo_entry ''1'']) \<in> cAppReqs c4" by (simp add: c4_def A3)
  define c5 where "c5 = put ''b'' (ae_enter demo_ae (cNodes c4 ''b'')) (c4\<lparr>cAppRun := insert (''b'', demo_ae, [demo_entry ''1'']) (cAppRun c4)\<rparr>)"
  have r5: "reachable demo_ms True races c5" unfolding c5_def
    by (rule reachable_step [OF r4 cstep.app_enter [OF m4]]) (simp add: c4_def f3 demo_ae_def demoB_def)
  have f5: "cNodes c5 ''b'' = demoB" "(''b'', demo_ae, [demo_entry ''1'']) \<in> cAppRun c5"
    by (simp_all add: c5_def c4_def f3 ae_enter_def demo_ae_def demoB_def NewNode_def)
  have af: "ae_finish demo_ae (cNodes c5 ''b'')
      = Inr (demoB\<lparr>leaderID := ''a'', nLog := [demo_entry ''1'']\<rparr>, \<lparr>arTerm = 1, arSuccess = True\<rparr>)"
    by (simp add: f5 ae_finish_def demo_ae_def demoB_def NewNode_def signalReset_def prev_ok_def advance_commit_def Let_def)
  have r6: "reachable demo_ms True races (put ''b'' (demoB\<lparr>leaderID := ''a'', nLog := [demo_entry ''1'']\<rparr>)
      (c5\<lparr>cAppRun := cAppRun c5 - {(''b'', demo_ae, [demo_entry ''1''])}, cAppReps := insert (''b'', demo_ae, \<lparr>arTerm = 1, arSuccess = True\<rparr>) (cAppReps c5)\<rparr>))"
    by (rule reachable_step [OF r5 cstep.app_finish [OF f5(2) _ af]]) (simp add: f5 demo_ae_def demoB_def)
  show ?thesis by (rule that [OF r6]) (simp_all add: c5_def c4_def A3 become_leader_def demoA_def)
qed

section \<open>Safety of the cluster\<close>

text \<open>C7. Election safety: in every reachable cluster, whatever the network does and even when handlers are
  suspended while they persist the term, no term has had two leaders, and a node that is leader was elected
  in its current term.\<close>

theorem election_safety:
  assumes "reachable ms persist races c" and "distinct ms" and "[] \<notin> set ms"
  shows "((i, T) \<in> cLed c \<longrightarrow> (j, T) \<in> cLed c \<longrightarrow> i = j)
    \<and> (nState (cNodes c i) = Leader \<longrightarrow> (i, currentTerm (cNodes c i)) \<in> cLed c)"
  using one_leader leader_led reachable_election [OF assms] by blast

theorem election_safety_witness:
  "\<exists>c. reachable demo_ms True True c \<and> nState (cNodes c ''a'') = Leader \<and> (''a'', 1) \<in> cLed c
     \<and> (\<forall>j. (j, 1) \<in> cLed c \<longrightarrow> ''a'' = j)"
proof -
  have ms: "distinct demo_ms" "[] \<notin> set demo_ms" by (simp_all add: demo_ms_def)
  obtain c where c: "reachable demo_ms True True c" "cNodes c ''a'' = demoA Leader" by (rule demo_elected [of True]) (rule that)
  have st: "nState (cNodes c ''a'') = Leader" "currentTerm (cNodes c ''a'') = 1" using c(2) by (simp_all add: demoA_def)
  have led: "(''a'', 1) \<in> cLed c" using election_safety [OF c(1) ms, of "''a''" 1 "''a''"] st by simp
  show ?thesis using c(1) st(1) led election_safety [OF c(1) ms, of "''a''" 1] by blast
qed

text \<open>C8. Log matching: in every reachable cluster in which no AppendEntries handler is overtaken by a term change
  while it is suspended, two nodes whose logs have an entry with the same index and term have the same log up to
  and including that entry.\<close>

theorem log_matching:
  assumes "reachable ms persist False c" and "distinct ms" and "[] \<notin> set ms"
    and "k < length (nLog (cNodes c i))" and "k < length (nLog (cNodes c j))"
    and "leTerm (nLog (cNodes c i) ! k) = leTerm (nLog (cNodes c j) ! k)"
  shows "take (Suc k) (nLog (cNodes c i)) = take (Suc k) (nLog (cNodes c j))"
  using log_inv_match [OF reachable_logs [OF assms(1-3)] node_log node_log, of i j] assms(4-6) by (simp add: log_match_def)

theorem log_matching_witness:
  "\<exists>c. reachable demo_ms True False c \<and> take (Suc 0) (nLog (cNodes c ''a'')) = take (Suc 0) (nLog (cNodes c ''b''))
     \<and> nLog (cNodes c ''b'') \<noteq> []"
proof -
  have ms: "distinct demo_ms" "[] \<notin> set demo_ms" by (simp_all add: demo_ms_def)
  obtain c where c: "reachable demo_ms True False c" "nLog (cNodes c ''a'') = [demo_entry ''1'']" "nLog (cNodes c ''b'') = [demo_entry ''1'']"
    by (rule demo_replicated [of False]) (rule that)
  show ?thesis using log_matching [OF c(1) ms, of 0 "''a''" "''b''"] c by (intro exI [of _ c]) simp
qed

section \<open>Replication and commit\<close>

text \<open>C13. One round of replication: when the handler of a follower whose log matches the leader's accepts what
  \<open>sendAppendEntries\<close> sent, the follower's log starts with the whole log of the leader, and its commit index
  becomes the larger of the two.\<close>

theorem append_copies_leader_log:
  assumes send: "send_begin p T n = Inr (Some args)" and m: "log_match (nLog f) (nLog n)" and t: "currentTerm f \<le> T"
    and h: "HandleAppendEntries args f = Inr (f', reply)" and ci: "commitIndex n < int (length (nLog n))"
    and ok: "arSuccess reply"
  shows "take (length (nLog n)) (nLog f') = nLog n \<and> commitIndex f' = max (commitIndex f) (commitIndex n)"
proof -
  note a = send_begin_msg [OF send]
  have lc: "aeLeaderCommit args = commitIndex n" using send by (auto simp: send_begin_def Let_def split: if_splits)
  have log: "nLog (ae_enter args f) = nLog f" "commitIndex (ae_enter args f) = commitIndex f"
    by (simp_all add: ae_enter_def stepDown_def notifyMetaChange_def)
  have fin: "ae_finish args (ae_enter args f) = Inr (f', reply)" using h t a(3) by (simp add: HandleAppendEntries_def)
  have copy: "take (length (nLog n)) (nLog f') = nLog n"
  proof (rule accepted_append(2) [OF _ _ _ _ _ _ fin ok, where ni = "aePrevLogIndex args + 1"])
    show "aePrevLogTerm args = leTerm (nLog n ! nat (aePrevLogIndex args + 1 - 1))" if "0 < aePrevLogIndex args + 1"
      using a(8) that by simp
  qed (use a m log in simp_all)
  have "length (nLog n) \<le> length (nLog f')" using arg_cong [OF copy, of length] by simp
  moreover have "commitIndex f' = (if commitIndex n > commitIndex f then min (commitIndex n) (int (length (nLog f')) - 1) else commitIndex f)"
    using fin ok log lc by (auto simp: ae_finish_def Let_def signalReset_def advance_commit_def split: if_splits)
  ultimately show ?thesis using copy ci by auto
qed

text \<open>A leader of term 1 with two peers and the given log, commit index and match indices.\<close>

definition demo_leader :: "log_entry list \<Rightarrow> int \<Rightarrow> raft_node" where
  "demo_leader log ci = (become_leader (demoA Leader))\<lparr>nLog := log, commitIndex := ci\<rparr>"

theorem append_copies_leader_log_witness:
  "\<exists>f' reply. HandleAppendEntries demo_ae demoB = Inr (f', reply) \<and> take 1 (nLog f') = [demo_entry ''1''] \<and> commitIndex f' = -1"
proof -
  let ?n = "demo_leader [demo_entry ''1''] (-1)" and ?f = "demoB\<lparr>leaderID := ''a'', nLog := [demo_entry ''1'']\<rparr>"
  have s: "send_begin ''b'' 1 ?n = Inr (Some demo_ae)"
    by (simp add: demo_leader_def send_begin_def become_leader_def demoA_def NewNode_def demo_ae_def Let_def)
  have h: "HandleAppendEntries demo_ae demoB = Inr (?f, \<lparr>arTerm = 1, arSuccess = True\<rparr>)"
    by (simp add: HandleAppendEntries_def ae_enter_def ae_finish_def demo_ae_def demoB_def NewNode_def signalReset_def prev_ok_def advance_commit_def Let_def)
  have "take (length (nLog ?n)) (nLog ?f) = nLog ?n \<and> commitIndex ?f = max (commitIndex demoB) (commitIndex ?n)"
    by (rule append_copies_leader_log [OF s _ _ h]) (simp_all add: demo_leader_def demoB_def NewNode_def log_match_def)
  then show ?thesis using h by (intro exI [of _ ?f]) (simp add: demo_leader_def demoB_def NewNode_def)
qed

lemma may_commit_frame [simp]: "may_commit t idx (n\<lparr>commitIndex := c\<rparr>) = may_commit t idx n"
  by (simp add: may_commit_def replicatedAckCount_def minAcksRequiredToCommit_def effectiveRepMinAcks_def Let_def)

lemma commit_loop:
  "\<exists>c. maybeAdvanceCommit T n = (commitIndex n < c, n\<lparr>commitIndex := c\<rparr>) \<and> commitIndex n \<le> c
     \<and> {idx. commitIndex n < idx \<and> idx \<le> c} \<subseteq> {idx. may_commit T idx n} \<and> \<not> may_commit T (c + 1) n"
proof (induction T n rule: maybeAdvanceCommit.induct)
  case (1 T n)
  show ?case
  proof (cases "may_commit T (commitIndex n + 1) n")
    case True
    let ?n = "n\<lparr>commitIndex := commitIndex n + 1\<rparr>"
    obtain c where c: "maybeAdvanceCommit T ?n = (commitIndex n + 1 < c, ?n\<lparr>commitIndex := c\<rparr>)" "commitIndex n + 1 \<le> c"
        "{idx. commitIndex n + 1 < idx \<and> idx \<le> c} \<subseteq> {idx. may_commit T idx n}" "\<not> may_commit T (c + 1) n"
      using 1 [OF refl True] by auto
    have "may_commit T idx n" if "commitIndex n < idx" "idx \<le> c" for idx
      using subsetD [OF c(3), of idx] True that by (cases "idx = commitIndex n + 1") auto
    then show ?thesis using True c by (intro exI [of _ c]) (auto simp: maybeAdvanceCommit.simps [of T n])
  next
    case False
    then show ?thesis by (intro exI [of _ "commitIndex n"]) (auto simp: maybeAdvanceCommit.simps [of T n])
  qed
qed

text \<open>C15. What a leader commits when a follower acknowledges: the loop ends, and the new commit index is the last one such
  that every entry after the old one exists, has the leader's term, and is held, by the leader's book-keeping, by as many members,
  itself included, as the entry asks for: the count it carries when that is positive, and otherwise every
  member.  The entry after the new commit index does not exist, or has another term, or is short of acknowledgements.
  The loop reports whether the index moved, and nothing else of the node changes.\<close>

theorem commit_stops_at_first_blocked:
  "let held = (\<lambda>idx. 1 + int (length (filter (\<lambda>p. idx \<le> matchIndex n p) (nPeers n))));
       asked = (\<lambda>idx. if 0 < MinAcks (leData (nLog n ! nat idx)) then MinAcks (leData (nLog n ! nat idx)) else int (length (nPeers n)) + 1)
   in \<exists>c. maybeAdvanceCommit T n = (commitIndex n < c, n\<lparr>commitIndex := c\<rparr>) \<and> commitIndex n \<le> c
     \<and> {idx. commitIndex n < idx \<and> idx \<le> c} \<subseteq> {idx. idx < int (length (nLog n)) \<and> leTerm (nLog n ! nat idx) = T \<and> asked idx \<le> held idx}
     \<and> (int (length (nLog n)) \<le> c + 1 \<or> leTerm (nLog n ! nat (c + 1)) \<noteq> T \<or> held (c + 1) < asked (c + 1))"
proof -
  obtain c where "maybeAdvanceCommit T n = (commitIndex n < c, n\<lparr>commitIndex := c\<rparr>)" "commitIndex n \<le> c"
      "{idx. commitIndex n < idx \<and> idx \<le> c} \<subseteq> {idx. may_commit T idx n}" "\<not> may_commit T (c + 1) n"
    using commit_loop [of T n] by blast
  then show ?thesis
    unfolding Let_def
    by (intro exI [of _ c]) (auto simp: may_commit_def replicatedAckCount_def minAcksRequiredToCommit_def effectiveRepMinAcks_def Let_def not_le)
qed

text \<open>A leader of term 1 with entries of terms 1, 1 and 0, all of them held by every member: the loop stops before the third.\<close>

theorem commit_stops_at_first_blocked_witness:
  "maybeAdvanceCommit 1 ((demo_leader [demo_entry ''1'', demo_entry ''2'', (demo_entry ''3'')\<lparr>leTerm := 0\<rparr>] (-1))\<lparr>matchIndex := (\<lambda>_. 2)\<rparr>)
     = (True, (demo_leader [demo_entry ''1'', demo_entry ''2'', (demo_entry ''3'')\<lparr>leTerm := 0\<rparr>] 1)\<lparr>matchIndex := (\<lambda>_. 2)\<rparr>)"
proof -
  let ?log = "[demo_entry ''1'', demo_entry ''2'', (demo_entry ''3'')\<lparr>leTerm := 0\<rparr>]"
  let ?n = "(demo_leader ?log (-1))\<lparr>matchIndex := (\<lambda>_. 2)\<rparr>"
  have f: "nLog ?n = ?log" "commitIndex ?n = -1" "matchIndex ?n = (\<lambda>_. 2)" "nPeers ?n = [''b'', ''c'']"
    by (simp_all add: demo_leader_def become_leader_def demoA_def NewNode_def)
  obtain c where c: "maybeAdvanceCommit 1 ?n = (- 1 < c, ?n\<lparr>commitIndex := c\<rparr>)" "- 1 \<le> c"
      "{idx. - 1 < idx \<and> idx \<le> c} \<subseteq> {idx. idx < int (length ?log) \<and> leTerm (?log ! nat idx) = 1
        \<and> (if 0 < MinAcks (leData (?log ! nat idx)) then MinAcks (leData (?log ! nat idx)) else int (length [''b'', ''c'']) + 1)
          \<le> 1 + int (length (filter (\<lambda>p. idx \<le> 2) [''b'', ''c'']))}"
      "int (length ?log) \<le> c + 1 \<or> leTerm (?log ! nat (c + 1)) \<noteq> 1 \<or> 1 + int (length (filter (\<lambda>p. c + 1 \<le> 2) [''b'', ''c'']))
        < (if 0 < MinAcks (leData (?log ! nat (c + 1))) then MinAcks (leData (?log ! nat (c + 1))) else int (length [''b'', ''c'']) + 1)"
    using commit_stops_at_first_blocked [of ?n 1] unfolding Let_def f by blast
  have "c < 2" using subsetD [OF c(3), of 2] by (cases "2 \<le> c") auto
  moreover have "c \<noteq> - 1" using c(4) by (auto simp: demo_entry_def demo_cmd_def)
  moreover have "c \<noteq> 0" using c(4) by (auto simp: demo_entry_def demo_cmd_def)
  ultimately have "c = 1" using c(2) by linarith
  then show ?thesis using c(1) by (simp add: demo_leader_def)
qed

text \<open>The members that hold an entry by the leader's book-keeping.\<close>

definition holders :: "int \<Rightarrow> raft_node \<Rightarrow> string set" where
  "holders idx n = insert (nId n) {p \<in> set (nPeers n). matchIndex n p \<ge> idx}"

lemma holders_card:
  assumes "distinct ms" and "nPeers n = filter (\<lambda>p. p \<noteq> nId n) ms"
  shows "int (card (holders idx n)) = replicatedAckCount idx n"
proof -
  have d: "distinct (filter (\<lambda>p. matchIndex n p \<ge> idx) (nPeers n))" using assms by simp
  have "{p \<in> set (nPeers n). matchIndex n p \<ge> idx} = set (filter (\<lambda>p. matchIndex n p \<ge> idx) (nPeers n))" by simp
  then have "card (holders idx n) = Suc (length (filter (\<lambda>p. matchIndex n p \<ge> idx) (nPeers n)))"
    using distinct_card [OF d] assms(2) by (simp add: holders_def)
  then show ?thesis by (simp add: replicatedAckCount_def)
qed

text \<open>C14. Commit quorums meet election quorums: when the commit loop may pass an entry that \<open>ProposeCommand\<close>
  accepted (no acknowledgement count, or one that passed the strict check), every majority that could elect a
  leader contains a member that the leader counts as a holder of the entry.\<close>

theorem commit_quorum_meets_election_quorum:
  assumes ms: "distinct ms" "nId n \<in> set ms" "nPeers n = filter (\<lambda>p. p \<noteq> nId n) ms"
    and may: "may_commit T idx n"
    and acks: "MinAcks (leData (nLog n ! nat idx)) = 0 \<or> validateStrictRepMinAcks (MinAcks (leData (nLog n ! nat idx))) n = None"
    and Q: "Q \<subseteq> set ms" "majority n \<le> int (card Q)"
  shows "Q \<inter> holders idx n \<noteq> {}"
proof -
  have N: "int (length (nPeers n)) + 1 = int (length ms)" using length_others [OF ms(1,2)] ms(3) by simp
  have maj: "length ms < 2 * nat k" if "majority n \<le> k" for k
    using that unfolding majority_def N by linarith
  have pos: "1 \<le> int (length ms)" using ms(2) by (cases ms) auto
  have "majority n \<le> minAcksRequiredToCommit idx n"
    using acks N pos by (auto simp: minAcksRequiredToCommit_def validateStrictRepMinAcks_def effectiveRepMinAcks_def majority_def Let_def
      split: if_splits)
  then have "majority n \<le> int (card (holders idx n))"
    using may holders_card [OF ms(1,3)] by (simp add: may_commit_def)
  moreover have "holders idx n \<subseteq> set ms" using ms by (auto simp: holders_def)
  ultimately show ?thesis using majorities.meet [of Q ms "holders idx n"] Q maj [of "int (card Q)"] maj [of "int (card (holders idx n))"]
    by simp
qed

theorem commit_quorum_meets_election_quorum_witness:
  "{''b'', ''c''} \<inter> holders 0 ((demo_leader [demo_entry ''1''] (-1))\<lparr>matchIndex := (\<lambda>_. 0)\<rparr>) \<noteq> {}"
  by (rule commit_quorum_meets_election_quorum [of "[''a'', ''b'', ''c'']" _ 1])
     (simp_all add: demo_leader_def become_leader_def demoA_def NewNode_def may_commit_def demo_entry_def demo_cmd_def
        replicatedAckCount_def minAcksRequiredToCommit_def effectiveRepMinAcks_def majority_def)

section \<open>Where the node departs from the protocol\<close>

text \<open>C34. The leader overstates what a follower holds: when a command is proposed between sending entries and
  their acknowledgement, the acknowledgement marks the new entry, which was not sent, as replicated on that
  follower, and the next heartbeat starts after it.\<close>

theorem ack_covers_unsent_entry:
  assumes send: "send_begin p T n = Inr (Some args)" and new: "aeEntries args \<noteq> []"
    and pc: "ProposeCommand cmd n = (None, n1)" and ack: "arSuccess reply" "arTerm reply = T"
  shows "matchIndex (send_finish p args reply n1) p = int (length (nLog n))
    \<and> nextIndex (send_finish p args reply n1) p = int (length (nLog n)) + 1
    \<and> nLog (send_finish p args reply n1) ! length (nLog n) = \<lparr>leTerm = T, leData = cmd\<rparr>
    \<and> aePrevLogIndex args + int (length (aeEntries args)) < int (length (nLog n))"
proof -
  note a = send_begin_msg [OF send]
  have n1: "n1 = n\<lparr>nLog := nLog n @ [\<lparr>leTerm = currentTerm n, leData = cmd\<rparr>]\<rparr>"
    using pc a(1) by (auto simp: ProposeCommand_def split: option.splits if_splits)
  show ?thesis using a new ack by (simp add: send_finish_def Let_def case_prod_unfold n1)
qed

theorem ack_covers_unsent_entry_witness:
  "matchIndex (send_finish ''b'' demo_ae \<lparr>arTerm = 1, arSuccess = True\<rparr>
      (demo_leader [demo_entry ''1'', demo_entry ''2''] (-1))) ''b'' = 1"
proof -
  let ?n = "demo_leader [demo_entry ''1''] (-1)" and ?n1 = "demo_leader [demo_entry ''1'', demo_entry ''2''] (-1)"
  have s: "send_begin ''b'' 1 ?n = Inr (Some demo_ae)"
    by (simp add: demo_leader_def send_begin_def become_leader_def demoA_def NewNode_def demo_ae_def Let_def)
  have p: "ProposeCommand (demo_cmd ''2'') ?n = (None, ?n1)"
    by (simp add: ProposeCommand_def demo_leader_def become_leader_def demoA_def demo_cmd_def demo_entry_def)
  show ?thesis using ack_covers_unsent_entry [OF s _ p, of "\<lparr>arTerm = 1, arSuccess = True\<rparr>"]
    by (simp add: demo_ae_def demo_leader_def)
qed

text \<open>What reaches a leader: proposals, and the replies to its messages, in any order and from any term.\<close>

datatype leader_event = Proposal cmd_data | Reply string append_entries_args append_entries_reply

fun leader_step :: "leader_event \<Rightarrow> raft_node \<Rightarrow> raft_node" where
  "leader_step (Proposal cmd) n = snd (ProposeCommand cmd n)"
| "leader_step (Reply p args reply) n = send_finish p args reply n"

definition blocked :: "int \<Rightarrow> raft_node \<Rightarrow> raft_node \<Rightarrow> bool" where
  "blocked T n n' \<longleftrightarrow> commitIndex n' = commitIndex n \<and> commitIndex n + 1 < int (length (nLog n'))
     \<and> leTerm (nLog n' ! nat (commitIndex n + 1)) \<noteq> T \<and> (nState n' = Leader \<longrightarrow> currentTerm n' = T)"

lemma blocked_step:
  assumes b: "blocked T n n'" and i: "0 \<le> commitIndex n + 1"
  shows "blocked T n (leader_step ev n')"
proof (cases ev)
  case (Proposal cmd)
  have "nat (commitIndex n + 1) < length (nLog n')" using b i by (simp add: blocked_def nat_less_iff)
  then show ?thesis using b Proposal by (auto simp: blocked_def ProposeCommand_def nth_append split: option.splits)
next
  case (Reply p args reply)
  have no: "maybeAdvanceCommit t n1 = (False, n1)" if "t = T" "commitIndex n1 = commitIndex n" "nLog n1 = nLog n'" for t n1
    unfolding that(1) using b that(2,3) by (simp add: maybeAdvanceCommit.simps [of T n1] may_commit_def blocked_def)
  show ?thesis using b Reply by (auto simp: blocked_def send_finish_def Let_def no)
qed

text \<open>C33. An entry of an earlier term right after the commit index stops a leader for the whole of its term: whatever is
  proposed and whatever acknowledgements arrive, its commit index stays where it is.\<close>

theorem old_term_entry_blocks_commit:
  assumes "currentTerm n = T" and "0 \<le> commitIndex n + 1" and "commitIndex n + 1 < int (length (nLog n))"
    and "leTerm (nLog n ! nat (commitIndex n + 1)) \<noteq> T"
  shows "commitIndex (fold leader_step evs n) = commitIndex n"
proof -
  have "blocked T n (fold leader_step es n')" if "blocked T n n'" for es n'
    using that by (induction es arbitrary: n') (simp_all add: blocked_step assms(2))
  moreover have "blocked T n n" using assms by (simp add: blocked_def)
  ultimately show ?thesis by (simp add: blocked_def)
qed

theorem old_term_entry_blocks_commit_witness:
  "commitIndex (fold leader_step [Reply ''b'' demo_ae \<lparr>arTerm = 1, arSuccess = True\<rparr>, Reply ''c'' demo_ae \<lparr>arTerm = 1, arSuccess = True\<rparr>,
      Proposal (demo_cmd ''2'')] (demo_leader [(demo_entry ''1'')\<lparr>leTerm := 0\<rparr>] (-1))) = -1"
proof -
  let ?n = "demo_leader [(demo_entry ''1'')\<lparr>leTerm := 0\<rparr>] (-1)"
  have e: "commitIndex (fold leader_step evs ?n) = commitIndex ?n" for evs
    by (rule old_term_entry_blocks_commit [of _ 1]) (simp_all add: demo_leader_def become_leader_def demoA_def demo_entry_def)
  show ?thesis unfolding e by (simp add: demo_leader_def)
qed

text \<open>C35. A handler that was suspended while it persisted a term goes on in a later one.  Let a node receive an AppendEntries
  message of a later term than its own that extends its log, and while the handler persists that term, let the node time
  out, win the next term and accept a command.  Then the handler, if the message's first entry is not of that next term,
  replaces the command by the message's entries, reports success in the term the node leads, leaves it leader, and
  makes it name the old leader.\<close>

theorem suspended_append_truncates_leader:
  assumes later: "currentTerm n < aeTerm args" and extends: "prev_ok args (nLog n)" "aePrevLogIndex args + 1 = int (length (nLog n))"
    and es: "aeEntries args = e # es" "leTerm e \<noteq> aeTerm args + 1"
    and lead: "ProposeCommand cmd (become_leader (win (aeTerm args + 1) (campaign (follower_timeout (ae_enter args n))))) = (None, m)"
  shows "nState m = Leader \<and> currentTerm m = aeTerm args + 1 \<and> nLog m = nLog n @ [\<lparr>leTerm = aeTerm args + 1, leData = cmd\<rparr>]
    \<and> (\<exists>m' reply. ae_finish args m = Inr (m', reply) \<and> arSuccess reply \<and> arTerm reply = aeTerm args + 1
        \<and> nState m' = Leader \<and> currentTerm m' = aeTerm args + 1 \<and> nLog m' = nLog n @ aeEntries args \<and> leaderID m' = aeLeaderID args)"
proof -
  let ?m0 = "become_leader (win (aeTerm args + 1) (campaign (follower_timeout (ae_enter args n))))"
  have m0: "nState ?m0 = Leader" "currentTerm ?m0 = aeTerm args + 1" "nLog ?m0 = nLog n"
    using later by (simp_all add: become_leader_def win_def campaign_def follower_timeout_def ae_enter_def stepDown_def notifyMetaChange_def)
  have m: "m = ?m0\<lparr>nLog := nLog n @ [\<lparr>leTerm = aeTerm args + 1, leData = cmd\<rparr>]\<rparr>"
    using lead m0 by (auto simp: ProposeCommand_def split: option.splits if_splits)
  have k: "nat (aePrevLogIndex args + 1) = length (nLog n)" using extends(2) by simp
  have po: "prev_ok args (nLog n @ xs)" for xs using extends by (auto simp: prev_ok_def nth_append)
  have "append_loop (aeEntries args) (length (nLog n)) (nLog n @ [\<lparr>leTerm = aeTerm args + 1, leData = cmd\<rparr>]) = nLog n @ aeEntries args"
    using es by simp
  then show ?thesis
    using m0 po extends(2) by (simp add: m ae_finish_def Let_def signalReset_def k advance_commit_def es(1))
qed

theorem suspended_append_truncates_leader_witness:
  "\<exists>m m' reply. ProposeCommand (demo_cmd ''2'') (become_leader (win 2 (campaign (follower_timeout
        (ae_enter demo_ae (SetMetaPersister (NewNode ''b'' [''a'', ''c'']))))))) = (None, m)
     \<and> nLog m = [\<lparr>leTerm = 2, leData = demo_cmd ''2''\<rparr>]
     \<and> ae_finish demo_ae m = Inr (m', reply) \<and> arSuccess reply \<and> nState m' = Leader \<and> nLog m' = [demo_entry ''1'']"
proof -
  let ?n = "SetMetaPersister (NewNode ''b'' [''a'', ''c''])"
  have n: "currentTerm ?n < aeTerm demo_ae" "prev_ok demo_ae (nLog ?n)" "aePrevLogIndex demo_ae + 1 = int (length (nLog ?n))"
      "aeEntries demo_ae = demo_entry ''1'' # []" "leTerm (demo_entry ''1'') \<noteq> aeTerm demo_ae + 1" "aeTerm demo_ae + 1 = 2" "nLog ?n = []"
    by (simp_all add: SetMetaPersister_def NewNode_def demo_ae_def demo_entry_def prev_ok_def)
  obtain m where m: "ProposeCommand (demo_cmd ''2'') (become_leader (win 2 (campaign (follower_timeout (ae_enter demo_ae ?n))))) = (None, m)"
    by (simp add: ProposeCommand_def become_leader_def win_def campaign_def follower_timeout_def ae_enter_def stepDown_def
      notifyMetaChange_def SetMetaPersister_def NewNode_def demo_ae_def demo_cmd_def)
  show ?thesis using suspended_append_truncates_leader [OF n(1-5), of "demo_cmd ''2''" m] m unfolding n(4,6,7) by auto
qed

end
