(* ===== verification/Raft_Wal.thy ===== *)
theory Raft_Wal
  imports Raft_Properties Wal_Recovery
begin

text \<open>
  The stable storage of a consensus node: \<^verbatim>\<open>src/internal/wal/raft_wal.go\<close> on top of the write-ahead log,
  and the start-up and delivery loop of \<^verbatim>\<open>src/cmd/node/setup/raft.go\<close>.  The CBOR codec is a parameter.
  \<^verbatim>\<open>OpenRaft\<close> starts here from the opened file; the directory it creates is added in \<^verbatim>\<open>Node_Main\<close>.
\<close>

section \<open>The log of the consensus node\<close>

definition raftTable :: string where
  "raftTable = ''__raft__''"

record raft_log_payload =
  rlIndex :: int
  rlTerm :: int
  rlData :: cmd_data

record raft_meta =
  rmCurrentTerm :: int
  rmVotedFor :: string

record raft_codec =
  encLog :: "raft_log_payload \<Rightarrow> goerr + bytes"
  decLog :: "bytes \<Rightarrow> goerr + raft_log_payload"
  encMeta :: "raft_meta \<Rightarrow> goerr + bytes"
  decMeta :: "bytes \<Rightarrow> goerr + raft_meta"

record raft_wal =
  rwWal :: wal
  rwSeq :: u64

definition raft_wal_opts :: options where
  "raft_wal_opts = \<lparr>Durability = SyncEveryWrite, CheckpointDir = [], HasCheckpointStore = False,
     CheckpointPolicy = \<lparr>EveryNWrites = 0, MaxWalBytes = 0, TruncateAfterCheckpoint = False\<rparr>\<rparr>"

definition OpenRaftWAL :: "osfile \<Rightarrow> goerr + raft_wal" where
  "OpenRaftWAL f =
     (case New f raft_wal_opts of
        Inl err \<Rightarrow> Inl (ErrWrap ''raft wal: open'' err)
      | Inr w \<Rightarrow> Inr \<lparr>rwWal = w, rwSeq = 0\<rparr>)"

definition raft_record :: "u64 \<Rightarrow> byte \<Rightarrow> bytes \<Rightarrow> entry" where
  "raft_record seq op b = \<lparr>eSeq = seq, eOp = op, eTable = raftTable, eKey = [], eFk = [], eValueBytes = b\<rparr>"

definition AppendEntry :: "raft_codec \<Rightarrow> int \<Rightarrow> int \<Rightarrow> cmd_data \<Rightarrow> raft_wal \<Rightarrow> goerr option \<times> raft_wal" where
  "AppendEntry c index term data r =
     (case encLog c \<lparr>rlIndex = index, rlTerm = term, rlData = data\<rparr> of
        Inl err \<Rightarrow> (Some (ErrWrap ''raft wal: encode entry'' err), r)
      | Inr b \<Rightarrow>
          let r = r\<lparr>rwSeq := rwSeq r + 1\<rparr> in
          (case wal_Append (raft_record (rwSeq r) OpRaftLog b) (rwWal r) of
             (Some err, w) \<Rightarrow> (Some (ErrWrap ''raft wal: append entry'' err), r\<lparr>rwWal := w, rwSeq := rwSeq r - 1\<rparr>)
           | (None, w) \<Rightarrow> (None, r\<lparr>rwWal := w\<rparr>)))"

definition SaveMeta :: "raft_codec \<Rightarrow> int \<Rightarrow> string \<Rightarrow> raft_wal \<Rightarrow> goerr option \<times> raft_wal" where
  "SaveMeta c term voted r =
     (case encMeta c \<lparr>rmCurrentTerm = term, rmVotedFor = voted\<rparr> of
        Inl err \<Rightarrow> (Some (ErrWrap ''raft wal: encode meta'' err), r)
      | Inr b \<Rightarrow>
          let r = r\<lparr>rwSeq := rwSeq r + 1\<rparr> in
          (case wal_Append (raft_record (rwSeq r) OpRaftMeta b) (rwWal r) of
             (Some err, w) \<Rightarrow> (Some (ErrWrap ''raft wal: append meta'' err), r\<lparr>rwWal := w, rwSeq := rwSeq r - 1\<rparr>)
           | (None, w) \<Rightarrow> (None, r\<lparr>rwWal := w\<rparr>)))"

text \<open>The callback of \<^verbatim>\<open>Load\<close>; the map \<^verbatim>\<open>byIndex\<close> is an association list.\<close>

type_synonym raft_acc = "(int \<times> raft_log_payload) list \<times> raft_meta"

definition raft_apply :: "raft_codec \<Rightarrow> entry \<Rightarrow> raft_acc \<Rightarrow> goerr option \<times> raft_acc" where
  "raft_apply c e acc =
     (case acc of (byIndex, meta) \<Rightarrow>
        if eOp e = OpRaftLog then
          (case decLog c (eValueBytes e) of
             Inl err \<Rightarrow> (Some (ErrWrap ''raft wal: decode entry'' err), acc)
           | Inr p \<Rightarrow> (None, AList.update (rlIndex p) p byIndex, meta))
        else if eOp e = OpRaftMeta then
          (case decMeta c (eValueBytes e) of
             Inl err \<Rightarrow> (Some (ErrWrap ''raft wal: decode meta'' err), acc)
           | Inr m \<Rightarrow> (None, byIndex, m))
        else (None, acc))"

fun gap :: "int list \<Rightarrow> bool" where
  "gap (i # j # is) \<longleftrightarrow> j \<noteq> i + 1 \<or> gap (j # is)"
| "gap _ \<longleftrightarrow> False"

definition raft_Load :: "raft_codec \<Rightarrow> raft_wal \<Rightarrow> (goerr + raft_log_payload list \<times> raft_meta) \<times> raft_wal" where
  "raft_Load c r =
     (case Replay (raft_apply c) (rwWal r) ([], \<lparr>rmCurrentTerm = 0, rmVotedFor = []\<rparr>) of
        (Some err, w, acc, maxSeq) \<Rightarrow> (Inl err, r\<lparr>rwWal := w\<rparr>)
      | (None, w, (byIndex, meta), maxSeq) \<Rightarrow>
          let r = r\<lparr>rwWal := w, rwSeq := maxSeq\<rparr> in
          if byIndex = [] then (Inr ([], meta), r)
          else let indices = sort (map fst byIndex) in
               if hd indices \<noteq> 0 then (Inl (ErrMsg ''raft wal: log does not start at index 0''), r)
               else if gap indices then (Inl (ErrMsg ''raft wal: gap in log''), r)
               else (Inr (map (\<lambda>i. the (map_of byIndex i)) indices, meta), r))"

definition raft_Close :: "raft_wal \<Rightarrow> goerr option \<times> raft_wal" where
  "raft_Close r = (case Close (rwWal r) of (err, w) \<Rightarrow> (err, r\<lparr>rwWal := w\<rparr>))"

section \<open>The node on top of it\<close>

record raft_setup =
  rsNode :: raft_node
  rsWal :: raft_wal
  rsNextIndex :: int

definition OpenRaft :: "raft_codec \<Rightarrow> string \<Rightarrow> string list \<Rightarrow> osfile \<Rightarrow> goerr + raft_setup" where
  "OpenRaft c i peers f =
     (case OpenRaftWAL f of
        Inl err \<Rightarrow> Inl (ErrWrap ''setup: raft wal open'' err)
      | Inr rw \<Rightarrow>
          (case raft_Load c rw of
             (Inl err, rw) \<Rightarrow> Inl (ErrWrap ''setup: raft wal load'' err)
           | (Inr (entries, meta), rw) \<Rightarrow>
               let log = map (\<lambda>e. \<lparr>leTerm = rlTerm e, leData = rlData e\<rparr>) entries;
                   node = NewNodeWithState i peers \<lparr>psLog = log, psCurrentTerm = rmCurrentTerm meta, psVotedFor = rmVotedFor meta\<rparr> in
               Inr \<lparr>rsNode = SetMetaPersister node, rsWal = rw, rsNextIndex = int (length entries)\<rparr>))"

text \<open>What the persister that \<^verbatim>\<open>OpenRaft\<close> registers does; an error is only logged.\<close>

definition persist_meta :: "raft_codec \<Rightarrow> int \<Rightarrow> string \<Rightarrow> raft_setup \<Rightarrow> raft_setup" where
  "persist_meta c term voted s = (case SaveMeta c term voted (rsWal s) of (err, rw) \<Rightarrow> s\<lparr>rsWal := rw\<rparr>)"

definition PersistApplied :: "raft_codec \<Rightarrow> log_entry \<Rightarrow> raft_setup \<Rightarrow> goerr option \<times> raft_setup" where
  "PersistApplied c e s =
     (case AppendEntry c (rsNextIndex s) (leTerm e) (leData e) (rsWal s) of
        (Some err, rw) \<Rightarrow> (Some (ErrWrap ''setup: raft persist'' err), s\<lparr>rsWal := rw\<rparr>)
      | (None, rw) \<Rightarrow> (None, s\<lparr>rsWal := rw, rsNextIndex := rsNextIndex s + 1\<rparr>))"

text \<open>\<^verbatim>\<open>RunAppliedLoop\<close> over the entries the node delivers: an error of either callback is fatal.\<close>

fun applied_loop ::
  "raft_codec \<Rightarrow> (log_entry \<Rightarrow> 'x \<Rightarrow> goerr option \<times> 'x) \<Rightarrow> log_entry list \<Rightarrow> raft_setup \<Rightarrow> 'x \<Rightarrow> goerr option \<times> raft_setup \<times> 'x"
where
  "applied_loop c app [] s x = (None, s, x)"
| "applied_loop c app (e # es) s x =
     (case app e x of
        (Some err, x) \<Rightarrow> (Some err, s, x)
      | (None, x) \<Rightarrow>
          (case PersistApplied c e s of
             (Some err, s) \<Rightarrow> (Some err, s, x)
           | (None, s) \<Rightarrow> applied_loop c app es s x))"

section \<open>What is on disk\<close>

text \<open>What a node persists: its term and vote, or an applied entry.\<close>

datatype raft_rec = RecMeta int string | RecEntry log_entry

fun raft_do :: "raft_codec \<Rightarrow> raft_rec \<Rightarrow> raft_setup \<Rightarrow> goerr option \<times> raft_setup" where
  "raft_do c (RecMeta t v) s = (case SaveMeta c t v (rsWal s) of (err, rw) \<Rightarrow> (err, s\<lparr>rsWal := rw\<rparr>))"
| "raft_do c (RecEntry e) s = PersistApplied c e s"

fun raft_run :: "raft_codec \<Rightarrow> raft_rec list \<Rightarrow> raft_setup \<Rightarrow> goerr option \<times> raft_setup" where
  "raft_run c [] s = (None, s)"
| "raft_run c (r # rs) s = (case raft_do c r s of (Some err, s) \<Rightarrow> (Some err, s) | (None, s) \<Rightarrow> raft_run c rs s)"

definition rec_bytes :: "raft_codec \<Rightarrow> int \<Rightarrow> raft_rec \<Rightarrow> goerr + byte \<times> bytes" where
  "rec_bytes c idx r =
     (case r of
        RecMeta t v \<Rightarrow> (case encMeta c \<lparr>rmCurrentTerm = t, rmVotedFor = v\<rparr> of Inl err \<Rightarrow> Inl err | Inr b \<Rightarrow> Inr (OpRaftMeta, b))
      | RecEntry e \<Rightarrow> (case encLog c \<lparr>rlIndex = idx, rlTerm = leTerm e, rlData = leData e\<rparr> of Inl err \<Rightarrow> Inl err | Inr b \<Rightarrow> Inr (OpRaftLog, b)))"

definition rec_step :: "raft_rec \<Rightarrow> int" where
  "rec_step r = (case r of RecMeta _ _ \<Rightarrow> 0 | RecEntry _ \<Rightarrow> 1)"

fun rec_entries :: "raft_codec \<Rightarrow> u64 \<Rightarrow> int \<Rightarrow> raft_rec list \<Rightarrow> entry list" where
  "rec_entries c seq idx [] = []"
| "rec_entries c seq idx (r # rs) =
     (case rec_bytes c idx r of
        Inl err \<Rightarrow> []
      | Inr (op, b) \<Rightarrow> raft_record (seq + 1) op b # rec_entries c (seq + 1) (idx + rec_step r) rs)"

lemma appendLocked_wSeq:
  assumes "appendLocked e w = (None, w')" and "wBufw w = None"
  shows "appendLocked e (w\<lparr>wSeq := s\<rparr>) = (None, w'\<lparr>wSeq := s\<rparr>)"
  using assms by (auto simp: appendLocked_def write_record_def syncAndHook_def Let_def split: sum.splits option.splits prod.splits if_splits)

lemma raft_do_ok:
  assumes "raft_do c r s = (None, s')"
  shows "\<exists>op b w. rec_bytes c (rsNextIndex s) r = Inr (op, b) \<and> op \<noteq> OpDel
     \<and> appendLocked (raft_record (rwSeq (rsWal s) + 1) op b) (rwWal (rsWal s)) = (None, w)
     \<and> s' = s\<lparr>rsWal := \<lparr>rwWal = w, rwSeq = rwSeq (rsWal s) + 1\<rparr>, rsNextIndex := rsNextIndex s + rec_step r\<rparr>"
proof (cases r)
  case (RecMeta t v)
  then show ?thesis using assms
    by (auto simp: SaveMeta_def rec_bytes_def rec_step_def wal_Append_def Let_def split: sum.splits prod.splits option.splits)
next
  case (RecEntry e)
  then show ?thesis using assms
    by (auto simp: PersistApplied_def AppendEntry_def rec_bytes_def rec_step_def wal_Append_def Let_def split: sum.splits prod.splits option.splits)
qed

definition raft_inv :: "raft_setup \<Rightarrow> entry list \<Rightarrow> bool" where
  "raft_inv s es \<longleftrightarrow> wal_inv ((rwWal (rsWal s))\<lparr>wSeq := rwSeq (rsWal s)\<rparr>) es"

lemma raft_run_records:
  assumes "raft_run c rs s = (None, s')" and "raft_inv s es" and "unat (rwSeq (rsWal s)) + length rs < 18446744073709551616"
    and "\<forall>e \<in> set (rec_entries c (rwSeq (rsWal s)) (rsNextIndex s) rs). payload_size e \<le> 268435456"
  shows "raft_inv s' (es @ rec_entries c (rwSeq (rsWal s)) (rsNextIndex s) rs)
     \<and> length (rec_entries c (rwSeq (rsWal s)) (rsNextIndex s) rs) = length rs
     \<and> (rs \<noteq> [] \<longrightarrow> fsynced (wFile (rwWal (rsWal s'))) = frames (es @ rec_entries c (rwSeq (rsWal s)) (rsNextIndex s) rs))"
  using assms
proof (induction rs arbitrary: s es)
  case Nil
  then show ?case by simp
next
  case (Cons r rs)
  obtain s1 where d: "raft_do c r s = (None, s1)" and run: "raft_run c rs s1 = (None, s')"
    using Cons.prems(1) by (auto split: prod.splits option.splits)
  obtain op b w where o: "rec_bytes c (rsNextIndex s) r = Inr (op, b)" "op \<noteq> OpDel"
      "appendLocked (raft_record (rwSeq (rsWal s) + 1) op b) (rwWal (rsWal s)) = (None, w)"
      "s1 = s\<lparr>rsWal := \<lparr>rwWal = w, rwSeq = rwSeq (rsWal s) + 1\<rparr>, rsNextIndex := rsNextIndex s + rec_step r\<rparr>"
    using raft_do_ok [OF d] by blast
  let ?e = "raft_record (rwSeq (rsWal s) + 1) op b" and ?w = "(rwWal (rsWal s))\<lparr>wSeq := rwSeq (rsWal s)\<rparr>"
  have u: "unat (rwSeq (rsWal s) + 1) = unat (rwSeq (rsWal s)) + 1" and nz: "rwSeq (rsWal s) + 1 \<noteq> 0"
    using Cons.prems(3) unat_plus1_u64 [of "rwSeq (rsWal s)"] by auto
  have wi: "wal_inv ?w es" using Cons.prems(2) by (simp add: raft_inv_def)
  have ap: "appendLocked ?e ?w = (None, w\<lparr>wSeq := rwSeq (rsWal s)\<rparr>)"
    using wi by (intro appendLocked_wSeq [OF o(3)]) (simp add: wal_inv_def)
  have lt: "\<forall>d \<in> set es. eSeq d < eSeq ?e" using wi nz by (auto simp: wal_inv_def raft_record_def intro: word_less_Suc)
  have sz: "payload_size ?e \<le> 268435456" using Cons.prems(4) o(1) by simp
  have ok: "wal_inv (w\<lparr>wSeq := eSeq ?e\<rparr>) (es @ [?e])" "fsynced (wFile w) = frames (es @ [?e])"
    using appendLocked_ok [OF ap wi sz lt] o(2) by (simp_all add: raft_record_def)
  have inv1: "raft_inv s1 (es @ [?e])" using ok(1) o(4) by (simp add: raft_inv_def raft_record_def)
  have "raft_inv s' ((es @ [?e]) @ rec_entries c (rwSeq (rsWal s1)) (rsNextIndex s1) rs)
     \<and> length (rec_entries c (rwSeq (rsWal s1)) (rsNextIndex s1) rs) = length rs
     \<and> (rs \<noteq> [] \<longrightarrow> fsynced (wFile (rwWal (rsWal s'))) = frames ((es @ [?e]) @ rec_entries c (rwSeq (rsWal s1)) (rsNextIndex s1) rs))"
    by (rule Cons.IH [OF run inv1]) (use Cons.prems(3,4) u o in simp_all)
  then show ?case using o ok(2) run by (cases rs) auto
qed

text \<open>
  What replaying the records gives: the entries in order, as the codec returns them, and the last term and vote.  The
  codec is assumed to read back the records of a run, with nested maps in the shape in which CBOR returns them.
\<close>

definition cbor_entry :: "log_entry \<Rightarrow> log_entry" where
  "cbor_entry e = e\<lparr>leData := cbor_data (leData e)\<rparr>"

fun rec_log :: "raft_rec list \<Rightarrow> log_entry list" where
  "rec_log [] = []"
| "rec_log (RecMeta _ _ # rs) = rec_log rs"
| "rec_log (RecEntry e # rs) = e # rec_log rs"

fun rec_meta :: "raft_meta \<Rightarrow> raft_rec list \<Rightarrow> raft_meta" where
  "rec_meta m [] = m"
| "rec_meta m (RecMeta t v # rs) = rec_meta \<lparr>rmCurrentTerm = t, rmVotedFor = v\<rparr> rs"
| "rec_meta m (RecEntry _ # rs) = rec_meta m rs"

definition raft_codec_reads :: "raft_codec \<Rightarrow> raft_rec list \<Rightarrow> bool" where
  "raft_codec_reads c rs \<longleftrightarrow>
     (\<forall>e i b. RecEntry e \<in> set rs \<longrightarrow> encLog c \<lparr>rlIndex = i, rlTerm = leTerm e, rlData = leData e\<rparr> = Inr b \<longrightarrow>
        decLog c b = Inr \<lparr>rlIndex = i, rlTerm = leTerm e, rlData = cbor_data (leData e)\<rparr>)
   \<and> (\<forall>t v b. RecMeta t v \<in> set rs \<longrightarrow> encMeta c \<lparr>rmCurrentTerm = t, rmVotedFor = v\<rparr> = Inr b \<longrightarrow>
        decMeta c b = Inr \<lparr>rmCurrentTerm = t, rmVotedFor = v\<rparr>)"

text \<open>The log that is restored from the records.\<close>

definition restored :: "raft_rec list \<Rightarrow> log_entry list" where
  "restored rs = map cbor_entry (rec_log rs)"

lemma length_restored [simp]: "length (restored rs) = length (rec_log rs)"
  by (simp add: restored_def)

definition indexed :: "nat \<Rightarrow> log_entry list \<Rightarrow> (int \<times> raft_log_payload) list" where
  "indexed k es = map (\<lambda>(i, e). (int i, \<lparr>rlIndex = int i, rlTerm = leTerm e, rlData = leData e\<rparr>)) (List.enumerate k es)"

lemma map_fst_indexed: "map fst (indexed k es) = map int [k..<k + length es]"
  by (induction es arbitrary: k) (simp_all add: indexed_def upt_conv_Cons del: upt_Suc)

lemma update_fresh: "k \<notin> set (map fst al) \<Longrightarrow> AList.update k v al = al @ [(k, v)]"
  by (induction al) auto

lemma rec_replay:
  assumes "raft_codec_reads c rs" and "length (rec_entries c seq (int (length es)) rs) = length rs"
  shows "apply_all (raft_apply c) (rec_entries c seq (int (length es)) rs) (indexed 0 es, m)
    = (None, indexed 0 (es @ restored rs), rec_meta m rs)"
  using assms
proof (induction rs arbitrary: seq es m)
  case Nil
  then show ?case by (simp add: restored_def)
next
  case (Cons r rs)
  have c: "raft_codec_reads c rs" using Cons.prems(1) by (simp add: raft_codec_reads_def)
  show ?case
  proof (cases r)
    case (RecMeta t v)
    obtain b where b: "encMeta c \<lparr>rmCurrentTerm = t, rmVotedFor = v\<rparr> = Inr b"
      using Cons.prems RecMeta by (auto simp: rec_bytes_def split: sum.splits)
    have "decMeta c b = Inr \<lparr>rmCurrentTerm = t, rmVotedFor = v\<rparr>" using Cons.prems(1) b RecMeta by (simp add: raft_codec_reads_def)
    then show ?thesis using Cons.IH [OF c] Cons.prems(2) b RecMeta
      by (simp add: restored_def rec_bytes_def rec_step_def raft_apply_def raft_record_def)
  next
    case (RecEntry e)
    let ?p = "\<lambda>d. \<lparr>rlIndex = int (length es), rlTerm = leTerm e, rlData = d\<rparr>"
    obtain b where b: "encLog c (?p (leData e)) = Inr b" using Cons.prems(2) RecEntry by (auto simp: rec_bytes_def split: sum.splits)
    have dec: "decLog c b = Inr (?p (cbor_data (leData e)))" using Cons.prems(1) b RecEntry by (simp add: raft_codec_reads_def)
    have "int (length es) \<notin> set (map fst (indexed 0 es))" unfolding map_fst_indexed by auto
    then have up: "AList.update (int (length es)) (?p (cbor_data (leData e))) (indexed 0 es) = indexed 0 (es @ [cbor_entry e])"
      by (simp add: update_fresh indexed_def enumerate_append_eq cbor_entry_def)
    show ?thesis using Cons.IH [OF c, of "seq + 1" "es @ [cbor_entry e]"] Cons.prems(2) b dec up RecEntry
      by (simp add: restored_def rec_bytes_def rec_step_def raft_apply_def raft_record_def add.commute)
  qed
qed

lemma rec_entries_seqs:
  assumes "length (rec_entries c s i rs) = length rs" and "unat s + length rs < 18446744073709551616" and "m \<le> s"
  shows "max_seq (rec_entries c s i rs) m = (if rs = [] then m else s + of_nat (length rs))
     \<and> (\<forall>e\<in>set (rec_entries c s i rs). s < eSeq e)"
  using assms
proof (induction rs arbitrary: s i m)
  case Nil
  then show ?case by simp
next
  case (Cons r rs)
  have u: "unat (s + 1) = unat s + 1" using Cons.prems(2) by (intro unat_plus1_u64) simp
  have lt: "s < s + 1" using u by (simp add: word_less_nat_alt)
  obtain op b where e: "rec_bytes c i r = Inr (op, b)" "length (rec_entries c (s + 1) (i + rec_step r) rs) = length rs"
    using Cons.prems(1) by (auto split: sum.splits)
  have mx: "max m (s + 1) = s + 1" using order_trans [OF Cons.prems(3) order_less_imp_le [OF lt]] by simp
  have IH: "max_seq (rec_entries c (s + 1) (i + rec_step r) rs) (s + 1) = (if rs = [] then s + 1 else s + 1 + of_nat (length rs))
     \<and> (\<forall>e\<in>set (rec_entries c (s + 1) (i + rec_step r) rs). s + 1 < eSeq e)"
    using Cons.prems(2) e(2) u by (intro Cons.IH) simp_all
  then show ?case using e mx lt by (auto simp: raft_record_def algebra_simps)
qed

section \<open>Restarting a node\<close>

lemma gap_upt: "\<not> gap (map int [k..<n])"
proof (induction "n - k" arbitrary: k)
  case (Suc d)
  then have k: "k < n" by simp
  show ?case
  proof (cases "Suc k < n")
    case True
    then show ?thesis using Suc.hyps(1) [of "Suc k"] Suc.hyps(2) k by (simp add: upt_conv_Cons)
  next
    case False
    then have "n = Suc k" using k by simp
    then show ?thesis by simp
  qed
qed simp

lemma map_of_indexed: "i < length es \<Longrightarrow> map_of (indexed k es) (int (k + i)) = Some \<lparr>rlIndex = int (k + i), rlTerm = leTerm (es ! i), rlData = leData (es ! i)\<rparr>"
proof (induction es arbitrary: k i)
  case (Cons e es)
  then show ?case
    using Cons.IH [of _ "Suc k"] by (cases i) (auto simp: indexed_def add.assoc [symmetric] add.commute [of 1])
qed simp

lemma indexed_values:
  "map (\<lambda>e. \<lparr>leTerm = rlTerm e, leData = rlData e\<rparr>) (map (\<lambda>i. the (map_of (indexed 0 es) i)) (map int [0..<length es])) = es"
  by (rule nth_equalityI) (use map_of_indexed [of _ es 0] in auto)

lemma raft_Load_replayed:
  assumes "Replay (raft_apply c) (rwWal r) ([], \<lparr>rmCurrentTerm = 0, rmVotedFor = []\<rparr>) = (None, w, (indexed 0 es, m), q)"
  shows "raft_Load c r = (Inr (map (\<lambda>i. the (map_of (indexed 0 es) i)) (map int [0..<length es]), m), r\<lparr>rwWal := w, rwSeq := q\<rparr>)"
proof (cases "es = []")
  case True
  then show ?thesis using assms by (simp add: raft_Load_def indexed_def)
next
  case False
  have f: "map fst (indexed 0 es) = map int [0..<length es]" by (simp add: map_fst_indexed)
  have s: "sort (map int [0..<length es]) = map int [0..<length es]" by (simp add: sorted_sort_id sorted_map)
  have ne: "indexed 0 es \<noteq> []" using False by (simp add: indexed_def enumerate_eq_zip)
  have hd: "hd (map int [0..<length es]) = 0" using False by (simp add: hd_map)
  show ?thesis using assms ne by (simp add: raft_Load_def f s hd gap_upt Let_def)
qed

lemma OpenRaftWAL_eq:
  "OpenRaftWAL f = Inr \<lparr>rwWal = \<lparr>wFile = f, wOpts = raft_wal_opts, wBufw = None, wSeq = 0, writesSinceCkpt = 0, bytesSinceCkpt = 0\<rparr>, rwSeq = 0\<rparr>"
  by (simp add: OpenRaftWAL_def New_def Validate_def CheckpointConfigured_def raft_wal_opts_def)

lemma OpenRaft_replayed:
  assumes "Replay (raft_apply c) \<lparr>wFile = f, wOpts = raft_wal_opts, wBufw = None, wSeq = 0, writesSinceCkpt = 0, bytesSinceCkpt = 0\<rparr>
      ([], \<lparr>rmCurrentTerm = 0, rmVotedFor = []\<rparr>) = (None, w, (indexed 0 es, m), q)"
  shows "OpenRaft c i peers f = Inr \<lparr>rsNode = SetMetaPersister (NewNodeWithState i peers
      \<lparr>psLog = es, psCurrentTerm = rmCurrentTerm m, psVotedFor = rmVotedFor m\<rparr>), rsWal = \<lparr>rwWal = w, rwSeq = q\<rparr>, rsNextIndex = int (length es)\<rparr>"
  using raft_Load_replayed [of c "\<lparr>rwWal = \<lparr>wFile = f, wOpts = raft_wal_opts, wBufw = None, wSeq = 0, writesSinceCkpt = 0, bytesSinceCkpt = 0\<rparr>, rwSeq = 0\<rparr>" w es m q]
    assms indexed_values [of es]
  by (simp add: OpenRaft_def OpenRaftWAL_eq Let_def)

lemma OpenRaft_empty:
  assumes "OpenRaft c i peers f = Inr s" and "fdata f = []"
  shows "raft_inv s []" and "rwSeq (rsWal s) = 0" and "rsNextIndex s = 0" and "rsNode s = SetMetaPersister (NewNode i peers)"
proof -
  let ?w = "\<lparr>wFile = f, wOpts = raft_wal_opts, wBufw = None, wSeq = 0, writesSinceCkpt = 0, bytesSinceCkpt = 0\<rparr>"
  obtain err w acc q where r: "Replay (raft_apply c) ?w ([], \<lparr>rmCurrentTerm = 0, rmVotedFor = []\<rparr>) = (err, w, acc, q)"
    by (cases "Replay (raft_apply c) ?w ([], \<lparr>rmCurrentTerm = 0, rmVotedFor = []\<rparr>)") auto
  have "err = None" using assms(1) r by (cases err) (auto simp: OpenRaft_def OpenRaftWAL_eq raft_Load_def)
  then have e: "(\<exists>f'. w = ?w\<lparr>wFile := f'\<rparr> \<and> fdata f' = [] \<and> fpos f' = 0)" "acc = (indexed 0 [], \<lparr>rmCurrentTerm = 0, rmVotedFor = []\<rparr>)" "q = 0"
    using Replay_empty [of ?w "raft_apply c"] r assms(2) by (auto simp: indexed_def)
  have s: "s = \<lparr>rsNode = SetMetaPersister (NewNodeWithState i peers \<lparr>psLog = [], psCurrentTerm = 0, psVotedFor = []\<rparr>),
      rsWal = \<lparr>rwWal = w, rwSeq = 0\<rparr>, rsNextIndex = 0\<rparr>"
    using OpenRaft_replayed [of c f w "[]" "\<lparr>rmCurrentTerm = 0, rmVotedFor = []\<rparr>" 0 i peers] r \<open>err = None\<close> e(2,3) assms(1) by simp
  show "raft_inv s []" using e(1) s by (auto simp: raft_inv_def wal_inv_def raft_wal_opts_def)
  show "rwSeq (rsWal s) = 0" "rsNextIndex s = 0" "rsNode s = SetMetaPersister (NewNode i peers)"
    using s by (simp_all add: NewNodeWithState_def NewNode_def Let_def)
qed

lemma raft_run_seq: "raft_run c rs s = (None, s') \<Longrightarrow> rwSeq (rsWal s') = rwSeq (rsWal s) + of_nat (length rs)"
proof (induction rs arbitrary: s)
  case (Cons r rs)
  obtain s1 where s1: "raft_do c r s = (None, s1)" "raft_run c rs s1 = (None, s')" using Cons.prems by (auto split: prod.splits option.splits)
  have "rwSeq (rsWal s1) = rwSeq (rsWal s) + 1" using raft_do_ok [OF s1(1)] by auto
  then show ?case using Cons.IH [OF s1(2)] by (simp add: algebra_simps)
qed simp

lemma raft_run_append: "raft_run c rs s = (None, s1) \<Longrightarrow> raft_run c (rs @ [r]) s = (case raft_do c r s1 of (Some err, s) \<Rightarrow> (Some err, s) | (None, s) \<Rightarrow> (None, s))"
  by (induction rs arbitrary: s) (auto split: prod.splits option.splits)

text \<open>
  A node whose file holds the records \<open>rs\<close>, all of them synchronised; what a crash left behind them when the file was
  opened may still be on the disk, as the cut is not synchronised before the next record.
\<close>

definition raft_file :: "raft_setup \<Rightarrow> osfile" where
  "raft_file s = wFile (rwWal (rsWal s))"

definition raft_up :: "raft_codec \<Rightarrow> raft_rec list \<Rightarrow> raft_setup \<Rightarrow> bool" where
  "raft_up c rs s \<longleftrightarrow> raft_inv s (rec_entries c 0 0 rs) \<and> length (rec_entries c 0 0 rs) = length rs
     \<and> rwSeq (rsWal s) = of_nat (length rs) \<and> rsNextIndex s = int (length (rec_log rs))
     \<and> (\<exists>t. (t = [] \<or> torn t) \<and> fsynced (raft_file s) = frames (rec_entries c 0 0 rs) @ t)"

definition records_fit :: "raft_codec \<Rightarrow> raft_rec list \<Rightarrow> bool" where
  "records_fit c rs \<longleftrightarrow> length rs < 18446744073709551616 \<and> (\<forall>e \<in> set (rec_entries c 0 0 rs). payload_size e \<le> 268435456)
     \<and> raft_codec_reads c rs"

lemma rec_log_append [simp]: "rec_log (rs @ qs) = rec_log rs @ rec_log qs"
  by (induction rs rule: rec_log.induct) simp_all

lemma rec_log_single: "int (length (rec_log [r])) = rec_step r"
  by (cases r) (simp_all add: rec_step_def)

lemma rec_entries_append:
  assumes "length (rec_entries c q i rs) = length rs"
  shows "rec_entries c q i (rs @ qs) = rec_entries c q i rs @ rec_entries c (q + of_nat (length rs)) (i + int (length (rec_log rs))) qs"
  using assms
proof (induction rs arbitrary: q i)
  case (Cons r rs)
  then show ?case using rec_log_single [of r] rec_log_append [of "[r]" rs] by (auto simp: algebra_simps split: sum.splits)
qed simp

lemma rec_entries_prefix: "set (rec_entries c q i rs) \<subseteq> set (rec_entries c q i (rs @ qs))"
proof (induction rs arbitrary: q i)
  case (Cons r rs)
  show ?case
  proof (cases "rec_bytes c i r")
    case (Inr p)
    then show ?thesis using Cons.IH [of "q + 1" "i + rec_step r"] by (cases p) auto
  qed simp
qed simp

lemma records_fit_prefix: "records_fit c (rs @ qs) \<Longrightarrow> records_fit c rs"
  using rec_entries_prefix [of c 0 0 rs qs] by (auto simp: records_fit_def raft_codec_reads_def)

lemma raft_up_do:
  assumes u: "raft_up c rs s" and d: "raft_do c r s = (None, s')" and fit: "records_fit c (rs @ [r])"
  shows "raft_up c (rs @ [r]) s' \<and> rsNode s' = rsNode s"
proof -
  let ?es = "rec_entries c 0 0 rs"
  have l: "length ?es = length rs" and q: "rwSeq (rsWal s) = of_nat (length rs)" and i: "rsNextIndex s = int (length (rec_log rs))"
    and inv: "raft_inv s ?es" using u by (simp_all add: raft_up_def)
  have len: "Suc (length rs) < 18446744073709551616" using fit by (simp add: records_fit_def)
  then have uq: "unat (rwSeq (rsWal s)) = length rs" using q unat_of_nat_u64 [of "length rs"] by simp
  have es: "rec_entries c 0 0 (rs @ [r]) = ?es @ rec_entries c (rwSeq (rsWal s)) (rsNextIndex s) [r]"
    unfolding rec_entries_append [OF l] q i by simp
  have run: "raft_run c [r] s = (None, s')" using d by simp
  have "raft_inv s' (rec_entries c 0 0 (rs @ [r])) \<and> length (rec_entries c (rwSeq (rsWal s)) (rsNextIndex s) [r]) = length [r]
      \<and> ([r] \<noteq> [] \<longrightarrow> fsynced (raft_file s') = frames (rec_entries c 0 0 (rs @ [r])))"
    unfolding es raft_file_def by (rule raft_run_records [OF run inv]) (use len uq fit es in \<open>simp_all add: records_fit_def\<close>)
  moreover obtain w where "s' = s\<lparr>rsWal := \<lparr>rwWal = w, rwSeq = rwSeq (rsWal s) + 1\<rparr>, rsNextIndex := rsNextIndex s + rec_step r\<rparr>"
    using raft_do_ok [OF d] by blast
  ultimately show ?thesis
    using l q i es rec_log_single [of r] by (auto simp: raft_up_def algebra_simps)
qed

text \<open>Opening a file that holds such records, with or without a torn one behind them.\<close>

definition records_ok :: "raft_codec \<Rightarrow> raft_rec list \<Rightarrow> bool" where
  "records_ok c rs \<longleftrightarrow> length (rec_entries c 0 0 rs) = length rs \<and> sorted_wrt (<) (map eSeq (rec_entries c 0 0 rs))
     \<and> (\<forall>e \<in> set (rec_entries c 0 0 rs). loggable e \<and> eSeq e \<le> of_nat (length rs))"

lemma raft_up_records_ok: "raft_up c rs s \<Longrightarrow> records_ok c rs"
  by (auto simp: raft_up_def records_ok_def raft_inv_def wal_inv_def)

lemma raft_open:
  assumes c: "raft_codec_reads c rs" and rs: "records_ok c rs" "length rs < 18446744073709551616"
    and f: "foutcomes f = []" "fdata f = frames (rec_entries c 0 0 rs) @ t" "t = [] \<or> torn t"
  shows "\<exists>s. OpenRaft c i peers f = Inr s \<and> rwSeq (rsWal s) = of_nat (length rs) \<and> rsNextIndex s = int (length (rec_log rs))
    \<and> rsNode s = SetMetaPersister (NewNodeWithState i peers
      \<lparr>psLog = restored rs, psCurrentTerm = rmCurrentTerm (rec_meta \<lparr>rmCurrentTerm = 0, rmVotedFor = []\<rparr> rs),
       psVotedFor = rmVotedFor (rec_meta \<lparr>rmCurrentTerm = 0, rmVotedFor = []\<rparr> rs)\<rparr>)
    \<and> (fsynced f = fdata f \<longrightarrow> raft_up c rs s)"
proof -
  let ?es = "rec_entries c 0 0 rs" and ?m = "\<lparr>rmCurrentTerm = 0, rmVotedFor = []\<rparr>"
  let ?w = "\<lparr>wFile = f, wOpts = raft_wal_opts, wBufw = None, wSeq = 0, writesSinceCkpt = 0, bytesSinceCkpt = 0\<rparr>"
  have wi: "\<forall>e \<in> set ?es. loggable e \<and> eSeq e \<le> of_nat (length rs)" "sorted_wrt (<) (map eSeq ?es)" "length ?es = length rs"
    using rs(1) by (simp_all add: records_ok_def)
  have seqs: "max_seq ?es 0 = of_nat (length rs)" "filter (\<lambda>e. eSeq e > 0) ?es = ?es"
    using rec_entries_seqs [OF wi(3), of 0] rs(2) by (auto simp: filter_id_conv split: if_splits)
  have "apply_all (raft_apply c) ?es ([], ?m) = (None, indexed 0 (restored rs), rec_meta ?m rs)"
    using rec_replay [OF c, of 0 "[]" ?m] wi(3) by (simp add: indexed_def)
  then have rp: "Replay (raft_apply c) ?w ([], ?m) = (None, ?w\<lparr>wFile := f\<lparr>fdata := frames ?es, fpos := length (frames ?es)\<rparr>\<rparr>,
      (indexed 0 (restored rs), rec_meta ?m rs), of_nat (length rs))"
    unfolding Replay_def using f wi(1) seqs torn_bad_tail
    by (subst replaySince_apply [where es = ?es and t = t and s' = "(indexed 0 (restored rs), rec_meta ?m rs)"]) auto
  show ?thesis
    unfolding OpenRaft_replayed [OF rp, of i peers]
    using wi f(2,3) by (auto simp: raft_up_def raft_inv_def wal_inv_def raft_file_def raft_wal_opts_def)
qed

lemma restart_restores:
  assumes c: "raft_codec_reads c rs" and start: "OpenRaft c i peers f0 = Inr s0" "fdata f0 = []"
    and run: "raft_run c rs s0 = (None, s1)" "rs \<noteq> []" "length rs < 18446744073709551616"
    and sz: "\<forall>e \<in> set (rec_entries c 0 0 rs). payload_size e \<le> 268435456"
    and crash: "foutcomes f2 = []" "fdata f2 = fsynced (wFile (rwWal (rsWal s1))) @ t" "t = [] \<or> torn t"
  shows "\<exists>s2. OpenRaft c i peers f2 = Inr s2 \<and> nLog (rsNode s2) = restored rs
    \<and> currentTerm (rsNode s2) = rmCurrentTerm (rec_meta \<lparr>rmCurrentTerm = 0, rmVotedFor = []\<rparr> rs)
    \<and> votedFor (rsNode s2) = rmVotedFor (rec_meta \<lparr>rmCurrentTerm = 0, rmVotedFor = []\<rparr> rs)
    \<and> commitIndex (rsNode s2) = int (length (rec_log rs)) - 1 \<and> lastApplied (rsNode s2) = int (length (rec_log rs)) - 1
    \<and> rsNextIndex s2 = int (length (rec_log rs)) \<and> nState (rsNode s2) = Follower \<and> rwSeq (rsWal s2) = of_nat (length rs)"
proof -
  note o = OpenRaft_empty [OF start]
  have rec: "raft_inv s1 (rec_entries c 0 0 rs)" "length (rec_entries c 0 0 rs) = length rs"
      "fsynced (wFile (rwWal (rsWal s1))) = frames (rec_entries c 0 0 rs)"
    using raft_run_records [OF run(1) o(1)] o(2,3) run(2,3) sz by simp_all
  have "rwSeq (rsWal s1) = of_nat (length rs)" using raft_run_seq [OF run(1)] o(2) by simp
  then have ok: "records_ok c rs" using rec(1,2) by (simp add: records_ok_def raft_inv_def wal_inv_def)
  show ?thesis
    using raft_open [OF c ok run(3) crash(1) crash(2) [unfolded rec(3)] crash(3), of i peers]
    by (auto simp: NewNodeWithState_def NewNode_def SetMetaPersister_def Let_def)
qed

text \<open>C16. Restart of a consensus node: let a node started on an empty file persist terms, votes and applied
  entries, none of them a record of more than 256 MiB, and let every write be acknowledged, whatever faults the file may have.  If the
  codec reads these records back, with nested maps in the shape that CBOR gives them, then starting again from what was
  synchronised, with or without a torn record behind it, restores the applied entries in order in that shape and the
  last term and vote, marks all of them as committed and applied, and numbers the next entry after them.\<close>

theorem restart_restores_consensus_state:
  assumes c: "raft_codec_reads c rs" and start: "OpenRaft c i peers f0 = Inr s0" "fdata f0 = []"
    and run: "raft_run c rs s0 = (None, s1)" "rs \<noteq> []" "length rs < 18446744073709551616"
    and sz: "\<forall>e \<in> set (rec_entries c 0 0 rs). payload_size e \<le> 268435456"
    and crash: "foutcomes f2 = []" "fdata f2 = fsynced (wFile (rwWal (rsWal s1))) @ t" "t = [] \<or> torn t"
  shows "\<exists>s2. OpenRaft c i peers f2 = Inr s2 \<and> nLog (rsNode s2) = restored rs
    \<and> currentTerm (rsNode s2) = rmCurrentTerm (rec_meta \<lparr>rmCurrentTerm = 0, rmVotedFor = []\<rparr> rs)
    \<and> votedFor (rsNode s2) = rmVotedFor (rec_meta \<lparr>rmCurrentTerm = 0, rmVotedFor = []\<rparr> rs)
    \<and> commitIndex (rsNode s2) = int (length (rec_log rs)) - 1 \<and> lastApplied (rsNode s2) = int (length (rec_log rs)) - 1
    \<and> rsNextIndex s2 = int (length (rec_log rs)) \<and> nState (rsNode s2) = Follower \<and> rwSeq (rsWal s2) = of_nat (length rs)"
  using assms by (rule restart_restores)

text \<open>A codec for one entry and two metas.\<close>

definition demo_raft_codec :: raft_codec where
  "demo_raft_codec =
     \<lparr>encLog = (\<lambda>p. if p = \<lparr>rlIndex = 0, rlTerm = 1, rlData = demo_cmd ''1''\<rparr> then Inr [1] else Inl (ErrMsg ''encode'')),
      decLog = (\<lambda>b. if b = [1] then Inr \<lparr>rlIndex = 0, rlTerm = 1, rlData = demo_cmd ''1''\<rparr> else Inl (ErrMsg ''decode'')),
      encMeta = (\<lambda>m. if m = \<lparr>rmCurrentTerm = 1, rmVotedFor = ''a''\<rparr> then Inr [2]
                     else if m = \<lparr>rmCurrentTerm = 1, rmVotedFor = []\<rparr> then Inr [3] else Inl (ErrMsg ''encode'')),
      decMeta = (\<lambda>b. if b = [2] then Inr \<lparr>rmCurrentTerm = 1, rmVotedFor = ''a''\<rparr>
                     else if b = [3] then Inr \<lparr>rmCurrentTerm = 1, rmVotedFor = []\<rparr> else Inl (ErrMsg ''decode''))\<rparr>"

lemma demo_cbor [simp]: "cbor_data (demo_cmd k) = demo_cmd k" "cbor_entry (demo_entry k) = demo_entry k"
  by (simp_all add: cbor_entry_def cbor_data_def cbor_item_def demo_entry_def demo_cmd_def zero_item_def)

lemma demo_codec_reads: "raft_codec_reads demo_raft_codec rs"
  by (auto simp: raft_codec_reads_def demo_raft_codec_def split: if_splits)

definition empty_file :: osfile where
  "empty_file = \<lparr>fdata = [], fpos = 0, fsynced = [], foutcomes = []\<rparr>"

definition demo_setup :: raft_setup where
  "demo_setup = \<lparr>rsNode = SetMetaPersister (NewNode ''b'' [''a'', ''c'']), rsWal = \<lparr>rwWal = \<lparr>wFile = empty_file, wOpts = raft_wal_opts,
     wBufw = None, wSeq = 0, writesSinceCkpt = 0, bytesSinceCkpt = 0\<rparr>, rwSeq = 0\<rparr>, rsNextIndex = 0\<rparr>"

lemma demo_open: "OpenRaft c ''b'' [''a'', ''c''] empty_file = Inr demo_setup"
proof -
  let ?w = "\<lparr>wFile = empty_file, wOpts = raft_wal_opts, wBufw = None, wSeq = 0, writesSinceCkpt = 0, bytesSinceCkpt = 0\<rparr>"
  have "Replay (raft_apply c) ?w ([], \<lparr>rmCurrentTerm = 0, rmVotedFor = []\<rparr>) = (None, ?w, (indexed 0 [], \<lparr>rmCurrentTerm = 0, rmVotedFor = []\<rparr>), 0)"
    unfolding Replay_def using replaySince_apply [of ?w "[]" "[]" "raft_apply c" 0] by (simp add: empty_file_def indexed_def)
  from OpenRaft_replayed [OF this] show ?thesis by (simp add: demo_setup_def NewNodeWithState_def NewNode_def Let_def)
qed

lemma demo_append: "valid_entry e \<Longrightarrow> wBufw w = None \<Longrightarrow> foutcomes (wFile w) = [] \<Longrightarrow> \<exists>w'. appendLocked e w = (None, w') \<and> wBufw w' = None \<and> foutcomes (wFile w') = []"
  by (auto simp: appendLocked_def MarshalBinary_valid write_record_def syncAndHook_def file_Write_def file_Sync_def write_bytes_def Let_def)

lemma demo_record_valid: "length b = 1 \<Longrightarrow> op = OpRaftLog \<or> op = OpRaftMeta \<Longrightarrow> valid_entry (raft_record s op b) \<and> payload_size (raft_record s op b) \<le> 268435456"
  by (auto simp: raft_record_def raftTable_def valid_entry_def payload_size_def)

theorem restart_restores_consensus_state_witness:
  "\<exists>s1 s2. raft_run demo_raft_codec [RecMeta 1 ''a'', RecEntry (demo_entry ''1'')] demo_setup = (None, s1)
     \<and> OpenRaft demo_raft_codec ''b'' [''a'', ''c''] \<lparr>fdata = fsynced (wFile (rwWal (rsWal s1))), fpos = 0, fsynced = [], foutcomes = []\<rparr> = Inr s2
     \<and> nLog (rsNode s2) = [demo_entry ''1''] \<and> currentTerm (rsNode s2) = 1 \<and> votedFor (rsNode s2) = ''a'' \<and> lastApplied (rsNode s2) = 0"
proof -
  let ?rs = "[RecMeta 1 ''a'', RecEntry (demo_entry ''1'')]"
  obtain w1 where w1: "appendLocked (raft_record 1 OpRaftMeta [2]) (rwWal (rsWal demo_setup)) = (None, w1)" "wBufw w1 = None" "foutcomes (wFile w1) = []"
    using demo_append [of "raft_record 1 OpRaftMeta [2]" "rwWal (rsWal demo_setup)"] demo_record_valid [of "[2]" OpRaftMeta 1]
    by (auto simp: demo_setup_def empty_file_def)
  obtain w2 where w2: "appendLocked (raft_record 2 OpRaftLog [1]) w1 = (None, w2)"
    using demo_append [of "raft_record 2 OpRaftLog [1]" w1] demo_record_valid [of "[1]" OpRaftLog 2] w1 by auto
  obtain s1 where run: "raft_run demo_raft_codec ?rs demo_setup = (None, s1)"
    using w1 w2 by (simp add: SaveMeta_def PersistApplied_def AppendEntry_def wal_Append_def demo_raft_codec_def demo_setup_def Let_def demo_entry_def)
  have sz: "\<forall>e \<in> set (rec_entries demo_raft_codec 0 0 ?rs). payload_size e \<le> 268435456"
    using demo_record_valid by (simp add: rec_bytes_def demo_raft_codec_def rec_step_def demo_entry_def)
  show ?thesis
    using restart_restores_consensus_state [OF demo_codec_reads demo_open _ run _ _ sz, of
        "\<lparr>fdata = fsynced (wFile (rwWal (rsWal s1))), fpos = 0, fsynced = [], foutcomes = []\<rparr>" "[]"] run
    by (auto simp: empty_file_def restored_def)
qed

text \<open>The delivery loop persists what it applied.\<close>

lemma applied_loop_run: "applied_loop c app es s x = (None, s', x') \<Longrightarrow> raft_run c (map RecEntry es) s = (None, s')"
  by (induction es arbitrary: s x) (auto split: prod.splits option.splits)

lemma rec_log_entries [simp]: "rec_log (map RecEntry es) = es" "rec_meta m (map RecEntry es) = m"
  by (induction es) simp_all

section \<open>What a message leaves on disk\<close>

text \<open>
  A handler on a node that \<^verbatim>\<open>OpenRaft\<close> set up: the calls of the persister it makes, in their order, reach the log.
\<close>

definition setup_HandleAppendEntries ::
  "raft_codec \<Rightarrow> append_entries_args \<Rightarrow> raft_setup \<Rightarrow> goerr + raft_setup \<times> append_entries_reply"
where
  "setup_HandleAppendEntries c args s =
     (case HandleAppendEntries args (rsNode s) of
        Inl err \<Rightarrow> Inl err
      | Inr (n, reply) \<Rightarrow>
          Inr (fold (\<lambda>(term, voted). persist_meta c term voted) (drop (length (metaWrites (rsNode s))) (metaWrites n)) (s\<lparr>rsNode := n\<rparr>), reply))"

lemma handler_meta:
  assumes "HandleAppendEntries args n = Inr (n', reply)"
  shows "drop (length (metaWrites n)) (metaWrites n') = [] \<or> drop (length (metaWrites n)) (metaWrites n') = [(aeTerm args, [])]"
    and "arSuccess reply \<Longrightarrow> nat (aePrevLogIndex args + 1) + length (aeEntries args) \<le> length (nLog n')"
proof -
  have loop: "k + length es \<le> length (append_loop es k log)" if "k \<le> length log" for es k log
    using that by (induction es k log rule: append_loop.induct) auto
  note d = HandleAppendEntries_def ae_enter_def ae_finish_def stepDown_def notifyMetaChange_def signalReset_def advance_commit_def Let_def
  show "drop (length (metaWrites n)) (metaWrites n') = [] \<or> drop (length (metaWrites n)) (metaWrites n') = [(aeTerm args, [])]"
    using assms by (auto simp: d split: if_splits)
  have "nLog n' = append_loop (aeEntries args) (nat (aePrevLogIndex args + 1)) (nLog n) \<and> prev_ok args (nLog n)" if "arSuccess reply"
    using assms that by (auto simp: d split: if_splits)
  moreover have "nat (aePrevLogIndex args + 1) \<le> length (nLog n)" if "prev_ok args (nLog n)"
    using that by (cases "0 \<le> aePrevLogIndex args") (auto simp: prev_ok_def)
  ultimately show "nat (aePrevLogIndex args + 1) + length (aeEntries args) \<le> length (nLog n')" if "arSuccess reply"
    using loop that by simp
qed

text \<open>C32. A node acknowledges entries that a restart loses: let a node started on an empty file have recorded terms, votes
  and applied entries, at least one of these, and let it then, in whatever state it is, accept an AppendEntries message.  It answers with
  success and its log reaches past the entries of the message, but at most the message's term is written to disk: if that write succeeds,
  starting from what was synchronised gives the log recorded before, without any entry of the message that had not
  been applied.  (Records are at most 256 MiB long, and the codec reads them back, with nested maps in the shape that CBOR gives them.)\<close>

theorem acknowledged_entries_lost_on_restart:
  assumes start: "OpenRaft c i peers f0 = Inr s0" "fdata f0 = []" and run: "raft_run c rs s0 = (None, s1)" "rs \<noteq> []"
    and h: "setup_HandleAppendEntries c args (s1\<lparr>rsNode := n\<rparr>) = Inr (s2, reply)" "arSuccess reply"
    and taken: "currentTerm n < aeTerm args \<Longrightarrow> fst (SaveMeta c (aeTerm args) [] (rsWal s1)) = None"
    and fit: "records_fit c (rs @ [RecMeta (aeTerm args) []])"
    and crash: "foutcomes f2 = []" "fdata f2 = fsynced (raft_file s2)"
  shows "nat (aePrevLogIndex args + 1) + length (aeEntries args) \<le> length (nLog (rsNode s2))
    \<and> (\<exists>s3. OpenRaft c i peers f2 = Inr s3 \<and> nLog (rsNode s3) = restored rs)"
proof -
  let ?r = "RecMeta (aeTerm args) []"
  obtain n' where n': "HandleAppendEntries args n = Inr (n', reply)"
      "s2 = fold (\<lambda>(term, voted). persist_meta c term voted) (drop (length (metaWrites n)) (metaWrites n')) (s1\<lparr>rsNode := n'\<rparr>)"
    using h(1) by (auto simp: setup_HandleAppendEntries_def split: sum.splits)
  have node: "rsNode s2 = n'" using handler_meta(1) [OF n'(1)] n'(2) by (auto simp: persist_meta_def split: prod.splits)
  obtain rs' s' where r: "raft_run c rs' s0 = (None, s')" "rsWal s' = rsWal s2" "rs' = rs \<or> rs' = rs @ [?r]"
  proof (cases "drop (length (metaWrites n)) (metaWrites n') = []")
    case True
    then show thesis using that [of rs s1] run(1) n'(2) by simp
  next
    case False
    then have w: "drop (length (metaWrites n)) (metaWrites n') = [(aeTerm args, [])]" using handler_meta(1) [OF n'(1)] by blast
    have "currentTerm n < aeTerm args" using n'(1) False
      by (auto simp: HandleAppendEntries_def ae_enter_def ae_finish_def signalReset_def advance_commit_def Let_def split: if_splits)
    then obtain rw where rw: "SaveMeta c (aeTerm args) [] (rsWal s1) = (None, rw)" using taken by (metis prod.collapse)
    show thesis
      using that [of "rs @ [?r]" "s1\<lparr>rsWal := rw\<rparr>"] run(1) n'(2) rw w by (simp add: raft_run_append persist_meta_def)
  qed
  have "\<exists>s3. OpenRaft c i peers f2 = Inr s3 \<and> nLog (rsNode s3) = restored rs'"
    using restart_restores [OF _ start r(1), of f2 "[]"] crash r(2,3) run(2) fit records_fit_prefix [OF fit] by (auto simp: records_fit_def raft_file_def)
  moreover have "restored rs' = restored rs" using r(3) by (auto simp: restored_def)
  ultimately show ?thesis using handler_meta(2) [OF n'(1) h(2)] node by simp
qed

theorem acknowledged_entries_lost_on_restart_witness:
  "\<exists>s1 s2 s3 reply. raft_run demo_raft_codec [RecMeta 1 ''a''] demo_setup = (None, s1)
     \<and> setup_HandleAppendEntries demo_raft_codec demo_ae s1 = Inr (s2, reply) \<and> arSuccess reply \<and> nLog (rsNode s2) \<noteq> []
     \<and> OpenRaft demo_raft_codec ''b'' [''a'', ''c''] \<lparr>fdata = fsynced (raft_file s2), fpos = 0, fsynced = [], foutcomes = []\<rparr> = Inr s3
     \<and> nLog (rsNode s3) = []"
proof -
  let ?c = demo_raft_codec and ?rs = "[RecMeta 1 ''a'']"
  obtain w1 where w1: "appendLocked (raft_record 1 OpRaftMeta [2]) (rwWal (rsWal demo_setup)) = (None, w1)" "wBufw w1 = None" "foutcomes (wFile w1) = []"
    using demo_append [of "raft_record 1 OpRaftMeta [2]" "rwWal (rsWal demo_setup)"] demo_record_valid [of "[2]" OpRaftMeta 1]
    by (auto simp: demo_setup_def empty_file_def)
  let ?s1 = "demo_setup\<lparr>rsWal := \<lparr>rwWal = w1, rwSeq = 1\<rparr>\<rparr>"
  have run: "raft_run ?c ?rs demo_setup = (None, ?s1)"
    using w1(1) by (simp add: SaveMeta_def wal_Append_def demo_raft_codec_def demo_setup_def Let_def)
  obtain w2 where w2: "appendLocked (raft_record 2 OpRaftMeta [3]) w1 = (None, w2)"
    using demo_append [of "raft_record 2 OpRaftMeta [3]" w1] demo_record_valid [of "[3]" OpRaftMeta 2] w1 by auto
  have taken: "fst (SaveMeta ?c (aeTerm demo_ae) [] (rsWal ?s1)) = None"
    using w2 by (simp add: SaveMeta_def wal_Append_def demo_raft_codec_def demo_ae_def Let_def)
  have fit: "records_fit ?c (?rs @ [RecMeta (aeTerm demo_ae) []])"
    using demo_record_valid demo_codec_reads by (simp add: records_fit_def rec_bytes_def demo_raft_codec_def rec_step_def demo_ae_def)
  obtain n' reply where h: "HandleAppendEntries demo_ae (rsNode ?s1) = Inr (n', reply)" "arSuccess reply"
    by (simp add: demo_setup_def HandleAppendEntries_def ae_enter_def ae_finish_def stepDown_def notifyMetaChange_def SetMetaPersister_def
        NewNode_def signalReset_def prev_ok_def advance_commit_def demo_ae_def Let_def)
  obtain s2 where s2: "setup_HandleAppendEntries ?c demo_ae ?s1 = Inr (s2, reply)" using h(1) by (simp add: setup_HandleAppendEntries_def)
  have "nat (aePrevLogIndex demo_ae + 1) + length (aeEntries demo_ae) \<le> length (nLog (rsNode s2))
    \<and> (\<exists>s3. OpenRaft ?c ''b'' [''a'', ''c''] \<lparr>fdata = fsynced (raft_file s2), fpos = 0, fsynced = [], foutcomes = []\<rparr> = Inr s3 \<and> nLog (rsNode s3) = restored ?rs)"
    by (rule acknowledged_entries_lost_on_restart [OF demo_open _ run _ _ h(2) taken fit, where n = "rsNode ?s1"]) (use s2 in \<open>simp_all add: empty_file_def\<close>)
  then show ?thesis using run s2 h(2) by (auto simp: demo_ae_def restored_def)
qed

end
