(* ===== verification/Replication.thy ===== *)
theory Replication
  imports Api Adapter_Properties Raft_Wal
begin

text \<open>
  From a request to the replicas: what a write handler of a leader does to its store and its log, what
  applying the resulting entries does on a follower, and where the two diverge.
\<close>

section \<open>Requests\<close>

datatype api_write =
    WPut http_request "goerr + item"
  | WBulkPut http_request "goerr + item list"
  | WDel http_request "goerr + delete_item"
  | WBulkDel http_request "goerr + delete_item list"
  | WCreate "goerr + create_table_input"

fun api_exec :: "'x adapter_cfg \<Rightarrow> ('x server \<Rightarrow> 'x server) \<Rightarrow> api_write \<Rightarrow> 'x server \<Rightarrow> response \<times> 'x server" where
  "api_exec g mw (WPut r b) sv = PutHandler g mw r b sv"
| "api_exec g mw (WBulkPut r b) sv = BulkPutHandle g mw r b sv"
| "api_exec g mw (WDel r b) sv = DeleteHandler g mw r b sv"
| "api_exec g mw (WBulkDel r b) sv = BulkDelHandle g mw r b sv"
| "api_exec g mw (WCreate b) sv = CreateTableHandler g mw b sv"

text \<open>What the leader does to its own store for a command it proposes.\<close>

definition db_exec :: "'x adapter_cfg \<Rightarrow> cmd_data \<Rightarrow> 'x adapter \<Rightarrow> goerr option \<times> 'x adapter" where
  "db_exec g d db =
     (case Cmd d of
        CreateTableCmd \<Rightarrow> ad_CreateTable g (TableName d) db
      | SetCmd \<Rightarrow> ad_Set g (TableName d) (cItem d) db
      | OptimisticSetCmd \<Rightarrow> ad_Set g (TableName d) (cItem d) db
      | BulkPutCmd \<Rightarrow> ad_BulkSet g (TableName d) (cItems d) db
      | BulkDelCmd \<Rightarrow> ad_BulkDel g (TableName d) (DelItems (cItems d)) db
      | DeleteCmd \<Rightarrow> ad_Delete g (TableName d) (DelItem (cItem d)) db
      | OptimisticDelCmd \<Rightarrow> ad_Delete g (TableName d) (DelItem (cItem d)) db
      | _ \<Rightarrow> (None, db))"

lemma DelItem_del_Item [simp]: "DelItem (del_Item d) = d" "DelItems (del_Items ds) = ds"
  by (simp_all add: DelItem_def del_Item_def DelItems_def del_Items_def comp_def map_idI)

lemma status_simps [simp]:
  "statusCode (NewResponse [StatusCode s]) = s" "statusCode (NewResponse [StatusCode s, RespErr e]) = s"
  "statusCode (NewResponse [StatusCode s, Body b]) = s"
  by (simp_all add: NewResponse_def)

lemma error_status [simp]:
  "statusCode (bad_request err) = 400" "statusCode (unprocessable fe) = 422" "statusCode (refused e) = getStatusCode (epErr e)"
  "statusCode (failed err) = getStatusCode err"
  by (simp_all add: bad_request_def unprocessable_def refused_def failed_def)

lemma getStatusCode_range: "getStatusCode e = 422 \<or> getStatusCode e = 500"
  by (simp add: getStatusCode_def)

text \<open>A write that succeeded: the store took it and the log has the command at its end.\<close>

definition accepted :: "'x adapter_cfg \<Rightarrow> ('x server \<Rightarrow> 'x server) \<Rightarrow> cmd_data \<Rightarrow> 'x server \<Rightarrow> 'x server \<Rightarrow> bool" where
  "accepted g mw d sv sv' \<longleftrightarrow> nState (svNode sv) = Leader
     \<and> (\<exists>db sv1. db_exec g d (svDb sv) = (None, db) \<and> sv1 = mw (sv\<lparr>svDb := db\<rparr>) \<and> nState (svNode sv1) = Leader
          \<and> validateStrictRepMinAcks (MinAcks d) (svNode sv1) = None \<and> svDb sv' = svDb sv1
          \<and> svNode sv' = (svNode sv1)\<lparr>nLog := nLog (svNode sv1) @ [\<lparr>leTerm = currentTerm (svNode sv1), leData = d\<rparr>]\<rparr>)"

lemma HTTPDefaultRaftMinAcks_nonzero [simp]: "HTTPDefaultRaftMinAcks n v \<noteq> 0"
  by (simp add: HTTPDefaultRaftMinAcks_def FullClusterReplicationMinAcks_def)

lemma leader_write_ok:
  assumes "leader_write mw (db_exec g d) onErr d ok sv = (resp, sv')" and "statusCode resp < 300"
    and "\<And>err. 300 \<le> statusCode (onErr err)" and acks: "MinAcks d \<noteq> 0"
  shows "accepted g mw d sv sv'"
proof -
  have e: "\<not> statusCode (refused x) < 300" for x using getStatusCode_range [of "epErr x"] by auto
  have o: "\<not> statusCode (onErr x) < 300" for x using assms(3) [of x] by simp
  have perm: "nState (svNode sv) = Leader"
    using assms(1,2) e by (auto simp: leader_write_def PermittedProposeCmd_def split: if_splits)
  obtain db where db: "db_exec g d (svDb sv) = (None, db)"
    using assms(1,2) perm o by (auto simp: leader_write_def PermittedProposeCmd_def split: prod.splits option.splits)
  let ?sv1 = "mw (sv\<lparr>svDb := db\<rparr>)"
  obtain n where n: "ProposeCommand d (svNode ?sv1) = (None, n)"
    using assms(1,2) perm db e by (auto simp: leader_write_def PermittedProposeCmd_def Let_def split: prod.splits option.splits)
  have "sv' = ?sv1\<lparr>svNode := n\<rparr>"
    using assms(1) perm db n by (simp add: leader_write_def PermittedProposeCmd_def Let_def)
  then show ?thesis using perm db n acks
    by (auto simp: accepted_def ProposeCommand_def split: if_splits option.splits)
qed

text \<open>The command carries what the request asked for.\<close>

definition lock_asked :: "http_request \<Rightarrow> bool" where
  "lock_asked r \<longleftrightarrow> QueryGet r ''operation'' = ''optimistic_lock''"

fun carries :: "api_write \<Rightarrow> cmd_data \<Rightarrow> bool" where
  "carries (WPut r b) d \<longleftrightarrow> TableName d = PathValue r ''tableName''
     \<and> (\<exists>it. b = Inr it \<and> (if lock_asked r then Cmd d = OptimisticSetCmd \<and> cItem d = it
                            else Cmd d = SetCmd \<and> cItem d = it\<lparr>itVersion := None\<rparr>))"
| "carries (WBulkPut r b) d \<longleftrightarrow> TableName d = PathValue r ''tableName'' \<and> Cmd d = BulkPutCmd \<and> b = Inr (cItems d)"
| "carries (WDel r b) d \<longleftrightarrow> TableName d = PathValue r ''tableName'' \<and> b = Inr (DelItem (cItem d))
     \<and> Cmd d = (if lock_asked r then OptimisticDelCmd else DeleteCmd)"
| "carries (WBulkDel r b) d \<longleftrightarrow> TableName d = PathValue r ''tableName'' \<and> Cmd d = BulkDelCmd \<and> b = Inr (DelItems (cItems d))"
| "carries (WCreate b) d \<longleftrightarrow> Cmd d = CreateTableCmd \<and> (\<exists>m. b = Inr \<lparr>ciTableName = TableName d, ciRaftMinAcks = m\<rparr>)"

lemma put_fields_decoded:
  assumes "DecodeParams r put_fields = Inr vs"
  shows "get_string ''TableName'' vs = PathValue r ''tableName''" "get_string ''OperationType'' vs = QueryGet r ''operation''"
  using assms
  by (auto simp: put_fields_def get_string_def assignPathOrQueryField_def Let_def split: if_splits sum.splits option.splits)

lemma bulk_del_fields_decoded:
  assumes "DecodeParams r bulk_del_fields = Inr vs"
  shows "get_string ''TableName'' vs = PathValue r ''tableName''"
  using assms
  by (auto simp: bulk_del_fields_def get_string_def assignPathOrQueryField_def Let_def split: if_splits sum.splits option.splits)

lemma operation_lock: "operation_of s = OptimisticLock \<longleftrightarrow> s = ''optimistic_lock''"
  by (simp add: operation_of_def)

lemma put_Validate_keeps:
  "put_Validate p = Inr q \<Longrightarrow> ppTableName q = ppTableName p \<and> (ppOperationType q = OptimisticLock \<longleftrightarrow> ppOperationType p = OptimisticLock)"
  by (auto simp: put_Validate_def Let_def split: if_splits)

lemma db_exec_simps:
  "db_exec g \<lparr>Cmd = SetCmd, TableName = t, cItem = it, cItems = its, MinAcks = m\<rparr> = ad_Set g t it"
  "db_exec g \<lparr>Cmd = OptimisticSetCmd, TableName = t, cItem = it, cItems = its, MinAcks = m\<rparr> = ad_Set g t it"
  "db_exec g \<lparr>Cmd = BulkPutCmd, TableName = t, cItem = it, cItems = its, MinAcks = m\<rparr> = ad_BulkSet g t its"
  "db_exec g \<lparr>Cmd = BulkDelCmd, TableName = t, cItem = it, cItems = its, MinAcks = m\<rparr> = ad_BulkDel g t (DelItems its)"
  "db_exec g \<lparr>Cmd = DeleteCmd, TableName = t, cItem = it, cItems = its, MinAcks = m\<rparr> = ad_Delete g t (DelItem it)"
  "db_exec g \<lparr>Cmd = OptimisticDelCmd, TableName = t, cItem = it, cItems = its, MinAcks = m\<rparr> = ad_Delete g t (DelItem it)"
  "db_exec g \<lparr>Cmd = CreateTableCmd, TableName = t, cItem = it, cItems = its, MinAcks = m\<rparr> = ad_CreateTable g t"
  by (simp_all add: db_exec_def fun_eq_iff)

lemma failed_status: "300 \<le> statusCode (failed err)"
  using getStatusCode_range [of err] by auto

lemma PutHandler_write:
  assumes "PutHandler g mw r b sv = (resp, sv')" and "statusCode resp < 300"
  shows "\<exists>d. accepted g mw d sv sv' \<and> carries (WPut r b) d"
proof -
  obtain vs p it where d: "DecodeParams r put_fields = Inr vs" "put_Validate (put_params_of vs) = Inr p" "b = Inr it" "item_Validate it = None"
    using assms by (auto simp: PutHandler_def Let_def split: sum.splits option.splits)
  note n = put_fields_decoded [OF d(1)] put_Validate_keeps [OF d(2)]
  have lock: "ppOperationType p = OptimisticLock \<longleftrightarrow> lock_asked r"
    using n by (simp add: put_params_of_def operation_lock lock_asked_def)
  have t: "ppTableName p = PathValue r ''tableName''" using n by (simp add: put_params_of_def)
  define it' where "it' = (if lock_asked r then it else it\<lparr>itVersion := None\<rparr>)"
  define c where "c = \<lparr>Cmd = if lock_asked r then OptimisticSetCmd else SetCmd, TableName = ppTableName p, cItem = it', cItems = [],
      MinAcks = HTTPDefaultRaftMinAcks (svNode sv) (ppRaftMinAcks p)\<rparr>"
  have "db_exec g c = ad_Set g (ppTableName p) it'" by (simp add: c_def db_exec_simps)
  then have "leader_write mw (db_exec g c) failed c (NewResponse [StatusCode 200]) sv = (resp, sv')"
    using assms(1) d lock by (simp add: PutHandler_def c_def it'_def Let_def)
  from leader_write_ok [OF this assms(2) failed_status] have "accepted g mw c sv sv'" by (simp add: c_def)
  moreover have "carries (WPut r b) c" using d(3) t by (simp add: c_def it'_def)
  ultimately show ?thesis by blast
qed

lemma BulkPutHandle_write:
  assumes "BulkPutHandle g mw r b sv = (resp, sv')" and "statusCode resp < 300"
  shows "\<exists>d. accepted g mw d sv sv' \<and> carries (WBulkPut r b) d"
proof -
  obtain vs p its where d: "DecodeParams r put_fields = Inr vs" "put_Validate (put_params_of vs) = Inr p" "b = Inr its" "items_Validate its = None"
    using assms by (auto simp: BulkPutHandle_def Let_def split: sum.splits option.splits)
  have t: "ppTableName p = PathValue r ''tableName''"
    using put_fields_decoded [OF d(1)] put_Validate_keeps [OF d(2)] by (simp add: put_params_of_def)
  define c where "c = \<lparr>Cmd = BulkPutCmd, TableName = ppTableName p, cItem = zero_item, cItems = its,
      MinAcks = HTTPDefaultRaftMinAcks (svNode sv) (ppRaftMinAcks p)\<rparr>"
  have "leader_write mw (db_exec g c) failed c (NewResponse [StatusCode 200]) sv = (resp, sv')"
    using assms(1) d by (simp add: BulkPutHandle_def c_def db_exec_simps)
  from leader_write_ok [OF this assms(2) failed_status] have "accepted g mw c sv sv'" by (simp add: c_def)
  moreover have "carries (WBulkPut r b) c" using d(3) t by (simp add: c_def)
  ultimately show ?thesis by blast
qed

lemma DeleteHandler_write:
  assumes "DeleteHandler g mw r b sv = (resp, sv')" and "statusCode resp < 300"
  shows "\<exists>d. accepted g mw d sv sv' \<and> carries (WDel r b) d"
proof -
  obtain vs it where d: "DecodeParams r put_fields = Inr vs" "delete_params_Validate (delete_params_of vs) = None" "b = Inr it"
      "delete_Validate (dpOperationType (delete_params_of vs)) it = None"
    using assms by (auto simp: DeleteHandler_def Let_def split: sum.splits option.splits)
  note n = put_fields_decoded [OF d(1)]
  have lock: "dpOperationType (delete_params_of vs) = OptimisticLock \<longleftrightarrow> lock_asked r"
    using n by (simp add: delete_params_of_def operation_lock lock_asked_def)
  have t: "dpTableName (delete_params_of vs) = PathValue r ''tableName''" using n by (simp add: delete_params_of_def)
  define c where "c = \<lparr>Cmd = if lock_asked r then OptimisticDelCmd else DeleteCmd, TableName = dpTableName (delete_params_of vs), cItem = del_Item it,
      cItems = [], MinAcks = HTTPDefaultRaftMinAcks (svNode sv) (dpRaftMinAcks (delete_params_of vs))\<rparr>"
  have "db_exec g c = ad_Delete g (dpTableName (delete_params_of vs)) it" by (simp add: c_def db_exec_simps)
  then have "leader_write mw (db_exec g c) failed c (NewResponse [StatusCode 204]) sv = (resp, sv')"
    using assms(1) d lock by (simp add: DeleteHandler_def c_def Let_def)
  from leader_write_ok [OF this assms(2) failed_status] have "accepted g mw c sv sv'" by (simp add: c_def)
  moreover have "carries (WDel r b) c" using d(3) t by (simp add: c_def)
  ultimately show ?thesis by blast
qed

lemma BulkDelHandle_write:
  assumes "BulkDelHandle g mw r b sv = (resp, sv')" and "statusCode resp < 300"
  shows "\<exists>d. accepted g mw d sv sv' \<and> carries (WBulkDel r b) d"
proof -
  obtain vs its where d: "DecodeParams r bulk_del_fields = Inr vs" "bulk_del_Validate (get_string ''TableName'' vs) (get_int ''RaftMinAcks'' vs) = None"
      "b = Inr its" "deletes_Validate its = None"
    using assms by (auto simp: BulkDelHandle_def Let_def split: sum.splits option.splits)
  define c where "c = \<lparr>Cmd = BulkDelCmd, TableName = get_string ''TableName'' vs, cItem = zero_item, cItems = del_Items its,
      MinAcks = HTTPDefaultRaftMinAcks (svNode sv) (get_int ''RaftMinAcks'' vs)\<rparr>"
  have "leader_write mw (db_exec g c) failed c (NewResponse [StatusCode 204]) sv = (resp, sv')"
    using assms(1) d by (simp add: BulkDelHandle_def c_def db_exec_simps Let_def)
  from leader_write_ok [OF this assms(2) failed_status] have "accepted g mw c sv sv'" by (simp add: c_def)
  moreover have "carries (WBulkDel r b) c" using d(3) bulk_del_fields_decoded [OF d(1)] by (simp add: c_def)
  ultimately show ?thesis by blast
qed

lemma CreateTableHandler_write:
  assumes "CreateTableHandler g mw b sv = (resp, sv')" and "statusCode resp < 300"
  shows "\<exists>d. accepted g mw d sv sv' \<and> carries (WCreate b) d"
proof -
  obtain i where d: "b = Inr i" using assms by (auto simp: CreateTableHandler_def split: sum.splits)
  define c where "c = \<lparr>Cmd = CreateTableCmd, TableName = ciTableName i, cItem = zero_item, cItems = [],
      MinAcks = HTTPDefaultRaftMinAcks (svNode sv) (ciRaftMinAcks i)\<rparr>"
  have "leader_write mw (db_exec g c) (\<lambda>err. NewResponse [StatusCode 500, RespErr (Some err)]) c
      (NewResponse [StatusCode 201, Body (BodyTable (ciTableName i))]) sv = (resp, sv')"
    using assms(1) d by (simp add: CreateTableHandler_def c_def db_exec_simps)
  from leader_write_ok [OF this assms(2)] have "accepted g mw c sv sv'" by (simp add: c_def)
  moreover have "carries (WCreate b) c" using d by (cases i) (simp add: c_def)
  ultimately show ?thesis by blast
qed

lemma api_exec_write:
  assumes "api_exec g mw w sv = (resp, sv')" and "statusCode resp < 300"
  shows "\<exists>d. accepted g mw d sv sv' \<and> carries w d"
  using assms PutHandler_write BulkPutHandle_write DeleteHandler_write BulkDelHandle_write CreateTableHandler_write
  by (cases w) (simp_all del: carries.simps)

section \<open>Runs\<close>

text \<open>A client at a leader sends one request after another; what each was answered and the entry then at the end of the log.\<close>

definition keeps_db :: "('x server \<Rightarrow> 'x server) \<Rightarrow> bool" where
  "keeps_db mw \<longleftrightarrow> (\<forall>sv. svDb (mw sv) = svDb sv)"

fun leader_run ::
  "'x adapter_cfg \<Rightarrow> (('x server \<Rightarrow> 'x server) \<times> api_write) list \<Rightarrow> 'x server \<Rightarrow> (response \<times> log_entry) list \<times> 'x server"
where
  "leader_run g [] sv = ([], sv)"
| "leader_run g ((mw, w) # ws) sv =
     (case api_exec g mw w sv of (resp, sv1) \<Rightarrow>
      case leader_run g ws sv1 of (rs, sv2) \<Rightarrow> ((resp, last (nLog (svNode sv1))) # rs, sv2))"

text \<open>A follower applies entries in order, as \<^verbatim>\<open>RunAppliedLoop\<close> does; its node may have moved on between two of them.\<close>

fun follower_run :: "'x adapter_cfg \<Rightarrow> (raft_node \<times> log_entry) list \<Rightarrow> 'x adapter \<Rightarrow> goerr option \<times> 'x adapter" where
  "follower_run g [] a = (None, a)"
| "follower_run g ((n, e) # nes) a =
     (case GrpcHandle g n e a of (Some err, a) \<Rightarrow> (Some err, a) | (None, a) \<Rightarrow> follower_run g nes a)"

section \<open>Effects\<close>

text \<open>What a command does to the contents of a store.\<close>

definition entry_effect :: "(entity \<Rightarrow> entity) \<Rightarrow> cmd_data \<Rightarrow> contents \<Rightarrow> contents" where
  "entry_effect nf d =
     (case Cmd d of
        SetCmd \<Rightarrow> upd (TableName d) (itKey (cItem d)) (Some (nf (item_Entity (cItem d))))
      | OptimisticSetCmd \<Rightarrow> upd (TableName d) (itKey (cItem d)) (Some (nf (item_Entity (cItem d))))
      | BulkPutCmd \<Rightarrow> fold (\<lambda>e. upd (TableName d) (iKey e) (Some (nf e))) (items_Entities (cItems d))
      | BulkDelCmd \<Rightarrow> fold (\<lambda>k. upd (TableName d) k None) (map itKey (cItems d))
      | DeleteCmd \<Rightarrow> upd (TableName d) (itKey (cItem d)) None
      | OptimisticDelCmd \<Rightarrow> upd (TableName d) (itKey (cItem d)) None
      | _ \<Rightarrow> id)"

definition cmd_ok :: "(string \<Rightarrow> bool) \<Rightarrow> (entity \<Rightarrow> bool) \<Rightarrow> string set \<Rightarrow> cmd_data \<Rightarrow> bool" where
  "cmd_ok okname okent T d \<longleftrightarrow>
     (case Cmd d of
        CreateTableCmd \<Rightarrow> okname (TableName d)
      | SetCmd \<Rightarrow> TableName d \<in> T \<and> okent (item_Entity (cItem d))
      | OptimisticSetCmd \<Rightarrow> TableName d \<in> T \<and> okent (item_Entity (cItem d))
      | BulkPutCmd \<Rightarrow> TableName d \<in> T \<and> (\<forall>e \<in> set (items_Entities (cItems d)). okent e)
      | BulkDelCmd \<Rightarrow> TableName d \<in> T \<and> (\<forall>it \<in> set (cItems d). okname (itKey it))
      | DeleteCmd \<Rightarrow> TableName d \<in> T \<and> okname (itKey (cItem d))
      | OptimisticDelCmd \<Rightarrow> TableName d \<in> T \<and> okname (itKey (cItem d))
      | _ \<Rightarrow> True)"

definition cmd_tables :: "cmd_data \<Rightarrow> string set \<Rightarrow> string set" where
  "cmd_tables d T = (if Cmd d = CreateTableCmd then insert (TableName d) T else T)"

fun cmds_ok :: "(string \<Rightarrow> bool) \<Rightarrow> (entity \<Rightarrow> bool) \<Rightarrow> string set \<Rightarrow> cmd_data list \<Rightarrow> bool" where
  "cmds_ok okname okent T [] \<longleftrightarrow> True"
| "cmds_ok okname okent T (d # ds) \<longleftrightarrow> cmd_ok okname okent T d \<and> cmds_ok okname okent (cmd_tables d T) ds"

lemma item_Entity_key: "iKey (item_Entity it) = itKey it"
  by (simp add: item_Entity_def Let_def split: option.splits)

lemma map_dKey_DelItems: "map dKey (DelItems its) = map itKey its"
  by (simp add: DelItems_def DelItem_def)

context adapter_store
begin

definition serves :: "string set \<Rightarrow> 's adapter \<Rightarrow> bool" where
  "serves T a \<longleftrightarrow> inv (aStore a) \<and> T \<subseteq> tabs (aStore a) \<and> auto_ckpt_off a \<and> cache_inv (aCache a)"

lemma serves_coherent: "serves T a \<Longrightarrow> mem.coherent (aCache a) (\<lambda>_ _. True)"
  by (simp add: serves_def mem.coherent_def)

lemma write_through_serves:
  assumes s: "serves T a" and t: "t \<in> T" and e: "okent e" and g: "cfgStore g = st" and w: "write_through msg g t e a = (None, a')"
  shows "serves T a' \<and> content (aStore a') = upd t (iKey e) (Some (norm e)) (content (aStore a))"
proof -
  have h: "inv (aStore a)" "t \<in> tabs (aStore a)" "auto_ckpt_off a" using s t by (auto simp: serves_def)
  show ?thesis
    using write_through_law [OF h serves_coherent [OF s] e g w, of "\<lambda>_ _ _. True"] s by (simp add: serves_def mem.coherent_def)
qed

lemma delete_through_serves:
  assumes s: "serves T a" and t: "t \<in> T" and k: "okname k" and g: "cfgStore g = st" and w: "delete_through m1 m2 g t k a = (None, a')"
  shows "serves T a' \<and> content (aStore a') = upd t k None (content (aStore a))"
proof -
  have h: "inv (aStore a)" "t \<in> tabs (aStore a)" "auto_ckpt_off a" using s t by (auto simp: serves_def)
  show ?thesis
    using delete_through_law [OF h serves_coherent [OF s] k g w, of "\<lambda>_ _ _. True"] s by (simp add: serves_def mem.coherent_def)
qed

lemma bulk_write_serves:
  assumes s: "serves T a" and t: "t \<in> T" and e: "\<forall>e \<in> set (items_Entities its). okent e" and g: "cfgStore g = st"
    and w: "bulk_write m1 m2 g t its a = (None, a')"
  shows "serves T a' \<and> content (aStore a') = fold (\<lambda>e. upd t (iKey e) (Some (norm e))) (items_Entities its) (content (aStore a))"
proof -
  have h: "inv (aStore a)" "t \<in> tabs (aStore a)" "auto_ckpt_off a" using s t by (auto simp: serves_def)
  obtain a1 where l: "log_call (wal_BulkSet (cfgCodec g) (cfgEnv g) t (items_Entities its)) a = (None, a1)"
    using w by (auto simp: bulk_write_def Let_def split: prod.splits option.splits)
  note fr = log_frames(3) [OF l h(3)]
  obtain s' where s': "stBulkSet st t (items_Entities its) (aStore a) = (None, s')" "inv s'" "tabs s' = tabs (aStore a)"
      "content s' = fold (\<lambda>e. upd t (iKey e) (Some (norm e))) (items_Entities its) (content (aStore a))"
    using bulk_set_law [OF h(1,2) e] by auto
  have "a' = a1\<lparr>aStore := s'\<rparr>" using w l fr s'(1) g by (simp add: bulk_write_def Let_def)
  then show ?thesis using s' fr s by (auto simp: serves_def auto_ckpt_off_def)
qed

lemma bulkDelLocked_serves:
  assumes s: "serves T a" and t: "t \<in> T" and k: "\<forall>d \<in> set ds. okname (dKey d)" and g: "cfgStore g = st"
    and w: "bulkDelLocked g t ds msg a = (None, a')"
  shows "serves T a' \<and> content (aStore a') = fold (\<lambda>k. upd t k None) (map dKey ds) (content (aStore a))"
proof -
  let ?ks = "map dKey ds"
  have h: "inv (aStore a)" "t \<in> tabs (aStore a)" "auto_ckpt_off a" using s t by (auto simp: serves_def)
  obtain a1 where l: "log_call (wal_BulkDelete (cfgEnv g) t ?ks) a = (None, a1)"
    using w by (auto simp: bulkDelLocked_def del_Keys_def Let_def split: prod.splits option.splits)
  note fr = log_frames(4) [OF l h(3)]
  obtain s' where s': "stBulkDel st t ?ks (aStore a) = (None, s')" "inv s'" "tabs s' = tabs (aStore a)"
      "content s' = fold (\<lambda>k. upd t k None) ?ks (content (aStore a))"
    using bulk_del_law [OF h(1,2), of ?ks] k by auto
  have a': "a' = a1\<lparr>aStore := s', aCache := fold (\<lambda>k. cache_Del (adapter_key k)) ?ks (aCache a1)\<rparr>"
    using w l fr s'(1) g by (simp add: bulkDelLocked_def del_Keys_def Let_def)
  have "mem.coherent (fold cache_Del (map adapter_key ?ks) (aCache a)) (\<lambda>_ _. True)"
    using serves_coherent [OF s] by (rule mem.evict_list_coherent) simp
  then have "cache_inv (fold (\<lambda>k. cache_Del (adapter_key k)) ?ks (aCache a1))"
    using fr by (simp add: mem.coherent_def fold_map comp_def)
  then show ?thesis using a' s' fr s by (auto simp: serves_def auto_ckpt_off_def)
qed

lemma ad_CreateTable_serves:
  assumes s: "serves T a" and t: "okname t" and g: "cfgStore g = st" and w: "ad_CreateTable g t a = (None, a')"
  shows "serves (insert t T) a' \<and> content (aStore a') = content (aStore a)"
proof -
  obtain s' where "create t (aStore a) = (None, s')" "inv s'" "tabs s' = insert t (tabs (aStore a))" "content s' = content (aStore a)"
    using create_law [of "aStore a" t] s t by (auto simp: serves_def)
  then show ?thesis using w g st_ops s by (auto simp: ad_CreateTable_def serves_def auto_ckpt_off_def)
qed

lemma db_exec_effect:
  assumes s: "serves T a" and c: "cmd_ok okname okent T d" and g: "cfgStore g = st" and w: "db_exec g d a = (None, a')"
  shows "serves (cmd_tables d T) a' \<and> content (aStore a') = entry_effect norm d (content (aStore a))"
proof (cases "Cmd d")
  case SetCmd
  then show ?thesis using write_through_serves [OF s _ _ g] c w ad_Set_unfold [of g "TableName d" "cItem d" a None a']
    by (auto simp: db_exec_def cmd_ok_def entry_effect_def cmd_tables_def item_Entity_key)
next
  case OptimisticSetCmd
  then show ?thesis using write_through_serves [OF s _ _ g] c w ad_Set_unfold [of g "TableName d" "cItem d" a None a']
    by (auto simp: db_exec_def cmd_ok_def entry_effect_def cmd_tables_def item_Entity_key)
next
  case DeleteCmd
  then show ?thesis using delete_through_serves [OF s _ _ g] c w ad_Delete_unfold [of g "TableName d" "DelItem (cItem d)" a None a']
    by (auto simp: db_exec_def cmd_ok_def entry_effect_def cmd_tables_def DelItem_def)
next
  case OptimisticDelCmd
  then show ?thesis using delete_through_serves [OF s _ _ g] c w ad_Delete_unfold [of g "TableName d" "DelItem (cItem d)" a None a']
    by (auto simp: db_exec_def cmd_ok_def entry_effect_def cmd_tables_def DelItem_def)
next
  case BulkPutCmd
  then show ?thesis using bulk_write_serves [OF s _ _ g] c w by (auto simp: db_exec_def cmd_ok_def entry_effect_def cmd_tables_def ad_BulkSet_def)
next
  case BulkDelCmd
  then show ?thesis using bulkDelLocked_serves [OF s _ _ g, of "TableName d" "DelItems (cItems d)"] c w
    by (auto simp: db_exec_def cmd_ok_def entry_effect_def cmd_tables_def ad_BulkDel_def map_dKey_DelItems) (auto simp: DelItems_def DelItem_def)
next
  case CreateTableCmd
  then show ?thesis using ad_CreateTable_serves [OF s _ g] c w by (auto simp: db_exec_def cmd_ok_def entry_effect_def cmd_tables_def)
qed (use s w in \<open>simp_all add: db_exec_def entry_effect_def cmd_tables_def\<close>)

lemma GrpcHandle_effect:
  assumes s: "serves T a" and c: "cmd_ok okname okent T (leData e)" and g: "cfgStore g = st" and f: "nState n = Follower"
    and w: "GrpcHandle g n e a = (None, a')"
  shows "serves (cmd_tables (leData e) T) a' \<and> content (aStore a') = entry_effect norm (leData e) (content (aStore a))"
proof -
  let ?d = "leData e"
  have st: "stRole (State n) = role_String Follower" using f by (simp add: State_def)
  show ?thesis
  proof (cases "Cmd ?d")
    case BulkDelCmd
    then show ?thesis using bulkDelLocked_serves [OF s _ _ g, of "TableName ?d" "DelItems (cItems ?d)"] c w st
      by (auto simp: GrpcHandle_def Let_def cmd_ok_def entry_effect_def cmd_tables_def ad_ApplyReplicatedBulkDelete_def map_dKey_DelItems) (auto simp: DelItems_def DelItem_def)
  next
    case CreateTableCmd
    then show ?thesis using ad_CreateTable_serves [OF s _ g] c w st by (auto simp: GrpcHandle_def Let_def cmd_ok_def entry_effect_def cmd_tables_def)
  qed (use s c w st write_through_serves [OF s _ _ g] delete_through_serves [OF s _ _ g] bulk_write_serves [OF s _ _ g] in
    \<open>auto simp: GrpcHandle_def Let_def cmd_ok_def entry_effect_def cmd_tables_def item_Entity_key ad_ApplyReplicated_def ad_ApplyReplicatedDelete_def
      ad_ApplyReplicatedBulk_def DelItem_def\<close>)
qed

lemma leader_run_effect:
  assumes "serves T (svDb sv)" and "leader_run g ws sv = (rs, sv')" and "\<forall>(resp, e) \<in> set rs. statusCode resp < 300"
    and "\<forall>(mw, w) \<in> set ws. keeps_db mw" and "cmds_ok okname okent T (map (leData \<circ> snd) rs)" and g: "cfgStore g = st"
  shows "content (aStore (svDb sv')) = fold (\<lambda>e. entry_effect norm (leData (snd e))) rs (content (aStore (svDb sv)))"
  using assms(1-5)
proof (induction ws arbitrary: T sv rs)
  case (Cons w ws)
  obtain mw q where w: "w = (mw, q)" by (cases w)
  obtain resp sv1 where x: "api_exec g mw q sv = (resp, sv1)" by (cases "api_exec g mw q sv")
  obtain rs' where r: "leader_run g ws sv1 = (rs', sv')" "rs = (resp, last (nLog (svNode sv1))) # rs'"
    using Cons.prems(2) w x by (auto split: prod.splits)
  obtain d where d: "accepted g mw d sv sv1" using api_exec_write [OF x] Cons.prems(3) r(2) by auto
  then have e: "leData (last (nLog (svNode sv1))) = d" by (auto simp: accepted_def)
  have "db_exec g d (svDb sv) = (None, svDb sv1)" using d Cons.prems(4) w by (auto simp: accepted_def keeps_db_def)
  from db_exec_effect [OF Cons.prems(1) _ g this] Cons.prems(5) r(2) e
  have "serves (cmd_tables d T) (svDb sv1)" "content (aStore (svDb sv1)) = entry_effect norm d (content (aStore (svDb sv)))"
    by simp_all
  with Cons.IH [OF this(1) r(1)] Cons.prems(3-5) r(2) e show ?case by simp
qed simp

lemma follower_run_effect:
  assumes "serves T a" and "follower_run g nes a = (None, a')" and "\<forall>(n, e) \<in> set nes. nState n = Follower"
    and "cmds_ok okname okent T (map (leData \<circ> snd) nes)" and g: "cfgStore g = st"
  shows "content (aStore a') = fold (\<lambda>e. entry_effect norm (leData (snd e))) nes (content (aStore a))"
  using assms(1-4)
proof (induction nes arbitrary: T a)
  case (Cons ne nes)
  obtain n e where ne: "ne = (n, e)" by (cases ne)
  obtain a1 where x: "GrpcHandle g n e a = (None, a1)" "follower_run g nes a1 = (None, a')"
    using Cons.prems(2) ne by (auto split: prod.splits option.splits)
  have "serves (cmd_tables (leData e) T) a1" "content (aStore a1) = entry_effect norm (leData e) (content (aStore a))"
    using GrpcHandle_effect [OF Cons.prems(1) _ g _ x(1)] Cons.prems(3,4) ne by simp_all
  with Cons.IH [OF this(1) x(2)] Cons.prems(3,4) ne show ?case by simp
qed simp

lemma replicas_agree:
  assumes l: "serves T (svDb sv)" "leader_run g ws sv = (rs, sv')" "\<forall>(resp, e) \<in> set rs. statusCode resp < 300"
      "\<forall>(mw, w) \<in> set ws. keeps_db mw" "cmds_ok okname okent T (map (leData \<circ> snd) rs)" "cfgStore g = st"
    and f: "serves T a" "follower_run g' nes a = (None, a')" "\<forall>(n, e) \<in> set nes. nState n = Follower" "cfgStore g' = st"
    and same: "map snd nes = map snd rs" "content (aStore a) = content (aStore (svDb sv))"
  shows "content (aStore a') = content (aStore (svDb sv'))"
proof -
  have ds: "map (leData \<circ> snd) nes = map (leData \<circ> snd) rs" using same(1) by (metis map_map)
  have fm: "fold (\<lambda>e. entry_effect norm (leData (snd e))) xs = fold (\<lambda>e. entry_effect norm (leData e)) (map snd xs)"
    for xs :: "('q \<times> log_entry) list" by (simp add: fold_map comp_def)
  show ?thesis
    using leader_run_effect [OF l] follower_run_effect [OF f(1-3) _ f(4)] l(5) ds same by (simp add: fm)
qed

end

end
