(* ===== verification/Replication_Properties.thy ===== *)
theory Replication_Properties
  imports Replication Raft_Properties
begin

text \<open>
  The properties of a replicated write, over the write batcher and the file store: what an accepted request did,
  that followers which apply the leader's entries reach the leader's contents, and the runs in which they do not.
\<close>

section \<open>Accepted and refused requests\<close>

text \<open>C17. A write request answered with a 2xx status was done and proposed: the node led, the command that carries the
  request's table, items and kind was executed on the store without an error, the node still led afterwards, and the
  command ends its log under the current term, with a number of acknowledgements between a majority and all the members.\<close>

theorem accepted_write_is_stored_and_proposed:
  assumes "api_exec g mw w sv = (resp, sv')" and "statusCode resp < 300"
  shows "\<exists>d db sv1. carries w d \<and> nState (svNode sv) = Leader \<and> db_exec g d (svDb sv) = (None, db)
    \<and> sv1 = mw (sv\<lparr>svDb := db\<rparr>) \<and> nState (svNode sv1) = Leader \<and> svDb sv' = svDb sv1
    \<and> svNode sv' = (svNode sv1)\<lparr>nLog := nLog (svNode sv1) @ [\<lparr>leTerm = currentTerm (svNode sv1), leData = d\<rparr>]\<rparr>
    \<and> majority (svNode sv1) \<le> MinAcks d \<and> MinAcks d \<le> FullClusterReplicationMinAcks (svNode sv1)"
proof -
  obtain d where d: "accepted g mw d sv sv'" "carries w d" using api_exec_write [OF assms] by blast
  have "majority n \<le> MinAcks d \<and> MinAcks d \<le> FullClusterReplicationMinAcks n" if "validateStrictRepMinAcks (MinAcks d) n = None" for n
    using that by (auto simp: validateStrictRepMinAcks_def FullClusterReplicationMinAcks_def Let_def split: if_splits)
  then show ?thesis using d unfolding accepted_def by blast
qed

lemma leader_write_refused:
  "nState (svNode sv) \<noteq> Leader \<Longrightarrow> \<exists>resp. leader_write mw op onErr cmd ok sv = (resp, sv) \<and> statusCode resp = 422"
  by (simp add: leader_write_def PermittedProposeCmd_def getStatusCode_def reject_cmd_def)

text \<open>Only a leader writes: on any other node each of the five write requests leaves the server as it was and is
  answered 400 where it is malformed and 422 otherwise.\<close>

theorem follower_refuses_writes:
  assumes "nState (svNode sv) \<noteq> Leader"
  shows "\<exists>resp. api_exec g mw w sv = (resp, sv) \<and> statusCode resp \<in> {400, 422}"
proof -
  note l = leader_write_refused [OF assms]
  have x: "\<exists>resp. leader_write mw op onErr cmd ok sv = (resp, sv) \<and> statusCode resp \<in> {400, 422}" for op onErr cmd ok
    using l by fastforce
  show ?thesis
  proof (cases w)
    case (WPut r b)
    then show ?thesis using x by (auto simp: PutHandler_def Let_def split: sum.splits option.splits)
  next
    case (WBulkPut r b)
    then show ?thesis using x by (auto simp: BulkPutHandle_def Let_def split: sum.splits option.splits)
  next
    case (WDel r b)
    then show ?thesis using x by (auto simp: DeleteHandler_def Let_def split: sum.splits option.splits)
  next
    case (WBulkDel r b)
    then show ?thesis using x by (auto simp: BulkDelHandle_def Let_def split: sum.splits option.splits)
  next
    case (WCreate b)
    then show ?thesis using x by (auto simp: CreateTableHandler_def split: sum.splits)
  qed
qed

section \<open>Convergence\<close>

text \<open>An adapter over the batcher and the file store that serves the tables \<open>T\<close>.\<close>

definition ready :: "(any \<Rightarrow> string) \<Rightarrow> string set \<Rightarrow> fsdb batcher adapter \<Rightarrow> bool" where
  "ready sprint T a \<longleftrightarrow> wb_inv sprint (aStore a) \<and> T \<subseteq> tables (inner (aStore a)) \<and> auto_ckpt_off a \<and> cache_inv (aCache a)"

lemma ready_serves: "ready sprint T a \<longleftrightarrow> ad.serves sprint T a"
  by (simp add: ready_def ad.serves_def)

lemma ad_fresh_ready: "ad_fresh sprint a \<Longrightarrow> T \<subseteq> tables (inner (aStore a)) \<Longrightarrow> ready sprint T a"
  by (simp add: ad_fresh_def ready_def)


section \<open>Divergence\<close>

text \<open>A plain put of a decodable item at a leader that stays leader.\<close>

definition plain_put :: "http_request \<Rightarrow> string \<Rightarrow> item \<Rightarrow> bool" where
  "plain_put r t it \<longleftrightarrow> PathValue r ''tableName'' = t \<and> t \<noteq> [] \<and> QueryGet r ''operation'' = [] \<and> item_Validate it = None"

definition unversioned :: "item \<Rightarrow> item" where
  "unversioned it = it\<lparr>itVersion := None\<rparr>"

definition put_cmd :: "string \<Rightarrow> item \<Rightarrow> int \<Rightarrow> cmd_data" where
  "put_cmd t it m = \<lparr>Cmd = SetCmd, TableName = t, cItem = it, cItems = [], MinAcks = m\<rparr>"

lemma put_cmd_simps [simp]:
  "Cmd (put_cmd t it m) = SetCmd" "TableName (put_cmd t it m) = t" "cItem (put_cmd t it m) = it" "MinAcks (put_cmd t it m) = m"
  by (simp_all add: put_cmd_def)

lemma plain_put_params:
  assumes "plain_put r t it" and "0 \<le> m"
    and "QueryGet r ''raft_min_acks'' = [] \<and> m = 0 \<or> QueryGet r ''raft_min_acks'' \<noteq> [] \<and> ParseInt 64 (QueryGet r ''raft_min_acks'') = Some m"
  shows "\<exists>vs. DecodeParams r put_fields = Inr vs
    \<and> put_Validate (put_params_of vs) = Inr \<lparr>ppTableName = t, ppOperationType = Normal, ppRaftMinAcks = m\<rparr>"
proof -
  let ?vs = "(''TableName'', PString t) # (if QueryGet r ''raft_min_acks'' = [] then [] else [(''RaftMinAcks'', PInt m)])"
  have "DecodeParams r put_fields = Inr ?vs"
    using assms by (auto simp: plain_put_def put_fields_def assignPathOrQueryField_def Let_def)
  moreover have "put_params_of ?vs = \<lparr>ppTableName = t, ppOperationType = OtherOperation [], ppRaftMinAcks = m\<rparr>"
    using assms by (auto simp: put_params_of_def get_string_def get_int_def operation_of_def)
  ultimately show ?thesis using assms(1,2) by (simp add: put_Validate_def plain_put_def)
qed

lemma plain_put_handler:
  assumes "plain_put r t it" and "0 \<le> m"
    and "QueryGet r ''raft_min_acks'' = [] \<and> m = 0 \<or> QueryGet r ''raft_min_acks'' \<noteq> [] \<and> ParseInt 64 (QueryGet r ''raft_min_acks'') = Some m"
  shows "PutHandler g mw r (Inr it) sv = leader_write mw (ad_Set g t (unversioned it)) failed
     (put_cmd t (unversioned it) (HTTPDefaultRaftMinAcks (svNode sv) m))
     (NewResponse [StatusCode 200]) sv"
  using plain_put_params [OF assms] assms(1) by (auto simp: PutHandler_def plain_put_def unversioned_def put_cmd_def Let_def)

lemma unversioned_set:
  assumes "ready sprint T a" and "t \<in> T" and "ok_entity sprint (item_Entity (unversioned it))" and "cfgStore g = wb_store sprint decode jl"
    and "ad_Set g t (unversioned it) a = (None, a')"
  shows "ready sprint T a'"
    and "wb_sel sprint (aStore a') t (itKey it) = Some (safe sprint (item_Entity (unversioned it)))"
proof -
  have k: "iKey (item_Entity (unversioned it)) = itKey it" by (simp add: item_Entity_key unversioned_def)
  have "write_through ''db: wal set'' g t (item_Entity (unversioned it)) a = (None, a')"
    using ad.ad_Set_unfold [OF assms(5)] by auto
  from ad.write_through_serves [OF assms(1) [unfolded ready_serves] assms(2,3,4) this]
  show "ready sprint T a'" "wb_sel sprint (aStore a') t (itKey it) = Some (safe sprint (item_Entity (unversioned it)))"
    by (simp_all add: ready_serves k upd_apply)
qed

text \<open>C31. A put that is refused is stored all the same: with a number of acknowledgements below the majority or above the
  number of members the leader answers 500 and proposes nothing, but its own store keeps the item, which no follower
  will ever get.\<close>

theorem refused_put_is_stored:
  assumes r: "plain_put r t it" "QueryGet r ''raft_min_acks'' \<noteq> []" "ParseInt 64 (QueryGet r ''raft_min_acks'') = Some m" "0 < m"
    and m: "m < majority (svNode sv) \<or> FullClusterReplicationMinAcks (svNode sv) < m"
    and sv: "nState (svNode sv) = Leader" "ready sprint T (svDb sv)" "t \<in> T" "cfgStore g = wb_store sprint decode jl"
    and it: "ok_entity sprint (item_Entity (unversioned it))" "ad_Set g t (unversioned it) (svDb sv) = (None, db)"
  shows "\<exists>resp sv'. PutHandler g (\<lambda>s. s) r (Inr it) sv = (resp, sv') \<and> statusCode resp = 500 \<and> svNode sv' = svNode sv
    \<and> wb_sel sprint (aStore (svDb sv')) t (itKey it) = Some (safe sprint (item_Entity (unversioned it)))"
proof -
  have "validateStrictRepMinAcks m (svNode sv) = Some (ErrMsg ''raft: min_acks out of safe range'')"
    using m by (auto simp: validateStrictRepMinAcks_def FullClusterReplicationMinAcks_def Let_def)
  then have "PutHandler g (\<lambda>s. s) r (Inr it) sv =
      (refused \<lparr>epErr = ErrMsg ''raft: min_acks out of safe range'', epState = role_String Leader, epLeader = leaderID (svNode sv)\<rparr>,
       sv\<lparr>svDb := db\<rparr>)"
    using plain_put_handler [OF r(1), of m g "\<lambda>s. s" sv] r(2-4) sv(1) it(2)
    by (simp add: leader_write_def PermittedProposeCmd_def ProposeCommand_def HTTPDefaultRaftMinAcks_def Let_def)
  then show ?thesis using unversioned_set(2) [OF sv(2,3) it(1) sv(4) it(2)] by (simp add: getStatusCode_def)
qed

text \<open>A request that runs from beginning to end while another one is between its write and its proposal.\<close>

definition meanwhile :: "'x adapter_cfg \<Rightarrow> api_write \<Rightarrow> 'x server \<Rightarrow> 'x server" where
  "meanwhile g w sv = snd (api_exec g (\<lambda>s. s) w sv)"

lemma plain_put_accepted:
  assumes r: "plain_put r t it" "QueryGet r ''raft_min_acks'' = []" and sv: "nState (svNode sv) = Leader" "nState (svNode (mw (sv\<lparr>svDb := db\<rparr>))) = Leader"
      "nPeers (svNode (mw (sv\<lparr>svDb := db\<rparr>))) = nPeers (svNode sv)"
    and it: "ad_Set g t (unversioned it) (svDb sv) = (None, db)"
  shows "\<exists>e sv1. sv1 = mw (sv\<lparr>svDb := db\<rparr>) \<and> leData e = put_cmd t (unversioned it) (FullClusterReplicationMinAcks (svNode sv))
     \<and> PutHandler g mw r (Inr it) sv = (NewResponse [StatusCode 200], sv1\<lparr>svNode := (svNode sv1)\<lparr>nLog := nLog (svNode sv1) @ [e]\<rparr>\<rparr>)"
proof -
  let ?n = "svNode (mw (sv\<lparr>svDb := db\<rparr>))"
  let ?d = "put_cmd t (unversioned it) (FullClusterReplicationMinAcks (svNode sv))"
  have v: "validateStrictRepMinAcks (FullClusterReplicationMinAcks (svNode sv)) ?n = None"
    using sv(3) by (simp add: validateStrictRepMinAcks_def FullClusterReplicationMinAcks_def majority_def Let_def)
  have "PutHandler g mw r (Inr it) sv = leader_write mw (ad_Set g t (unversioned it)) failed ?d (NewResponse [StatusCode 200]) sv"
    using plain_put_handler [OF r(1), of 0] r(2) by (simp add: HTTPDefaultRaftMinAcks_def)
  then show ?thesis using v sv(1,2) it
    by (intro exI [of _ "\<lparr>leTerm = currentTerm ?n, leData = ?d\<rparr>"])
      (simp add: leader_write_def PermittedProposeCmd_def ProposeCommand_def Let_def)
qed

text \<open>C30. Concurrent puts can leave the replicas apart for good: no lock spans a put's write and its proposal, so a second
  put of the same key may run as a whole in between.  Both are answered 200; the leader keeps the second item, while the
  log has the second put before the first and a follower that applies it keeps the first item.\<close>

theorem concurrent_puts_diverge:
  assumes r: "plain_put r t a" "plain_put r' t b" "QueryGet r ''raft_min_acks'' = []" "QueryGet r' ''raft_min_acks'' = []"
      "itKey a = k" "itKey b = k" "ok_entity sprint (item_Entity (unversioned a))" "ok_entity sprint (item_Entity (unversioned b))"
    and sv: "nState (svNode sv) = Leader" "ready sprint T (svDb sv)" "t \<in> T" "cfgStore g = wb_store sprint decode jl"
      "ad_Set g t (unversioned a) (svDb sv) = (None, db1)" "ad_Set g t (unversioned b) db1 = (None, db2)"
    and f: "ready sprint T x" "nState n = Follower" "cfgStore g' = wb_store sprint decode jl"
  shows "\<exists>sv' e1 e2. PutHandler g (meanwhile g (WPut r' (Inr b))) r (Inr a) sv = (NewResponse [StatusCode 200], sv')
    \<and> fst (PutHandler g (\<lambda>s. s) r' (Inr b) (sv\<lparr>svDb := db1\<rparr>)) = NewResponse [StatusCode 200]
    \<and> nLog (svNode sv') = nLog (svNode sv) @ [e1, e2]
    \<and> leData e1 = put_cmd t (unversioned b) (FullClusterReplicationMinAcks (svNode sv))
    \<and> leData e2 = put_cmd t (unversioned a) (FullClusterReplicationMinAcks (svNode sv))
    \<and> wb_sel sprint (aStore (svDb sv')) t k = Some (safe sprint (item_Entity (unversioned b)))
    \<and> (\<forall>x'. follower_run g' [(n, e1), (n, e2)] x = (None, x')
         \<longrightarrow> wb_sel sprint (aStore x') t k = Some (safe sprint (item_Entity (unversioned a))))"
proof -
  let ?mw = "meanwhile g (WPut r' (Inr b))" and ?s1 = "sv\<lparr>svDb := db1\<rparr>"
  obtain e1 where e1: "leData e1 = put_cmd t (unversioned b) (FullClusterReplicationMinAcks (svNode ?s1))"
      "PutHandler g (\<lambda>s. s) r' (Inr b) ?s1 = (NewResponse [StatusCode 200], (?s1\<lparr>svDb := db2\<rparr>)\<lparr>svNode := (svNode sv)\<lparr>nLog := nLog (svNode sv) @ [e1]\<rparr>\<rparr>)"
    using plain_put_accepted [OF r(2,4), of ?s1 "\<lambda>s. s" db2 g] sv by auto
  have m: "?mw ?s1 = \<lparr>svDb = db2, svNode = (svNode sv)\<lparr>nLog := nLog (svNode sv) @ [e1]\<rparr>\<rparr>"
    using e1(2) by (simp add: meanwhile_def)
  obtain e2 where e2: "leData e2 = put_cmd t (unversioned a) (FullClusterReplicationMinAcks (svNode sv))"
      "PutHandler g ?mw r (Inr a) sv = (NewResponse [StatusCode 200], \<lparr>svDb = db2, svNode = (svNode sv)\<lparr>nLog := nLog (svNode sv) @ [e1, e2]\<rparr>\<rparr>)"
    using plain_put_accepted [OF r(1,3), of sv ?mw db1 g] sv m by auto
  have l: "wb_sel sprint (aStore db2) t k = Some (safe sprint (item_Entity (unversioned b)))"
    using unversioned_set(2) [OF unversioned_set(1) [OF sv(2,3) r(7) sv(4,5)] sv(3) r(8) sv(4,6)] r(6) by simp
  have "wb_sel sprint (aStore x') t k = Some (safe sprint (item_Entity (unversioned a)))"
    if h: "follower_run g' [(n, e1), (n, e2)] x = (None, x')" for x'
  proof -
    have ok: "cmds_ok simple (ok_entity sprint) T (map (leData \<circ> snd) [(n, e1), (n, e2)])"
      using e1(1) e2(1) r(7,8) sv(3) by (simp add: cmd_ok_def cmd_tables_def)
    show ?thesis
      using ad.follower_run_effect [OF f(1) [unfolded ready_serves] h _ ok f(3)] f(2) e1(1) e2(1) r(5)
      by (simp add: entry_effect_def upd_apply unversioned_def)
  qed
  then show ?thesis using e1 e2 l by auto
qed

text \<open>A committed entry that is delivered while the node is not a follower never reaches its store: the handler
  returns without an error and the entry is persisted as applied.  A node that received an entry as a follower and
  became leader, or a candidate, before its delivery is left without it.\<close>

theorem entry_delivered_off_follower_is_lost:
  assumes "nState n \<noteq> Follower" and "applied_loop c (GrpcHandle g n) es s a = (None, s', a')"
  shows "a' = a \<and> raft_run c (map RecEntry es) s = (None, s')"
proof -
  have r: "role_String (nState n) \<noteq> role_String Follower" using assms(1) by (cases "nState n") simp_all
  have "a' = a" using assms(2)
  proof (induction es arbitrary: s)
    case (Cons e es)
    then show ?case using r by (auto simp: GrpcHandle_def State_def Let_def split: prod.splits option.splits)
  qed simp
  then show ?thesis using applied_loop_run [OF assms(2)] by simp
qed

section \<open>Witnesses\<close>

definition demo_req :: "string \<Rightarrow> http_request" where
  "demo_req acks = \<lparr>PathValue = (\<lambda>p. if p = ''tableName'' then ''t'' else []), QueryGet = (\<lambda>q. if q = ''raft_min_acks'' then acks else [])\<rparr>"

definition demo_server :: "fsdb \<Rightarrow> fsdb batcher server" where
  "demo_server d = \<lparr>svDb = demo_ad d demo_deferred, svNode = demoA Leader\<rparr>"

definition demo_two :: item where
  "demo_two = (demo_item ''a'' None)\<lparr>itSK := ''s''\<rparr>"

lemma demo_node [simp]: "nState (demoA r) = r" "majority (demoA r) = 2" "FullClusterReplicationMinAcks (demoA r) = 3"
  by (simp_all add: demoA_def NewNode_def majority_def FullClusterReplicationMinAcks_def)

lemma demo_server_simps [simp]: "svDb (demo_server d) = demo_ad d demo_deferred" "svNode (demo_server d) = demoA Leader"
  by (simp_all add: demo_server_def)

lemma demo_put [simp]: "plain_put (demo_req acks) ''t'' (demo_item ''a'' None)" "plain_put (demo_req acks) ''t'' demo_two"
  by (simp_all add: plain_put_def demo_req_def demo_item_def demo_two_def item_Validate_def field_build_def)

lemma demo_acks [simp]: "QueryGet (demo_req acks) ''raft_min_acks'' = acks"
  by (simp add: demo_req_def)

lemma demo_two_Entity: "item_Entity demo_two = \<lparr>iKey = ''a'', iSK = ''s'', iValue = VMapS [(''v'', VNil)], iVersion = []\<rparr>"
  by (simp add: demo_two_def demo_item_def item_Entity_def)

lemma demo_unversioned [simp]: "unversioned (demo_item k None) = demo_item k None" "unversioned demo_two = demo_two"
  by (simp_all add: unversioned_def demo_item_def demo_two_def)

text \<open>With a sound disk every write of such an item goes through.\<close>

lemma demo_write:
  assumes "ready (\<lambda>_. []) {''t''} a" and "aLog a = Some w" and "quiet w" and "it \<in> {demo_item ''a'' None, demo_two}"
  shows "\<exists>a' w'. write_through msg demo_cfg ''t'' (item_Entity it) a = (None, a') \<and> ready (\<lambda>_. []) {''t''} a' \<and> aLog a' = Some w' \<and> quiet w'"
proof -
  have i: "wb_inv (\<lambda>_. []) (aStore a)" "''t'' \<in> tables (inner (aStore a))" using assms(1) by (simp_all add: ready_def)
  have e: "ok_entity (\<lambda>_. []) (item_Entity it)" "iKey (item_Entity it) = ''a''"
    using assms(4) by (auto simp: demo_item_Entity demo_two_Entity ok_entity_def)
  have v: "valid_entry (set_entry n ''t'' (item_Entity it) (bytes_of_string ''a''))" for n
    using assms(4) by (intro set_entry_valid) (auto simp: demo_item_Entity demo_two_Entity)
  have c: "Encode item_codec (item_Entity it) = Inr (bytes_of_string ''a'')" using e by (simp add: item_codec_def)
  obtain w' where w': "quiet w'" "\<And>x. wal_Set item_codec (cfgEnv demo_cfg) ''t'' (item_Entity it) w x = (None, w', x)"
    using wal_Set_quiet [OF assms(3) c v, of "cfgEnv demo_cfg"] by blast
  obtain a' where a': "write_through msg demo_cfg ''t'' (item_Entity it) a = (None, a')" "aLog a' = Some w'"
    using ad.write_through_succeeds [OF i e(1) demo_cfg_simps(1) assms(2), of w' msg] w'(2) by auto
  then show ?thesis
    using w'(1) ad.write_through_serves [OF assms(1) [unfolded ready_serves] _ e(1) demo_cfg_simps(1) a'(1)] by (auto simp: ready_serves)
qed

lemma demo_ad_Set:
  assumes "ready (\<lambda>_. []) {''t''} a" and "aLog a = Some w" and "quiet w" and "it \<in> {demo_item ''a'' None, demo_two}"
  shows "\<exists>a' w'. ad_Set demo_cfg ''t'' it a = (None, a') \<and> ready (\<lambda>_. []) {''t''} a' \<and> aLog a' = Some w' \<and> quiet w'"
proof -
  have "validateConsistency demo_cfg ''t'' it (aStore a) = None"
    using assms(4) by (auto simp: validateConsistency_def demo_item_def demo_two_def)
  then show ?thesis using demo_write [OF assms, of "''db: wal set''"] by (simp add: ad_Set_def Let_def)
qed

lemma demo_follower [simp]: "nState demoB = Follower"
  by (simp add: demoB_def NewNode_def)

lemma demo_applied:
  assumes "ready (\<lambda>_. []) {''t''} a" and "aLog a = Some w" and "quiet w" and "it \<in> {demo_item ''a'' None, demo_two}"
    and "leData e = put_cmd ''t'' it m"
  shows "\<exists>a' w'. GrpcHandle demo_cfg demoB e a = (None, a') \<and> ready (\<lambda>_. []) {''t''} a' \<and> aLog a' = Some w' \<and> quiet w'"
  using demo_write [OF assms(1-4), of "''db: wal set (replicated)''"] assms(5)
  by (simp add: GrpcHandle_def State_def ad_ApplyReplicated_def)

lemma demo_ready:
  obtains d where "CreateTable ''t'' (empty_db [''data'']) = (None, d)" "ready (\<lambda>_. []) {''t''} (demo_ad d demo_deferred)"
    "aLog (demo_ad d demo_deferred) = Some (demo_wal demo_opts [] [])"
proof -
  obtain d where d: "CreateTable ''t'' (empty_db [''data'']) = (None, d)" "''t'' \<in> tables d" "db_inv d"
      "\<And>t k. sel d t k = None" "\<And>bo. ad_fresh (\<lambda>_. []) (demo_ad d bo)" by (rule demo_ad_fresh) (rule that)
  show thesis by (rule that [OF d(1) ad_fresh_ready [OF d(5)]]) (use d(2) in \<open>simp_all add: demo_ad_def NewWriteBatcher_def\<close>)
qed

text \<open>A put accepted by the leader of the demonstration cluster, and its entry.\<close>

lemma demo_accepted:
  assumes "ad_Set demo_cfg ''t'' (demo_item ''a'' None) (demo_ad d demo_deferred) = (None, a1)"
  shows "\<exists>e sv'. leData e = put_cmd ''t'' (demo_item ''a'' None) 3
    \<and> PutHandler demo_cfg (\<lambda>s. s) (demo_req []) (Inr (demo_item ''a'' None)) (demo_server d) = (NewResponse [StatusCode 200], sv')
    \<and> svDb sv' = a1 \<and> nLog (svNode sv') = [e]"
proof -
  have "nLog (demoA Leader) = []" by (simp add: demoA_def NewNode_def)
  then show ?thesis
    using plain_put_accepted [OF demo_put(1), of "[]" "demo_server d" "\<lambda>s. s" a1 demo_cfg] assms by fastforce
qed

theorem accepted_write_is_stored_and_proposed_witness:
  "\<exists>d a1 d' sv'. CreateTable ''t'' (empty_db [''data'']) = (None, d)
     \<and> ad_Set demo_cfg ''t'' (demo_item ''a'' None) (demo_ad d demo_deferred) = (None, a1)
     \<and> api_exec demo_cfg (\<lambda>s. s) (WPut (demo_req []) (Inr (demo_item ''a'' None))) (demo_server d) = (NewResponse [StatusCode 200], sv')
     \<and> carries (WPut (demo_req []) (Inr (demo_item ''a'' None))) d' \<and> db_exec demo_cfg d' (demo_ad d demo_deferred) = (None, a1)
     \<and> 2 \<le> MinAcks d' \<and> MinAcks d' \<le> 3"
proof -
  obtain d where d: "CreateTable ''t'' (empty_db [''data'']) = (None, d)" "ready (\<lambda>_. []) {''t''} (demo_ad d demo_deferred)"
    "aLog (demo_ad d demo_deferred) = Some (demo_wal demo_opts [] [])" by (rule demo_ready)
  obtain a1 where a1: "ad_Set demo_cfg ''t'' (demo_item ''a'' None) (demo_ad d demo_deferred) = (None, a1)"
    using demo_ad_Set [OF d(2,3) demo_quiet] by blast
  obtain e sv' where "PutHandler demo_cfg (\<lambda>s. s) (demo_req []) (Inr (demo_item ''a'' None)) (demo_server d) = (NewResponse [StatusCode 200], sv')"
      "svDb sv' = a1" using demo_accepted [OF a1] by blast
  then have x: "api_exec demo_cfg (\<lambda>s. s) (WPut (demo_req []) (Inr (demo_item ''a'' None))) (demo_server d) = (NewResponse [StatusCode 200], sv')"
    and "svDb sv' = a1" by simp_all
  then show ?thesis using accepted_write_is_stored_and_proposed [OF x] d(1) a1
    by (clarsimp simp del: carries.simps api_exec.simps) blast
qed

theorem follower_refuses_writes_witness:
  "\<exists>resp. api_exec demo_cfg (\<lambda>s. s) (WPut (demo_req []) (Inr (demo_item ''a'' None))) (demo_server (empty_db [])\<lparr>svNode := demoB\<rparr>)
     = (resp, demo_server (empty_db [])\<lparr>svNode := demoB\<rparr>) \<and> statusCode resp \<in> {400, 422}"
  by (rule follower_refuses_writes) simp


theorem refused_put_is_stored_witness:
  "\<exists>d resp sv'. CreateTable ''t'' (empty_db [''data'']) = (None, d)
     \<and> PutHandler demo_cfg (\<lambda>s. s) (demo_req ''1'') (Inr (demo_item ''a'' None)) (demo_server d) = (resp, sv') \<and> statusCode resp = 500
     \<and> svNode sv' = demoA Leader \<and> wb_sel (\<lambda>_. []) (aStore (svDb sv')) ''t'' ''a'' = Some (safe (\<lambda>_. []) (item_Entity (demo_item ''a'' None)))"
proof -
  obtain d where d: "CreateTable ''t'' (empty_db [''data'']) = (None, d)" "ready (\<lambda>_. []) {''t''} (demo_ad d demo_deferred)"
    "aLog (demo_ad d demo_deferred) = Some (demo_wal demo_opts [] [])" by (rule demo_ready)
  obtain a1 where a1: "ad_Set demo_cfg ''t'' (demo_item ''a'' None) (demo_ad d demo_deferred) = (None, a1)"
    using demo_ad_Set [OF d(2,3) demo_quiet] by blast
  have p: "ParseInt 64 ''1'' = Some 1" by (simp add: ParseInt_def ParseUint_def is_digit_def digits_value_def)
  have k: "itKey (demo_item ''a'' None) = ''a''" by (simp add: demo_item_def)
  show ?thesis
    using refused_put_is_stored [OF demo_put(1), of "''1''" 1 "demo_server d" "\<lambda>_. []" "{''t''}" demo_cfg "\<lambda>_. Inl ErrTruncated" "\<lambda>_. None" a1] p d a1 k
    by (simp add: demo_item_Entity ok_entity_def)
qed

theorem concurrent_puts_diverge_witness:
  "\<exists>d sv' e1 e2 x'. CreateTable ''t'' (empty_db [''data'']) = (None, d)
     \<and> PutHandler demo_cfg (meanwhile demo_cfg (WPut (demo_req []) (Inr demo_two))) (demo_req []) (Inr (demo_item ''a'' None)) (demo_server d)
         = (NewResponse [StatusCode 200], sv')
     \<and> nLog (svNode sv') = [e1, e2] \<and> follower_run demo_cfg [(demoB, e1), (demoB, e2)] (demo_ad d demo_deferred) = (None, x')
     \<and> wb_sel (\<lambda>_. []) (aStore (svDb sv')) ''t'' ''a'' \<noteq> wb_sel (\<lambda>_. []) (aStore x') ''t'' ''a''"
proof -
  obtain d where d: "CreateTable ''t'' (empty_db [''data'']) = (None, d)" "ready (\<lambda>_. []) {''t''} (demo_ad d demo_deferred)"
    "aLog (demo_ad d demo_deferred) = Some (demo_wal demo_opts [] [])" by (rule demo_ready)
  let ?one = "demo_item ''a'' None"
  obtain a1 w1 where a1: "ad_Set demo_cfg ''t'' ?one (demo_ad d demo_deferred) = (None, a1)" "ready (\<lambda>_. []) {''t''} a1" "aLog a1 = Some w1" "quiet w1"
    using demo_ad_Set [OF d(2,3) demo_quiet] by blast
  obtain a2 where a2: "ad_Set demo_cfg ''t'' demo_two a1 = (None, a2)" using demo_ad_Set [OF a1(2-4)] by blast
  have ok: "ok_entity (\<lambda>_. []) (item_Entity ?one)" "ok_entity (\<lambda>_. []) (item_Entity demo_two)"
      "safe (\<lambda>_. []) (item_Entity ?one) \<noteq> safe (\<lambda>_. []) (item_Entity demo_two)"
    by (simp_all add: demo_item_Entity demo_two_Entity ok_entity_def safe_def)
  have k: "itKey ?one = ''a''" "itKey demo_two = ''a''" "nLog (demoA Leader) = []"
    by (simp_all add: demo_two_def demo_item_def demoA_def NewNode_def)
  obtain sv' e1 e2 where r: "PutHandler demo_cfg (meanwhile demo_cfg (WPut (demo_req []) (Inr demo_two))) (demo_req []) (Inr ?one) (demo_server d)
         = (NewResponse [StatusCode 200], sv')" "nLog (svNode sv') = [e1, e2]" "leData e1 = put_cmd ''t'' demo_two 3" "leData e2 = put_cmd ''t'' ?one 3"
      "wb_sel (\<lambda>_. []) (aStore (svDb sv')) ''t'' ''a'' = Some (safe (\<lambda>_. []) (item_Entity demo_two))"
      "\<And>x'. follower_run demo_cfg [(demoB, e1), (demoB, e2)] (demo_ad d demo_deferred) = (None, x')
         \<Longrightarrow> wb_sel (\<lambda>_. []) (aStore x') ''t'' ''a'' = Some (safe (\<lambda>_. []) (item_Entity ?one))"
    using concurrent_puts_diverge [OF demo_put [of "[]"] demo_acks demo_acks k(1,2) _ _ _ _ _ demo_cfg_simps(1) _ _ d(2) demo_follower demo_cfg_simps(1),
        where sv = "demo_server d" and ?db1.0 = a1 and ?db2.0 = a2] ok k a1(1) a2 d(2) by auto
  obtain x1 w' where x1: "GrpcHandle demo_cfg demoB e1 (demo_ad d demo_deferred) = (None, x1)" "ready (\<lambda>_. []) {''t''} x1" "aLog x1 = Some w'" "quiet w'"
    using demo_applied [OF d(2,3) demo_quiet _ r(3)] by blast
  obtain x2 where x2: "GrpcHandle demo_cfg demoB e2 x1 = (None, x2)" using demo_applied [OF x1(2-4) _ r(4)] by blast
  have "follower_run demo_cfg [(demoB, e1), (demoB, e2)] (demo_ad d demo_deferred) = (None, x2)" using x1(1) x2 by simp
  then show ?thesis using r d(1) ok(3) by fastforce
qed

theorem entry_delivered_off_follower_is_lost_witness:
  "\<exists>s'. applied_loop demo_raft_codec (GrpcHandle demo_cfg (demoA Candidate)) [demo_entry ''1''] demo_setup (demo_ad (empty_db []) demo_deferred)
      = (None, s', demo_ad (empty_db []) demo_deferred)
     \<and> raft_run demo_raft_codec [RecEntry (demo_entry ''1'')] demo_setup = (None, s')"
proof -
  obtain w1 where w1: "appendLocked (raft_record 1 OpRaftLog [1]) (rwWal (rsWal demo_setup)) = (None, w1)"
    using demo_append [of "raft_record 1 OpRaftLog [1]" "rwWal (rsWal demo_setup)"] demo_record_valid [of "[1]" OpRaftLog 1]
    by (auto simp: demo_setup_def empty_file_def)
  have "\<exists>s' a'. applied_loop demo_raft_codec (GrpcHandle demo_cfg (demoA Candidate)) [demo_entry ''1''] demo_setup (demo_ad (empty_db []) demo_deferred) = (None, s', a')"
    using w1 by (simp add: PersistApplied_def AppendEntry_def wal_Append_def demo_raft_codec_def demo_setup_def Let_def demo_entry_def GrpcHandle_def State_def)
  then obtain s' a' where l: "applied_loop demo_raft_codec (GrpcHandle demo_cfg (demoA Candidate)) [demo_entry ''1''] demo_setup
      (demo_ad (empty_db []) demo_deferred) = (None, s', a')" by blast
  show ?thesis using entry_delivered_off_follower_is_lost [OF _ l] l by simp
qed

end
