(* ===== verification/Wire.thy ===== *)
theory Wire
  imports Raft_Node
begin

text \<open>
  The messages of \<^verbatim>\<open>src/internal/raftpb/message.go\<close>, whose integers are 32 bits wide, the conversions on both
  sides (\<^verbatim>\<open>src/internal/raft/replicate_request.go\<close>, \<^verbatim>\<open>transport.go\<close>, \<^verbatim>\<open>grpc_server.go\<close>) and
  the replication stream a node keeps open per peer (\<^verbatim>\<open>per_conn.go\<close>).  A message is sent as the JSON document that the
  codec of \<^verbatim>\<open>src/internal/raftpb/codec.go\<close> makes of it: the fields of its structs keep their types, and the dynamic values
  become JSON trees, which fails for a map whose keys are not strings.  (The decoder's limit of 10000 nested
  levels is left out.)  gRPC itself is outside: whether a connection is made and what a stream returns are arguments.
\<close>

section \<open>Messages\<close>

type_synonym i32 = "32 word"

record pb_log_entry =
  pbTerm :: i32
  pbData :: cmd_data

record vote_request_msg =
  vqTerm :: i32
  vqCandidateID :: string
  vqLastLogIndex :: i32
  vqLastLogTerm :: i32

record vote_response_msg =
  vsTerm :: i32
  vsVoteGranted :: bool

record replicate_request_msg =
  rqTerm :: i32
  rqLeaderID :: string
  rqPrevLogIndex :: i32
  rqPrevLogTerm :: i32
  rqEntries :: "pb_log_entry list"
  rqLeaderCommit :: i32

record replicate_response_msg =
  rsTerm :: i32
  rsSuccess :: bool

text \<open>\<^verbatim>\<open>int32(x)\<close> keeps the low 32 bits; \<^verbatim>\<open>int(x)\<close> extends the sign.\<close>

definition int32 :: "int \<Rightarrow> i32" where
  "int32 x = word_of_int x"

definition go_int :: "i32 \<Rightarrow> int" where
  "go_int w = sint w"

definition toReplicateRequest :: "append_entries_args \<Rightarrow> replicate_request_msg" where
  "toReplicateRequest args =
     \<lparr>rqTerm = int32 (aeTerm args), rqLeaderID = aeLeaderID args, rqPrevLogIndex = int32 (aePrevLogIndex args),
      rqPrevLogTerm = int32 (aePrevLogTerm args),
      rqEntries = map (\<lambda>e. \<lparr>pbTerm = int32 (leTerm e), pbData = leData e\<rparr>) (aeEntries args),
      rqLeaderCommit = int32 (aeLeaderCommit args)\<rparr>"

definition fromReplicateRequest :: "replicate_request_msg \<Rightarrow> append_entries_args" where
  "fromReplicateRequest req =
     \<lparr>aeTerm = go_int (rqTerm req), aeLeaderID = rqLeaderID req, aePrevLogIndex = go_int (rqPrevLogIndex req),
      aePrevLogTerm = go_int (rqPrevLogTerm req),
      aeEntries = map (\<lambda>e. \<lparr>leTerm = go_int (pbTerm e), leData = pbData e\<rparr>) (rqEntries req),
      aeLeaderCommit = go_int (rqLeaderCommit req)\<rparr>"

definition toVoteRequest :: "request_vote_args \<Rightarrow> vote_request_msg" where
  "toVoteRequest args =
     \<lparr>vqTerm = int32 (rvTerm args), vqCandidateID = rvCandidateID args, vqLastLogIndex = int32 (rvLastLogIndex args),
      vqLastLogTerm = int32 (rvLastLogTerm args)\<rparr>"

definition fromVoteRequest :: "vote_request_msg \<Rightarrow> request_vote_args" where
  "fromVoteRequest req =
     \<lparr>rvTerm = go_int (vqTerm req), rvCandidateID = vqCandidateID req, rvLastLogIndex = go_int (vqLastLogIndex req),
      rvLastLogTerm = go_int (vqLastLogTerm req)\<rparr>"

section \<open>The codec\<close>

record wire_item =
  wiKey :: string
  wiSK :: string
  wiValue :: "(string \<times> json) list"
  wiVersion :: "version option"

record wire_data =
  wdCmd :: command
  wdTableName :: string
  wdItem :: wire_item
  wdItems :: "wire_item list"
  wdMinAcks :: int

record wire_request =
  wrTerm :: i32
  wrLeaderID :: string
  wrPrevLogIndex :: i32
  wrPrevLogTerm :: i32
  wrEntries :: "(i32 \<times> wire_data) list"
  wrLeaderCommit :: i32

definition marshal_item :: "item \<Rightarrow> wire_item option" where
  "marshal_item i =
     (case those (map (\<lambda>(k, v). map_option (Pair k) (json_of_any v)) (itValue i)) of
        None \<Rightarrow> None
      | Some kvs \<Rightarrow> Some \<lparr>wiKey = itKey i, wiSK = itSK i, wiValue = kvs, wiVersion = itVersion i\<rparr>)"

definition unmarshal_item :: "wire_item \<Rightarrow> item" where
  "unmarshal_item w = \<lparr>itKey = wiKey w, itSK = wiSK w, itValue = map (\<lambda>(k, j). (k, any_of_json j)) (wiValue w), itVersion = wiVersion w\<rparr>"

definition marshal_data :: "cmd_data \<Rightarrow> wire_data option" where
  "marshal_data d =
     (case (marshal_item (cItem d), those (map marshal_item (cItems d))) of
        (Some i, Some is) \<Rightarrow> Some \<lparr>wdCmd = Cmd d, wdTableName = TableName d, wdItem = i, wdItems = is, wdMinAcks = MinAcks d\<rparr>
      | _ \<Rightarrow> None)"

definition unmarshal_data :: "wire_data \<Rightarrow> cmd_data" where
  "unmarshal_data w =
     \<lparr>Cmd = wdCmd w, TableName = wdTableName w, cItem = unmarshal_item (wdItem w), cItems = map unmarshal_item (wdItems w), MinAcks = wdMinAcks w\<rparr>"

definition jsonCodec_Marshal :: "replicate_request_msg \<Rightarrow> goerr + wire_request" where
  "jsonCodec_Marshal req =
     (case those (map (\<lambda>e. map_option (Pair (pbTerm e)) (marshal_data (pbData e))) (rqEntries req)) of
        None \<Rightarrow> Inl (ErrMsg ''json: unsupported value'')
      | Some es \<Rightarrow> Inr \<lparr>wrTerm = rqTerm req, wrLeaderID = rqLeaderID req, wrPrevLogIndex = rqPrevLogIndex req, wrPrevLogTerm = rqPrevLogTerm req,
          wrEntries = es, wrLeaderCommit = rqLeaderCommit req\<rparr>)"

definition jsonCodec_Unmarshal :: "wire_request \<Rightarrow> replicate_request_msg" where
  "jsonCodec_Unmarshal w =
     \<lparr>rqTerm = wrTerm w, rqLeaderID = wrLeaderID w, rqPrevLogIndex = wrPrevLogIndex w, rqPrevLogTerm = wrPrevLogTerm w,
      rqEntries = map (\<lambda>(t, d). \<lparr>pbTerm = t, pbData = unmarshal_data d\<rparr>) (wrEntries w), rqLeaderCommit = wrLeaderCommit w\<rparr>"

section \<open>The server\<close>

definition srv_RequestVote :: "vote_request_msg \<Rightarrow> raft_node \<Rightarrow> raft_node \<times> vote_response_msg" where
  "srv_RequestVote req n =
     (case HandleRequestVote (fromVoteRequest req) n of
        (n, reply) \<Rightarrow> (n, \<lparr>vsTerm = int32 (rrTerm reply), vsVoteGranted = rrVoteGranted reply\<rparr>))"

text \<open>One round of the loop of \<^verbatim>\<open>Replicate\<close>: what \<^verbatim>\<open>Recv\<close> gave, and whether \<^verbatim>\<open>Send\<close> failed.\<close>

datatype recv = RecvEOF | RecvErr goerr | RecvMsg wire_request

fun srv_Replicate_round ::
  "recv \<Rightarrow> goerr option \<Rightarrow> raft_node \<Rightarrow> (goerr option \<times> raft_node) + raft_node \<times> replicate_response_msg"
where
  "srv_Replicate_round RecvEOF sendErr n = Inl (None, n)"
| "srv_Replicate_round (RecvErr err) sendErr n = Inl (Some err, n)"
| "srv_Replicate_round (RecvMsg w) sendErr n =
     (case HandleAppendEntries (fromReplicateRequest (jsonCodec_Unmarshal w)) n of
        Inl panic \<Rightarrow> Inl (Some panic, n)
      | Inr (n, reply) \<Rightarrow>
          (case sendErr of
             Some err \<Rightarrow> Inl (Some err, n)
           | None \<Rightarrow> Inr (n, \<lparr>rsTerm = int32 (arTerm reply), rsSuccess = arSuccess reply\<rparr>)))"

section \<open>The client\<close>

definition tr_RequestVote :: "(vote_request_msg \<Rightarrow> goerr + vote_response_msg) \<Rightarrow> request_vote_args \<Rightarrow> goerr + request_vote_reply" where
  "tr_RequestVote rpc args =
     (case rpc (toVoteRequest args) of
        Inl err \<Rightarrow> Inl (ErrWrap ''RequestVote rpc'' err)
      | Inr resp \<Rightarrow> Inr \<lparr>rrTerm = go_int (vsTerm resp), rrVoteGranted = vsVoteGranted resp\<rparr>)"

text \<open>A peer connection is reduced to whether its replication stream is open.\<close>

record peer_conn =
  leaderStream :: bool

record stream_ops =
  soOpen :: "goerr option"
  soSend :: "wire_request \<Rightarrow> goerr option"
  soRecv :: "goerr + replicate_response_msg"

text \<open>\<^verbatim>\<open>Send\<close> marshals the message before it hands it to the stream.\<close>

definition stream_Send :: "stream_ops \<Rightarrow> replicate_request_msg \<Rightarrow> goerr option" where
  "stream_Send so req = (case jsonCodec_Marshal req of Inl err \<Rightarrow> Some err | Inr w \<Rightarrow> soSend so w)"

definition ensureStream :: "stream_ops \<Rightarrow> peer_conn \<Rightarrow> goerr option \<times> peer_conn" where
  "ensureStream so pc =
     (if leaderStream pc then (None, pc)
      else case soOpen so of Some err \<Rightarrow> (Some err, pc) | None \<Rightarrow> (None, pc\<lparr>leaderStream := True\<rparr>))"

definition pc_appendEntries ::
  "stream_ops \<Rightarrow> append_entries_args \<Rightarrow> peer_conn \<Rightarrow> (goerr + append_entries_reply) \<times> peer_conn"
where
  "pc_appendEntries so args pc =
     (case ensureStream so pc of
        (Some err, pc) \<Rightarrow> (Inl (ErrWrap ''open replicate stream'' err), pc)
      | (None, pc) \<Rightarrow>
          (case stream_Send so (toReplicateRequest args) of
             Some err \<Rightarrow> (Inl (ErrWrap ''stream send'' err), pc\<lparr>leaderStream := False\<rparr>)
           | None \<Rightarrow>
               (case soRecv so of
                  Inl err \<Rightarrow> (Inl (ErrWrap ''stream recv'' err), pc\<lparr>leaderStream := False\<rparr>)
                | Inr resp \<Rightarrow> (Inr \<lparr>arTerm = go_int (rsTerm resp), arSuccess = rsSuccess resp\<rparr>, pc))))"

text \<open>The connections of a transport, dialled on first use.\<close>

type_synonym transport = "string \<rightharpoonup> peer_conn"

definition NewTransport :: transport where
  "NewTransport = Map.empty"

definition NewDialPeerConn :: "(string \<Rightarrow> goerr option) \<Rightarrow> string \<Rightarrow> goerr + peer_conn" where
  "NewDialPeerConn dial addr = (case dial addr of Some err \<Rightarrow> Inl err | None \<Rightarrow> Inr \<lparr>leaderStream = False\<rparr>)"

definition getOrDial :: "(string \<Rightarrow> goerr option) \<Rightarrow> string \<Rightarrow> transport \<Rightarrow> (goerr + peer_conn) \<times> transport" where
  "getOrDial dial addr t =
     (case t addr of
        Some pc \<Rightarrow> (Inr pc, t)
      | None \<Rightarrow>
          (case NewDialPeerConn dial addr of
             Inl err \<Rightarrow> (Inl (ErrWrap ''dial'' err), t)
           | Inr pc \<Rightarrow> (Inr pc, t(addr \<mapsto> pc))))"

definition tr_AppendEntries ::
  "(string \<Rightarrow> goerr option) \<Rightarrow> stream_ops \<Rightarrow> string \<Rightarrow> append_entries_args \<Rightarrow> transport \<Rightarrow> (goerr + append_entries_reply) \<times> transport"
where
  "tr_AppendEntries dial so peer args t =
     (case getOrDial dial peer t of
        (Inl err, t) \<Rightarrow> (Inl err, t)
      | (Inr pc, t) \<Rightarrow> (case pc_appendEntries so args pc of (r, pc) \<Rightarrow> (r, t(peer \<mapsto> pc))))"

definition pc_close :: "peer_conn \<Rightarrow> peer_conn" where
  "pc_close pc = pc\<lparr>leaderStream := False\<rparr>"

text \<open>The connections as goroutines that still hold them find them, and the transport from then on.\<close>

definition tr_Close :: "transport \<Rightarrow> transport \<times> transport" where
  "tr_Close t = (map_option pc_close \<circ> t, Map.empty)"

text \<open>A goroutine that still holds a connection of a closed transport finds no stream and has to open one.\<close>

lemma closed_connection_reopens:
  "fst (tr_Close t) p = Some pc \<Longrightarrow> soOpen so = Some err \<Longrightarrow> pc_appendEntries so args pc = (Inl (ErrWrap ''open replicate stream'' err), pc)"
  by (auto simp: tr_Close_def pc_close_def pc_appendEntries_def ensureStream_def)

section \<open>What survives the wire\<close>

definition fits32 :: "int \<Rightarrow> bool" where
  "fits32 x \<longleftrightarrow> - 2147483648 \<le> x \<and> x < 2147483648"

lemma go_int_int32: "go_int (int32 x) = x \<longleftrightarrow> fits32 x"
proof -
  have "go_int (int32 x) = signed_take_bit 31 x" by (simp add: go_int_def int32_def signed_of_int)
  also have "\<dots> = x \<longleftrightarrow> fits32 x"
    by (simp add: fits32_def signed_take_bit_int_eq_self_iff)
  finally show ?thesis .
qed

definition fits_wire :: "append_entries_args \<Rightarrow> bool" where
  "fits_wire args \<longleftrightarrow> fits32 (aeTerm args) \<and> fits32 (aePrevLogIndex args) \<and> fits32 (aePrevLogTerm args)
     \<and> fits32 (aeLeaderCommit args) \<and> list_all (\<lambda>e. fits32 (leTerm e)) (aeEntries args)"

lemma entries_wire: "map (\<lambda>e. \<lparr>leTerm = go_int (int32 (leTerm e)), leData = leData e\<rparr>) es = es \<longleftrightarrow> list_all (\<lambda>e. fits32 (leTerm e)) (es :: log_entry list)"
proof (induction es)
  case (Cons e es)
  have "\<lparr>leTerm = go_int (int32 (leTerm e)), leData = leData e\<rparr> = e \<longleftrightarrow> fits32 (leTerm e)"
    by (cases e) (simp add: go_int_int32)
  then show ?case using Cons by simp
qed simp

text \<open>The values of a command that JSON can carry.\<close>

definition item_carried :: "item \<Rightarrow> bool" where
  "item_carried i \<longleftrightarrow> list_all (\<lambda>(k, v). json_of_any v \<noteq> None) (itValue i)"

definition data_carried :: "cmd_data \<Rightarrow> bool" where
  "data_carried d \<longleftrightarrow> item_carried (cItem d) \<and> list_all item_carried (cItems d)"

lemma those_map_None: "those (map f xs) = None \<longleftrightarrow> \<not> list_all (\<lambda>x. f x \<noteq> None) xs"
  by (induction xs) (auto split: option.splits)

lemma marshal_item_None: "marshal_item i = None \<longleftrightarrow> \<not> item_carried i"
  using those_map_None [of "\<lambda>(k, v). map_option (Pair k) (json_of_any v)" "itValue i"]
  by (auto simp: marshal_item_def item_carried_def case_prod_unfold split: option.splits)

lemma marshal_data_None: "marshal_data d = None \<longleftrightarrow> \<not> data_carried d"
proof -
  have "marshal_data d = None \<longleftrightarrow> marshal_item (cItem d) = None \<or> those (map marshal_item (cItems d)) = None"
    by (auto simp: marshal_data_def split: option.splits)
  then show ?thesis using those_map_None [of marshal_item "cItems d"] by (simp add: data_carried_def marshal_item_None)
qed

lemma unmarshal_marshal_item: "marshal_item i = Some w \<Longrightarrow> unmarshal_item w = i"
proof -
  assume a: "marshal_item i = Some w"
  then obtain kvs where k: "those (map (\<lambda>(k, v). map_option (Pair k) (json_of_any v)) (itValue i)) = Some kvs"
      "w = \<lparr>wiKey = itKey i, wiSK = itSK i, wiValue = kvs, wiVersion = itVersion i\<rparr>"
    by (auto simp: marshal_item_def split: option.splits)
  have "map (\<lambda>(k, v). (k, any_of_json v)) kvs = itValue i" by (rule map_json_pairs [OF those_SomeD [OF k(1)]]) (rule any_of_json_of_any)
  then show "unmarshal_item w = i" using k(2) by (simp add: unmarshal_item_def)
qed

lemma map_inverse: "list_all2 (\<lambda>x y. f x = Some y) xs ys \<Longrightarrow> (\<And>x y. f x = Some y \<Longrightarrow> g y = x) \<Longrightarrow> map g ys = xs"
  by (induction rule: list_all2_induct) auto

lemma unmarshal_marshal_data:
  assumes "marshal_data d = Some w"
  shows "unmarshal_data w = d"
proof -
  obtain i xs where w: "marshal_item (cItem d) = Some i" "those (map marshal_item (cItems d)) = Some xs"
      "w = \<lparr>wdCmd = Cmd d, wdTableName = TableName d, wdItem = i, wdItems = xs, wdMinAcks = MinAcks d\<rparr>"
    using assms by (auto simp: marshal_data_def split: option.splits)
  have "map unmarshal_item xs = cItems d" by (rule map_inverse [OF those_SomeD [OF w(2)]]) (rule unmarshal_marshal_item)
  then show ?thesis using w(3) unmarshal_marshal_item [OF w(1)] by (simp add: unmarshal_data_def)
qed

lemma codec_roundtrip:
  "(\<exists>w. jsonCodec_Marshal req = Inr w) \<longleftrightarrow> list_all (\<lambda>e. data_carried (pbData e)) (rqEntries req)"
  "jsonCodec_Marshal req = Inr w \<Longrightarrow> jsonCodec_Unmarshal w = req"
proof -
  let ?f = "\<lambda>e. map_option (Pair (pbTerm e)) (marshal_data (pbData e))"
  have n: "those (map ?f es) = None \<longleftrightarrow> \<not> list_all (\<lambda>e. data_carried (pbData e)) es" for es
    by (induction es) (auto simp: marshal_data_None [symmetric] split: option.splits)
  show "(\<exists>w. jsonCodec_Marshal req = Inr w) \<longleftrightarrow> list_all (\<lambda>e. data_carried (pbData e)) (rqEntries req)"
    using n [of "rqEntries req"] by (auto simp: jsonCodec_Marshal_def split: option.splits)
  assume "jsonCodec_Marshal req = Inr w"
  then obtain es where es: "those (map ?f (rqEntries req)) = Some es"
      "w = \<lparr>wrTerm = rqTerm req, wrLeaderID = rqLeaderID req, wrPrevLogIndex = rqPrevLogIndex req, wrPrevLogTerm = rqPrevLogTerm req,
          wrEntries = es, wrLeaderCommit = rqLeaderCommit req\<rparr>"
    by (auto simp: jsonCodec_Marshal_def split: option.splits)
  have "map (\<lambda>(t, d). \<lparr>pbTerm = t, pbData = unmarshal_data d\<rparr>) es = rqEntries req"
    by (rule map_inverse [OF those_SomeD [OF es(1)]]) (auto simp: unmarshal_marshal_data)
  then show "jsonCodec_Unmarshal w = req" using es(2) by (simp add: jsonCodec_Unmarshal_def)
qed

lemma entries_carried:
  "list_all (\<lambda>e. data_carried (pbData e)) (rqEntries (toReplicateRequest args)) \<longleftrightarrow> list_all (\<lambda>e. data_carried (leData e)) (aeEntries args)"
  by (simp add: toReplicateRequest_def list_all_iff)

lemma uncarried_fails:
  assumes "\<not> list_all (\<lambda>e. data_carried (leData e)) (aeEntries args)"
  shows "(\<exists>err. fst (pc_appendEntries so args pc) = Inl err) \<and> (soOpen so = None \<longrightarrow> \<not> leaderStream (snd (pc_appendEntries so args pc)))"
proof -
  obtain err where "jsonCodec_Marshal (toReplicateRequest args) = Inl err"
    using codec_roundtrip(1) [of "toReplicateRequest args"] entries_carried assms by (cases "jsonCodec_Marshal (toReplicateRequest args)") auto
  then show ?thesis by (auto simp: pc_appendEntries_def ensureStream_def stream_Send_def split: option.splits)
qed

text \<open>C20. Replication over the wire.  A message can be sent exactly when JSON can carry every value in its entries: no map
  with keys other than strings and no number that is not finite; otherwise, whatever the stream does, the call fails and drops
  the stream.  A message that is sent arrives as it was exactly when its terms, indices and commit position fit in 32
  bits.  And if both hold and the streams work, one round is a call of \<open>HandleAppendEntries\<close>: the leader gets the
  follower's answer, if the answer's term fits.\<close>

theorem replication_over_the_wire:
  "((\<exists>w. jsonCodec_Marshal (toReplicateRequest args) = Inr w) \<longleftrightarrow> list_all (\<lambda>e. data_carried (leData e)) (aeEntries args))
   \<and> (\<not> list_all (\<lambda>e. data_carried (leData e)) (aeEntries args) \<longrightarrow>
      (\<exists>err. fst (pc_appendEntries so args pc) = Inl err) \<and> (soOpen so = None \<longrightarrow> \<not> leaderStream (snd (pc_appendEntries so args pc))))
   \<and> (jsonCodec_Marshal (toReplicateRequest args) = Inr w \<longrightarrow>
      (fromReplicateRequest (jsonCodec_Unmarshal w) = args \<longleftrightarrow> fits_wire args)
      \<and> (fits_wire args \<and> HandleAppendEntries args n = Inr (n', reply) \<and> fits32 (arTerm reply) \<longrightarrow>
          (\<exists>resp. srv_Replicate_round (RecvMsg w) None n = Inr (n', resp)
            \<and> pc_appendEntries \<lparr>soOpen = None, soSend = (\<lambda>_. None), soRecv = Inr resp\<rparr> args \<lparr>leaderStream = True\<rparr>
                = (Inr reply, \<lparr>leaderStream = True\<rparr>))))"
proof -
  let ?req = "toReplicateRequest args"
  have wire: "fromReplicateRequest ?req = args \<longleftrightarrow> fits_wire args"
    by (cases args) (auto simp: fromReplicateRequest_def toReplicateRequest_def fits_wire_def go_int_int32 entries_wire comp_def)
  have "\<lparr>arTerm = go_int (int32 (arTerm reply)), arSuccess = arSuccess reply\<rparr> = reply" if "fits32 (arTerm reply)"
    using that by (cases reply) (simp add: go_int_int32)
  then have round: "jsonCodec_Marshal ?req = Inr w \<longrightarrow> (fromReplicateRequest (jsonCodec_Unmarshal w) = args \<longleftrightarrow> fits_wire args)
      \<and> (fits_wire args \<and> HandleAppendEntries args n = Inr (n', reply) \<and> fits32 (arTerm reply) \<longrightarrow>
          (\<exists>resp. srv_Replicate_round (RecvMsg w) None n = Inr (n', resp)
            \<and> pc_appendEntries \<lparr>soOpen = None, soSend = (\<lambda>_. None), soRecv = Inr resp\<rparr> args \<lparr>leaderStream = True\<rparr>
                = (Inr reply, \<lparr>leaderStream = True\<rparr>)))"
    using wire codec_roundtrip(2) [of ?req w] by (auto simp: pc_appendEntries_def ensureStream_def stream_Send_def)
  show ?thesis using codec_roundtrip(1) [of ?req] entries_carried [of args] round uncarried_fails [of args so pc] by blast
qed

text \<open>A heartbeat of term 7 arrives, one of term \<^term>\<open>2 ^ 31\<close> does not, and an entry with a map under a key that is no string is not sent.\<close>

definition demo_beat :: "int \<Rightarrow> log_entry list \<Rightarrow> append_entries_args" where
  "demo_beat t es = \<lparr>aeTerm = t, aeLeaderID = ''a'', aePrevLogIndex = -1, aePrevLogTerm = 0, aeEntries = es, aeLeaderCommit = -1\<rparr>"

theorem replication_over_the_wire_witness:
  "\<exists>w w'. jsonCodec_Marshal (toReplicateRequest (demo_beat 7 [])) = Inr w \<and> fromReplicateRequest (jsonCodec_Unmarshal w) = demo_beat 7 []
   \<and> jsonCodec_Marshal (toReplicateRequest (demo_beat 2147483648 [])) = Inr w' \<and> fromReplicateRequest (jsonCodec_Unmarshal w') \<noteq> demo_beat 2147483648 []
   \<and> (\<exists>err. fst (pc_appendEntries \<lparr>soOpen = None, soSend = (\<lambda>_. None), soRecv = Inl ErrTruncated\<rparr>
        (demo_beat 1 [\<lparr>leTerm = 1, leData = \<lparr>Cmd = SetCmd, TableName = ''t'', cItem = zero_item\<lparr>itValue := [(''v'', VMapI [])]\<rparr>, cItems = [], MinAcks = 0\<rparr>\<rparr>])
        \<lparr>leaderStream = True\<rparr>) = Inl err)"
proof -
  let ?e = "\<lparr>leTerm = 1, leData = \<lparr>Cmd = SetCmd, TableName = ''t'', cItem = zero_item\<lparr>itValue := [(''v'', VMapI [])]\<rparr>, cItems = [], MinAcks = 0\<rparr>\<rparr>"
  have c: "list_all (\<lambda>e. data_carried (leData e)) (aeEntries (demo_beat t []))" for t by (simp add: demo_beat_def)
  obtain w where w: "jsonCodec_Marshal (toReplicateRequest (demo_beat 7 [])) = Inr w"
    using replication_over_the_wire [THEN conjunct1, of "demo_beat 7 []"] c by blast
  obtain w' where w': "jsonCodec_Marshal (toReplicateRequest (demo_beat 2147483648 [])) = Inr w'"
    using replication_over_the_wire [THEN conjunct1, of "demo_beat 2147483648 []"] c by blast
  have "fromReplicateRequest (jsonCodec_Unmarshal w) = demo_beat 7 []" "fromReplicateRequest (jsonCodec_Unmarshal w') \<noteq> demo_beat 2147483648 []"
    using replication_over_the_wire [THEN conjunct2, THEN conjunct2, rule_format, THEN conjunct1, OF w]
      replication_over_the_wire [THEN conjunct2, THEN conjunct2, rule_format, THEN conjunct1, OF w']
    by (simp_all add: fits_wire_def fits32_def demo_beat_def)
  moreover have "\<not> list_all (\<lambda>e. data_carried (leData e)) (aeEntries (demo_beat 1 [?e]))"
    by (simp add: demo_beat_def data_carried_def item_carried_def)
  ultimately show ?thesis
    using replication_over_the_wire [THEN conjunct2, THEN conjunct1, of "demo_beat 1 [?e]"] w w' by blast
qed

end
