(* ===== verification/Restored_Log.thy ===== *)
theory Restored_Log
  imports Raft_Wal Wire "HOL-Library.Sublist"
begin

text \<open>
  A log that went through the disk and then goes over the wire.  The CBOR codec of the write-ahead log returns nested maps
  with keys of any type, and the JSON codec of the replication stream refuses those: the two halves of a node's life do not
  fit together.
\<close>

fun has_map :: "any \<Rightarrow> bool" where
  "has_map (VMapS kvs) \<longleftrightarrow> True"
| "has_map (VMapI kvs) \<longleftrightarrow> True"
| "has_map (VList xs) \<longleftrightarrow> list_ex has_map xs"
| "has_map v \<longleftrightarrow> False"

text \<open>An entry with an object inside the value of one of its items.\<close>

definition nested :: "log_entry \<Rightarrow> bool" where
  "nested e \<longleftrightarrow> list_ex (\<lambda>i. list_ex (\<lambda>(k, v). has_map v) (itValue i)) (cItem (leData e) # cItems (leData e))"

lemma cbor_map_refused: "has_map v \<Longrightarrow> json_of_any (cbor_any v) = None"
proof (induction v rule: has_map.induct)
  case (3 xs)
  then obtain x where "x \<in> set xs" "json_of_any (cbor_any x) = None" by (auto simp: list_ex_iff)
  then show ?case using those_map_None [of json_of_any "map cbor_any xs"] by (auto simp: list_all_iff)
qed simp_all

lemma cbor_item_refused: "list_ex (\<lambda>(k, v). has_map v) (itValue i) \<Longrightarrow> \<not> item_carried (cbor_item i)"
  using cbor_map_refused by (fastforce simp: item_carried_def cbor_item_def list_ex_iff list_all_iff)

lemma nested_refused: "nested e \<Longrightarrow> \<not> data_carried (leData (cbor_entry e))"
  using cbor_item_refused by (fastforce simp: nested_def data_carried_def cbor_entry_def cbor_data_def list_ex_iff list_all_iff)

text \<open>An entry that was restored from disk cannot be replicated if its value has an object inside: let a node have
  recorded terms, votes and applied entries and be started again from what was synchronised, and let it later lead
  with a log that begins with the restored one.  Then every message to a peer that lacks such an entry fails to be
  sent, whatever the connection does, and the stream is dropped, so the peer never catches up.  (Records are at most 256 MiB
  long, and the codec reads them back in the shape that CBOR gives them.)\<close>

theorem restored_entry_cannot_be_sent:
  assumes c: "raft_codec_reads c rs" and start: "OpenRaft c i peers f0 = Inr s0" "fdata f0 = []"
    and run: "raft_run c rs s0 = (None, s1)" "rs \<noteq> []" "length rs < 18446744073709551616"
    and sz: "\<forall>e \<in> set (rec_entries c 0 0 rs). payload_size e \<le> 268435456"
    and crash: "foutcomes f2 = []" "fdata f2 = fsynced (wFile (rwWal (rsWal s1))) @ t" "t = [] \<or> torn t"
    and k: "k < length (rec_log rs)" "nested (rec_log rs ! k)"
  shows "\<exists>s2. OpenRaft c i peers f2 = Inr s2 \<and>
    (\<forall>n p T args so pc. prefix (nLog (rsNode s2)) (nLog n) \<and> nextIndex n p \<le> int k \<and> send_begin p T n = Inr (Some args) \<longrightarrow>
      (\<exists>err. fst (pc_appendEntries so args pc) = Inl err) \<and> (soOpen so = None \<longrightarrow> \<not> leaderStream (snd (pc_appendEntries so args pc))))"
proof -
  obtain s2 where s2: "OpenRaft c i peers f2 = Inr s2" "nLog (rsNode s2) = restored rs"
    using restart_restores [OF assms(1-10)] by blast
  have "(\<exists>err. fst (pc_appendEntries so args pc) = Inl err) \<and> (soOpen so = None \<longrightarrow> \<not> leaderStream (snd (pc_appendEntries so args pc)))"
    if pre: "prefix (nLog (rsNode s2)) (nLog n)" "nextIndex n p \<le> int k" "send_begin p T n = Inr (Some args)" for n p T args so pc
  proof -
    have e: "k < length (nLog n)" "nLog n ! k = cbor_entry (rec_log rs ! k)"
      using pre(1) k(1) unfolding s2(2) prefix_def restored_def by (auto simp: nth_append)
    have "aeEntries args = drop (nat (nextIndex n p)) (nLog n)" using pre(3) by (auto simp: send_begin_def Let_def split: if_splits)
    moreover have "nLog n ! k \<in> set (drop (nat (nextIndex n p)) (nLog n))"
      using e(1) pre(2) by (auto simp: in_set_conv_nth intro!: exI [of _ "k - nat (nextIndex n p)"])
    ultimately have "\<not> list_all (\<lambda>e. data_carried (leData e)) (aeEntries args)"
      using nested_refused [OF k(2)] e(2) by (auto simp: list_all_iff)
    then show ?thesis by (rule uncarried_fails)
  qed
  then show ?thesis using s2(1) by blast
qed

definition demo_nested :: log_entry where
  "demo_nested = \<lparr>leTerm = 1, leData = (demo_cmd ''1'')\<lparr>cItem := zero_item\<lparr>itKey := ''1'', itValue := [(''v'', VMapS [(''x'', VNil)])]\<rparr>\<rparr>\<rparr>"

definition demo_cbor_codec :: raft_codec where
  "demo_cbor_codec =
     \<lparr>encLog = (\<lambda>p. if p = \<lparr>rlIndex = 0, rlTerm = 1, rlData = leData demo_nested\<rparr> then Inr [1] else Inl (ErrMsg ''encode'')),
      decLog = (\<lambda>b. if b = [1] then Inr \<lparr>rlIndex = 0, rlTerm = 1, rlData = cbor_data (leData demo_nested)\<rparr> else Inl (ErrMsg ''decode'')),
      encMeta = (\<lambda>m. Inl (ErrMsg ''encode'')), decMeta = (\<lambda>b. Inl (ErrMsg ''decode''))\<rparr>"

theorem restored_entry_cannot_be_sent_witness:
  "\<exists>s1 s2 args err. raft_run demo_cbor_codec [RecEntry demo_nested] demo_setup = (None, s1)
     \<and> OpenRaft demo_cbor_codec ''b'' [''a'', ''c''] \<lparr>fdata = fsynced (wFile (rwWal (rsWal s1))), fpos = 0, fsynced = [], foutcomes = []\<rparr> = Inr s2
     \<and> send_begin ''a'' 0 ((rsNode s2)\<lparr>nState := Leader, nextIndex := (\<lambda>_. 0)\<rparr>) = Inr (Some args)
     \<and> fst (pc_appendEntries \<lparr>soOpen = None, soSend = (\<lambda>_. None), soRecv = Inl ErrTruncated\<rparr> args \<lparr>leaderStream = True\<rparr>) = Inl err"
proof -
  let ?c = demo_cbor_codec and ?rs = "[RecEntry demo_nested]" and ?so = "\<lparr>soOpen = None, soSend = (\<lambda>_. None), soRecv = Inl ErrTruncated\<rparr>"
  have t: "leTerm demo_nested = 1" by (simp add: demo_nested_def)
  have reads: "raft_codec_reads ?c ?rs" by (auto simp: raft_codec_reads_def demo_cbor_codec_def t split: if_splits)
  obtain w1 where w1: "appendLocked (raft_record 1 OpRaftLog [1]) (rwWal (rsWal demo_setup)) = (None, w1)"
    using demo_append [of "raft_record 1 OpRaftLog [1]" "rwWal (rsWal demo_setup)"] demo_record_valid [of "[1]" OpRaftLog 1]
    by (auto simp: demo_setup_def empty_file_def)
  obtain s1 where run: "raft_run ?c ?rs demo_setup = (None, s1)"
    using w1 by (simp add: PersistApplied_def AppendEntry_def wal_Append_def demo_cbor_codec_def demo_setup_def Let_def t)
  have sz: "\<forall>e \<in> set (rec_entries ?c 0 0 ?rs). payload_size e \<le> 268435456"
    using demo_record_valid by (simp add: rec_bytes_def demo_cbor_codec_def rec_step_def t)
  let ?f = "\<lparr>fdata = fsynced (wFile (rwWal (rsWal s1))), fpos = 0, fsynced = [], foutcomes = []\<rparr>"
  have n: "nested (rec_log ?rs ! 0)" "0 < length (rec_log ?rs)" by (simp_all add: nested_def demo_nested_def)
  obtain s2 where s2: "OpenRaft ?c ''b'' [''a'', ''c''] ?f = Inr s2"
      "\<forall>n p T args so pc. prefix (nLog (rsNode s2)) (nLog n) \<and> nextIndex n p \<le> int 0 \<and> send_begin p T n = Inr (Some args) \<longrightarrow>
      (\<exists>err. fst (pc_appendEntries so args pc) = Inl err) \<and> (soOpen so = None \<longrightarrow> \<not> leaderStream (snd (pc_appendEntries so args pc)))"
    using restored_entry_cannot_be_sent [OF reads demo_open _ run _ _ sz _ _ _ n(2,1), of ?f "[]"] by (auto simp: empty_file_def)
  let ?n = "(rsNode s2)\<lparr>nState := Leader, nextIndex := (\<lambda>_. 0)\<rparr>"
  have "currentTerm (rsNode s2) = 0"
    using restart_restores [OF reads demo_open _ run _ _ sz, of ?f "[]"] s2(1) by (auto simp: empty_file_def)
  then obtain args where a: "send_begin ''a'' 0 ?n = Inr (Some args)" by (simp add: send_begin_def Let_def)
  have "\<exists>err. fst (pc_appendEntries ?so args \<lparr>leaderStream = True\<rparr>) = Inl err"
    using s2(2) [rule_format, of ?n "''a''" 0 args ?so] a by auto
  then show ?thesis using run s2(1) a by blast
qed

end
