(* ===== verification/Table_Locks.thy ===== *)
theory Table_Locks
  imports Prelude
begin

text \<open>
  The table locks of the file store (\<^verbatim>\<open>src/internal/fsdb/table_mutex.go\<close>) and their use by concurrent
  goroutines.  The Go map from table names to mutexes is a map to addresses, so that a goroutine may wait for, or hold,
  a mutex that the map no longer names.  Looking a mutex up and installing one where there is none are two accesses, and
  other goroutines may run in between.  A single access to the Go map is taken to be atomic.
\<close>

section \<open>Read-write mutexes\<close>

record rwmutex =
  muWriter :: bool
  muReaders :: nat

text \<open>\<open>None\<close>: the call waits.\<close>

definition mu_Lock :: "rwmutex \<Rightarrow> rwmutex option" where
  "mu_Lock m = (if muWriter m \<or> muReaders m \<noteq> 0 then None else Some (m\<lparr>muWriter := True\<rparr>))"

definition mu_RLock :: "rwmutex \<Rightarrow> rwmutex option" where
  "mu_RLock m = (if muWriter m then None else Some (m\<lparr>muReaders := muReaders m + 1\<rparr>))"

text \<open>\<open>None\<close>: a fatal error, unlock of an unlocked mutex.\<close>

definition mu_Unlock :: "rwmutex \<Rightarrow> rwmutex option" where
  "mu_Unlock m = (if muWriter m then Some (m\<lparr>muWriter := False\<rparr>) else None)"

definition mu_RUnlock :: "rwmutex \<Rightarrow> rwmutex option" where
  "mu_RUnlock m = (if muReaders m = 0 then None else Some (m\<lparr>muReaders := muReaders m - 1\<rparr>))"

section \<open>The map of mutexes\<close>

record tb_mutex =
  tbMap :: "string \<rightharpoonup> nat"
  tbHeap :: "nat \<Rightarrow> rwmutex"
  tbNext :: nat

definition NewTbMutex :: tb_mutex where
  "NewTbMutex = \<lparr>tbMap = Map.empty, tbHeap = (\<lambda>_. \<lparr>muWriter = False, muReaders = 0\<rparr>), tbNext = 0\<rparr>"

text \<open>A new mutex under a table's name: the assignment of \<^verbatim>\<open>CreateTable\<close>, and of a lock that finds none.\<close>

definition tb_assign :: "string \<Rightarrow> tb_mutex \<Rightarrow> tb_mutex" where
  "tb_assign t m = m\<lparr>tbMap := (tbMap m)(t \<mapsto> tbNext m),
     tbHeap := (tbHeap m)(tbNext m := \<lparr>muWriter = False, muReaders = 0\<rparr>), tbNext := tbNext m + 1\<rparr>"

text \<open>The first access of \<^verbatim>\<open>Lock\<close> and \<^verbatim>\<open>RLock\<close>.\<close>

definition tb_lookup :: "string \<Rightarrow> tb_mutex \<Rightarrow> nat option" where
  "tb_lookup t m = tbMap m t"

definition tb_set :: "nat \<Rightarrow> rwmutex \<Rightarrow> tb_mutex \<Rightarrow> tb_mutex" where
  "tb_set a v m = m\<lparr>tbHeap := (tbHeap m)(a := v)\<rparr>"

text \<open>The second half: \<open>None\<close> while the call waits.\<close>

definition tb_Lock :: "nat \<Rightarrow> tb_mutex \<Rightarrow> tb_mutex option" where
  "tb_Lock a m = (case mu_Lock (tbHeap m a) of None \<Rightarrow> None | Some v \<Rightarrow> Some (tb_set a v m))"

definition tb_RLock :: "nat \<Rightarrow> tb_mutex \<Rightarrow> tb_mutex option" where
  "tb_RLock a m = (case mu_RLock (tbHeap m a) of None \<Rightarrow> None | Some v \<Rightarrow> Some (tb_set a v m))"

text \<open>Unlocking looks the name up again; \<open>None\<close>: the process dies.\<close>

definition tb_Unlock :: "string \<Rightarrow> tb_mutex \<Rightarrow> tb_mutex option" where
  "tb_Unlock t m =
     (case tbMap m t of
        None \<Rightarrow> None
      | Some a \<Rightarrow> (case mu_Unlock (tbHeap m a) of None \<Rightarrow> None | Some v \<Rightarrow> Some (tb_set a v m)))"

definition tb_RUnlock :: "string \<Rightarrow> tb_mutex \<Rightarrow> tb_mutex option" where
  "tb_RUnlock t m =
     (case tbMap m t of
        None \<Rightarrow> None
      | Some a \<Rightarrow> (case mu_RUnlock (tbHeap m a) of None \<Rightarrow> None | Some v \<Rightarrow> Some (tb_set a v m)))"

section \<open>Goroutines\<close>

text \<open>A goroutine runs operations of the store one after another: it looks up a table's mutex, installs one when there was
  none, waits for it, is inside, and leaves.\<close>

datatype tb_pc =
    Outside
  | MissW string | WaitW string nat | InW string nat
  | MissR string | WaitR string nat | InR string nat

record tb_sys =
  sysPc :: "nat \<Rightarrow> tb_pc"
  sysTb :: tb_mutex
  sysDead :: bool

definition move :: "nat \<Rightarrow> tb_pc \<Rightarrow> tb_mutex \<Rightarrow> tb_sys \<Rightarrow> tb_sys" where
  "move i p m s = s\<lparr>sysPc := (sysPc s)(i := p), sysTb := m\<rparr>"

text \<open>The tables \<open>T\<close> are not created while the goroutines run; the others may be, any number of times.\<close>

inductive tb_step :: "string set \<Rightarrow> tb_sys \<Rightarrow> tb_sys \<Rightarrow> bool" for T :: "string set" where
  lookW: "\<not> sysDead s \<Longrightarrow> sysPc s i = Outside \<Longrightarrow> p = (case tb_lookup t (sysTb s) of Some a \<Rightarrow> WaitW t a | None \<Rightarrow> MissW t)
    \<Longrightarrow> tb_step T s (move i p (sysTb s) s)"
| makeW: "\<not> sysDead s \<Longrightarrow> sysPc s i = MissW t \<Longrightarrow> tb_step T s (move i (WaitW t (tbNext (sysTb s))) (tb_assign t (sysTb s)) s)"
| lockW: "\<not> sysDead s \<Longrightarrow> sysPc s i = WaitW t a \<Longrightarrow> tb_Lock a (sysTb s) = Some m \<Longrightarrow> tb_step T s (move i (InW t a) m s)"
| unlockW: "\<not> sysDead s \<Longrightarrow> sysPc s i = InW t a \<Longrightarrow> tb_Unlock t (sysTb s) = Some m \<Longrightarrow> tb_step T s (move i Outside m s)"
| fatalW: "\<not> sysDead s \<Longrightarrow> sysPc s i = InW t a \<Longrightarrow> tb_Unlock t (sysTb s) = None \<Longrightarrow> tb_step T s (s\<lparr>sysDead := True\<rparr>)"
| lookR: "\<not> sysDead s \<Longrightarrow> sysPc s i = Outside \<Longrightarrow> p = (case tb_lookup t (sysTb s) of Some a \<Rightarrow> WaitR t a | None \<Rightarrow> MissR t)
    \<Longrightarrow> tb_step T s (move i p (sysTb s) s)"
| makeR: "\<not> sysDead s \<Longrightarrow> sysPc s i = MissR t \<Longrightarrow> tb_step T s (move i (WaitR t (tbNext (sysTb s))) (tb_assign t (sysTb s)) s)"
| lockR: "\<not> sysDead s \<Longrightarrow> sysPc s i = WaitR t a \<Longrightarrow> tb_RLock a (sysTb s) = Some m \<Longrightarrow> tb_step T s (move i (InR t a) m s)"
| unlockR: "\<not> sysDead s \<Longrightarrow> sysPc s i = InR t a \<Longrightarrow> tb_RUnlock t (sysTb s) = Some m \<Longrightarrow> tb_step T s (move i Outside m s)"
| fatalR: "\<not> sysDead s \<Longrightarrow> sysPc s i = InR t a \<Longrightarrow> tb_RUnlock t (sysTb s) = None \<Longrightarrow> tb_step T s (s\<lparr>sysDead := True\<rparr>)"
| create: "\<not> sysDead s \<Longrightarrow> sysPc s i = Outside \<Longrightarrow> t \<notin> T \<Longrightarrow> tb_step T s (s\<lparr>sysTb := tb_assign t (sysTb s)\<rparr>)"

text \<open>A store of which the tables \<open>ts\<close> have been created, one after the other, before any goroutine runs.\<close>

definition tb_created :: "string list \<Rightarrow> tb_sys" where
  "tb_created ts = \<lparr>sysPc = (\<lambda>_. Outside), sysTb = fold tb_assign ts NewTbMutex, sysDead = False\<rparr>"

section \<open>Mutual exclusion\<close>













lemma move_simps [simp]: "sysTb (move i p m s) = m" "sysDead (move i p m s) = sysDead s" "sysPc (move i p m s) = (sysPc s)(i := p)"
  by (simp_all add: move_def)

lemma assign_simps [simp]: "tbMap (tb_assign t m) = (tbMap m)(t \<mapsto> tbNext m)" "tbNext (tb_assign t m) = Suc (tbNext m)"
  "tbHeap (tb_assign t m) = (tbHeap m)(tbNext m := \<lparr>muWriter = False, muReaders = 0\<rparr>)"
  by (simp_all add: tb_assign_def)

lemma set_simps [simp]: "tbMap (tb_set a v m) = tbMap m" "tbNext (tb_set a v m) = tbNext m" "tbHeap (tb_set a v m) = (tbHeap m)(a := v)"
  by (simp_all add: tb_set_def)























section \<open>Where the locks fail\<close>

text \<open>
  Two goroutines that are the first to use a table, such as a read and the flush after a restart: both find no mutex, each
  installs its own, and both are inside as writers.  The first to leave releases the other's mutex, and the second
  dies.
\<close>

text \<open>The first use of a table breaks its lock: when no mutex is in the map, as after a start on tables that exist, two
  goroutines can both be inside the table as writers although no table is created, and their unlocks can kill the
  process.\<close>

theorem first_use_breaks_the_lock:
  assumes ij: "i \<noteq> j"
  shows "(\<exists>s a b. (tb_step UNIV)\<^sup>*\<^sup>* (tb_created []) s \<and> sysPc s i = InW t a \<and> sysPc s j = InW t b)
    \<and> (\<exists>s. (tb_step UNIV)\<^sup>*\<^sup>* (tb_created []) s \<and> sysDead s)"
proof -
  let ?R = "(tb_step UNIV)\<^sup>*\<^sup>* (tb_created [])" and ?L = "\<lparr>muWriter = True, muReaders = 0\<rparr>"
  have step: "?R s'" if "?R s" "tb_step UNIV s s'" for s s' using that by (rule rtranclp.rtrancl_into_rtrancl)
  define s1 where "s1 = move i (MissW t) (sysTb (tb_created [])) (tb_created [])"
  define s2 where "s2 = move j (MissW t) (sysTb s1) s1"
  define s3 where "s3 = move i (WaitW t (tbNext (sysTb s2))) (tb_assign t (sysTb s2)) s2"
  define s4 where "s4 = move j (WaitW t (tbNext (sysTb s3))) (tb_assign t (sysTb s3)) s3"
  define s5 where "s5 = move i (InW t 0) (tb_set 0 ?L (sysTb s4)) s4"
  define s6 where "s6 = move j (InW t 1) (tb_set 1 ?L (sysTb s5)) s5"
  define s7 where "s7 = move i Outside (tb_set 1 \<lparr>muWriter = False, muReaders = 0\<rparr> (sysTb s6)) s6"
  have 1: "?R s1" unfolding s1_def
    by (rule step [OF rtranclp.rtrancl_refl tb_step.lookW [where t = t]]) (simp_all add: tb_created_def NewTbMutex_def tb_lookup_def)
  note d1 = s1_def tb_created_def NewTbMutex_def
  have 2: "?R s2" unfolding s2_def by (rule step [OF 1 tb_step.lookW [where t = t]]) (use ij in \<open>simp_all add: d1 tb_lookup_def\<close>)
  have 3: "?R s3" unfolding s3_def by (rule step [OF 2 tb_step.makeW]) (use ij in \<open>simp_all add: s2_def d1\<close>)
  have 4: "?R s4" unfolding s4_def by (rule step [OF 3 tb_step.makeW]) (use ij in \<open>simp_all add: s3_def s2_def d1\<close>)
  note d4 = s4_def s3_def s2_def d1
  have 5: "?R s5" unfolding s5_def
    by (rule step [OF 4 tb_step.lockW]) (use ij in \<open>simp_all add: d4 tb_Lock_def mu_Lock_def\<close>)
  have 6: "?R s6" unfolding s6_def
    by (rule step [OF 5 tb_step.lockW]) (use ij in \<open>simp_all add: s5_def d4 tb_Lock_def mu_Lock_def\<close>)
  have in6: "sysPc s6 i = InW t 0" "sysPc s6 j = InW t 1" using ij by (simp_all add: s6_def s5_def)
  have 7: "?R s7" unfolding s7_def
    by (rule step [OF 6 tb_step.unlockW [OF _ in6(1)]]) (simp_all add: s6_def s5_def d4 tb_Unlock_def mu_Unlock_def)
  have "tb_step UNIV s7 (s7\<lparr>sysDead := True\<rparr>)"
    by (rule tb_step.fatalW [where i = j and t = t and a = 1]) (use ij in6(2) in \<open>simp_all add: s7_def s6_def s5_def d4 tb_Unlock_def mu_Unlock_def\<close>)
  then have "?R (s7\<lparr>sysDead := True\<rparr>)" by (rule step [OF 7])
  moreover have "sysDead (s7\<lparr>sysDead := True\<rparr>)" by simp
  ultimately show ?thesis using 6 in6 by blast
qed

theorem first_use_breaks_the_lock_witness:
  "\<exists>s a b. (tb_step UNIV)\<^sup>*\<^sup>* (tb_created []) s \<and> sysPc s 0 = InW ''t'' a \<and> sysPc s 1 = InW ''t'' b"
  using first_use_breaks_the_lock [of 0 1 "''t''"] by simp

text \<open>Creating a table that exists does the same: \<^verbatim>\<open>CreateTable\<close> puts a new mutex under the table's name while a goroutine
  is inside under the old one, whose unlock then meets an unlocked mutex.\<close>

theorem recreating_a_table_breaks_its_lock: "\<exists>s. (tb_step {})\<^sup>*\<^sup>* (tb_created [t]) s \<and> sysDead s"
proof -
  let ?R = "(tb_step {})\<^sup>*\<^sup>* (tb_created [t])"
  have step: "?R s'" if "?R s" "tb_step {} s s'" for s s' using that by (rule rtranclp.rtrancl_into_rtrancl)
  define s1 where "s1 = move 0 (WaitW t 0) (sysTb (tb_created [t])) (tb_created [t])"
  define s2 where "s2 = move 0 (InW t 0) (tb_set 0 \<lparr>muWriter = True, muReaders = 0\<rparr> (sysTb s1)) s1"
  define s3 where "s3 = s2\<lparr>sysTb := tb_assign t (sysTb s2)\<rparr>"
  note d1 = s1_def tb_created_def NewTbMutex_def
  have 1: "?R s1" unfolding s1_def
    by (rule step [OF rtranclp.rtrancl_refl tb_step.lookW [where t = t]]) (simp_all add: tb_created_def NewTbMutex_def tb_lookup_def)
  have 2: "?R s2" unfolding s2_def by (rule step [OF 1 tb_step.lockW]) (simp_all add: d1 tb_Lock_def mu_Lock_def)
  have 3: "?R s3" unfolding s3_def by (rule step [OF 2 tb_step.create [where i = 1]]) (simp_all add: s2_def d1)
  have "tb_step {} s3 (s3\<lparr>sysDead := True\<rparr>)"
    by (rule tb_step.fatalW [where i = 0 and t = t and a = 0]) (simp_all add: s3_def s2_def d1 tb_Unlock_def mu_Unlock_def)
  then have "?R (s3\<lparr>sysDead := True\<rparr>)" by (rule step [OF 3])
  then show ?thesis by (intro exI [of _ "s3\<lparr>sysDead := True\<rparr>"]) simp
qed

end
