(* ===== verification/Durable.thy ===== *)
theory Durable
  imports Wal_Recovery Fsdb
begin

text \<open>
  The checkpoint files of \<^verbatim>\<open>src/internal/durable\<close>: one file with the number of the last record and,
  possibly, table snapshots, replaced through a temporary file and a rename.  The CBOR library is a parameter.  The
  disk has the contents of its files by path; every system call that writes takes the next outcome of \<open>ckIo\<close>, and
  \<open>ckReadErr\<close> is the error reads meet, if any.  A crash inside a save leaves what some failing outcome leaves.
\<close>

section \<open>The disk\<close>

record ckdisk =
  ckData :: "path \<rightharpoonup> bytes"
  ckIo :: "io_outcome list"
  ckReadErr :: "goerr option"

definition ck_next :: "ckdisk \<Rightarrow> io_outcome \<times> ckdisk" where
  "ck_next d = (case ckIo d of [] \<Rightarrow> (IoOk, d) | r # rs \<Rightarrow> (r, d\<lparr>ckIo := rs\<rparr>))"

definition ck_MkdirAll :: "string \<Rightarrow> ckdisk \<Rightarrow> goerr option \<times> ckdisk" where
  "ck_MkdirAll dir d = (case ck_next d of (IoOk, d) \<Rightarrow> (None, d) | (IoFail n, d) \<Rightarrow> (Some (ErrIO ''mkdir''), d))"

text \<open>\<^verbatim>\<open>os.WriteFile\<close> truncates first: a failure after \<open>n\<close> bytes leaves those.\<close>

definition ck_WriteFile :: "path \<Rightarrow> bytes \<Rightarrow> ckdisk \<Rightarrow> goerr option \<times> ckdisk" where
  "ck_WriteFile p raw d =
     (case ck_next d of
        (IoOk, d) \<Rightarrow> (None, d\<lparr>ckData := (ckData d)(p \<mapsto> raw)\<rparr>)
      | (IoFail n, d) \<Rightarrow> (Some (ErrIO ''write''), d\<lparr>ckData := (ckData d)(p \<mapsto> take n raw)\<rparr>))"

definition ck_Rename :: "path \<Rightarrow> path \<Rightarrow> ckdisk \<Rightarrow> goerr option \<times> ckdisk" where
  "ck_Rename p q d =
     (case ck_next d of
        (IoOk, d) \<Rightarrow> (None, d\<lparr>ckData := (ckData d)(p := None, q := ckData d p)\<rparr>)
      | (IoFail n, d) \<Rightarrow> (Some (ErrIO ''rename''), d))"

section \<open>Checkpoint files\<close>

record table_snap =
  tsData :: "(string \<times> bytes) list"
  tsFk :: "(string \<times> string list) list"

record checkpoint_file =
  cfVersion :: int
  cfLastSeq :: u64
  cfTables :: "(string \<times> table_snap) list"

definition zero_checkpoint :: checkpoint_file where
  "zero_checkpoint = \<lparr>cfVersion = 0, cfLastSeq = 0, cfTables = []\<rparr>"

record ck_codec =
  ckMarshal :: "checkpoint_file \<Rightarrow> goerr + bytes"
  ckUnmarshal :: "bytes \<Rightarrow> goerr + checkpoint_file"

text \<open>The configured file name is \<open>nm\<close>; the temporary file has \<^verbatim>\<open>.tmp\<close> appended to its path.\<close>

definition tmp_path :: "path \<Rightarrow> path" where
  "tmp_path p = butlast p @ [(if p = [] then [] else last p) @ ''.tmp'']"

definition parseCheckpointDir :: "ck_codec \<Rightarrow> string \<Rightarrow> string \<Rightarrow> ckdisk \<Rightarrow> goerr + checkpoint_file" where
  "parseCheckpointDir c nm dir d =
     (case ckReadErr d of
        Some err \<Rightarrow> Inl err
      | None \<Rightarrow>
          (case ckData d (Join [] [dir, nm]) of
             None \<Rightarrow> Inr zero_checkpoint
           | Some raw \<Rightarrow>
               (case ckUnmarshal c raw of
                  Inl err \<Rightarrow> Inl (ErrWrap ''durable: decode checkpoint'' err)
                | Inr cf \<Rightarrow>
                    if cfVersion cf \<noteq> 1 then Inl (ErrMsg ''durable: unsupported checkpoint version'') else Inr cf)))"

definition writeCheckpointAtomic :: "ck_codec \<Rightarrow> string \<Rightarrow> string \<Rightarrow> checkpoint_file \<Rightarrow> ckdisk \<Rightarrow> goerr option \<times> ckdisk" where
  "writeCheckpointAtomic c nm dir cf d =
     (case ck_MkdirAll dir d of
        (Some err, d) \<Rightarrow> (Some (ErrWrap ''durable: mkdir checkpoint dir'' err), d)
      | (None, d) \<Rightarrow>
          (case ckMarshal c cf of
             Inl err \<Rightarrow> (Some err, d)
           | Inr raw \<Rightarrow>
               let path = Join [] [dir, nm]; tmp = tmp_path path in
               (case ck_WriteFile tmp raw d of
                  (Some err, d) \<Rightarrow> (Some err, d)
                | (None, d) \<Rightarrow> ck_Rename tmp path d)))"

definition copyBytesMap :: "(string \<times> bytes) list \<Rightarrow> (string \<times> bytes) list" where
  "copyBytesMap m = map (\<lambda>(k, v). (k, v)) m"

definition durable_SaveLastSeq :: "ck_codec \<Rightarrow> string \<Rightarrow> string \<Rightarrow> u64 \<Rightarrow> ckdisk \<Rightarrow> goerr option \<times> ckdisk" where
  "durable_SaveLastSeq c nm dir seq d = writeCheckpointAtomic c nm dir \<lparr>cfVersion = 1, cfLastSeq = seq, cfTables = []\<rparr> d"

definition LoadLastSeq :: "ck_codec \<Rightarrow> string \<Rightarrow> string \<Rightarrow> ckdisk \<Rightarrow> goerr + u64" where
  "LoadLastSeq c nm dir d = (case parseCheckpointDir c nm dir d of Inl err \<Rightarrow> Inl err | Inr cf \<Rightarrow> Inr (cfLastSeq cf))"

definition SaveCheckpointTableBlobs :: "ck_codec \<Rightarrow> string \<Rightarrow> string \<Rightarrow> u64 \<Rightarrow> blobs \<Rightarrow> ckdisk \<Rightarrow> goerr option \<times> ckdisk" where
  "SaveCheckpointTableBlobs c nm dir lastSeq tables d =
     writeCheckpointAtomic c nm dir
       \<lparr>cfVersion = 1, cfLastSeq = lastSeq, cfTables = map (\<lambda>(name, rows). (name, \<lparr>tsData = copyBytesMap rows, tsFk = []\<rparr>)) tables\<rparr> d"

definition fcs_ReadCheckpointTables :: "ck_codec \<Rightarrow> string \<Rightarrow> string \<Rightarrow> ckdisk \<Rightarrow> goerr + u64 \<times> blobs" where
  "fcs_ReadCheckpointTables c nm dir d =
     (case parseCheckpointDir c nm dir d of
        Inl err \<Rightarrow> Inl err
      | Inr cf \<Rightarrow>
          if cfTables cf = [] then Inr (cfLastSeq cf, [])
          else Inr (cfLastSeq cf, map (\<lambda>(name, snap). (name, copyBytesMap (tsData snap))) (cfTables cf)))"

text \<open>The environment of a log whose checkpoints are kept here, beside the store's own state.\<close>

definition file_env :: "ck_codec \<Rightarrow> string \<Rightarrow> ('s \<Rightarrow> goerr option \<times> 's) option \<Rightarrow> (ckdisk \<times> 's) wal_env" where
  "file_env c nm before =
     \<lparr>ReadCheckpointTables = (\<lambda>dir (d, s). fcs_ReadCheckpointTables c nm dir d),
      SaveLastSeq = (\<lambda>dir seq (d, s). case durable_SaveLastSeq c nm dir seq d of (err, d) \<Rightarrow> (err, d, s)),
      BeforeCheckpoint = map_option (\<lambda>f (d, s). case f s of (err, s) \<Rightarrow> (err, d, s)) before\<rparr>"

text \<open>A series of saves, and the checkpoint it should leave: the last one that succeeded.\<close>

fun save_all :: "(u64 \<Rightarrow> 'x \<Rightarrow> goerr option \<times> 'x) \<Rightarrow> u64 list \<Rightarrow> 'x \<Rightarrow> (goerr + u64 \<times> blobs) \<Rightarrow> (goerr + u64 \<times> blobs) \<times> 'x" where
  "save_all sv [] x r = (r, x)"
| "save_all sv (q # qs) x r =
     (case sv q x of (None, y) \<Rightarrow> save_all sv qs y (Inr (q, [])) | (Some err, y) \<Rightarrow> save_all sv qs y r)"

section \<open>The contract of a checkpoint store\<close>

text \<open>
  What the log relies on in \<^verbatim>\<open>wal.CheckpointStore\<close>: a save that returned without an error is what the next
  read finds, and a save that failed left what was there.
\<close>

locale checkpoint_store =
  fixes read :: "string \<Rightarrow> 'x \<Rightarrow> goerr + u64 \<times> blobs"
    and save :: "string \<Rightarrow> u64 \<Rightarrow> 'x \<Rightarrow> goerr option \<times> 'x"
    and ready :: "'x \<Rightarrow> bool"
  assumes save_read: "ready x \<Longrightarrow> save dir seq x = (None, x') \<Longrightarrow> ready x' \<and> read dir x' = Inr (seq, [])"
    and save_failed: "ready x \<Longrightarrow> save dir seq x = (Some err, x') \<Longrightarrow> ready x' \<and> read dir x' = read dir x"
begin

text \<open>A checkpoint that succeeded is where the next load starts.\<close>

lemma checkpoint_then_read:
  assumes "checkpointLocked env w x = (None, w', x')" and "wal_inv w es"
    and "ReadCheckpointTables env = read" "SaveLastSeq env = save" and "\<And>y. run_before env x = (None, y) \<Longrightarrow> ready y"
  shows "ready x' \<and> read (CheckpointDir (wOpts w)) x' = Inr (wSeq w, [])"
  using checkpointLocked_ok [OF assms(1,2)] save_read assms(3-5) by metis

text \<open>Whatever happens to a series of saves, a read finds the last one that succeeded.\<close>

lemma read_last_saved: "ready x \<Longrightarrow> read dir x = r \<Longrightarrow> save_all (save dir) qs x r = (r', x') \<Longrightarrow> read dir x' = r'"
proof (induction qs arbitrary: x r)
  case (Cons q qs)
  obtain e y where y: "save dir q x = (e, y)" by (cases "save dir q x")
  then show ?case
    using Cons.IH [of y] Cons.prems save_read [of x dir q y] save_failed [of x dir q] by (cases e) auto
qed simp

end

definition ck_codec_faithful :: "ck_codec \<Rightarrow> bool" where
  "ck_codec_faithful c \<longleftrightarrow> (\<forall>cf raw. ckMarshal c cf = Inr raw \<longrightarrow> ckUnmarshal c raw = Inr cf)"

lemma tmp_path_neq [simp]: "tmp_path p \<noteq> p" "p \<noteq> tmp_path p"
proof -
  show "tmp_path p \<noteq> p"
    by (cases p rule: rev_cases) (simp_all add: tmp_path_def)
  then show "p \<noteq> tmp_path p" by metis
qed

lemma write_result:
  assumes "writeCheckpointAtomic c nm dir cf d = (err, d')"
  shows "ckReadErr d' = ckReadErr d"
    and "err = None \<Longrightarrow> \<exists>raw. ckMarshal c cf = Inr raw \<and> ckData d' (Join [] [dir, nm]) = Some raw"
    and "err \<noteq> None \<Longrightarrow> ckData d' (Join [] [dir, nm]) = ckData d (Join [] [dir, nm])"
  using assms
  by (auto simp: writeCheckpointAtomic_def ck_MkdirAll_def ck_WriteFile_def ck_Rename_def ck_next_def Let_def
      split: prod.splits option.splits sum.splits list.splits io_outcome.splits)

lemma parse_written:
  assumes "writeCheckpointAtomic c nm dir cf d = (None, d')" and "ck_codec_faithful c" and "ckReadErr d = None" and "cfVersion cf = 1"
  shows "parseCheckpointDir c nm dir d' = Inr cf"
  using write_result [OF assms(1)] assms(2-4) by (auto simp: parseCheckpointDir_def ck_codec_faithful_def)

lemma parse_failed:
  assumes "writeCheckpointAtomic c nm dir cf d = (Some err, d')"
  shows "parseCheckpointDir c nm dir d' = parseCheckpointDir c nm dir d"
  using write_result [OF assms] by (simp add: parseCheckpointDir_def cong: option.case_cong)

text \<open>The checkpoint files fulfil the contract, alone and beside the state of a store.\<close>

lemma save_found:
  assumes "ck_codec_faithful c" and "ckReadErr d = None" and "durable_SaveLastSeq c nm dir seq d = (None, d')"
  shows "ckReadErr d' = None \<and> fcs_ReadCheckpointTables c nm dir d' = Inr (seq, [])"
proof -
  note w = assms(3) [unfolded durable_SaveLastSeq_def]
  show ?thesis using parse_written [OF w assms(1,2)] write_result(1) [OF w] assms(2) by (simp add: fcs_ReadCheckpointTables_def)
qed

lemma save_lost:
  assumes "durable_SaveLastSeq c nm dir seq d = (Some err, d')"
  shows "ckReadErr d' = ckReadErr d \<and> fcs_ReadCheckpointTables c nm dir d' = fcs_ReadCheckpointTables c nm dir d"
proof -
  note w = assms [unfolded durable_SaveLastSeq_def]
  show ?thesis using parse_failed [OF w] write_result(1) [OF w] by (simp add: fcs_ReadCheckpointTables_def)
qed

interpretation fcs: checkpoint_store "fcs_ReadCheckpointTables c nm" "durable_SaveLastSeq c nm"
  "\<lambda>d. ck_codec_faithful c \<and> ckReadErr d = None" for c nm
  using save_found save_lost by unfold_locales (blast, fastforce)

lemma file_env_simps [simp]:
  "ReadCheckpointTables (file_env c nm before) dir (d, s) = fcs_ReadCheckpointTables c nm dir d"
  "SaveLastSeq (file_env c nm before) dir seq (d, s) = (case durable_SaveLastSeq c nm dir seq d of (err, d) \<Rightarrow> (err, d, s))"
  "run_before (file_env c nm (Some f)) (d, s) = (case f s of (err, s) \<Rightarrow> (err, d, s))"
  "run_before (file_env c nm None) x = (None, x)"
  by (simp_all add: file_env_def run_before_def)

interpretation fcx: checkpoint_store "ReadCheckpointTables (file_env c nm before)" "SaveLastSeq (file_env c nm before)"
  "\<lambda>x. ck_codec_faithful c \<and> ckReadErr (fst x) = None" for c nm before
proof (unfold_locales, goal_cases)
  case (1 x dir seq x')
  then show ?case using save_found [of c "fst x" nm dir seq "fst x'"] by (cases x; cases x') (auto split: prod.splits)
next
  case (2 x dir seq err x')
  then show ?case using save_lost [of c nm dir seq "fst x" err "fst x'"] by (cases x; cases x') (auto split: prod.splits)
qed

section \<open>Properties\<close>

text \<open>C18. Saving a checkpoint is atomic: after any series of saves, each of which may fail at any system call and after any
  number of bytes, the checkpoint that is read is the last one whose save reported success, and the one that was there
  before if none did; a half-written temporary file is never read.\<close>

theorem checkpoint_saves_are_atomic:
  assumes "ck_codec_faithful c" and "ckReadErr d = None"
    and "save_all (durable_SaveLastSeq c nm dir) qs d (fcs_ReadCheckpointTables c nm dir d) = (r, d')"
  shows "fcs_ReadCheckpointTables c nm dir d' = r"
  using fcs.read_last_saved [of c d nm dir _ qs r d'] assms by simp

text \<open>Table snapshots come back as they were saved.\<close>

theorem checkpoint_tables_roundtrip:
  assumes "ck_codec_faithful c" and "ckReadErr d = None" and "SaveCheckpointTableBlobs c nm dir seq tables d = (None, d')"
  shows "fcs_ReadCheckpointTables c nm dir d' = Inr (seq, tables) \<and> LoadLastSeq c nm dir d' = Inr seq"
proof -
  have "copyBytesMap rows = rows" for rows by (simp add: copyBytesMap_def case_prod_eta)
  then show ?thesis
    using parse_written [OF assms(3) [unfolded SaveCheckpointTableBlobs_def] assms(1,2)]
    by (auto simp: fcs_ReadCheckpointTables_def LoadLastSeq_def comp_def case_prod_unfold)
qed

text \<open>A codec that can encode a few files, one of them with a table.\<close>

definition demo_snapshot :: "u64 \<Rightarrow> checkpoint_file" where
  "demo_snapshot seq = \<lparr>cfVersion = 1, cfLastSeq = seq, cfTables = (if seq = 9 then [(''t'', \<lparr>tsData = [(''a'', [1])], tsFk = []\<rparr>)] else [])\<rparr>"

definition demo_ck :: ck_codec where
  "demo_ck =
     \<lparr>ckMarshal = (\<lambda>cf. if cf = demo_snapshot 1 then Inr [0, 1] else if cf = demo_snapshot 2 then Inr [0, 2]
        else if cf = demo_snapshot 9 then Inr [0, 9] else Inl (ErrMsg ''marshal'')),
      ckUnmarshal = (\<lambda>b. if b = [0, 1] then Inr (demo_snapshot 1) else if b = [0, 2] then Inr (demo_snapshot 2)
        else if b = [0, 9] then Inr (demo_snapshot 9) else Inl (ErrMsg ''unmarshal''))\<rparr>"

lemma demo_ck_faithful: "ck_codec_faithful demo_ck"
  by (simp add: ck_codec_faithful_def demo_ck_def)

definition demo_ckdisk :: "io_outcome list \<Rightarrow> ckdisk" where
  "demo_ckdisk io = \<lparr>ckData = Map.empty, ckIo = io, ckReadErr = None\<rparr>"

lemmas demo_ck_defs = demo_ck_def demo_snapshot_def demo_ckdisk_def durable_SaveLastSeq_def writeCheckpointAtomic_def
  ck_MkdirAll_def ck_WriteFile_def ck_Rename_def ck_next_def Let_def

text \<open>The first save succeeds; the second one fails in the middle of its write.\<close>

theorem checkpoint_saves_are_atomic_witness:
  "\<exists>d'. save_all (durable_SaveLastSeq demo_ck ''c'' ''d'') [1, 2] (demo_ckdisk [IoOk, IoOk, IoOk, IoOk, IoFail 1]) (Inr (0, [])) = (Inr (1, []), d')
     \<and> fcs_ReadCheckpointTables demo_ck ''c'' ''d'' d' = Inr (1, [])"
proof -
  let ?d = "demo_ckdisk [IoOk, IoOk, IoOk, IoOk, IoFail 1]"
  have r: "fcs_ReadCheckpointTables demo_ck ''c'' ''d'' ?d = Inr (0, [])" "ckReadErr ?d = None"
    by (simp_all add: demo_ckdisk_def fcs_ReadCheckpointTables_def parseCheckpointDir_def zero_checkpoint_def)
  obtain d' where d': "save_all (durable_SaveLastSeq demo_ck ''c'' ''d'') [1, 2] ?d (Inr (0, [])) = (Inr (1, []), d')"
    by (simp add: demo_ck_defs)
  then show ?thesis using checkpoint_saves_are_atomic [OF demo_ck_faithful r(2), of "''c''" "''d''" "[1, 2]", unfolded r(1), OF d'] by blast
qed

theorem checkpoint_tables_roundtrip_witness:
  "\<exists>d'. SaveCheckpointTableBlobs demo_ck ''c'' ''d'' 9 [(''t'', [(''a'', [1])])] (demo_ckdisk []) = (None, d')
     \<and> fcs_ReadCheckpointTables demo_ck ''c'' ''d'' d' = Inr (9, [(''t'', [(''a'', [1])])])"
proof -
  obtain d' where d': "SaveCheckpointTableBlobs demo_ck ''c'' ''d'' 9 [(''t'', [(''a'', [1])])] (demo_ckdisk []) = (None, d')"
    by (simp add: demo_ck_defs SaveCheckpointTableBlobs_def copyBytesMap_def)
  then show ?thesis using checkpoint_tables_roundtrip [OF demo_ck_faithful _ d'] by (simp add: demo_ckdisk_def)
qed

end
