(* ===== verification/Tasks.thy ===== *)
theory Tasks
  imports Durable Adapter_Properties
begin

text \<open>
  The background loops of \<^verbatim>\<open>src/internal/tasks/periodic.go\<close>.  A loop is run over the ticks that reach it
  before its context is cancelled; an error is logged and the loop goes on.
\<close>

record fs_limits =
  Interval :: int
  MaxPendingKeys :: int
  MaxPendingBytes :: int
  PendingPollEvery :: int
  PerFlushTimeout :: int

definition shouldPeriodicFlushByPending :: "int \<Rightarrow> int \<Rightarrow> fs_limits \<Rightarrow> bool" where
  "shouldPeriodicFlushByPending keys bytes lim =
     (if MaxPendingKeys lim > 0 \<and> keys \<ge> MaxPendingKeys lim then True
      else if MaxPendingBytes lim > 0 \<and> bytes \<ge> MaxPendingBytes lim then True
      else False)"

text \<open>The deadline of one flush is not observed by \<^verbatim>\<open>Flush\<close>, which never looks at its context.\<close>

definition runFSFlushOnce :: "'s inner_db \<Rightarrow> 's batcher \<Rightarrow> 's batcher" where
  "runFSFlushOnce db b = snd (Flush db b)"

datatype fs_tick = FlushTick | PollTick

definition polling :: "fs_limits \<Rightarrow> bool" where
  "polling lim \<longleftrightarrow> PendingPollEvery lim > 0 \<and> (MaxPendingKeys lim > 0 \<or> MaxPendingBytes lim > 0)"

fun fs_loop :: "'s inner_db \<Rightarrow> fs_limits \<Rightarrow> fs_tick list \<Rightarrow> 's batcher \<Rightarrow> 's batcher" where
  "fs_loop db lim [] b = b"
| "fs_loop db lim (FlushTick # evs) b = fs_loop db lim evs (runFSFlushOnce db b)"
| "fs_loop db lim (PollTick # evs) b =
     (if \<not> polling lim then fs_loop db lim evs b
      else case PendingDirty b of (keys, bytes) \<Rightarrow>
        fs_loop db lim evs (if shouldPeriodicFlushByPending keys bytes lim then runFSFlushOnce db b else b))"

definition RunPeriodicFSFlush :: "'s inner_db \<Rightarrow> fs_limits \<Rightarrow> fs_tick list \<Rightarrow> 's batcher \<Rightarrow> 's batcher" where
  "RunPeriodicFSFlush db lim evs b = (if Interval lim \<le> 0 then b else fs_loop db lim evs b)"

text \<open>One round of the checkpoint loop per tick.\<close>

fun RunPeriodicWALCheckpoint :: "'x wal_env \<Rightarrow> nat \<Rightarrow> wal \<Rightarrow> 'x \<Rightarrow> wal \<times> 'x" where
  "RunPeriodicWALCheckpoint env 0 w x = (w, x)"
| "RunPeriodicWALCheckpoint env (Suc n) w x =
     (case Checkpoint env w x of (err, w, x) \<Rightarrow> RunPeriodicWALCheckpoint env n w x)"

section \<open>Flushing keeps the contents and empties the buffer\<close>

lemma flushed:
  assumes "wb_inv sprint b"
  shows "\<exists>b'. Flush (fs_ops sprint decode) b = (None, b') \<and> pend b' = [] \<and> bopts b' = bopts b \<and> sel (inner b') = wb_sel sprint b
    \<and> wb_inv sprint b' \<and> tables (inner b') = tables (inner b)"
  using fs.flush_law [of "fs_ops sprint decode" sprint b] assms
  by (auto simp: fs_ops_def Flush_def bt_inv_def pend_ok_def)

definition accounted :: "'s batcher \<Rightarrow> bool" where
  "accounted b \<longleftrightarrow> (pend b = [] \<longrightarrow> bytesN b = 0)"

lemma flush_loop_resets: "flush_loop db mks b = (None, b') \<Longrightarrow> bytesN b' = 0"
  by (induction db mks b rule: flush_loop.induct) (auto split: option.splits prod.splits)

lemma flush_once:
  assumes "wb_inv sprint b" and "accounted b" and "runFSFlushOnce (fs_ops sprint decode) b = b'"
  shows "wb_inv sprint b' \<and> sel (inner b') = wb_sel sprint b \<and> pend b' = [] \<and> bytesN b' = 0 \<and> accounted b'"
proof -
  obtain b1 where b1: "Flush (fs_ops sprint decode) b = (None, b1)" "pend b1 = []" "sel (inner b1) = wb_sel sprint b" "wb_inv sprint b1"
    using flushed [OF assms(1), of decode] by auto
  have "bytesN b1 = 0"
    using b1(1) assms(2) flush_loop_resets by (auto simp: Flush_def flushAllLocked_def accounted_def split: if_splits)
  then show ?thesis using b1 assms(3) by (simp add: runFSFlushOnce_def accounted_def)
qed

lemma fs_loop_keeps:
  assumes "wb_inv sprint b" and "accounted b"
  shows "wb_inv sprint (fs_loop (fs_ops sprint decode) lim evs b) \<and> accounted (fs_loop (fs_ops sprint decode) lim evs b)
    \<and> wb_sel sprint (fs_loop (fs_ops sprint decode) lim evs b) = wb_sel sprint b"
  using assms
proof (induction "fs_ops sprint decode" lim evs b rule: fs_loop.induct)
  case (2 lim evs b)
  then show ?case using flush_once [OF 2(2,3) refl, of decode] by simp
next
  case (3 lim evs b)
  then show ?case using flush_once [OF 3(3,4) refl, of decode] by (auto split: prod.splits)
qed simp

lemma fs_loop_append: "fs_loop db lim (evs @ evs') b = fs_loop db lim evs' (fs_loop db lim evs b)"
  by (induction db lim evs b rule: fs_loop.induct) (auto split: prod.splits)

text \<open>The batcher's own flusher is the same loop without polling; stopping it, once or again, keeps the contents.\<close>

lemma loopPeriodicFlush_fs: "loopPeriodicFlush db ticks b = fs_loop db lim (replicate ticks FlushTick) b"
  by (induction ticks arbitrary: b) (simp_all add: runFSFlushOnce_def)

lemma wb_stop_keeps:
  assumes "wb_inv sprint b" and "accounted b" and "wb_Stop (fs_ops sprint decode) ticks fl b = (fl', b')"
  shows "wb_inv sprint b' \<and> wb_sel sprint b' = wb_sel sprint b \<and> fl' \<noteq> FlusherRunning \<and> wb_Stop (fs_ops sprint decode) ticks' fl' b' = (fl', b')"
  using assms(3) fs_loop_keeps [OF assms(1,2), of decode undefined "replicate ticks FlushTick"] assms(1)
  by (cases fl) (auto simp: loopPeriodicFlush_fs [of _ _ _ undefined])

text \<open>C21. The background flush is invisible and bounds what a crash can find unwritten: over any sequence of ticks the
  batcher keeps its invariant and represents the same contents; after a tick of the interval nothing is pending, and
  after a poll the pending keys and bytes are below the limits that trigger a flush.\<close>

theorem periodic_flush_bounds_the_buffer:
  assumes "wb_inv sprint b" and "accounted b" and "0 < Interval lim"
    and "RunPeriodicFSFlush (fs_ops sprint decode) lim (evs @ [ev]) b = b'"
  shows "wb_inv sprint b' \<and> wb_sel sprint b' = wb_sel sprint b \<and> (ev = FlushTick \<longrightarrow> pend b' = [])
    \<and> (ev = PollTick \<and> polling lim \<longrightarrow> (case PendingDirty b' of (keys, bytes) \<Rightarrow> \<not> shouldPeriodicFlushByPending keys bytes lim))"
proof -
  let ?db = "fs_ops sprint decode" and ?b1 = "fs_loop (fs_ops sprint decode) lim evs b"
  have b1: "wb_inv sprint ?b1" "accounted ?b1" using fs_loop_keeps [OF assms(1,2)] by simp_all
  have b': "b' = fs_loop ?db lim [ev] ?b1" using assms(3,4) by (simp add: RunPeriodicFSFlush_def fs_loop_append)
  note f = flush_once [OF b1 refl, of decode]
  have "wb_inv sprint b' \<and> wb_sel sprint b' = wb_sel sprint b"
    using fs_loop_keeps [OF assms(1,2), of decode lim "evs @ [ev]"] assms(3,4) by (simp add: RunPeriodicFSFlush_def)
  moreover have "ev = FlushTick \<longrightarrow> pend b' = []" using b' f by auto
  moreover have "\<not> shouldPeriodicFlushByPending keys bytes lim" if "ev = PollTick" "polling lim" "PendingDirty b' = (keys, bytes)" for keys bytes
    using b' f that by (auto simp: PendingDirty_def shouldPeriodicFlushByPending_def split: if_splits)
  ultimately show ?thesis by auto
qed

theorem periodic_flush_bounds_the_buffer_witness:
  "\<exists>d b'. CreateTable ''t'' (empty_db [''data'']) = (None, d)
     \<and> RunPeriodicFSFlush (fs_ops (\<lambda>_. []) (\<lambda>_. Inl ErrTruncated))
         \<lparr>Interval = 60, MaxPendingKeys = 1, MaxPendingBytes = 0, PendingPollEvery = 1, PerFlushTimeout = 30\<rparr> [PollTick]
         \<lparr>inner = d, bopts = demo_deferred, pend = [((''t'', ''a''), BatchSet (demo_ent ''a'' []))], bytesN = 9\<rparr> = b'
     \<and> sel (inner b') ''t'' ''a'' = Some (demo_ent ''a'' []) \<and> fst (PendingDirty b') < 1"
proof -
  obtain d where d: "CreateTable ''t'' (empty_db [''data'']) = (None, d)" "db_inv d" "''t'' \<in> tables d"
    by (rule demo_db) (rule that)
  let ?b = "\<lparr>inner = d, bopts = demo_deferred, pend = [((''t'', ''a''), BatchSet (demo_ent ''a'' []))], bytesN = 9\<rparr>"
  let ?lim = "\<lparr>Interval = 60, MaxPendingKeys = 1, MaxPendingBytes = 0, PendingPollEvery = 1, PerFlushTimeout = 30\<rparr>"
  define b' where "b' = RunPeriodicFSFlush (fs_ops (\<lambda>_. []) (\<lambda>_. Inl ErrTruncated)) ?lim ([] @ [PollTick]) ?b"
  have i: "wb_inv (\<lambda>_. []) ?b" "accounted ?b" using d by (simp_all add: bt_inv_def pend_ok_def bop_ok_def demo_deferred_def accounted_def)
  have p: "fst (PendingDirty b') < 1" "wb_sel (\<lambda>_. []) b' = wb_sel (\<lambda>_. []) ?b"
    using periodic_flush_bounds_the_buffer [OF i _ b'_def [symmetric]]
    by (auto simp: polling_def shouldPeriodicFlushByPending_def PendingDirty_def Suc_le_eq split: if_splits)
  then have "pend b' = []" by (simp add: PendingDirty_def)
  then have "sel (inner b') ''t'' ''a'' = Some (demo_ent ''a'' [])" using p(2) by (simp add: overlay_def)
  then show ?thesis using d(1) p(1) b'_def by auto
qed

end
