(* ===== verification/Restart.thy ===== *)
theory Restart
  imports Tasks
begin

text \<open>
  A store that survives crashes of its process.  Below a store's contents is what of them has reached the disk
  (\<open>kept\<close>), and beside it the place where the checkpoint is recorded (\<open>aux\<close>).  The locale \<open>durable_store\<close> states what
  the recovery needs: a write reaches the disk now or later, never another value; a checkpoint first brings everything
  to the disk; nothing but a saved checkpoint moves the mark.  Inside it, the invariant \<open>up\<close> says how the contents are
  the acknowledged requests applied to the contents the log began with; every operation, every background task,
  successful or not, and a crash with the load that follows keep it.
\<close>

definition spilled :: "contents \<Rightarrow> contents \<Rightarrow> contents \<Rightarrow> bool" where
  "spilled old new all \<longleftrightarrow> (\<forall>t k. new t k = old t k \<or> new t k = all t k)"

lemma outside_effects: "(t, k) \<notin> req_target ` set rs \<Longrightarrow> fold (req_effect nf) rs m t k = m t k"
proof (induction rs arbitrary: m)
  case (Cons r rs)
  then show ?case by (cases r) (auto simp: upd_apply)
qed simp

lemma req_entries_append:
  assumes "length (req_entries c s rs) = length rs"
  shows "req_entries c s (rs @ qs) = req_entries c s rs @ req_entries c (s + of_nat (length rs)) qs"
  using assms
proof (induction rs arbitrary: s)
  case (Cons q rs)
  then show ?case by (auto simp: algebra_simps split: sum.splits)
qed simp

lemma wal_run_seq:
  assumes "wal_run c env rs w x = (None, w', x')" and "auto_off (wOpts w)"
  shows "wSeq w' = wSeq w + of_nat (length rs)"
  using assms
proof (induction rs arbitrary: w x)
  case (Cons r rs)
  obtain w1 x1 where r1: "wal_exec c env r w x = (None, w1, x1)" "wal_run c env rs w1 x1 = (None, w', x')"
    using Cons.prems(1) by (auto split: prod.splits option.splits)
  obtain e w2 where e: "appendLocked e w = (None, w2)" "maybeAutoCheckpointLocked env (w2\<lparr>wSeq := wSeq w + 1\<rparr>) x = (None, w1, x1)"
    using wal_exec_appends [OF r1(1)] by blast
  have "w1 = w2\<lparr>wSeq := wSeq w + 1\<rparr>" "wOpts w2 = wOpts w" using e(2) Cons.prems(2) appendLocked_seq [OF e(1)] by (simp_all add: maybeAuto_off)
  then show ?case using Cons.IH [OF r1(2)] Cons.prems(2) by (simp add: algebra_simps)
qed simp

lemma flushLocked_synced:
  assumes "flushLocked w = (err, w')" and "wBufw w = None" and "fsynced (wFile w) = fdata (wFile w)"
  shows "\<exists>f. w' = w\<lparr>wFile := f\<rparr> \<and> fdata f = fdata (wFile w) \<and> fpos f = fpos (wFile w) \<and> fsynced f = fdata f"
  using assms by (auto simp: flushLocked_def syncAndHook_def file_Sync_def next_outcome_def split: option.splits prod.splits list.splits io_outcome.splits)

text \<open>The options of a log that recovery relies on.\<close>

definition steady :: "string \<Rightarrow> options \<Rightarrow> bool" where
  "steady dir opts \<longleftrightarrow> Durability opts = SyncEveryWrite \<and> auto_off opts \<and> CheckpointConfigured opts \<and> CheckpointDir opts = dir
     \<and> \<not> TruncateAfterCheckpoint (CheckpointPolicy opts)"

section \<open>Write requests\<close>

text \<open>Everything that writes through the adapter: the requests of the handlers and the entries applied on a follower.\<close>

datatype db_write =
    DbSet string item | DbDelete string delete_item | DbBulkSet string "item list" | DbBulkDel string "delete_item list"
  | DbApply string item | DbApplyDelete string delete_item | DbApplyBulk string "item list" | DbApplyBulkDelete string "delete_item list"

fun db_write_exec :: "'x adapter_cfg \<Rightarrow> db_write \<Rightarrow> 'x adapter \<Rightarrow> goerr option \<times> 'x adapter" where
  "db_write_exec g (DbSet t it) a = ad_Set g t it a"
| "db_write_exec g (DbDelete t d) a = ad_Delete g t d a"
| "db_write_exec g (DbBulkSet t its) a = ad_BulkSet g t its a"
| "db_write_exec g (DbBulkDel t ds) a = ad_BulkDel g t ds a"
| "db_write_exec g (DbApply t it) a = ad_ApplyReplicated g t it a"
| "db_write_exec g (DbApplyDelete t d) a = ad_ApplyReplicatedDelete g t d a"
| "db_write_exec g (DbApplyBulk t its) a = ad_ApplyReplicatedBulk g t its a"
| "db_write_exec g (DbApplyBulkDelete t ds) a = ad_ApplyReplicatedBulkDelete g t ds a"

fun db_table :: "db_write \<Rightarrow> string" where
  "db_table (DbSet t it) = t"
| "db_table (DbDelete t d) = t"
| "db_table (DbBulkSet t its) = t"
| "db_table (DbBulkDel t ds) = t"
| "db_table (DbApply t it) = t"
| "db_table (DbApplyDelete t d) = t"
| "db_table (DbApplyBulk t its) = t"
| "db_table (DbApplyBulkDelete t ds) = t"

text \<open>The records a write leaves in the log.\<close>

fun db_records :: "db_write \<Rightarrow> wal_req list" where
  "db_records (DbSet t it) = [ReqSet t (item_Entity it)]"
| "db_records (DbDelete t d) = [ReqDel t (dKey d)]"
| "db_records (DbBulkSet t its) = map (\<lambda>it. ReqSet t (item_Entity it)) its"
| "db_records (DbBulkDel t ds) = map (\<lambda>d. ReqDel t (dKey d)) ds"
| "db_records (DbApply t it) = [ReqSet t (item_Entity it)]"
| "db_records (DbApplyDelete t d) = [ReqDel t (dKey d)]"
| "db_records (DbApplyBulk t its) = map (\<lambda>it. ReqSet t (item_Entity it)) its"
| "db_records (DbApplyBulkDelete t ds) = map (\<lambda>d. ReqDel t (dKey d)) ds"

lemma req_table_db: "q \<in> set (db_records r) \<Longrightarrow> req_table q = db_table r"
  by (cases r) auto

context adapter_store
begin

text \<open>An adapter that took requests: their records are in the log, their effects in the store.\<close>

definition took :: "'s adapter_cfg \<Rightarrow> wal_req list \<Rightarrow> 's adapter \<Rightarrow> 's adapter \<Rightarrow> bool" where
  "took g qs a a' \<longleftrightarrow> inv (aStore a') \<and> tabs (aStore a') = tabs (aStore a) \<and> cache_inv (aCache a')
     \<and> content (aStore a') = fold (req_effect norm) qs (content (aStore a))
     \<and> (\<exists>w w'. aLog a = Some w \<and> aLog a' = Some w' \<and> wal_run (cfgCodec g) (cfgEnv g) qs w (aStore a) = (None, w', aStore a))"

lemma write_through_took:
  assumes i: "inv (aStore a)" "t \<in> tabs (aStore a)" "auto_ckpt_off a" "cache_inv (aCache a)" and e: "okent e" and g: "cfgStore g = st"
    and w: "write_through msg g t e a = (None, a')"
  shows "took g [ReqSet t e] a a' \<and> put t e (aStore a) = (None, aStore a')"
proof -
  let ?fn = "\<lambda>x. case put t e x of (err, x) \<Rightarrow> (wrap ''db: put entity'' err, x)"
  have co: "mem.coherent (aCache a) (\<lambda>_ _. True)" using i(4) by (simp add: mem.coherent_def)
  obtain a1 where a1: "log_call (wal_Set (cfgCodec g) (cfgEnv g) t e) a = (None, a1)"
      "(case SaveIfOk (adapter_key (iKey e)) e ?fn (aCache a1) (aStore a1) of (err, c, x) \<Rightarrow> (err, a1\<lparr>aCache := c, aStore := x\<rparr>)) = (None, a')"
    using w g st_ops by (auto simp: write_through_def split: prod.splits option.splits)
  have a: "aStore a1 = aStore a" "cache_inv (aCache a1)" using log_frames(1) [OF a1(1) i(3)] i(4) by simp_all
  obtain c2 where "SaveIfOk (adapter_key (iKey e)) e ?fn (aCache a1) (aStore a1) = (None, c2, aStore a')"
    using a1(2) by (auto split: prod.splits)
  from SaveIfOk_law [OF a(2) this] have "put t e (aStore a) = (None, aStore a')" using a(1) by (auto simp: wrap_def split: prod.splits)
  then show ?thesis
    using write_through_law [OF i(1-3) co e g w, of "\<lambda>_ _ _. True"] by (auto simp: took_def mem.coherent_def)
qed

lemma delete_through_took:
  assumes i: "inv (aStore a)" "t \<in> tabs (aStore a)" "auto_ckpt_off a" "cache_inv (aCache a)" and k: "okname k" and g: "cfgStore g = st"
    and w: "delete_through m1 m2 g t k a = (None, a')"
  shows "took g [ReqDel t k] a a' \<and> del t k (aStore a) = (None, aStore a')"
proof -
  let ?fn = "\<lambda>x. case del t k x of (err, x) \<Rightarrow> (wrap m2 err, x)"
  have co: "mem.coherent (aCache a) (\<lambda>_ _. True)" using i(4) by (simp add: mem.coherent_def)
  obtain a1 where a1: "log_call (wal_Delete (cfgEnv g) t k) a = (None, a1)"
      "(case DelIfOk (adapter_key k) ?fn (aCache a1) (aStore a1) of (err, c, x) \<Rightarrow> (err, a1\<lparr>aCache := c, aStore := x\<rparr>)) = (None, a')"
    using w g st_ops by (auto simp: delete_through_def split: prod.splits option.splits)
  have a: "aStore a1 = aStore a" "cache_inv (aCache a1)" using log_frames(2) [OF a1(1) i(3)] i(4) by simp_all
  obtain c2 where "DelIfOk (adapter_key k) ?fn (aCache a1) (aStore a1) = (None, c2, aStore a')"
    using a1(2) by (auto split: prod.splits)
  from DelIfOk_law [OF a(2) this] have "del t k (aStore a) = (None, aStore a')" using a(1) by (auto simp: wrap_def split: prod.splits)
  then show ?thesis
    using delete_through_law [OF i(1-3) co k g w, of "\<lambda>_ _ _. True"] by (auto simp: took_def mem.coherent_def)
qed

lemma bulk_write_took:
  assumes i: "inv (aStore a)" "t \<in> tabs (aStore a)" "auto_ckpt_off a" "cache_inv (aCache a)"
    and e: "\<forall>it\<in>set its. okent (item_Entity it)" and g: "cfgStore g = st" and w: "bulk_write m1 m2 g t its a = (None, a')"
  shows "took g (map (\<lambda>it. ReqSet t (item_Entity it)) its) a a' \<and> stBulkSet st t (items_Entities its) (aStore a) = (None, aStore a')"
proof -
  let ?es = "items_Entities its"
  obtain a1 where l: "log_call (wal_BulkSet (cfgCodec g) (cfgEnv g) t ?es) a = (None, a1)"
    using w by (auto simp: bulk_write_def Let_def split: prod.splits option.splits)
  note fr = log_frames(3) [OF l i(3)]
  obtain s' where s': "stBulkSet st t ?es (aStore a) = (None, s')" "inv s'" "tabs s' = tabs (aStore a)"
      "content s' = fold (\<lambda>e. upd t (iKey e) (Some (norm e))) ?es (content (aStore a))"
    using bulk_set_law [OF i(1,2), of ?es] e by (auto simp: items_Entities_def)
  have a': "a' = a1\<lparr>aStore := s'\<rparr>" using w l fr s'(1) g by (simp add: bulk_write_def Let_def wrap_def)
  obtain w0 w1 where w1: "aLog a = Some w0" "aLog a1 = Some w1" "wal_BulkSet (cfgCodec g) (cfgEnv g) t ?es w0 (aStore a) = (None, w1, aStore a)"
    using fr by auto
  have "wal_run (cfgCodec g) (cfgEnv g) (map (ReqSet t) ?es) w0 (aStore a) = (None, w1, aStore a)"
    by (rule wal_bulk_run(1) [OF auto_ckpt_off_log [OF i(3) w1(1)] w1(3)])
  then show ?thesis
    using a' s' w1 fr i(4) by (auto simp: took_def items_Entities_def comp_def fold_map)
qed

lemma bulk_del_took:
  assumes i: "inv (aStore a)" "t \<in> tabs (aStore a)" "auto_ckpt_off a" "cache_inv (aCache a)"
    and k: "\<forall>d\<in>set ds. okname (dKey d)" and g: "cfgStore g = st" and w: "bulkDelLocked g t ds msg a = (None, a')"
  shows "took g (map (\<lambda>d. ReqDel t (dKey d)) ds) a a' \<and> stBulkDel st t (map dKey ds) (aStore a) = (None, aStore a')"
proof -
  let ?ks = "map dKey ds"
  obtain a1 where l: "log_call (wal_BulkDelete (cfgEnv g) t ?ks) a = (None, a1)"
    using w by (auto simp: bulkDelLocked_def del_Keys_def Let_def split: prod.splits option.splits)
  note fr = log_frames(4) [OF l i(3)]
  obtain s' where s': "stBulkDel st t ?ks (aStore a) = (None, s')" "inv s'" "tabs s' = tabs (aStore a)"
      "content s' = fold (\<lambda>k. upd t k None) ?ks (content (aStore a))"
    using bulk_del_law [OF i(1,2), of ?ks] k by auto
  have a': "a' = a1\<lparr>aStore := s', aCache := fold (\<lambda>k. cache_Del (adapter_key k)) ?ks (aCache a1)\<rparr>"
    using w l fr s'(1) g by (simp add: bulkDelLocked_def del_Keys_def Let_def)
  have co: "mem.coherent (aCache a) (\<lambda>_ _. True)" using i(4) by (simp add: mem.coherent_def)
  have "mem.coherent (fold cache_Del (map adapter_key ?ks) (aCache a)) (\<lambda>_ _. True)"
    by (rule mem.evict_list_coherent [OF co]) simp
  then have c: "cache_inv (fold (\<lambda>k. cache_Del (adapter_key k)) ?ks (aCache a1))"
    using fr by (simp add: mem.coherent_def fold_map comp_def)
  obtain w0 w1 where w1: "aLog a = Some w0" "aLog a1 = Some w1" "wal_BulkDelete (cfgEnv g) t ?ks w0 (aStore a) = (None, w1, aStore a)"
    using fr by auto
  have "wal_run (cfgCodec g) (cfgEnv g) (map (ReqDel t) ?ks) w0 (aStore a) = (None, w1, aStore a)"
    by (rule wal_bulk_run(2) [OF auto_ckpt_off_log [OF i(3) w1(1)] w1(3)])
  then show ?thesis using a' s' w1 fr c by (auto simp: took_def comp_def fold_map)
qed

lemmas db_write_unfold = ad_BulkSet_def ad_BulkDel_def ad_ApplyReplicated_def ad_ApplyReplicatedDelete_def ad_ApplyReplicatedBulk_def
  ad_ApplyReplicatedBulkDelete_def

text \<open>The call of the store below a write.\<close>

fun store_call :: "db_write \<Rightarrow> 's \<Rightarrow> goerr option \<times> 's" where
  "store_call (DbSet t it) s = put t (item_Entity it) s"
| "store_call (DbApply t it) s = put t (item_Entity it) s"
| "store_call (DbDelete t d) s = del t (dKey d) s"
| "store_call (DbApplyDelete t d) s = del t (dKey d) s"
| "store_call (DbBulkSet t its) s = stBulkSet st t (items_Entities its) s"
| "store_call (DbApplyBulk t its) s = stBulkSet st t (items_Entities its) s"
| "store_call (DbBulkDel t ds) s = stBulkDel st t (map dKey ds) s"
| "store_call (DbApplyBulkDelete t ds) s = stBulkDel st t (map dKey ds) s"

lemma db_write_took:
  assumes i: "inv (aStore a)" "db_table r \<in> tabs (aStore a)" "auto_ckpt_off a" "cache_inv (aCache a)"
    and ok: "\<forall>q\<in>set (db_records r). req_ok okname okent q" and g: "cfgStore g = st" and w: "db_write_exec g r a = (None, a')"
  shows "took g (db_records r) a a' \<and> store_call r (aStore a) = (None, aStore a')"
proof (cases r)
  case (DbSet t it)
  then show ?thesis using write_through_took [OF i(1) _ i(3,4) _ g] i(2) ok w ad_Set_unfold [of g t it a None a'] by auto
next
  case (DbDelete t d)
  then show ?thesis using delete_through_took [OF i(1) _ i(3,4) _ g] i(2) ok w ad_Delete_unfold [of g t d a None a'] by auto
next
  case (DbBulkSet t its)
  then show ?thesis using bulk_write_took [OF i(1) _ i(3,4) _ g] i(2) ok w by (auto simp: db_write_unfold)
next
  case (DbBulkDel t ds)
  then show ?thesis using bulk_del_took [OF i(1) _ i(3,4) _ g] i(2) ok w by (auto simp: db_write_unfold)
next
  case (DbApply t it)
  then show ?thesis using write_through_took [OF i(1) _ i(3,4) _ g] i(2) ok w by (auto simp: db_write_unfold)
next
  case (DbApplyDelete t d)
  then show ?thesis using delete_through_took [OF i(1) _ i(3,4) _ g] i(2) ok w by (auto simp: db_write_unfold)
next
  case (DbApplyBulk t its)
  then show ?thesis using bulk_write_took [OF i(1) _ i(3,4) _ g] i(2) ok w by (auto simp: db_write_unfold)
next
  case (DbApplyBulkDelete t ds)
  then show ?thesis using bulk_del_took [OF i(1) _ i(3,4) _ g] i(2) ok w by (auto simp: db_write_unfold)
qed

end

locale durable_store = adapter_store inv tabs content norm okname okent create put del get st
  for inv :: "'s \<Rightarrow> bool" and tabs content norm okname okent create put del get st +
  fixes kept :: "'s \<Rightarrow> contents" and aux :: "'s \<Rightarrow> 'd" and mark :: "'d \<Rightarrow> goerr + u64 \<times> blobs" and calm :: "'d \<Rightarrow> bool"
    and env :: "'s wal_env" and dir :: string
  assumes names: "okname k \<Longrightarrow> k \<noteq> []"
    and create_aux: "create t s = (r, s') \<Longrightarrow> aux s' = aux s"
    and put_aux: "put t e s = (r, s') \<Longrightarrow> aux s' = aux s"
    and del_aux: "del t k s = (r, s') \<Longrightarrow> aux s' = aux s"
    and create_kept: "inv s \<Longrightarrow> okname t \<Longrightarrow> create t s = (r, s') \<Longrightarrow> kept s' = kept s"
    and put_kept: "inv s \<Longrightarrow> t \<in> tabs s \<Longrightarrow> okent e \<Longrightarrow> put t e s = (r, s') \<Longrightarrow> spilled (kept s) (kept s') (content s')"
    and del_kept: "inv s \<Longrightarrow> t \<in> tabs s \<Longrightarrow> okname k \<Longrightarrow> del t k s = (r, s') \<Longrightarrow> spilled (kept s) (kept s') (content s')"
    and bulk_set_kept: "inv s \<Longrightarrow> t \<in> tabs s \<Longrightarrow> \<forall>e\<in>set es. okent e \<Longrightarrow> stBulkSet st t es s = (r, s') \<Longrightarrow>
      spilled (kept s) (kept s') (content s') \<and> aux s' = aux s"
    and bulk_del_kept: "inv s \<Longrightarrow> t \<in> tabs s \<Longrightarrow> \<forall>k\<in>set ks. okname k \<Longrightarrow> stBulkDel st t ks s = (r, s') \<Longrightarrow>
      spilled (kept s) (kept s') (content s') \<and> aux s' = aux s"
    and query_kept: "inv s \<Longrightarrow> stGetBySk st t sk s = (res, s') \<Longrightarrow> inv s' \<and> tabs s' = tabs s \<and> content s' = content s
      \<and> aux s' = aux s \<and> spilled (kept s) (kept s') (content s')"
    and read_mark: "ReadCheckpointTables env dir s = mark (aux s)"
    and before_law: "inv s \<Longrightarrow> \<exists>s'. run_before env s = (None, s') \<and> inv s' \<and> tabs s' = tabs s \<and> content s' = content s
      \<and> kept s' = content s \<and> aux s' = aux s"
    and save_law: "inv s \<Longrightarrow> SaveLastSeq env dir q s = (r, s') \<Longrightarrow> inv s' \<and> tabs s' = tabs s \<and> content s' = content s \<and> kept s' = kept s
      \<and> mark (aux s') = (if r = None then Inr (q, []) else mark (aux s))"
    and save_calm: "inv s \<Longrightarrow> calm (aux s) \<Longrightarrow> \<exists>s'. SaveLastSeq env dir q s = (None, s')"
begin

definition up :: "codec \<Rightarrow> options \<Rightarrow> string set \<Rightarrow> wal_req list \<Rightarrow> nat \<Rightarrow> contents \<Rightarrow> 's adapter \<Rightarrow> bool" where
  "up c opts T rs n m a \<longleftrightarrow> inv (aStore a) \<and> cache_inv (aCache a) \<and> T \<subseteq> tabs (aStore a)
     \<and> n \<le> length rs \<and> length (req_entries c 0 rs) = length rs
     \<and> content (aStore a) = fold (req_effect norm) rs m \<and> mark (aux (aStore a)) = Inr (of_nat n, [])
     \<and> (\<forall>t k. (t, k) \<notin> req_target ` set (drop n rs) \<longrightarrow> kept (aStore a) t k = fold (req_effect norm) (take n rs) m t k)
     \<and> (\<exists>w. aLog a = Some w \<and> wOpts w = opts \<and> wal_inv w (req_entries c 0 rs) \<and> fsynced (wFile w) = frames (req_entries c 0 rs)
          \<and> wSeq w = of_nat (length rs))"

lemma up_kept_step:
  assumes "\<forall>t k. (t, k) \<notin> req_target ` set (drop n rs) \<longrightarrow> old t k = fold (req_effect norm) (take n rs) m t k"
    and "spilled old new (fold (req_effect norm) (rs @ rs') m)" and "n \<le> length rs"
  shows "\<forall>t k. (t, k) \<notin> req_target ` set (drop n (rs @ rs')) \<longrightarrow> new t k = fold (req_effect norm) (take n (rs @ rs')) m t k"
proof (intro allI impI)
  fix t k assume o: "(t, k) \<notin> req_target ` set (drop n (rs @ rs'))"
  have "fold (req_effect norm) (rs @ rs') m = fold (req_effect norm) (drop n (rs @ rs')) (fold (req_effect norm) (take n rs) m)"
    using assms(3) fold_append [of "req_effect norm" "take n rs" "drop n (rs @ rs')"]
    by (metis append_assoc append_take_drop_id comp_apply drop_append diff_is_0_eq drop0)
  then have "fold (req_effect norm) (rs @ rs') m t k = fold (req_effect norm) (take n rs) m t k" using outside_effects [OF o] by simp
  moreover have "old t k = fold (req_effect norm) (take n rs) m t k" using assms(1,3) o by auto
  ultimately show "new t k = fold (req_effect norm) (take n (rs @ rs')) m t k"
    using assms(2,3) unfolding spilled_def by (metis append_Nil2 diff_is_0_eq take0 take_append)
qed

lemma up_store:
  assumes "up c opts T rs n m a" and "inv s" "tabs (aStore a) \<subseteq> tabs s" "content s = content (aStore a)" "mark (aux s) = mark (aux (aStore a))"
    "spilled (kept (aStore a)) (kept s) (content s)" "aStore a' = s" "aLog a' = aLog a" "cache_inv (aCache a')"
  shows "up c opts T rs n m a'"
  using assms up_kept_step [of n rs "kept (aStore a)" m "kept s" "[]"] unfolding up_def by auto

lemma write_reaches:
  assumes i: "inv s" "db_table r \<in> tabs s" and ok: "\<forall>q\<in>set (db_records r). req_ok okname okent q" and c: "store_call r s = (None, s')"
  shows "spilled (kept s) (kept s') (content s') \<and> aux s' = aux s"
proof (cases r)
  case (DbSet t it)
  then show ?thesis using put_kept [OF i(1)] put_aux i(2) ok c by auto
next
  case (DbApply t it)
  then show ?thesis using put_kept [OF i(1)] put_aux i(2) ok c by auto
next
  case (DbDelete t d)
  then show ?thesis using del_kept [OF i(1)] del_aux i(2) ok c by auto
next
  case (DbApplyDelete t d)
  then show ?thesis using del_kept [OF i(1)] del_aux i(2) ok c by auto
next
  case (DbBulkSet t its)
  then show ?thesis using bulk_set_kept [OF i(1), of t "map item_Entity its" None s'] i(2) ok c by (simp add: items_Entities_def)
next
  case (DbApplyBulk t its)
  then show ?thesis using bulk_set_kept [OF i(1), of t "map item_Entity its" None s'] i(2) ok c by (simp add: items_Entities_def)
next
  case (DbBulkDel t ds)
  then show ?thesis using bulk_del_kept [OF i(1), of t "map dKey ds" None s'] i(2) ok c by simp
next
  case (DbApplyBulkDelete t ds)
  then show ?thesis using bulk_del_kept [OF i(1), of t "map dKey ds" None s'] i(2) ok c by simp
qed

lemma up_write:
  assumes u: "up c opts T rs n m a" and o: "steady dir opts" and g: "cfgStore g = st" "cfgCodec g = c"
    and r: "db_table r \<in> T" "\<forall>q\<in>set (db_records r). req_ok okname okent q" and run: "db_write_exec g r a = (None, a')"
    and len: "length (rs @ db_records r) < 18446744073709551616"
    and sz: "\<forall>e\<in>set (req_entries c 0 (rs @ db_records r)). payload_size e \<le> 268435456"
  shows "up c opts T (rs @ db_records r) n m a'"
proof -
  let ?qs = "db_records r" and ?es = "req_entries c 0 rs"
  obtain w where w: "aLog a = Some w" "wOpts w = opts" "wal_inv w ?es" "fsynced (wFile w) = frames ?es" "wSeq w = of_nat (length rs)"
    using u by (auto simp: up_def)
  have i: "inv (aStore a)" "db_table r \<in> tabs (aStore a)" "auto_ckpt_off a" "cache_inv (aCache a)" "length ?es = length rs"
    using u r o w by (auto simp: up_def auto_ckpt_off_def steady_def)
  note t = db_write_took [OF i(1-4) r(2) g(1) run]
  obtain w' where w': "aLog a' = Some w'" "wal_run c (cfgEnv g) ?qs w (aStore a) = (None, w', aStore a)"
    using t w(1) g(2) by (auto simp: took_def)
  have sq: "unat (wSeq w) = length rs" using len w(5) unat_of_nat_u64 [of "length rs"] by simp
  have es: "req_entries c 0 (rs @ ?qs) = ?es @ req_entries c (wSeq w) ?qs" using i(5) w(5) by (simp add: req_entries_append)
  have off: "auto_off (wOpts w)" using o w(2) by (simp add: steady_def)
  have l: "wal_inv w' (?es @ req_entries c (wSeq w) ?qs) \<and> wOpts w' = wOpts w \<and> aStore a = aStore a
      \<and> length (req_entries c (wSeq w) ?qs) = length ?qs
      \<and> (?qs \<noteq> [] \<longrightarrow> fsynced (wFile w') = frames (?es @ req_entries c (wSeq w) ?qs))"
    by (rule wal_run_records [OF w'(2) w(3) off]) (use len sq sz es in simp_all)
  have q: "wSeq w' = of_nat (length (rs @ ?qs))" using wal_run_seq [OF w'(2) off] w(5) by simp
  have fs: "fsynced (wFile w') = frames (?es @ req_entries c (wSeq w) ?qs)" using l w'(2) w(4) by (cases ?qs) simp_all
  have sp: "spilled (kept (aStore a)) (kept (aStore a')) (content (aStore a')) \<and> aux (aStore a') = aux (aStore a)"
    using write_reaches [OF i(1,2) r(2)] t by blast
  show ?thesis
    unfolding up_def es
    using t sp w'(1) l w(2) q fs u i(5) up_kept_step [of n rs "kept (aStore a)" m "kept (aStore a')" ?qs]
    by (auto simp: up_def took_def)
qed

text \<open>A checkpoint, whether or not it succeeds.\<close>

lemma up_checkpoint:
  assumes u: "up c opts T rs n m a" and o: "steady dir opts" and w: "aLog a = Some w" and ck: "Checkpoint env w (aStore a) = (err, w', x')"
  shows "\<exists>n'. up c opts T rs n' m (a\<lparr>aLog := Some w', aStore := x'\<rparr>)"
proof -
  let ?es = "req_entries c 0 rs"
  have wf: "wOpts w = opts" "wal_inv w ?es" "fsynced (wFile w) = frames ?es" "wSeq w = of_nat (length rs)" "wBufw w = None" "fdata (wFile w) = frames ?es"
    using u w by (auto simp: up_def wal_inv_def)
  obtain e1 w1 where f: "flushLocked w = (e1, w1)" by (cases "flushLocked w")
  obtain f1 where f1: "w1 = w\<lparr>wFile := f1\<rparr>" "fdata f1 = frames ?es" "fpos f1 = fpos (wFile w)" "fsynced f1 = frames ?es"
    using flushLocked_synced [OF f wf(5)] wf(3,6) by auto
  obtain x1 where x1: "run_before env (aStore a) = (None, x1)" "inv x1" "tabs x1 = tabs (aStore a)" "content x1 = content (aStore a)"
      "kept x1 = content (aStore a)" "aux x1 = aux (aStore a)"
    using before_law [of "aStore a"] u by (auto simp: up_def)
  obtain r2 x2 where sv: "SaveLastSeq env dir (of_nat (length rs)) x1 = (r2, x2)" by (cases "SaveLastSeq env dir (of_nat (length rs)) x1")
  note sl = save_law [OF x1(2) sv]
  have log: "wal_inv (w\<lparr>wFile := f1\<rparr>) ?es" "wal_inv (w\<lparr>wFile := f1, writesSinceCkpt := 0, bytesSinceCkpt := 0\<rparr>) ?es"
    using wf(2) f1 by (simp_all add: wal_inv_def)
  have K: "\<forall>t k. (t, k) \<notin> req_target ` set (drop n rs) \<longrightarrow> content (aStore a) t k = fold (req_effect norm) (take n rs) m t k"
    using u up_kept_step [of n rs "kept (aStore a)" m "content (aStore a)" "[]"] by (auto simp: up_def spilled_def)
  have cases: "w' = w\<lparr>wFile := f1\<rparr> \<and> x' = aStore a \<or> w' = w\<lparr>wFile := f1\<rparr> \<and> x' = x2 \<and> r2 \<noteq> None
      \<or> w' = w\<lparr>wFile := f1, writesSinceCkpt := 0, bytesSinceCkpt := 0\<rparr> \<and> x' = x2 \<and> r2 = None"
    using ck f f1(1) x1(1) sv wf(1,4) o
    by (auto simp: Checkpoint_def checkpointLocked_def checkpoint_finish_def steady_def Let_def split: option.splits)
  then consider "w' = w\<lparr>wFile := f1\<rparr>" "x' = aStore a" | "w' = w\<lparr>wFile := f1\<rparr>" "x' = x2" "r2 \<noteq> None"
    | "w' = w\<lparr>wFile := f1, writesSinceCkpt := 0, bytesSinceCkpt := 0\<rparr>" "x' = x2" "r2 = None" by blast
  then show ?thesis
  proof cases
    case 1
    then have "up c opts T rs n m (a\<lparr>aLog := Some w', aStore := x'\<rparr>)" using u log f1(4) wf by (simp add: up_def)
    then show ?thesis ..
  next
    case 2
    then have "up c opts T rs n m (a\<lparr>aLog := Some w', aStore := x'\<rparr>)" using u log f1(4) wf x1 sl K by (auto simp: up_def)
    then show ?thesis ..
  next
    case 3
    then have "up c opts T rs (length rs) m (a\<lparr>aLog := Some w', aStore := x'\<rparr>)" using u log f1(4) wf x1 sl by (simp add: up_def)
    then show ?thesis ..
  qed
qed

lemma up_query:
  assumes u: "up c opts T rs n m a" and g: "cfgStore g = st" and q: "ad_GetBySecondaryKey g t sk a = (res, a')"
  shows "up c opts T rs n m a'"
proof -
  obtain s where s: "stGetBySk st t sk (aStore a) = (res, s)" "a' = a\<lparr>aStore := s\<rparr>"
    using q g by (auto simp: ad_GetBySecondaryKey_def split: prod.splits)
  show ?thesis using query_kept [OF _ s(1)] u s(2) by (intro up_store [OF u]) (auto simp: up_def)
qed

lemma up_get:
  assumes u: "up c opts T rs n m a" and q: "ad_Get g t k a = (res, a')"
  shows "up c opts T rs n m a'"
proof -
  obtain c2 x2 where o: "Once (adapter_key k) (\<lambda>x. (stGet (cfgStore g) t k x, x)) (aCache a) (aStore a) = (res, c2, x2)"
      and a': "a' = a\<lparr>aCache := c2, aStore := x2\<rparr>"
    using q by (auto simp: ad_Get_def split: prod.splits)
  have "cache_inv (aCache a)" using u by (simp add: up_def)
  from Once_law [OF this o] have "cache_inv c2" "x2 = aStore a" by auto
  then show ?thesis using u a' by (simp add: up_def)
qed

lemma up_create:
  assumes u: "up c opts T rs n m a" and g: "cfgStore g = st" and t: "okname t" and q: "ad_CreateTable g t a = (res, a')"
  shows "up c opts (insert t T) rs n m a'"
proof -
  obtain s where s: "create t (aStore a) = (res, s)" "a' = a\<lparr>aStore := s\<rparr>"
    using q g st_ops by (auto simp: ad_CreateTable_def split: prod.splits)
  have l: "inv s" "tabs s = insert t (tabs (aStore a))" "content s = content (aStore a)" "kept s = kept (aStore a)" "aux s = aux (aStore a)"
    using create_law [of "aStore a" t] create_kept [OF _ t s(1)] create_aux [OF s(1)] u t s(1) by (auto simp: up_def)
  have "up c opts T rs n m a'" using l s(2) u by (intro up_store [OF u, of s]) (auto simp: up_def spilled_def)
  then show ?thesis using l(2) s(2) u by (auto simp: up_def)
qed

lemma applyEntry_aux:
  assumes "applyEntry c (store_operations st) e s = (r, s')"
  shows "aux s' = aux s"
  using assms st_ops create_aux put_aux del_aux
  by (auto simp: applyEntry_def store_operations_def split: prod.splits option.splits if_splits sum.splits)

lemma apply_all_aux: "apply_all (applyEntry c (store_operations st)) es s = (r, s') \<Longrightarrow> aux s' = aux s"
proof (induction es arbitrary: s)
  case (Cons e es)
  obtain r1 s1 where e: "applyEntry c (store_operations st) e s = (r1, s1)" by (cases "applyEntry c (store_operations st) e s")
  show ?case using Cons applyEntry_aux [OF e] e by (cases r1) auto
qed simp

text \<open>A crash and the load that follows it.\<close>

lemma up_reload:
  assumes u: "up c opts T rs n m a" and o: "steady dir opts" and g: "cfgStore g = st" "cfgCodec g = c" "cfgEnv g = env"
    and len: "length rs < 18446744073709551616" and ok: "\<forall>r\<in>set rs. req_ok okname okent r" and codec: "codec_faithful c okent norm rs"
    and crash: "foutcomes f2 = []" "fdata f2 = fsynced (wFile (the (aLog a))) @ t" "t = [] \<or> torn t" and reopen: "New f2 opts = Inr w2"
    and a2: "inv (aStore a2)" "aLog a2 = Some w2" "cache_inv (aCache a2)" "tabs (aStore a) \<subseteq> tabs (aStore a2)" "content (aStore a2) = kept (aStore a)"
      "mark (aux (aStore a2)) = mark (aux (aStore a))" "calm (aux (aStore a2))"
  shows "\<exists>a3. ad_Load g a2 = (None, a3) \<and> up c opts T rs (length rs) m a3"
proof -
  obtain w where w: "aLog a = Some w" "wal_inv w (req_entries c 0 rs)" "fsynced (wFile w) = frames (req_entries c 0 rs)"
    using u by (auto simp: up_def)
  have nl: "length (req_entries c 0 rs) = length rs" and n: "n \<le> length rs" and mk: "mark (aux (aStore a)) = Inr (of_nat n, [])"
    and left: "\<forall>t k. (t, k) \<notin> req_target ` set (drop n rs) \<longrightarrow> content (aStore a2) t k = fold (req_effect norm) (take n rs) m t k"
    and T: "T \<subseteq> tabs (aStore a2)"
    using u a2(4,5) by (auto simp: up_def)
  have oo: "Durability opts = SyncEveryWrite" "auto_off opts" "CheckpointConfigured opts" "CheckpointDir opts = dir" "\<not> TruncateAfterCheckpoint (CheckpointPolicy opts)"
    using o by (simp_all add: steady_def)
  let ?Q = "\<lambda>y. inv y \<and> T \<subseteq> tabs y \<and> kept y = content y \<and> mark (aux y) = Inr (of_nat (length rs), [])"
  have env: "\<exists>y2 y3. run_before (cfgEnv g) y = (None, y2) \<and> SaveLastSeq (cfgEnv g) (CheckpointDir opts) (of_nat (length rs)) y2 = (None, y3)
      \<and> content y3 = content y \<and> ?Q y3"
    if y: "apply_all (applyEntry (cfgCodec g) (store_operations st)) es (aStore a2) = (None, y)" "inv y" "tabs (aStore a2) \<subseteq> tabs y" for es y
  proof -
    obtain y2 where y2: "run_before env y = (None, y2)" "inv y2" "tabs y2 = tabs y" "content y2 = content y" "kept y2 = content y" "aux y2 = aux y"
      using before_law [OF y(2)] by auto
    have "calm (aux y2)" using apply_all_aux [OF y(1)] y2(6) a2(7) by simp
    then obtain y3 where y3: "SaveLastSeq env dir (of_nat (length rs)) y2 = (None, y3)" using save_calm [OF y2(2)] by blast
    show ?thesis using y2 y3 save_law [OF y2(2) y3] y(3) T g(3) oo(4) by auto
  qed
  have cr: "fdata f2 = fsynced (wFile w) @ t" using crash(2) w(1) by simp
  have ckr: "if CheckpointConfigured opts then ReadCheckpointTables (cfgEnv g) (CheckpointDir opts) (aStore a2) = Inr (of_nat n, []) else n = 0"
    using oo g(3) mk a2(6) read_mark by simp
  have "\<exists>w3 y3. ad_Load g a2 = (None, a2\<lparr>aLog := Some w3, aStore := y3\<rparr>) \<and> content y3 = fold (req_effect norm) rs m \<and> (CheckpointConfigured opts \<longrightarrow> ?Q y3)
      \<and> wSeq w3 = of_nat (length rs) \<and> wOpts w3 = opts
      \<and> (\<not> TruncateAfterCheckpoint (CheckpointPolicy opts) \<longrightarrow> wal_inv w3 (req_entries (cfgCodec g) 0 rs)
        \<and> (CheckpointConfigured opts \<longrightarrow> fsynced (wFile w3) = frames (req_entries (cfgCodec g) 0 rs)))"
    by (rule reload_rebuilds [OF oo(1,2) _ _ _ len g(1) names ok _ crash(1) cr crash(3) reopen a2(1,2) left ckr n env])
      (use w(2,3) nl codec g(2) in simp_all)
  then obtain w3 y3 where l: "ad_Load g a2 = (None, a2\<lparr>aLog := Some w3, aStore := y3\<rparr>)" "content y3 = fold (req_effect norm) rs m" "?Q y3"
      "wSeq w3 = of_nat (length rs)" "wOpts w3 = opts" "wal_inv w3 (req_entries c 0 rs)" "fsynced (wFile w3) = frames (req_entries c 0 rs)"
    using oo(3,5) g(2) by auto
  have "up c opts T rs (length rs) m (a2\<lparr>aLog := Some w3, aStore := y3\<rparr>)" using l(2-) nl a2(3) by (auto simp: up_def)
  then show ?thesis using l(1) by blast
qed

end

end
