(* ===== verification/Cfg.thy ===== *)
theory Cfg
  imports Strings
begin

text \<open>
  The command line of a node and its tuning values: \<^verbatim>\<open>src/internal/cfg\<close>.  The node's flags are all of the
  string type, so \<^verbatim>\<open>flag.FlagSet.Parse\<close> is modelled for those; what the flag set does with an error besides
  returning it (the process's own set prints its usage and exits) is outside.  The values of the environment are read by
  a library and are a parameter: a \<open>config\<close>.
\<close>

section \<open>Parsing of string flags\<close>

text \<open>The association list holds every defined flag with its current value.\<close>

fun flag_Parse :: "(string \<times> string) list \<Rightarrow> string list \<Rightarrow> goerr + (string \<times> string) list" where
  "flag_Parse vals [] = Inr vals"
| "flag_Parse vals (s # args) =
     (if length s < 2 \<or> hd s \<noteq> CHR ''-'' then Inr vals
      else if s = ''--'' then Inr vals
      else
        let nm = (if s ! 1 = CHR ''-'' then drop 2 s else drop 1 s) in
        if nm = [] \<or> hd nm = CHR ''-'' \<or> hd nm = CHR ''='' then Inl (ErrMsg ''bad flag syntax'')
        else
          let name = takeWhile (\<lambda>c. c \<noteq> CHR ''='') nm in
          if map_of vals name = None then
            Inl (if name = ''help'' \<or> name = ''h'' then ErrMsg ''flag: help requested'' else ErrMsg ''flag provided but not defined'')
          else if CHR ''='' \<in> set nm then flag_Parse (AList.update name (drop (Suc (length name)) nm) vals) args
          else
            (case args of
               [] \<Rightarrow> Inl (ErrMsg ''flag needs an argument'')
             | v # rest \<Rightarrow> flag_Parse (AList.update name v vals) rest))"

section \<open>The flags of a node\<close>

definition ErrMissingNodeID :: goerr where
  "ErrMissingNodeID = ErrMsg ''node id is required (flag -id)''"

record node_flags =
  nfID :: string
  nfHTTPAddr :: string
  nfGRPCAddr :: string
  nfPeers :: "string list"
  nfWALPath :: string
  nfFsDefaultDir :: string
  nfCheckpointDefaultDir :: string

definition parsePeers :: "string \<Rightarrow> string list" where
  "parsePeers raw = filter (\<lambda>p. p \<noteq> []) (map TrimSpace (Split (CHR '','') raw))"

definition node_flag_defs :: "(string \<times> string) list" where
  "node_flag_defs =
     [(''id'', []), (''http-addr'', []), (''peers'', []), (''grpc-addr'', '':9080''), (''wal-path'', []), (''fs-default-dir'', []),
      (''checkpoint-default-dir'', [])]"

definition flag_value :: "(string \<times> string) list \<Rightarrow> string \<Rightarrow> string" where
  "flag_value vals name = (case map_of vals name of None \<Rightarrow> [] | Some v \<Rightarrow> v)"

definition ParseNodeFlags :: "string list \<Rightarrow> goerr + node_flags" where
  "ParseNodeFlags args =
     (case flag_Parse node_flag_defs args of
        Inl err \<Rightarrow> Inl (ErrWrap ''cfg: parse flags'' err)
      | Inr vals \<Rightarrow>
          let out = \<lparr>nfID = TrimSpace (flag_value vals ''id''), nfHTTPAddr = TrimSpace (flag_value vals ''http-addr''),
                nfGRPCAddr = TrimSpace (flag_value vals ''grpc-addr''), nfPeers = parsePeers (flag_value vals ''peers''),
                nfWALPath = TrimSpace (flag_value vals ''wal-path''), nfFsDefaultDir = TrimSpace (flag_value vals ''fs-default-dir''),
                nfCheckpointDefaultDir = TrimSpace (flag_value vals ''checkpoint-default-dir'')\<rparr> in
          if nfID out = [] then Inl (ErrWrap ''cfg'' ErrMissingNodeID)
          else
            let out = (if nfWALPath out = [] then out\<lparr>nfWALPath := filepath_Join [''tmp'', nfID out, ''data.wal'']\<rparr> else out);
                out = (if nfFsDefaultDir out = [] then out\<lparr>nfFsDefaultDir := filepath_Join [''tmp'', nfID out]\<rparr> else out);
                out = (if nfCheckpointDefaultDir out = []
                  then out\<lparr>nfCheckpointDefaultDir := filepath_Join [''tmp'', nfID out, ''checkpoint'']\<rparr> else out) in
            Inr out)"

section \<open>Tuning values\<close>

text \<open>Durations in nanoseconds.  \<^verbatim>\<open>Load\<close> and \<^verbatim>\<open>LoadFromFile\<close> wrap the library's error.\<close>

record config =
  CacheTTL :: int
  CacheMaxEntries :: int
  CheckpointInterval :: int
  FSDeferWrites :: bool
  FSFlushInterval :: int
  FSPeriodicPoll :: int
  FSFlushOpTimeout :: int
  CheckpointFileName :: string

definition zero_config :: config where
  "zero_config = \<lparr>CacheTTL = 0, CacheMaxEntries = 0, CheckpointInterval = 0, FSDeferWrites = False, FSFlushInterval = 0,
     FSPeriodicPoll = 0, FSFlushOpTimeout = 0, CheckpointFileName = []\<rparr>"

text \<open>\<^verbatim>\<open>cleanenv\<close> fills the package variable: a failed read may have set some of its fields.\<close>

definition cfg_Load :: "(config \<Rightarrow> goerr option \<times> config) \<Rightarrow> config \<Rightarrow> goerr option \<times> config" where
  "cfg_Load ReadEnv c = (case ReadEnv c of (err, c) \<Rightarrow> (map_option (ErrWrap ''cfg: read environment'') err, c))"

definition cfg_Get :: "config \<Rightarrow> config" where
  "cfg_Get c = c"

definition LoadFromFile :: "(string \<Rightarrow> config \<Rightarrow> goerr option \<times> config) \<Rightarrow> string \<Rightarrow> goerr + config" where
  "LoadFromFile ReadConfig path =
     (case ReadConfig path zero_config of
        (Some err, out) \<Rightarrow> Inl (ErrWrap ''cfg: read config file'' err)
      | (None, out) \<Rightarrow> Inr out)"

section \<open>Well-formed flags\<close>

text \<open>What the rest of the node may rely on.\<close>

definition wf_peers :: "string list \<Rightarrow> bool" where
  "wf_peers ps = list_all (\<lambda>p. p \<noteq> [] \<and> trimmed p \<and> CHR '','' \<notin> set p) ps"

definition wf_flags :: "node_flags \<Rightarrow> bool" where
  "wf_flags f = (nfID f \<noteq> [] \<and> trimmed (nfID f) \<and> trimmed (nfHTTPAddr f) \<and> trimmed (nfGRPCAddr f) \<and> wf_peers (nfPeers f)
     \<and> nfWALPath f \<noteq> [] \<and> nfFsDefaultDir f \<noteq> [] \<and> nfCheckpointDefaultDir f \<noteq> [])"

text \<open>A command line for given values.\<close>

definition flag_args :: "node_flags \<Rightarrow> string list" where
  "flag_args f =
     [''-id='' @ nfID f, ''-http-addr='' @ nfHTTPAddr f, ''-grpc-addr='' @ nfGRPCAddr f, ''--peers'', join_with (CHR '','') (nfPeers f),
      ''-wal-path'', nfWALPath f, ''--fs-default-dir='' @ nfFsDefaultDir f, ''-checkpoint-default-dir='' @ nfCheckpointDefaultDir f]"

lemma trim_front_subset: "set (trim_front rs s) \<subseteq> set s"
  using trim_front_suffix [of s rs] by (metis Un_iff set_append subsetI)

lemma TrimSpace_subset: "set (TrimSpace s) \<subseteq> set s"
  unfolding TrimSpace_def using trim_front_subset by (metis set_rev subset_trans)

lemma parsePeers_wf: "wf_peers (parsePeers raw)"
  unfolding wf_peers_def parsePeers_def list_all_iff
  using TrimSpace_subset Split_parts by (fastforce simp: TrimSpace_trimmed)

lemma TrimSpace_nil [simp]: "TrimSpace [] = []"
  using TrimSpace_subset [of "[]"] by simp

lemma parsePeers_join:
  assumes "wf_peers ps"
  shows "parsePeers (join_with (CHR '','') ps) = ps"
proof (cases "ps = []")
  case False
  have "map TrimSpace ps = ps" using assms by (auto simp: wf_peers_def list_all_iff TrimSpace_id intro: map_idI)
  then show ?thesis using assms False by (simp add: parsePeers_def Split_join wf_peers_def list_all_iff)
qed (simp add: parsePeers_def)

lemma ParseNodeFlags_wf:
  assumes "ParseNodeFlags args = Inr f"
  shows "wf_flags f"
  using assms by (auto simp: ParseNodeFlags_def wf_flags_def Let_def TrimSpace_trimmed parsePeers_wf
      split: sum.splits if_splits)

text \<open>C23. The flags of a node are well-formed whatever the command line: if they are accepted, the node has a name, the names and
  addresses have no surrounding white space, no peer is empty or contains a comma, and all three paths are set.  Every
  such set of values, with trimmed paths, can be given on the command line and is read back unchanged.\<close>

theorem flags_wellformed_and_expressible:
  assumes "ParseNodeFlags args = Inr f" and "wf_flags g" "trimmed (nfWALPath g)" "trimmed (nfFsDefaultDir g)" "trimmed (nfCheckpointDefaultDir g)"
  shows "wf_flags f \<and> ParseNodeFlags (flag_args g) = Inr g"
proof
  show "wf_flags f" using assms(1) by (rule ParseNodeFlags_wf)
  show "ParseNodeFlags (flag_args g) = Inr g"
    using assms(2-5) by (simp add: ParseNodeFlags_def flag_args_def node_flag_defs_def flag_value_def wf_flags_def parsePeers_join TrimSpace_id)
qed

theorem flags_wellformed_and_expressible_witness:
  "\<exists>f. ParseNodeFlags [''-id'', '' n1'', ''-peers=a, b,,''] = Inr f \<and> wf_flags f \<and> nfPeers f = [''a'', ''b'']
     \<and> nfWALPath f = ''tmp/n1/data.wal'' \<and> ParseNodeFlags (flag_args f) = Inr f"
proof -
  let ?f = "\<lparr>nfID = ''n1'', nfHTTPAddr = [], nfGRPCAddr = '':9080'', nfPeers = [''a'', ''b''], nfWALPath = ''tmp/n1/data.wal'',
     nfFsDefaultDir = ''tmp/n1'', nfCheckpointDefaultDir = ''tmp/n1/checkpoint''\<rparr>"
  have t0: "trimmed ''n1''" "trimmed ''a''" "trimmed ''b''" "trimmed '':9080''"
    "trimmed ''tmp/n1/data.wal''" "trimmed ''tmp/n1''" "trimmed ''tmp/n1/checkpoint''" by (simp_all add: trimmed_def space_runes_def starts_with_def)
  have sp: "TrimSpace '' n1'' = ''n1''" "TrimSpace '' b'' = ''b''"
    by (simp_all add: TrimSpace_def trim_front.simps space_runes_def starts_with_def)
  have p: "ParseNodeFlags [''-id'', '' n1'', ''-peers=a, b,,''] = Inr ?f"
    using t0 sp by (simp add: ParseNodeFlags_def node_flag_defs_def flag_value_def parsePeers_def TrimSpace_id filepath_Join_def filepath_Clean_def starts_with_def Let_def)
  have t: "wf_flags ?f" "trimmed ''tmp/n1/data.wal''" "trimmed ''tmp/n1''" "trimmed ''tmp/n1/checkpoint''" using t0 ParseNodeFlags_wf [OF p] by simp_all
  show ?thesis using flags_wellformed_and_expressible [OF p t(1)] p t(2-4) by auto
qed

text \<open>The two ways of being refused.\<close>

lemma ParseNodeFlags_errors:
  assumes "ParseNodeFlags args = Inl err"
  shows "(\<exists>e. err = ErrWrap ''cfg: parse flags'' e) \<or> errors_is err ErrMissingNodeID"
  using assms by (auto simp: ParseNodeFlags_def Let_def split: sum.splits if_splits)

end
