(* ===== verification/Kv_Store.thy ===== *)
theory Kv_Store
  imports Restart Cfg
begin

text \<open>
  The batched store of a node beside its checkpoint files, as \<^verbatim>\<open>src/cmd/node/setup/kv.go\<close> puts them together.
  The state is that of the checkpoint files and of the batcher; the operations leave the former alone.  What has reached
  the disk is the store below the buffer.  The pair fulfils the contract of a store that survives crashes.
\<close>

section \<open>The store beside its checkpoint files\<close>

definition lift_st :: "('s \<Rightarrow> 'r \<times> 's) \<Rightarrow> 'd \<times> 's \<Rightarrow> 'r \<times> 'd \<times> 's" where
  "lift_st f x = (case f (snd x) of (r, s) \<Rightarrow> (r, fst x, s))"

definition kv_ops :: "(any \<Rightarrow> string) \<Rightarrow> (bytes \<Rightarrow> goerr + entity) \<Rightarrow> (entity \<Rightarrow> nat option) \<Rightarrow> (ckdisk \<times> fsdb batcher) store_ops" where
  "kv_ops sprint decode jl =
     (let db = fs_ops sprint decode in
      \<lparr>stCreateTable = (\<lambda>t. lift_st (wb_CreateTable db t)), stSet = (\<lambda>t e. lift_st (wb_Set db jl t e)),
       stBulkSet = (\<lambda>t es. lift_st (wb_BulkSet db jl t es)), stBulkDel = (\<lambda>t ks. lift_st (wb_BulkDel db jl t ks)),
       stGet = (\<lambda>t k x. wb_Get db t k (snd x)), stGetBySk = (\<lambda>t sk. lift_st (wb_GetBySk db t sk)),
       stDel = (\<lambda>t k. lift_st (wb_Del db jl t k)), stFlush = Some (lift_st (Flush db)),
       stHydrate = Some (\<lambda>bs. lift_st (wb_ReplaceWithCheckpointBlobs db bs))\<rparr>)"

lemma lift_st_eq: "f (snd x) = (r, s) \<Longrightarrow> lift_st f x = (r, fst x, s)"
  by (simp add: lift_st_def)

section \<open>What the operations leave alone\<close>

lemma fsdb_root:
  "CreateTable t d = (r, d') \<Longrightarrow> defaultDir d' = defaultDir d"
  "fsdb_Set sprint t e d = (r, d') \<Longrightarrow> defaultDir d' = defaultDir d"
  "fsdb_Del t k d = (r, d') \<Longrightarrow> defaultDir d' = defaultDir d"
proof -
  show "CreateTable t d = (r, d') \<Longrightarrow> defaultDir d' = defaultDir d"
    by (auto simp: CreateTable_def Let_def split: prod.splits option.splits)
  have w: "writeKeyFile sprint t e d = (r, d') \<Longrightarrow> defaultDir d' = defaultDir d" for t e d r d'
    by (auto simp: writeKeyFile_def Let_def split: prod.splits option.splits sum.splits)
  have a: "appendKeysToSk t s ks d = (r, d') \<Longrightarrow> defaultDir d' = defaultDir d" for t s ks d r d'
    by (auto simp: appendKeysToSk_def Let_def split: prod.splits option.splits sum.splits if_splits)
  show "fsdb_Set sprint t e d = (r, d') \<Longrightarrow> defaultDir d' = defaultDir d"
    using w a by (fastforce simp: fsdb_Set_def setLocked_def split: prod.splits option.splits if_splits)
  have m: "removeKeysFromSk t s ks d = (r, d') \<Longrightarrow> defaultDir d' = defaultDir d" for t s ks d r d'
    by (auto simp: removeKeysFromSk_def Let_def split: prod.splits option.splits sum.splits if_splits)
  show "fsdb_Del t k d = (r, d') \<Longrightarrow> defaultDir d' = defaultDir d"
    using m by (fastforce simp: fsdb_Del_def Let_def split: prod.splits option.splits sum.splits if_splits)
qed

abbreviation root :: "fsdb batcher \<Rightarrow> path" where
  "root b \<equiv> defaultDir (inner b)"

lemma applyOne_root: "applyOneLocked (fs_ops sprint decode) mk bop d = (r, d') \<Longrightarrow> defaultDir d' = defaultDir d"
  using fsdb_root(2,3) by (auto simp: applyOneLocked_def fs_ops_def split: batch_op.splits prod.splits option.splits if_splits)

lemma flush_root: "flushAllLocked (fs_ops sprint decode) b = (r, b') \<Longrightarrow> root b' = root b"
proof -
  have "flush_loop (fs_ops sprint decode) mks b = (r, b') \<Longrightarrow> root b' = root b" for mks b
  proof (induction mks arbitrary: b)
    case (Cons mk mks)
    then show ?case by (fastforce split: option.splits prod.splits dest: applyOne_root)
  qed auto
  then show "flushAllLocked (fs_ops sprint decode) b = (r, b') \<Longrightarrow> root b' = root b" by (auto simp: flushAllLocked_def split: if_splits)
qed

lemma wb_root:
  "wb_CreateTable (fs_ops sprint decode) t b = (r, b') \<Longrightarrow> root b' = root b"
  "finish_write (fs_ops sprint decode) b = (r, b') \<Longrightarrow> root b' = root b"
  "root (upsertLocked jl mk bop b) = root b"
  using fsdb_root(1) flush_root
  by (auto simp: wb_CreateTable_def fs_ops_def finish_write_def upsertLocked_def Let_def split: prod.splits if_splits)

lemma fold_upsert_root: "root (fold (\<lambda>x. upsertLocked jl (f x) (h x)) xs b) = root b"
  by (induction xs arbitrary: b) (simp_all add: wb_root(3))

lemma fold_upsert_law:
  assumes "pend_ok db_inv tables simple (ok_entity sprint) b" and "t \<in> tables (inner b)"
    and "\<forall>x\<in>set xs. simple (f x) \<and> (\<forall>e. h x = BatchSet e \<longrightarrow> ok_entity sprint e \<and> iKey e = f x)"
  shows "pend_ok db_inv tables simple (ok_entity sprint) (fold (\<lambda>x. upsertLocked jl (t, f x) (h x)) xs b)
    \<and> inner (fold (\<lambda>x. upsertLocked jl (t, f x) (h x)) xs b) = inner b"
  using assms
proof (induction xs arbitrary: b)
  case (Cons x xs)
  have "simple (f x)" "\<And>e. h x = BatchSet e \<Longrightarrow> ok_entity sprint e \<and> iKey e = f x" using Cons.prems(3) by auto
  note u = fs.upsert_law [OF Cons.prems(1,2) this, where bop = "h x" and jl = jl]
  show ?case using Cons.IH [OF u(1)] u(2) Cons.prems(2,3) by simp
qed simp

text \<open>A buffered write stays in the buffer or everything in it reaches the disk.\<close>

lemma finish_kept:
  assumes "pend_ok db_inv tables simple (ok_entity sprint) b" and "finish_write (fs_ops sprint decode) b = (r, b')"
  shows "spilled (sel (inner b)) (sel (inner b')) (wb_sel sprint b')"
proof (cases "DeferWrites (bopts b) \<and> \<not> overLimitsLocked b")
  case True
  then show ?thesis using assms(2) by (simp add: finish_write_def spilled_def)
next
  case False
  then have "finish_write (fs_ops sprint decode) b = flushAllLocked (fs_ops sprint decode) b" by (auto simp: finish_write_def)
  then show ?thesis using fs.flush_law [of "fs_ops sprint decode" sprint b] assms by (auto simp: fs_ops_def spilled_def)
qed

section \<open>Existing directories\<close>

lemma mkdir_walk_nop:
  "(\<And>n. 0 < n \<Longrightarrow> n \<le> length ss \<Longrightarrow> map_of F (at @ take n ss) = Some Dir) \<Longrightarrow> mkdir_walk at ss F = (None, F)"
proof (induction ss arbitrary: at)
  case (Cons s ss)
  have d: "map_of F (at @ [s]) = Some Dir" using Cons.prems [of 1] by simp
  have "map_of F ((at @ [s]) @ take n ss) = Some Dir" if "0 < n" "n \<le> length ss" for n using Cons.prems [of "Suc n"] that by simp
  then have "mkdir_walk (at @ [s]) ss F = (None, F)" by (rule Cons.IH)
  then show ?case using d by simp
qed simp

lemma mkdir_nop: "dirs_ok F p \<Longrightarrow> os_MkdirAll p F = (None, F)"
  using mkdir_walk_nop [of p F "[]"] by (simp add: os_MkdirAll_def dirs_ok_def)

lemma dirs_ok_take: "dirs_ok F p \<Longrightarrow> dirs_ok F (take k p)"
  by (auto simp: dirs_ok_def min_def)

lemma table_root:
  assumes "t \<in> tables d"
  shows "dirs_ok (dfs d) (defaultDir d)"
proof -
  have "dirs_ok (dfs d) (defaultDir d @ [t, ''key''])" using assms by (simp add: tables_def has_table_def)
  from dirs_ok_take [OF this, of "length (defaultDir d)"] show ?thesis by simp
qed

lemma mkdir_walk_made:
  "mkdir_walk at ss F = (None, F') \<Longrightarrow> (\<forall>q. map_of F q = Some Dir \<longrightarrow> map_of F' q = Some Dir)
     \<and> (\<forall>n. 0 < n \<and> n \<le> length ss \<longrightarrow> map_of F' (at @ take n ss) = Some Dir)"
proof (induction at ss F rule: mkdir_walk.induct)
  case (2 at s ss F)
  let ?G = "case map_of F (at @ [s]) of None \<Rightarrow> AList.update (at @ [s]) Dir F | Some _ \<Rightarrow> F"
  have "(\<forall>q. map_of ?G q = Some Dir \<longrightarrow> map_of F' q = Some Dir)
       \<and> (\<forall>n. 0 < n \<and> n \<le> length ss \<longrightarrow> map_of F' ((at @ [s]) @ take n ss) = Some Dir)"
    using 2 by (auto split: option.splits node.splits)
  moreover have "\<forall>q. map_of F q = Some Dir \<longrightarrow> map_of ?G q = Some Dir" by (auto simp: update_conv' split: option.splits)
  moreover have "map_of ?G (at @ [s]) = Some Dir" using 2(3) by (auto simp: update_conv' split: option.splits node.splits)
  ultimately have G: "\<forall>q. map_of F q = Some Dir \<longrightarrow> map_of F' q = Some Dir" "map_of F' (at @ [s]) = Some Dir"
      "\<forall>n. 0 < n \<and> n \<le> length ss \<longrightarrow> map_of F' ((at @ [s]) @ take n ss) = Some Dir" by blast+
  have "map_of F' (at @ take n (s # ss)) = Some Dir" if "0 < n" "n \<le> length (s # ss)" for n
  proof (cases n)
    case (Suc k)
    then show ?thesis using that G(2,3) by (cases "k = 0") simp_all
  qed (use that in simp)
  then show ?case using G(1) by blast
qed simp

lemma mkdir_made: "os_MkdirAll p F = (None, F') \<Longrightarrow> dirs_ok F' p"
  using mkdir_walk_made [of "[]" p F F'] by (simp add: os_MkdirAll_def dirs_ok_def)

section \<open>The contracts\<close>

definition kv_inv :: "(any \<Rightarrow> string) \<Rightarrow> ck_codec \<Rightarrow> path \<Rightarrow> ckdisk \<times> fsdb batcher \<Rightarrow> bool" where
  "kv_inv sprint ck p x \<longleftrightarrow> wb_inv sprint (snd x) \<and> root (snd x) = p \<and> dirs_ok (dfs (inner (snd x))) p
     \<and> ck_codec_faithful ck \<and> ckReadErr (fst x) = None"

text \<open>A store that has a table has its directory.\<close>

lemma kv_inv_lift:
  assumes "kv_inv sprint ck p x" and "wb_inv sprint s" and "root s = root (snd x)" and "tables (inner s) \<noteq> {} \<or> inner s = inner (snd x)"
  shows "kv_inv sprint ck p (fst x, s)"
proof -
  have "dirs_ok (dfs (inner s)) p"
    using assms table_root [of _ "inner s"] by (cases "tables (inner s) = {}") (auto simp: kv_inv_def)
  then show ?thesis using assms by (simp add: kv_inv_def)
qed

lemma no_tables_no_flush:
  assumes "wb_inv sprint b" and "Flush db b = (r, b')"
  shows "tables (inner b) \<noteq> {} \<or> inner b' = inner b"
proof -
  have "pend b = []" if "tables (inner b) = {}" 
  proof (cases "pend b")
    case (Cons p ps)
    then have "bop_ok simple (ok_entity sprint) (tables (inner b)) p" using assms(1) by (simp add: bt_inv_def pend_ok_def)
    then show ?thesis using that by (simp add: bop_ok_def)
  qed
  then show ?thesis using assms(2) by (auto simp: Flush_def flushAllLocked_def)
qed

lemma kv_inv_flush:
  assumes "kv_inv sprint ck p x" and "Flush (fs_ops sprint decode) (snd x) = (r, b)" and "wb_inv sprint b" and "tables (inner b) = tables (inner (snd x))"
  shows "kv_inv sprint ck p (fst x, b)"
proof (rule kv_inv_lift [OF assms(1,3)])
  show "root b = root (snd x)" using assms(2) flush_root by (simp add: Flush_def)
  have "wb_inv sprint (snd x)" using assms(1) by (simp add: kv_inv_def)
  from no_tables_no_flush [OF this assms(2)] show "tables (inner b) \<noteq> {} \<or> inner b = inner (snd x)" using assms(4) by simp
qed

lemma query_flushes:
  assumes "wb_inv sprint b"
  shows "\<exists>r b'. wb_GetBySk (fs_ops sprint decode) t sk b = (r, b') \<and> wb_inv sprint b' \<and> tables (inner b') = tables (inner b)
    \<and> wb_sel sprint b' = wb_sel sprint b \<and> sel (inner b') = wb_sel sprint b \<and> root b' = root b
    \<and> (tables (inner b) \<noteq> {} \<or> inner b' = inner b)"
proof -
  obtain b' where b': "Flush (fs_ops sprint decode) b = (None, b')" "pend b' = []" "sel (inner b') = wb_sel sprint b" "wb_inv sprint b'"
      "tables (inner b') = tables (inner b)"
    using flushed [OF assms, of decode] by auto
  have "root b' = root b" using b'(1) flush_root by (simp add: Flush_def)
  then show ?thesis using b' no_tables_no_flush [OF assms b'(1)] by (auto simp: wb_GetBySk_def)
qed

interpretation kva: adapter_store "kv_inv sprint ck p" "\<lambda>x. tables (inner (snd x))" "\<lambda>x. wb_sel sprint (snd x)"
  "safe sprint" simple "ok_entity sprint"
  "\<lambda>t. lift_st (wb_CreateTable (fs_ops sprint decode) t)" "\<lambda>t e. lift_st (wb_Set (fs_ops sprint decode) jl t e)"
  "\<lambda>t k. lift_st (wb_Del (fs_ops sprint decode) jl t k)" "\<lambda>t k x. wb_Get (fs_ops sprint decode) t k (snd x)"
  "kv_ops sprint decode jl" for sprint ck p decode jl
proof (unfold_locales, goal_cases)
  case (1 s t)
  then have "wb_inv sprint (snd s)" by (simp add: kv_inv_def)
  then obtain b where b: "wb_CreateTable (fs_ops sprint decode) t (snd s) = (None, b)" "wb_inv sprint b"
      "tables (inner b) = insert t (tables (inner (snd s)))" "wb_sel sprint b = wb_sel sprint (snd s)"
    using wb.create_law [of sprint "snd s" t decode] 1(2) by auto
  show ?case using kv_inv_lift [OF 1(1) b(2) wb_root(1) [OF b(1)]] b(1,3,4) by (auto simp: lift_st_def)
next
  case (2 s t e)
  then have "wb_inv sprint (snd s)" by (simp add: kv_inv_def)
  then obtain b where b: "wb_Set (fs_ops sprint decode) jl t e (snd s) = (None, b)" "wb_inv sprint b"
      "tables (inner b) = tables (inner (snd s))" "wb_sel sprint b = upd t (iKey e) (Some (safe sprint e)) (wb_sel sprint (snd s))"
    using wb.put_law [of sprint "snd s" t e decode jl] 2(2,3) by auto
  have "root b = root (snd s)" using wb_root(2) [OF b(1) [unfolded wb_Set_def]] by (simp add: wb_root(3))
  then show ?case using kv_inv_lift [OF 2(1) b(2)] b(1,3,4) 2(2) by (auto simp: lift_st_def)
next
  case (3 s t k)
  then have "wb_inv sprint (snd s)" by (simp add: kv_inv_def)
  then obtain r b where b: "wb_Del (fs_ops sprint decode) jl t k (snd s) = (r, b)" "wb_inv sprint b"
      "r = None \<or> r = Some ErrNotFound \<and> wb_sel sprint (snd s) t k = None"
      "tables (inner b) = tables (inner (snd s))" "wb_sel sprint b = upd t k None (wb_sel sprint (snd s))"
    using wb.del_law [of sprint "snd s" t k decode jl] 3(2,3) by auto
  have "root b = root (snd s)" using wb_root(2) [OF b(1) [unfolded wb_Del_def]] by (simp add: wb_root(3))
  then show ?case using kv_inv_lift [OF 3(1) b(2)] b(1,3-5) 3(2) by (auto simp: lift_st_def)
next
  case (4 s t k)
  then show ?case using wb.get_law [of sprint "snd s" t k decode] by (simp add: kv_inv_def)
next
  case (5 e)
  then show ?case by (rule wb.okent_key)
next
  case (6 e)
  then show ?case by (rule wb.norm_norm)
next
  case 7
  show ?case by (simp add: kv_ops_def Let_def)
next
  case (8 s t es)
  then have "wb_inv sprint (snd s)" by (simp add: kv_inv_def)
  then obtain b where b: "wb_BulkSet (fs_ops sprint decode) jl t es (snd s) = (None, b)" "wb_inv sprint b"
      "tables (inner b) = tables (inner (snd s))"
      "wb_sel sprint b = fold (\<lambda>e. upd t (iKey e) (Some (safe sprint e))) es (wb_sel sprint (snd s))"
    using ad.bulk_set_law [of sprint "snd s" t es decode jl] 8(2,3) by auto
  have "root b = root (snd s)"
    using wb_root(2) [OF b(1) [unfolded wb_BulkSet_def]] fold_upsert_root [of jl "\<lambda>e. (t, iKey e)" BatchSet] by simp
  then have "kv_inv sprint ck p (fst s, b)" using kv_inv_lift [OF 8(1) b(2)] b(3) 8(2) by auto
  then show ?case using b by (intro exI [of _ "(fst s, b)"]) (simp add: kv_ops_def Let_def lift_st_def)
next
  case (9 s t ks)
  then have "wb_inv sprint (snd s)" by (simp add: kv_inv_def)
  then obtain b where b: "wb_BulkDel (fs_ops sprint decode) jl t ks (snd s) = (None, b)" "wb_inv sprint b"
      "tables (inner b) = tables (inner (snd s))" "wb_sel sprint b = fold (\<lambda>k. upd t k None) ks (wb_sel sprint (snd s))"
    using ad.bulk_del_law [of sprint "snd s" t ks decode jl] 9(2,3) by auto
  have "root b = root (snd s)"
    using wb_root(2) [OF b(1) [unfolded wb_BulkDel_def]] fold_upsert_root [of jl "\<lambda>k. (t, k)" "\<lambda>_. BatchDel"] by simp
  then have "kv_inv sprint ck p (fst s, b)" using kv_inv_lift [OF 9(1) b(2)] b(3) 9(2) by auto
  then show ?case using b by (intro exI [of _ "(fst s, b)"]) (simp add: kv_ops_def Let_def lift_st_def)
next
  case (10 s t sk)
  then have "wb_inv sprint (snd s)" by (simp add: kv_inv_def)
  then obtain r b where "wb_GetBySk (fs_ops sprint decode) t sk (snd s) = (r, b)" "wb_inv sprint b" "tables (inner b) = tables (inner (snd s))"
      "wb_sel sprint b = wb_sel sprint (snd s)" "root b = root (snd s)" "tables (inner (snd s)) \<noteq> {} \<or> inner b = inner (snd s)"
    using query_flushes [of sprint "snd s" decode t sk] by auto
  then show ?case using kv_inv_lift [OF 10(1), of b] by (simp add: kv_ops_def lift_st_def Let_def)
next
  case (11 e)
  show ?case by (rule ad.norm_version)
qed

text \<open>The checkpoint library encodes every file that has no tables.\<close>

definition ck_marshals :: "ck_codec \<Rightarrow> bool" where
  "ck_marshals ck \<longleftrightarrow> (\<forall>q. \<exists>raw. ckMarshal ck \<lparr>cfVersion = 1, cfLastSeq = q, cfTables = []\<rparr> = Inr raw)"

lemma save_without_faults:
  assumes "ck_marshals ck" and "ckIo d = []"
  shows "\<exists>d'. durable_SaveLastSeq ck nm dir q d = (None, d')"
proof -
  obtain raw where "ckMarshal ck \<lparr>cfVersion = 1, cfLastSeq = q, cfTables = []\<rparr> = Inr raw" using assms(1) by (auto simp: ck_marshals_def)
  then show ?thesis
    using assms(2) by (simp add: durable_SaveLastSeq_def writeCheckpointAtomic_def ck_MkdirAll_def ck_WriteFile_def ck_Rename_def ck_next_def Let_def)
qed

lemma lift_st_frame: "lift_st f x = (r, x') \<Longrightarrow> fst x' = fst x \<and> f (snd x) = (r, snd x')"
  by (auto simp: lift_st_def split: prod.splits)

interpretation kvd: durable_store "kv_inv sprint ck p" "\<lambda>x. tables (inner (snd x))" "\<lambda>x. wb_sel sprint (snd x)"
  "safe sprint" simple "ok_entity sprint"
  "\<lambda>t. lift_st (wb_CreateTable (fs_ops sprint decode) t)" "\<lambda>t e. lift_st (wb_Set (fs_ops sprint decode) jl t e)"
  "\<lambda>t k. lift_st (wb_Del (fs_ops sprint decode) jl t k)" "\<lambda>t k x. wb_Get (fs_ops sprint decode) t k (snd x)"
  "kv_ops sprint decode jl" "\<lambda>x. sel (inner (snd x))" fst "fcs_ReadCheckpointTables ck nm dir"
  "\<lambda>d. ck_marshals ck \<and> ckIo d = []" "file_env ck nm (Some (Flush (fs_ops sprint decode)))" dir
  for sprint ck p decode jl nm dir
proof (unfold_locales, goal_cases)
  case (1 k)
  then show ?case by (simp add: simple_def)
next
  case (2 t s r s')
  then show ?case by (simp add: lift_st_frame)
next
  case (3 t e s r s')
  then show ?case by (simp add: lift_st_frame)
next
  case (4 t k s r s')
  then show ?case by (simp add: lift_st_frame)
next
  case (5 s t r s')
  have b: "wb_CreateTable (fs_ops sprint decode) t (snd s) = (r, snd s')" using 5(3) by (simp add: lift_st_frame)
  obtain d where "CreateTable t (inner (snd s)) = (None, d)" "sel d = sel (inner (snd s))"
    using fs.create_law [of "inner (snd s)" t] 5(1,2) by (auto simp: kv_inv_def bt_inv_def pend_ok_def)
  moreover from this(1) b have "inner (snd s') = d" by (auto simp: wb_CreateTable_def fs_ops_def dest: arg_cong [of _ _ inner])
  ultimately show ?case by simp
next
  case (6 s t e r s')
  have b: "wb_Set (fs_ops sprint decode) jl t e (snd s) = (r, snd s')" using 6(4) by (simp add: lift_st_frame)
  have p: "pend_ok db_inv tables simple (ok_entity sprint) (snd s)" using 6(1) by (simp add: kv_inv_def bt_inv_def)
  note u = fs.upsert_law [OF p 6(2) wb.okent_key [OF 6(3)], of "BatchSet e" jl]
  show ?case using finish_kept [OF u(1) b [unfolded wb_Set_def]] u(2) 6(3) by simp
next
  case (7 s t k r s')
  have b: "wb_Del (fs_ops sprint decode) jl t k (snd s) = (r, snd s')" using 7(4) by (simp add: lift_st_frame)
  have p: "pend_ok db_inv tables simple (ok_entity sprint) (snd s)" using 7(1) by (simp add: kv_inv_def bt_inv_def)
  note u = fs.upsert_law [OF p 7(2,3), of BatchDel jl]
  show ?case using finish_kept [OF u(1) b [unfolded wb_Del_def]] u(2) by simp
next
  case (8 s t es r s')
  have b: "wb_BulkSet (fs_ops sprint decode) jl t es (snd s) = (r, snd s')" "fst s' = fst s"
    using 8(4) lift_st_frame [of "wb_BulkSet (fs_ops sprint decode) jl t es" s r s'] by (simp_all add: kv_ops_def Let_def)
  have p: "pend_ok db_inv tables simple (ok_entity sprint) (snd s)" using 8(1) by (simp add: kv_inv_def bt_inv_def)
  have "\<forall>e\<in>set es. simple (iKey e) \<and> (\<forall>e'. BatchSet e = BatchSet e' \<longrightarrow> ok_entity sprint e' \<and> iKey e' = iKey e)"
    using 8(3) wb.okent_key by auto
  note u = fold_upsert_law [OF p 8(2) this, of jl]
  show ?case using finish_kept [OF conjunct1 [OF u] b(1) [unfolded wb_BulkSet_def]] u b(2) by simp
next
  case (9 s t ks r s')
  have b: "wb_BulkDel (fs_ops sprint decode) jl t ks (snd s) = (r, snd s')" "fst s' = fst s"
    using 9(4) lift_st_frame [of "wb_BulkDel (fs_ops sprint decode) jl t ks" s r s'] by (simp_all add: kv_ops_def Let_def)
  have p: "pend_ok db_inv tables simple (ok_entity sprint) (snd s)" using 9(1) by (simp add: kv_inv_def bt_inv_def)
  have "\<forall>k\<in>set ks. simple k \<and> (\<forall>e. BatchDel = BatchSet e \<longrightarrow> ok_entity sprint e \<and> iKey e = k)" using 9(3) by simp
  note u = fold_upsert_law [OF p 9(2) this, of jl]
  show ?case using finish_kept [OF conjunct1 [OF u] b(1) [unfolded wb_BulkDel_def]] u b(2) by simp
next
  case (10 s t sk res s')
  have b: "wb_GetBySk (fs_ops sprint decode) t sk (snd s) = (res, snd s')" "fst s' = fst s"
    using 10(2) lift_st_frame [of "wb_GetBySk (fs_ops sprint decode) t sk" s res s'] by (simp_all add: kv_ops_def Let_def)
  have i: "wb_inv sprint (snd s)" using 10(1) by (simp add: kv_inv_def)
  have q: "wb_inv sprint (snd s')" "tables (inner (snd s')) = tables (inner (snd s))" "wb_sel sprint (snd s') = wb_sel sprint (snd s)"
      "sel (inner (snd s')) = wb_sel sprint (snd s)" "root (snd s') = root (snd s)" "tables (inner (snd s)) \<noteq> {} \<or> inner (snd s') = inner (snd s)"
    using query_flushes [OF i, of decode t sk] b(1) by auto
  have "kv_inv sprint ck p (fst s, snd s')" using kv_inv_lift [OF 10(1) q(1,5)] q(2,6) by simp
  then have "kv_inv sprint ck p s'" using b(2) by (metis prod.collapse)
  then show ?case using q b(2) by (simp add: spilled_def)
next
  case (11 s)
  show ?case by (simp add: file_env_def split: prod.splits)
next
  case (12 s)
  then obtain b where b: "Flush (fs_ops sprint decode) (snd s) = (None, b)" "sel (inner b) = wb_sel sprint (snd s)" "wb_inv sprint b"
      "tables (inner b) = tables (inner (snd s))" "pend b = []"
    using flushed [of sprint "snd s" decode] by (auto simp: kv_inv_def)
  have "kv_inv sprint ck p (fst s, b)" by (rule kv_inv_flush [OF 12 b(1,3,4)])
  then show ?case using b by (intro exI [of _ "(fst s, b)"], cases s) (simp add: run_before_def file_env_def)
next
  case (13 s q r s')
  obtain d where d: "durable_SaveLastSeq ck nm dir q (fst s) = (r, d)" "s' = (d, snd s)"
    using 13(2) by (auto simp: file_env_def split: prod.splits)
  have rd: "ck_codec_faithful ck" "ckReadErr (fst s) = None" using 13(1) by (simp_all add: kv_inv_def)
  have "ckReadErr d = None \<and> fcs_ReadCheckpointTables ck nm dir d = (if r = None then Inr (q, []) else fcs_ReadCheckpointTables ck nm dir (fst s))"
    using save_found [OF rd, of nm dir q d] save_lost [of ck nm dir q "fst s" _ d] d(1) rd(2) by (cases r) auto
  then show ?case using 13(1) d(2) by (simp add: kv_inv_def)
next
  case (14 s q)
  then show ?case using save_without_faults [of ck "fst s" nm dir q] by (auto simp: file_env_def split: prod.splits)
qed

end
