(* ===== verification/Kv_Setup.thy ===== *)
theory Kv_Setup
  imports Kv_Store
begin

text \<open>
  The assembly of a node's store (\<^verbatim>\<open>src/cmd/node/setup/kv.go\<close>) on a machine: the directories, the log file as
  opened, the checkpoint files and the clock.  Opening creates the directories, builds the store, the log and the
  cache, replays the log and says which background loops run.  Third-party code (the CBOR codec of items and of checkpoint
  files, the size of an item's JSON, \<^verbatim>\<open>fmt.Sprint\<close> on odd map keys) is in \<open>kv_libs\<close>.

  The life of the store is a sequence of events: requests, ticks of the background loops, faults of the devices, crashes
  and shutdowns, both followed by a new start.
\<close>

section \<open>Opening and closing\<close>

record kv_libs =
  libSprint :: "any \<Rightarrow> string"
  libDecode :: "bytes \<Rightarrow> goerr + entity"
  libJsonLen :: "entity \<Rightarrow> nat option"
  libCodec :: codec
  libCk :: ck_codec

record machine =
  mCwd :: path
  mTree :: fs
  mLog :: osfile
  mCkpt :: ckdisk
  mClock :: int
  mReadings :: "int list"

record kvstore =
  kvAdapter :: "(ckdisk \<times> fsdb batcher) adapter"
  kvCheckpointEvery :: "int option"
  kvFlushLimits :: "fs_limits option"

definition abs_path :: "path \<Rightarrow> string \<Rightarrow> path" where
  "abs_path cwd s = (if starts_with ''/'' s then Join [] [s] else Join cwd [s])"

definition kv_wal_opts :: "string \<Rightarrow> options" where
  "kv_wal_opts ckdir =
     \<lparr>Durability = SyncEveryWrite, CheckpointDir = ckdir, HasCheckpointStore = True,
      CheckpointPolicy = \<lparr>EveryNWrites = 0, MaxWalBytes = 0, TruncateAfterCheckpoint = False\<rparr>\<rparr>"

definition kv_cfg :: "kv_libs \<Rightarrow> config \<Rightarrow> (ckdisk \<times> fsdb batcher) adapter_cfg" where
  "kv_cfg l conf =
     \<lparr>cfgStore = kv_ops (libSprint l) (libDecode l) (libJsonLen l), cfgCodec = libCodec l,
      cfgEnv = file_env (libCk l) (CheckpointFileName conf) (Some (Flush (fs_ops (libSprint l) (libDecode l))))\<rparr>"

text \<open>What an adapter leaves on the machine.\<close>

definition machine_of :: "machine \<Rightarrow> (ckdisk \<times> fsdb batcher) adapter \<Rightarrow> machine" where
  "machine_of M a = M\<lparr>mTree := dfs (inner (snd (aStore a))), mLog := (case aLog a of None \<Rightarrow> mLog M | Some w \<Rightarrow> wFile w), mCkpt := fst (aStore a)\<rparr>"

text \<open>\<^verbatim>\<open>Stop\<close> ends a goroutine the batcher only has with a flush interval of its own, which is not set here.\<close>

definition OpenKV :: "kv_libs \<Rightarrow> node_flags \<Rightarrow> config \<Rightarrow> machine \<Rightarrow> goerr \<times> machine + kvstore" where
  "OpenKV l flags conf M =
     (case os_MkdirAll (abs_path (mCwd M) (filepath_Dir (nfWALPath flags))) (mTree M) of
        (Some e, F) \<Rightarrow> Inl (ErrWrap ''setup: kv wal dir'' (os_goerr e), M\<lparr>mTree := F\<rparr>)
      | (None, F) \<Rightarrow>
      (case os_MkdirAll (abs_path (mCwd M) (nfFsDefaultDir flags)) F of
        (Some e, F) \<Rightarrow> Inl (ErrWrap ''setup: kv fs dir'' (os_goerr e), M\<lparr>mTree := F\<rparr>)
      | (None, F) \<Rightarrow>
          let rawFS = \<lparr>defaultDir = abs_path (mCwd M) (nfFsDefaultDir flags), dfs = F\<rparr>;
              batchOpts = \<lparr>MaxDirtyKeys = 0, MaxDirtyBytes = 0, FlushInterval = 0, DeferWrites = FSDeferWrites conf\<rparr>;
              batchedFS = NewWriteBatcher rawFS batchOpts in
          (case New (mLog M) (kv_wal_opts (nfCheckpointDefaultDir flags)) of
             Inl err \<Rightarrow> Inl (ErrWrap ''setup: kv wal open'' err, M\<lparr>mTree := F\<rparr>)
           | Inr kvWAL \<Rightarrow>
               let cc = New_cache (CacheMaxEntries conf) (CacheTTL conf) (mClock M) (mReadings M);
                   adapter = \<lparr>aStore = (mCkpt M, batchedFS), aLog = Some kvWAL, aCache = cc\<rparr> in
               (case ad_Load (kv_cfg l conf) adapter of
                  (Some err, a) \<Rightarrow>
                    (case ad_Close (kv_cfg l conf) a of (_, a) \<Rightarrow> Inl (ErrWrap ''setup: kv wal replay'' err, machine_of M a))
                | (None, a) \<Rightarrow>
                    let thr = DirtyFlushThresholds batchedFS in
                    Inr \<lparr>kvAdapter = a,
                      kvCheckpointEvery = (if CheckpointInterval conf > 0 then Some (CheckpointInterval conf) else None),
                      kvFlushLimits =
                        (if FSDeferWrites conf \<and> FSFlushInterval conf > 0
                         then Some \<lparr>Interval = FSFlushInterval conf, MaxPendingKeys = fst thr, MaxPendingBytes = snd thr,
                                PendingPollEvery = FSPeriodicPoll conf, PerFlushTimeout = FSFlushOpTimeout conf\<rparr>
                         else None)\<rparr>))))"

definition kv_DB :: "kvstore \<Rightarrow> (ckdisk \<times> fsdb batcher) adapter" where
  "kv_DB s = kvAdapter s"

definition kv_Close :: "kv_libs \<Rightarrow> config \<Rightarrow> kvstore \<Rightarrow> goerr option \<times> kvstore" where
  "kv_Close l conf s = (case ad_Close (kv_cfg l conf) (kvAdapter s) of (err, a) \<Rightarrow> (err, s\<lparr>kvAdapter := a\<rparr>))"

section \<open>The life of a store\<close>

datatype kv_event =
    EvWrite db_write
  | EvCreate string
  | EvGet string string
  | EvQuery string string
  | EvFlushTick fs_tick
  | EvCheckpointTick
  | EvFaults "io_outcome list" "io_outcome list"
  | EvCrash bytes
  | EvRestart

text \<open>A crash loses the buffer and what the log file had not synchronised; a torn write may follow what it had.  The
  faults of the devices are over when the process starts again.\<close>

definition crash :: "machine \<Rightarrow> bytes \<Rightarrow> kvstore \<Rightarrow> machine" where
  "crash M tail s =
     (let M' = machine_of M (kvAdapter s); d = fsynced (mLog M') @ tail in
      M'\<lparr>mLog := \<lparr>fdata = d, fpos = 0, fsynced = d, foutcomes = []\<rparr>, mCkpt := (mCkpt M')\<lparr>ckIo := []\<rparr>\<rparr>)"

definition start :: "kv_libs \<Rightarrow> node_flags \<Rightarrow> config \<Rightarrow> machine \<Rightarrow> kvstore \<Rightarrow> goerr option \<times> kvstore" where
  "start l flags conf M s = (case OpenKV l flags conf M of Inl (err, _) \<Rightarrow> (Some err, s) | Inr s' \<Rightarrow> (None, s'))"

definition set_faults :: "io_outcome list \<Rightarrow> io_outcome list \<Rightarrow> (ckdisk \<times> fsdb batcher) adapter \<Rightarrow> (ckdisk \<times> fsdb batcher) adapter" where
  "set_faults io ck a =
     a\<lparr>aLog := map_option (\<lambda>w. w\<lparr>wFile := (wFile w)\<lparr>foutcomes := io\<rparr>\<rparr>) (aLog a), aStore := ((fst (aStore a))\<lparr>ckIo := ck\<rparr>, snd (aStore a))\<rparr>"

fun kv_step :: "kv_libs \<Rightarrow> node_flags \<Rightarrow> config \<Rightarrow> machine \<Rightarrow> kv_event \<Rightarrow> kvstore \<Rightarrow> goerr option \<times> kvstore" where
  "kv_step l flags conf M (EvWrite r) s = (case db_write_exec (kv_cfg l conf) r (kvAdapter s) of (err, a) \<Rightarrow> (err, s\<lparr>kvAdapter := a\<rparr>))"
| "kv_step l flags conf M (EvCreate t) s = (case ad_CreateTable (kv_cfg l conf) t (kvAdapter s) of (err, a) \<Rightarrow> (err, s\<lparr>kvAdapter := a\<rparr>))"
| "kv_step l flags conf M (EvGet t k) s = (None, s\<lparr>kvAdapter := snd (ad_Get (kv_cfg l conf) t k (kvAdapter s))\<rparr>)"
| "kv_step l flags conf M (EvQuery t sk) s = (None, s\<lparr>kvAdapter := snd (ad_GetBySecondaryKey (kv_cfg l conf) t sk (kvAdapter s))\<rparr>)"
| "kv_step l flags conf M (EvFlushTick tick) s =
     (case kvFlushLimits s of
        None \<Rightarrow> (None, s)
      | Some lim \<Rightarrow>
          (None, s\<lparr>kvAdapter := (kvAdapter s)\<lparr>aStore := (fst (aStore (kvAdapter s)),
             RunPeriodicFSFlush (fs_ops (libSprint l) (libDecode l)) lim [tick] (snd (aStore (kvAdapter s))))\<rparr>\<rparr>))"
| "kv_step l flags conf M EvCheckpointTick s =
     (case (kvCheckpointEvery s, aLog (kvAdapter s)) of
        (Some i, Some w) \<Rightarrow>
          (case RunPeriodicWALCheckpoint (cfgEnv (kv_cfg l conf)) 1 w (aStore (kvAdapter s)) of
             (w, x) \<Rightarrow> (None, s\<lparr>kvAdapter := (kvAdapter s)\<lparr>aLog := Some w, aStore := x\<rparr>\<rparr>))
      | _ \<Rightarrow> (None, s))"
| "kv_step l flags conf M (EvFaults io ck) s = (None, s\<lparr>kvAdapter := set_faults io ck (kvAdapter s)\<rparr>)"
| "kv_step l flags conf M (EvCrash tail) s = start l flags conf (crash M tail s) s"
| "kv_step l flags conf M EvRestart s = start l flags conf (crash M [] (snd (kv_Close l conf s))) s"

fun kv_run :: "kv_libs \<Rightarrow> node_flags \<Rightarrow> config \<Rightarrow> machine \<Rightarrow> kv_event list \<Rightarrow> kvstore \<Rightarrow> goerr option \<times> kvstore" where
  "kv_run l flags conf M [] s = (None, s)"
| "kv_run l flags conf M (ev # evs) s =
     (case kv_step l flags conf M ev s of (Some err, s) \<Rightarrow> (Some err, s) | (None, s) \<Rightarrow> kv_run l flags conf M evs s)"

fun kv_writes :: "kv_event list \<Rightarrow> wal_req list" where
  "kv_writes [] = []"
| "kv_writes (EvWrite r # evs) = db_records r @ kv_writes evs"
| "kv_writes (ev # evs) = kv_writes evs"

end
