(* ===== verification/Checkpoint_Race.thy ===== *)
theory Checkpoint_Race
  imports Kv_Setup
begin

text \<open>
  The log, its checkpoint files and the batched store together, with the periodic checkpoint
  (\<^verbatim>\<open>src/internal/tasks/periodic.go\<close>) as a second goroutine.  The adapter's Set logs the record and then writes
  the store; the checkpoint takes the log's mutex only, so it may run between the two.
\<close>

lemma max_seq_le: "\<forall>e \<in> set es. eSeq e \<le> b \<Longrightarrow> m \<le> b \<Longrightarrow> max_seq es m \<le> b"
  by (induction es arbitrary: m) simp_all

text \<open>C29. A checkpoint can lose an acknowledged write: with buffered store writes, let the periodic checkpoint run after a Set
  has logged its record and before it has written the store.  The checkpoint flushes the buffer, which does not have the
  item yet, and saves the record's number; the Set then succeeds and reads see its item, which is in the buffer only.
  After a crash the load starts behind that record and the store holds what it held before the Set.\<close>

theorem checkpoint_during_set_loses_it:
  assumes env: "env = file_env ck nm (Some (Flush (fs_ops sprint decode)))" "ck_codec_faithful ck"
    and w0: "wal_inv w0 es" "auto_off (wOpts w0)" "CheckpointConfigured (wOpts w0)"
      "\<not> TruncateAfterCheckpoint (CheckpointPolicy (wOpts w0))" "wSeq w0 + 1 \<noteq> 0"
    and x0: "wb_inv sprint b0" "t \<in> tables (inner b0)" "ok_entity sprint e" "ckReadErr d0 = None"
    and log: "wal_Set c env t e w0 (d0, b0) = (None, w1, x1)" "Encode c e = Inr v" "payload_size (set_entry (wSeq w0 + 1) t e v) \<le> 268435456"
    and ckpt: "Checkpoint env w1 x1 = (None, w2, d2, b2)"
    and store: "wb_Set (fs_ops sprint decode) jl t e b2 = (None, b3)" "DeferWrites (bopts b0)"
      "\<not> overLimitsLocked (upsertLocked jl (t, iKey e) (BatchSet e) b2)"
    and crash: "fdata f = fsynced (wFile w2)" "foutcomes f = []" "New f (wOpts w0) = Inr w4" "ckIo d2 = []"
  shows "wb_sel sprint b3 t (iKey e) = Some (safe sprint e)
    \<and> (\<exists>w5 d5 b5. wal_Load c env [ops] w4 (d2, NewWriteBatcher (inner b3) bo) = (None, w5, d5, b5)
        \<and> wb_sel sprint b5 t (iKey e) = wb_sel sprint b0 t (iKey e))"
proof -
  let ?r = "set_entry (wSeq w0 + 1) t e v" and ?n = "wSeq w0 + 1"
  have x: "wal_exec c env (ReqSet t e) w0 (d0, b0) = (None, w1, x1)" "req_entry c ?n (ReqSet t e) = Inr ?r"
    using log by simp_all
  obtain w1' where w1': "wal_inv w1' (es @ [?r])" "wSeq w1' = ?n" "wOpts w1' = wOpts w0"
      "maybeAutoCheckpointLocked env w1' (d0, b0) = (None, w1, x1)"
    using wal_exec_ok [OF x(1) w0(1,5) x(2) log(3)] by blast
  then have w1: "wal_inv w1 (es @ [?r])" "wSeq w1 = ?n" "wOpts w1 = wOpts w0" "x1 = (d0, b0)"
    using w0(2) by (auto simp: maybeAuto_off)
  obtain b' where b': "Flush (fs_ops sprint decode) b0 = (None, b')" "pend b' = []" "bopts b' = bopts b0" "sel (inner b') = wb_sel sprint b0"
      "wb_inv sprint b'" "t \<in> tables (inner b')"
    using flushed [OF x0(1), of decode] x0(2) by auto
  have ck: "checkpointLocked env w1 (d0, b0) = (None, w2, d2, b2)" using ckpt w1(4) by (simp add: Checkpoint_def)
  have rb: "run_before env (d0, b0) = (None, d0, b')" using env(1) b'(1) by simp
  obtain m where m: "durable_SaveLastSeq ck nm (CheckpointDir (wOpts w0)) ?n d0 = (None, d2)" "b2 = b'"
    using checkpointLocked_ok [OF ck w1(1)] rb env(1) w1(2,3) by (auto split: prod.splits)
  have rd: "ReadCheckpointTables env (CheckpointDir (wOpts w0)) (d2, s) = Inr (?n, [])" "ckReadErr d2 = None" for s
    using save_found [OF env(2) x0(4) m(1)] env(1) by simp_all
  have b3: "b3 = upsertLocked jl (t, iKey e) (BatchSet e) b2"
    using store b'(3) m(2) by (simp add: wb_Set_def finish_write_def upsertLocked_def Let_def)
  have acked: "wb_sel sprint b3 t (iKey e) = Some (safe sprint e)"
    using wb.put_law [of sprint b2 t e decode jl] store(1) b'(5,6) m(2) x0(3) by (auto simp: upd_apply)
  let ?x = "(d2, NewWriteBatcher (inner b3) bo)"
  have fd: "fdata (wFile w4) = frames (es @ [?r]) @ []" "foutcomes (wFile w4) = []" "wOpts w4 = wOpts w0" "wBufw w4 = None"
    using New_fields [OF crash(3)] crash(1,2) checkpoint_synced [OF ck] w1(1,3) w0(1,4) by (simp_all add: wal_inv_def)
  have le: "\<forall>q \<in> set (es @ [?r]). loggable q \<and> eSeq q \<le> ?n" using w1(1,2) by (simp add: wal_inv_def)
  have mx: "max ?n (max_seq (es @ [?r]) 0) = ?n" using max_seq_le [of "es @ [?r]" ?n 0] le by (simp add: max_def)
  have none: "filter (\<lambda>q. eSeq q > ?n) (es @ [?r]) = []" using le by (auto simp: filter_empty_conv not_less)
  let ?w = "w4\<lparr>wFile := (wFile w4)\<lparr>fdata := frames (es @ [?r]), fpos := length (frames (es @ [?r]))\<rparr>, wSeq := max ?n (max_seq (es @ [?r]) 0)\<rparr>"
  have fl: "run_before env ?x = (None, ?x)" using env(1) by (simp add: Flush_def flushAllLocked_def NewWriteBatcher_def)
  obtain d5 where d5: "durable_SaveLastSeq ck nm (CheckpointDir (wOpts w0)) ?n d2 = (None, d5)"
    using m(1) crash(4) by (auto simp: durable_SaveLastSeq_def writeCheckpointAtomic_def ck_MkdirAll_def ck_WriteFile_def ck_Rename_def ck_next_def Let_def
        split: prod.splits option.splits sum.splits list.splits io_outcome.splits)
  obtain w5 where w5: "checkpointLocked env ?w ?x = (None, w5, d5, NewWriteBatcher (inner b3) bo)"
    using checkpoint_quiet [of ?w env ?x ?x "(d5, NewWriteBatcher (inner b3) bo)"] fd fl d5 mx env(1) w0(3) by auto
  have hy: "hydrateCheckpointIfNeeded ops [] ?x = (None, ?x)" by (simp add: hydrateCheckpointIfNeeded_def)
  have "wal_Load c env [ops] w4 ?x = (None, w5\<lparr>writesSinceCkpt := 0, bytesSinceCkpt := 0\<rparr>, d5, NewWriteBatcher (inner b3) bo)"
    by (rule load_after [OF _ _ hy fd(2,1) _ _ _ w5]) (use fd(3) w0(3) rd(1) none le in simp_all)
  moreover have "wb_sel sprint (NewWriteBatcher (inner b3) bo) = wb_sel sprint b0"
    using b3 b'(4) m(2) by (simp add: NewWriteBatcher_def upsertLocked_def Let_def overlay_def fun_eq_iff)
  ultimately show ?thesis using acked by metis
qed

theorem checkpoint_during_set_loses_it_witness:
  "\<exists>d w1 w2 d2 b2 b3 w4 w5 d5 b5. CreateTable ''t'' (empty_db [''data'']) = (None, d)
     \<and> wal_Set item_codec (file_env demo_ck ''c'' (Some (Flush (fs_ops (\<lambda>_. []) (\<lambda>_. Inl ErrTruncated))))) ''t'' (demo_ent ''a'' [])
         (demo_wal (kv_wal_opts ''d'') [] []) (demo_ckdisk [], NewWriteBatcher d demo_deferred) = (None, w1, demo_ckdisk [], NewWriteBatcher d demo_deferred)
     \<and> Checkpoint (file_env demo_ck ''c'' (Some (Flush (fs_ops (\<lambda>_. []) (\<lambda>_. Inl ErrTruncated))))) w1
         (demo_ckdisk [], NewWriteBatcher d demo_deferred) = (None, w2, d2, b2)
     \<and> wb_Set (fs_ops (\<lambda>_. []) (\<lambda>_. Inl ErrTruncated)) (\<lambda>_. None) ''t'' (demo_ent ''a'' []) b2 = (None, b3)
     \<and> wb_sel (\<lambda>_. []) b3 ''t'' ''a'' = Some (demo_ent ''a'' [])
     \<and> New \<lparr>fdata = fsynced (wFile w2), fpos = 0, fsynced = [], foutcomes = []\<rparr> (kv_wal_opts ''d'') = Inr w4
     \<and> wal_Load item_codec (file_env demo_ck ''c'' (Some (Flush (fs_ops (\<lambda>_. []) (\<lambda>_. Inl ErrTruncated))))) [store_operations (kv_ops (\<lambda>_. []) (\<lambda>_. Inl ErrTruncated) (\<lambda>_. None))] w4
         (d2, NewWriteBatcher (inner b3) demo_deferred) = (None, w5, d5, b5)
     \<and> wb_sel (\<lambda>_. []) b5 ''t'' ''a'' = None"
proof -
  let ?ops = "fs_ops (\<lambda>_. []) (\<lambda>_. Inl ErrTruncated)" and ?e = "demo_ent ''a'' []"
  let ?env = "file_env demo_ck ''c'' (Some (Flush ?ops))" and ?w0 = "demo_wal (kv_wal_opts ''d'') [] []"
  obtain d where d: "CreateTable ''t'' (empty_db [''data'']) = (None, d)" "''t'' \<in> tables d" "db_inv d" "\<And>t k. sel d t k = None"
    by (rule demo_db) (rule that)
  let ?b0 = "NewWriteBatcher d demo_deferred" and ?d0 = "demo_ckdisk []"
  have q: "quiet ?w0" "wal_inv ?w0 []" "auto_off (kv_wal_opts ''d'')" "CheckpointConfigured (kv_wal_opts ''d'')" "CheckpointDir (kv_wal_opts ''d'') = ''d''"
      "\<not> TruncateAfterCheckpoint (CheckpointPolicy (kv_wal_opts ''d''))"
    by (simp_all add: quiet_def auto_off_def kv_wal_opts_def wal_inv_def CheckpointConfigured_def)
  have c: "Encode item_codec ?e = Inr (bytes_of_string ''a'')" by (simp add: item_codec_def)
  have v: "valid_entry (set_entry n ''t'' ?e (bytes_of_string ''a''))" "payload_size (set_entry n ''t'' ?e (bytes_of_string ''a'')) \<le> 268435456" for n
    by (intro set_entry_valid) (simp_all add: set_entry_def payload_size_def)
  obtain w1 where w1: "wal_Set item_codec ?env ''t'' ?e ?w0 (?d0, ?b0) = (None, w1, ?d0, ?b0)" "quiet w1"
    using wal_Set_quiet [OF q(1) c v(1), of ?env] by blast
  have "wSeq w1 = 1 \<and> wOpts w1 = (kv_wal_opts ''d'')"
    using wal_exec_ok [of item_codec ?env "ReqSet ''t'' ?e" ?w0 "(?d0, ?b0)" w1 "(?d0, ?b0)" "[]"] w1(1) q(2,3) c v(2) by (auto simp: maybeAuto_off)
  then have s: "wSeq w1 = 1" "wOpts w1 = (kv_wal_opts ''d'')" by simp_all
  obtain d2 where d2: "durable_SaveLastSeq demo_ck ''c'' ''d'' 1 ?d0 = (None, d2)" "ckIo d2 = []" by (simp add: demo_ck_defs)
  have fl: "Flush ?ops ?b0 = (None, ?b0)" by (simp add: Flush_def flushAllLocked_def NewWriteBatcher_def)
  obtain w2 where w2: "Checkpoint ?env w1 (?d0, ?b0) = (None, w2, d2, ?b0)"
    using checkpoint_quiet [of w1 ?env "(?d0, ?b0)" "(?d0, ?b0)" "(d2, ?b0)"] w1(2) s q(4,5) d2(1) fl by (auto simp: quiet_def Checkpoint_def)
  let ?b3 = "upsertLocked (\<lambda>_. None) (''t'', ''a'') (BatchSet ?e) ?b0"
  have lim: "DeferWrites (bopts ?b0)" "\<not> overLimitsLocked ?b3"
    by (simp_all add: NewWriteBatcher_def normalized_def demo_deferred_def overLimitsLocked_def upsertLocked_def opBytes_def mergeKeyBytes_def)
  have b3: "wb_Set ?ops (\<lambda>_. None) ''t'' ?e ?b0 = (None, ?b3)" using lim by (simp add: wb_Set_def finish_write_def upsertLocked_def Let_def)
  obtain w4 where w4: "New \<lparr>fdata = fsynced (wFile w2), fpos = 0, fsynced = [], foutcomes = []\<rparr> (kv_wal_opts ''d'') = Inr w4"
    by (simp add: New_def kv_wal_opts_def Validate_def CheckpointConfigured_def)
  have w4': "New \<lparr>fdata = fsynced (wFile w2), fpos = 0, fsynced = [], foutcomes = []\<rparr> (wOpts ?w0) = Inr w4" using w4 by simp
  have b0: "wb_inv (\<lambda>_. []) ?b0" "''t'' \<in> tables (inner ?b0)" "ok_entity (\<lambda>_. []) ?e" "ckReadErr ?d0 = None"
    using d by (simp_all add: NewWriteBatcher_def bt_inv_def pend_ok_def demo_ckdisk_def)
  have "wb_sel (\<lambda>_. []) ?b3 ''t'' (iKey ?e) = Some (safe (\<lambda>_. []) ?e)
    \<and> (\<exists>w5 d5 b5. wal_Load item_codec ?env [store_operations (kv_ops (\<lambda>_. []) (\<lambda>_. Inl ErrTruncated) (\<lambda>_. None))] w4 (d2, NewWriteBatcher (inner ?b3) demo_deferred) = (None, w5, d5, b5)
        \<and> wb_sel (\<lambda>_. []) b5 ''t'' (iKey ?e) = wb_sel (\<lambda>_. []) ?b0 ''t'' (iKey ?e))"
    by (rule checkpoint_during_set_loses_it [OF refl demo_ck_faithful q(2) _ _ _ _ b0 w1(1) c v(2) w2 b3 lim(1) _ _ _ w4' d2(2)])
      (use q(3-6) lim(2) in simp_all)
  moreover have "wb_sel (\<lambda>_. []) ?b0 ''t'' ''a'' = None" using d(4) by (simp add: NewWriteBatcher_def)
  ultimately show ?thesis using d(1) w1(1) w2 b3 w4 by fastforce
qed

end
