(* ===== verification/Node_Main.thy ===== *)
theory Node_Main
  imports Kv_Setup Replication
begin

text \<open>
  The process of a node (\<^verbatim>\<open>src/cmd/node/main.go\<close>): start-up in its order with every way it can end, the delivery of
  committed entries, the persister of terms and votes, shutdown, and crashes at any point, also between the application
  of an entry and its record in the consensus log.  A host is the machine of the store, the file of the consensus
  log as opened, and the outcome of listening.  Signals, the servers' goroutines, timeouts of the shutdown and
  logging are left out.
\<close>

section \<open>Starting and stopping\<close>

record node_libs =
  nlKv :: kv_libs
  nlRaft :: raft_codec
  nlReadEnv :: "config \<Rightarrow> goerr option \<times> config"

record host =
  hMachine :: machine
  hRaftLog :: osfile
  hListen :: "goerr option"

text \<open>The ways out of \<^verbatim>\<open>main\<close> before it serves: a panic when the environment cannot be read, \<^verbatim>\<open>os.Exit(1)\<close> otherwise;
  neither runs the deferred calls.\<close>

datatype node_exit = BadFlags goerr | EnvPanic goerr | RaftFailed goerr | KvFailed goerr | ListenFailed goerr

fun exit_error :: "node_exit \<Rightarrow> goerr" where
  "exit_error (BadFlags err) = err"
| "exit_error (EnvPanic err) = err"
| "exit_error (RaftFailed err) = err"
| "exit_error (KvFailed err) = err"
| "exit_error (ListenFailed err) = err"

text \<open>\<^verbatim>\<open>setup.OpenRaft\<close> with the directory it creates.\<close>

definition OpenRaft_in :: "raft_codec \<Rightarrow> node_flags \<Rightarrow> machine \<Rightarrow> osfile \<Rightarrow> (goerr + raft_setup) \<times> machine" where
  "OpenRaft_in c flags M f =
     (case os_MkdirAll (abs_path (mCwd M) (filepath_Dir (nfWALPath flags))) (mTree M) of
        (Some e, F) \<Rightarrow> (Inl (ErrWrap ''setup: raft wal dir'' (os_goerr e)), M\<lparr>mTree := F\<rparr>)
      | (None, F) \<Rightarrow> (OpenRaft c (nfID flags) (nfPeers flags) f, M\<lparr>mTree := F\<rparr>))"

record node =
  ndFlags :: node_flags
  ndConf :: config
  ndMachine :: machine
  ndRaft :: raft_setup
  ndKv :: kvstore

definition node_start :: "node_libs \<Rightarrow> string list \<Rightarrow> host \<Rightarrow> node_exit + node" where
  "node_start l args h =
     (case ParseNodeFlags args of
        Inl err \<Rightarrow> Inl (BadFlags err)
      | Inr flags \<Rightarrow>
          (case cfg_Load (nlReadEnv l) zero_config of
             (Some err, c) \<Rightarrow> Inl (EnvPanic err)
           | (None, c) \<Rightarrow>
               let conf = cfg_Get c in
               (case OpenRaft_in (nlRaft l) flags (hMachine h) (hRaftLog h) of
                  (Inl err, M) \<Rightarrow> Inl (RaftFailed err)
                | (Inr rn, M) \<Rightarrow>
                    (case OpenKV (nlKv l) flags conf M of
                       Inl (err, M) \<Rightarrow> Inl (KvFailed err)
                     | Inr kv \<Rightarrow>
                         (case hListen h of
                            Some err \<Rightarrow> Inl (ListenFailed err)
                          | None \<Rightarrow> Inr \<lparr>ndFlags = flags, ndConf = conf, ndMachine = M, ndRaft = rn, ndKv = kv\<rparr>)))))"

text \<open>The deferred calls at the end of \<^verbatim>\<open>main\<close>, the last one first; their errors are dropped.\<close>

definition node_shutdown :: "node_libs \<Rightarrow> node \<Rightarrow> node" where
  "node_shutdown l nd =
     nd\<lparr>ndKv := snd (kv_Close (nlKv l) (ndConf nd) (ndKv nd)),
        ndRaft := (ndRaft nd)\<lparr>rsWal := snd (raft_Close (rsWal (ndRaft nd)))\<rparr>\<rparr>"

section \<open>The life of a node\<close>

datatype node_event =
    NdApply raft_node log_entry
  | NdCrashApplied raft_node log_entry bytes bytes
  | NdMeta int string
  | NdStore kv_event
  | NdFaults "io_outcome list"
  | NdCrash bytes bytes
  | NdStop

text \<open>What a crash leaves: of each log what was synchronised, and possibly a torn record behind it.  Where the consensus log
  was cut back on opening and nothing has been written since, its file ends as it did before.\<close>

definition node_crash :: "bytes \<Rightarrow> bytes \<Rightarrow> node \<Rightarrow> host" where
  "node_crash rt kt nd =
     (let f = raft_file (ndRaft nd); d = fsynced f @ (if fsynced f = fdata f then rt else []) in
      \<lparr>hMachine = crash (ndMachine nd) kt (ndKv nd), hRaftLog = \<lparr>fdata = d, fpos = 0, fsynced = d, foutcomes = []\<rparr>, hListen = None\<rparr>)"

definition node_restart :: "node_libs \<Rightarrow> string list \<Rightarrow> host \<Rightarrow> node \<Rightarrow> goerr option \<times> node" where
  "node_restart l args h nd = (case node_start l args h of Inl ex \<Rightarrow> (Some (exit_error ex), nd) | Inr nd' \<Rightarrow> (None, nd'))"

definition node_db :: "node \<Rightarrow> (ckdisk \<times> fsdb batcher) adapter" where
  "node_db nd = kv_DB (ndKv nd)"

definition set_node_db :: "(ckdisk \<times> fsdb batcher) adapter \<Rightarrow> node \<Rightarrow> node" where
  "set_node_db a nd = nd\<lparr>ndKv := (ndKv nd)\<lparr>kvAdapter := a\<rparr>\<rparr>"

text \<open>What the file of the consensus log does from now on.\<close>

definition raft_faults :: "io_outcome list \<Rightarrow> raft_setup \<Rightarrow> raft_setup" where
  "raft_faults io s = s\<lparr>rsWal := (rsWal s)\<lparr>rwWal := (rwWal (rsWal s))\<lparr>wFile := (raft_file s)\<lparr>foutcomes := io\<rparr>\<rparr>\<rparr>\<rparr>"

text \<open>The delivery loop applies an entry and then records it; \<open>n\<close> is the consensus node as it is when the entry is
  delivered.\<close>

fun node_step :: "node_libs \<Rightarrow> string list \<Rightarrow> node_event \<Rightarrow> node \<Rightarrow> goerr option \<times> node" where
  "node_step l args (NdApply n e) nd =
     (case applied_loop (nlRaft l) (GrpcHandle (kv_cfg (nlKv l) (ndConf nd)) n) [e] (ndRaft nd) (node_db nd) of
        (err, rs, a) \<Rightarrow> (err, (set_node_db a nd)\<lparr>ndRaft := rs\<rparr>))"
| "node_step l args (NdCrashApplied n e rt kt) nd =
     (case GrpcHandle (kv_cfg (nlKv l) (ndConf nd)) n e (node_db nd) of
        (Some err, a) \<Rightarrow> (Some err, set_node_db a nd)
      | (None, a) \<Rightarrow> node_restart l args (node_crash rt kt (set_node_db a nd)) nd)"
| "node_step l args (NdMeta t v) nd = (case raft_do (nlRaft l) (RecMeta t v) (ndRaft nd) of (err, rs) \<Rightarrow> (err, nd\<lparr>ndRaft := rs\<rparr>))"
| "node_step l args (NdStore ev) nd =
     (case kv_step (nlKv l) (ndFlags nd) (ndConf nd) (ndMachine nd) ev (ndKv nd) of (err, s) \<Rightarrow> (err, nd\<lparr>ndKv := s\<rparr>))"
| "node_step l args (NdFaults io) nd = (None, nd\<lparr>ndRaft := raft_faults io (ndRaft nd)\<rparr>)"
| "node_step l args (NdCrash rt kt) nd = node_restart l args (node_crash rt kt nd) nd"
| "node_step l args NdStop nd = node_restart l args (node_crash [] [] (node_shutdown l nd)) nd"

fun node_run :: "node_libs \<Rightarrow> string list \<Rightarrow> node_event list \<Rightarrow> node \<Rightarrow> goerr option \<times> node" where
  "node_run l args [] nd = (None, nd)"
| "node_run l args (ev # evs) nd =
     (case node_step l args ev nd of (Some err, nd) \<Rightarrow> (Some err, nd) | (None, nd) \<Rightarrow> node_run l args evs nd)"

end
