(* ===== verification/Kv_Life.thy ===== *)
theory Kv_Life
  imports Kv_Setup
begin

text \<open>
  Durability of a node's store over its whole life: the contents are the acknowledged writes, in order, applied to what
  the store held when its log was begun, through any sequence of reads, background flushes, checkpoints that succeed or
  fail, crashes and restarts; and the store can always be opened again.
\<close>

abbreviation kv_up where
  "kv_up l flags conf p T rs n m a \<equiv> kvd.up (libSprint l) (libCk l) p (CheckpointFileName conf) (nfCheckpointDefaultDir flags) (libCodec l)
     (kv_wal_opts (nfCheckpointDefaultDir flags)) T rs n m a"

text \<open>The paths of a node: the log is in a directory on the way to the store's own, as the defaults have it.\<close>

definition kv_layout :: "node_flags \<Rightarrow> path \<Rightarrow> path \<Rightarrow> bool" where
  "kv_layout flags cwd p \<longleftrightarrow> p = abs_path cwd (nfFsDefaultDir flags) \<and> nfCheckpointDefaultDir flags \<noteq> []
     \<and> take (length (abs_path cwd (filepath_Dir (nfWALPath flags)))) p = abs_path cwd (filepath_Dir (nfWALPath flags))"

fun ev_ok :: "(any \<Rightarrow> string) \<Rightarrow> string set \<Rightarrow> kv_event \<Rightarrow> bool" where
  "ev_ok sprint T (EvWrite r) \<longleftrightarrow> db_table r \<in> T \<and> (\<forall>q\<in>set (db_records r). req_ok simple (ok_entity sprint) q)"
| "ev_ok sprint T (EvCreate t) \<longleftrightarrow> simple t"
| "ev_ok sprint T (EvCrash tail) \<longleftrightarrow> tail = [] \<or> torn tail"
| "ev_ok sprint T ev \<longleftrightarrow> True"

text \<open>The tables that exist after an event.\<close>

fun ev_tables :: "kv_event \<Rightarrow> string set \<Rightarrow> string set" where
  "ev_tables (EvCreate t) T = insert t T"
| "ev_tables ev T = T"

fun evs_ok :: "(any \<Rightarrow> string) \<Rightarrow> string set \<Rightarrow> kv_event list \<Rightarrow> bool" where
  "evs_ok sprint T [] \<longleftrightarrow> True"
| "evs_ok sprint T (ev # evs) \<longleftrightarrow> ev_ok sprint T ev \<and> evs_ok sprint (ev_tables ev T) evs"

section \<open>Each event\<close>

lemma kv_steady: "ckdir \<noteq> [] \<Longrightarrow> steady ckdir (kv_wal_opts ckdir)"
  by (simp add: steady_def kv_wal_opts_def auto_off_def CheckpointConfigured_def)

lemma kv_cfg_simps [simp]:
  "cfgStore (kv_cfg l conf) = kv_ops (libSprint l) (libDecode l) (libJsonLen l)" "cfgCodec (kv_cfg l conf) = libCodec l"
  "cfgEnv (kv_cfg l conf) = file_env (libCk l) (CheckpointFileName conf) (Some (Flush (fs_ops (libSprint l) (libDecode l))))"
  by (simp_all add: kv_cfg_def)

lemma read_ignores_faults [simp]: "fcs_ReadCheckpointTables ck nm dir (d\<lparr>ckIo := io\<rparr>) = fcs_ReadCheckpointTables ck nm dir d"
  by (cases "ckReadErr d") (simp_all add: fcs_ReadCheckpointTables_def parseCheckpointDir_def)

lemma OpenKV_reload:
  assumes u: "kv_up l flags conf p T rs n m a" and lay: "kv_layout flags (mCwd M) p" and lib: "ck_marshals (libCk l)"
    and len: "length rs < 18446744073709551616" and ok: "\<forall>r\<in>set rs. req_ok simple (ok_entity (libSprint l)) r"
    and codec: "codec_faithful (libCodec l) (ok_entity (libSprint l)) (safe (libSprint l)) rs"
    and tree: "os_MkdirAll (abs_path (mCwd M) (filepath_Dir (nfWALPath flags))) (mTree M) = (None, F1)" "os_MkdirAll p F1 = (None, dfs (inner (snd (aStore a))))"
    and log: "foutcomes (mLog M) = []" "fdata (mLog M) = fsynced (wFile (the (aLog a))) @ t" "t = [] \<or> torn t"
    and ck: "fcs_ReadCheckpointTables (libCk l) (CheckpointFileName conf) (nfCheckpointDefaultDir flags) (mCkpt M)
        = fcs_ReadCheckpointTables (libCk l) (CheckpointFileName conf) (nfCheckpointDefaultDir flags) (fst (aStore a))"
      "ckReadErr (mCkpt M) = None" "ckIo (mCkpt M) = []"
  shows "\<exists>s. OpenKV l flags conf M = Inr s \<and> kv_up l flags conf p T rs (length rs) m (kvAdapter s)"
proof -
  let ?o = "kv_wal_opts (nfCheckpointDefaultDir flags)" and ?d = "inner (snd (aStore a))"
  let ?b = "NewWriteBatcher ?d \<lparr>MaxDirtyKeys = 0, MaxDirtyBytes = 0, FlushInterval = 0, DeferWrites = FSDeferWrites conf\<rparr>"
  have p: "p = abs_path (mCwd M) (nfFsDefaultDir flags)" "nfCheckpointDefaultDir flags \<noteq> []" using lay by (simp_all add: kv_layout_def)
  have i: "wb_inv (libSprint l) (snd (aStore a))" "defaultDir ?d = p" "ck_codec_faithful (libCk l)" "dirs_ok (dfs ?d) p"
    using u by (simp_all add: kvd.up_def kv_inv_def)
  obtain w2 where w2: "New (mLog M) ?o = Inr w2" using p(2) by (simp add: New_def kv_wal_opts_def Validate_def CheckpointConfigured_def)
  let ?a2 = "\<lparr>aStore = (mCkpt M, ?b), aLog = Some w2, aCache = New_cache (CacheMaxEntries conf) (CacheTTL conf) (mClock M) (mReadings M)\<rparr>"
  have b: "wb_inv (libSprint l) ?b" "inner ?b = ?d" "wb_sel (libSprint l) ?b = sel ?d"
    using i(1) by (simp_all add: NewWriteBatcher_def bt_inv_def pend_ok_def)
  have a2: "kv_inv (libSprint l) (libCk l) p (aStore ?a2)" "cache_inv (aCache ?a2)"
    using b(1,2) i(2-4) ck(2) by (auto simp: kv_inv_def cache_inv_def cache_ok_def New_cache_def id_map_def)
  obtain a3 where a3: "ad_Load (kv_cfg l conf) ?a2 = (None, a3)" "kv_up l flags conf p T rs (length rs) m a3"
    using kvd.up_reload [OF u kv_steady [OF p(2)] kv_cfg_simps len ok codec log w2 a2(1) _ a2(2)] b(2,3) ck(1,3) lib by auto
  have d: "\<lparr>defaultDir = p, dfs = dfs ?d\<rparr> = ?d" using i(2) by (simp add: fsdb.equality)
  show ?thesis using a3 tree p(1) w2 d by (simp add: OpenKV_def Let_def)
qed

lemma wal_dir_kept:
  assumes u: "kv_up l flags conf p T rs n m (kvAdapter s)" and lay: "kv_layout flags (mCwd M) p"
  shows "os_MkdirAll (abs_path (mCwd (crash M t s)) (filepath_Dir (nfWALPath flags))) (mTree (crash M t s)) = (None, mTree (crash M t s))"
proof (rule mkdir_nop)
  have "dirs_ok (dfs (inner (snd (aStore (kvAdapter s))))) p" using u by (simp add: kvd.up_def kv_inv_def)
  moreover have "mTree (crash M t s) = dfs (inner (snd (aStore (kvAdapter s))))" "mCwd (crash M t s) = mCwd M"
    by (simp_all add: crash_def machine_of_def Let_def)
  ultimately show "dirs_ok (mTree (crash M t s)) (abs_path (mCwd (crash M t s)) (filepath_Dir (nfWALPath flags)))"
    using dirs_ok_take [of "dfs (inner (snd (aStore (kvAdapter s))))" p] lay by (metis kv_layout_def)
qed

lemma up_crash:
  assumes u: "kv_up l flags conf p T rs n m (kvAdapter s)" and lay: "kv_layout flags (mCwd M) p" and lib: "ck_marshals (libCk l)"
    and len: "length rs < 18446744073709551616" and ok: "\<forall>r\<in>set rs. req_ok simple (ok_entity (libSprint l)) r"
    and codec: "codec_faithful (libCodec l) (ok_entity (libSprint l)) (safe (libSprint l)) rs" and t: "t = [] \<or> torn t"
  shows "\<exists>s'. OpenKV l flags conf (crash M t s) = Inr s' \<and> kv_up l flags conf p T rs (length rs) m (kvAdapter s')"
proof -
  let ?a = "kvAdapter s" and ?M = "crash M t s"
  obtain w where w: "aLog ?a = Some w" using u by (auto simp: kvd.up_def)
  have r: "ckReadErr (fst (aStore ?a)) = None" "defaultDir (inner (snd (aStore ?a))) = p" using u by (simp_all add: kvd.up_def kv_inv_def)
  have dirs: "dirs_ok (dfs (inner (snd (aStore ?a)))) p" using u by (simp add: kvd.up_def kv_inv_def)
  have M: "mCwd ?M = mCwd M" "mTree ?M = dfs (inner (snd (aStore ?a)))" "foutcomes (mLog ?M) = []" "fdata (mLog ?M) = fsynced (wFile w) @ t"
      "mCkpt ?M = (fst (aStore ?a))\<lparr>ckIo := []\<rparr>"
    using w by (simp_all add: crash_def machine_of_def Let_def)
  have wd: "os_MkdirAll (abs_path (mCwd ?M) (filepath_Dir (nfWALPath flags))) (mTree ?M) = (None, mTree ?M)" by (rule wal_dir_kept [OF u lay])
  show ?thesis
    by (rule OpenKV_reload [OF u _ lib len ok codec wd _ M(3) _ t]) (use M lay w r(1) mkdir_nop [OF dirs] in simp_all)
qed

lemma Close_frame:
  assumes "Close w = (err, w')" and "wBufw w = None" and "fsynced (wFile w) = fdata (wFile w)"
  shows "\<exists>f. w' = w\<lparr>wFile := f\<rparr> \<and> fdata f = fdata (wFile w) \<and> fpos f = fpos (wFile w) \<and> fsynced f = fdata f"
proof -
  obtain e1 w1 where f: "flushLocked w = (e1, w1)" by (cases "flushLocked w")
  obtain f1 where f1: "w1 = w\<lparr>wFile := f1\<rparr>" "fdata f1 = fdata (wFile w)" "fpos f1 = fpos (wFile w)" "fsynced f1 = fdata f1"
    using flushLocked_synced [OF f assms(2,3)] by blast
  have c: "fdata (snd (file_Close f1)) = fdata f1 \<and> fpos (snd (file_Close f1)) = fpos f1 \<and> fsynced (snd (file_Close f1)) = fsynced f1"
    by (auto simp: file_Close_def next_outcome_def split: list.splits io_outcome.splits)
  show ?thesis using assms(1) f f1 c by (auto simp: Close_def split: option.splits prod.splits)
qed

lemma up_log:
  assumes "kv_up l flags conf p T rs n m a" and "aLog a = Some w"
    and "fdata f = fdata (wFile w)" "fpos f = fpos (wFile w)" "fsynced f = fdata f" "aLog a' = Some (w\<lparr>wFile := f\<rparr>)"
    "aStore a' = aStore a" "aCache a' = aCache a"
  shows "kv_up l flags conf p T rs n m a'"
  using assms by (auto simp: kvd.up_def wal_inv_def)

lemma up_flush:
  assumes u: "kv_up l flags conf p T rs n m a"
  shows "kv_up l flags conf p T rs n m (a\<lparr>aStore := (fst (aStore a), snd (Flush (fs_ops (libSprint l) (libDecode l)) (snd (aStore a))))\<rparr>)"
proof -
  have i: "kv_inv (libSprint l) (libCk l) p (aStore a)" "cache_inv (aCache a)" using u by (simp_all add: kvd.up_def)
  obtain b where b: "Flush (fs_ops (libSprint l) (libDecode l)) (snd (aStore a)) = (None, b)" "sel (inner b) = wb_sel (libSprint l) (snd (aStore a))"
      "wb_inv (libSprint l) b" "tables (inner b) = tables (inner (snd (aStore a)))" "pend b = []"
    using flushed [of "libSprint l" "snd (aStore a)" "libDecode l"] i by (auto simp: kv_inv_def)
  have k: "kv_inv (libSprint l) (libCk l) p (fst (aStore a), b)" by (rule kv_inv_flush [OF i(1) b(1,3,4)])
  show ?thesis by (rule kvd.up_store [OF u k]) (use b i(2) in \<open>simp_all add: spilled_def\<close>)
qed

lemma up_close:
  assumes u: "kv_up l flags conf p T rs n m a" and c: "ad_Close (kv_cfg l conf) a = (err, a')"
  shows "kv_up l flags conf p T rs n m a'"
proof -
  let ?a1 = "a\<lparr>aStore := (fst (aStore a), snd (Flush (fs_ops (libSprint l) (libDecode l)) (snd (aStore a))))\<rparr>"
  obtain w where w: "aLog a = Some w" "wal_inv w (req_entries (libCodec l) 0 rs)" "fsynced (wFile w) = frames (req_entries (libCodec l) 0 rs)"
    using u by (auto simp: kvd.up_def)
  obtain e w' where cl: "Close w = (e, w')" by (cases "Close w")
  obtain f where f: "w' = w\<lparr>wFile := f\<rparr>" "fdata f = fdata (wFile w)" "fpos f = fpos (wFile w)" "fsynced f = fdata f"
    using Close_frame [OF cl] w(2,3) by (auto simp: wal_inv_def)
  have a': "aLog a' = Some (w\<lparr>wFile := f\<rparr>)" "aStore a' = aStore ?a1" "aCache a' = aCache ?a1"
    using c w(1) cl f(1) by (auto simp: ad_Close_def kv_ops_def lift_st_def Let_def split: prod.splits)
  show ?thesis by (rule up_log [OF up_flush [OF u] _ f(2-4) a']) (use w(1) in simp)
qed

lemma up_faults:
  assumes "kv_up l flags conf p T rs n m a"
  shows "kv_up l flags conf p T rs n m (set_faults io ck a)"
  using assms by (auto simp: kvd.up_def set_faults_def wal_inv_def kv_inv_def)

lemma up_flush_tick:
  assumes "kv_up l flags conf p T rs n m a"
  shows "kv_up l flags conf p T rs n m
    (a\<lparr>aStore := (fst (aStore a), RunPeriodicFSFlush (fs_ops (libSprint l) (libDecode l)) lim [tick] (snd (aStore a)))\<rparr>)"
proof -
  let ?ops = "fs_ops (libSprint l) (libDecode l)" and ?b = "snd (aStore a)"
  have "RunPeriodicFSFlush ?ops lim [tick] ?b = ?b \<or> RunPeriodicFSFlush ?ops lim [tick] ?b = snd (Flush ?ops ?b)"
    by (cases tick) (auto simp: RunPeriodicFSFlush_def runFSFlushOnce_def split: prod.splits)
  then show ?thesis using up_flush [OF assms] assms by auto
qed

text \<open>The writes of a prefix inherit what is assumed of all of them.\<close>

definition writes_ok :: "kv_libs \<Rightarrow> wal_req list \<Rightarrow> bool" where
  "writes_ok l rs \<longleftrightarrow> length rs < 18446744073709551616 \<and> (\<forall>r\<in>set rs. req_ok simple (ok_entity (libSprint l)) r)
     \<and> codec_faithful (libCodec l) (ok_entity (libSprint l)) (safe (libSprint l)) rs
     \<and> (\<forall>e\<in>set (req_entries (libCodec l) 0 rs). payload_size e \<le> 268435456)"

lemma req_entries_prefix: "set (req_entries c q rs) \<subseteq> set (req_entries c q (rs @ rs'))"
proof (induction rs arbitrary: q)
  case (Cons r rs)
  then show ?case using Cons.IH [of "q + 1"] by (auto split: sum.splits)
qed simp

lemma writes_ok_prefix: "writes_ok l (rs @ rs') \<Longrightarrow> writes_ok l rs"
  using req_entries_prefix [of "libCodec l" 0 rs rs'] by (auto simp: writes_ok_def codec_faithful_def)

lemma kv_step_up:
  assumes u: "kv_up l flags conf p T rs n m (kvAdapter s)" and lay: "kv_layout flags (mCwd M) p" and lib: "ck_marshals (libCk l)"
    and ev: "ev_ok (libSprint l) T ev" and ok: "writes_ok l (rs @ kv_writes [ev])"
    and step: "kv_step l flags conf M ev s = (None, s')"
  shows "\<exists>n'. kv_up l flags conf p (ev_tables ev T) (rs @ kv_writes [ev]) n' m (kvAdapter s')"
proof -
  have o: "steady (nfCheckpointDefaultDir flags) (kv_wal_opts (nfCheckpointDefaultDir flags))" using lay kv_steady by (simp add: kv_layout_def)
  have wo: "length rs < 18446744073709551616" "\<forall>r\<in>set rs. req_ok simple (ok_entity (libSprint l)) r"
      "codec_faithful (libCodec l) (ok_entity (libSprint l)) (safe (libSprint l)) rs"
    using writes_ok_prefix [OF ok] by (simp_all add: writes_ok_def)
  have reopen: "\<exists>n'. kv_up l flags conf p T rs n' m (kvAdapter s')"
    if "kv_up l flags conf p T rs n m (kvAdapter q)" "t = [] \<or> torn t" "start l flags conf (crash M t q) s = (None, s')" for q t
    using up_crash [OF that(1) lay lib wo that(2)] that(3) by (auto simp: start_def)
  show ?thesis
  proof (cases ev)
    case (EvWrite r)
    have x: "db_write_exec (kv_cfg l conf) r (kvAdapter s) = (None, kvAdapter s')" using step EvWrite by (auto split: prod.splits)
    have "kv_up l flags conf p T (rs @ db_records r) n m (kvAdapter s')"
      by (rule kvd.up_write [OF u o kv_cfg_simps(1,2) _ _ x]) (use ev ok EvWrite in \<open>simp_all add: writes_ok_def\<close>)
    then show ?thesis using EvWrite by auto
  next
    case (EvCreate t)
    have x: "ad_CreateTable (kv_cfg l conf) t (kvAdapter s) = (None, kvAdapter s')" using step EvCreate by (auto split: prod.splits)
    have "kv_up l flags conf p (insert t T) rs n m (kvAdapter s')"
      by (rule kvd.up_create [OF u kv_cfg_simps(1) _ x]) (use ev EvCreate in simp)
    then show ?thesis using EvCreate by auto
  next
    case (EvGet t k)
    have x: "ad_Get (kv_cfg l conf) t k (kvAdapter s) = (fst (ad_Get (kv_cfg l conf) t k (kvAdapter s)), kvAdapter s')"
      using step EvGet by (auto simp: prod_eq_iff)
    show ?thesis using kvd.up_get [OF u x] EvGet by auto
  next
    case (EvQuery t sk)
    have x: "ad_GetBySecondaryKey (kv_cfg l conf) t sk (kvAdapter s) = (fst (ad_GetBySecondaryKey (kv_cfg l conf) t sk (kvAdapter s)), kvAdapter s')"
      using step EvQuery by (auto simp: prod_eq_iff)
    show ?thesis using kvd.up_query [OF u kv_cfg_simps(1) x] EvQuery by auto
  next
    case (EvFlushTick tick)
    then show ?thesis using step u up_flush_tick [OF u] by (cases "kvFlushLimits s") (auto intro: exI [of _ n])
  next
    case EvCheckpointTick
    obtain w where w: "aLog (kvAdapter s) = Some w" using u by (auto simp: kvd.up_def)
    obtain err w' x' where ck: "Checkpoint (cfgEnv (kv_cfg l conf)) w (aStore (kvAdapter s)) = (err, w', x')"
      by (cases "Checkpoint (cfgEnv (kv_cfg l conf)) w (aStore (kvAdapter s))")
    have c: "s' = s \<or> kvAdapter s' = (kvAdapter s)\<lparr>aLog := Some w', aStore := x'\<rparr>"
      using step EvCheckpointTick w ck by (auto split: option.splits)
    obtain n' where "kv_up l flags conf p T rs n' m ((kvAdapter s)\<lparr>aLog := Some w', aStore := x'\<rparr>)"
      using kvd.up_checkpoint [OF u o w ck [unfolded kv_cfg_simps]] by blast
    then show ?thesis using c u EvCheckpointTick by auto
  next
    case (EvFaults io ck)
    then show ?thesis using step up_faults [OF u] by (auto intro: exI [of _ n])
  next
    case (EvCrash tail)
    then show ?thesis using reopen [OF u, of tail] step ev by auto
  next
    case EvRestart
    obtain err a where a: "ad_Close (kv_cfg l conf) (kvAdapter s) = (err, a)" by (cases "ad_Close (kv_cfg l conf) (kvAdapter s)")
    have "kv_up l flags conf p T rs n m (kvAdapter (snd (kv_Close l conf s)))" using up_close [OF u a] a by (simp add: kv_Close_def)
    then show ?thesis using reopen [of "snd (kv_Close l conf s)" "[]"] step EvRestart by auto
  qed
qed

lemma kv_run_up:
  assumes "kv_up l flags conf p T rs n m (kvAdapter s)" and lay: "kv_layout flags (mCwd M) p" and lib: "ck_marshals (libCk l)"
    and "evs_ok (libSprint l) T evs" and "writes_ok l (rs @ kv_writes evs)"
    and "kv_run l flags conf M evs s = (None, s')"
  shows "\<exists>n'. kv_up l flags conf p (fold ev_tables evs T) (rs @ kv_writes evs) n' m (kvAdapter s')"
  using assms(1,4-6)
proof (induction evs arbitrary: s rs n T)
  case (Cons ev evs)
  obtain s1 where s1: "kv_step l flags conf M ev s = (None, s1)" "kv_run l flags conf M evs s1 = (None, s')"
    using Cons.prems(4) by (auto split: prod.splits option.splits)
  have sp: "rs @ kv_writes (ev # evs) = (rs @ kv_writes [ev]) @ kv_writes evs" by (cases ev) simp_all
  have ok: "writes_ok l (rs @ kv_writes [ev])" using Cons.prems(3) unfolding sp by (rule writes_ok_prefix)
  obtain n1 where n1: "kv_up l flags conf p (ev_tables ev T) (rs @ kv_writes [ev]) n1 m (kvAdapter s1)"
    using kv_step_up [OF Cons.prems(1) lay lib _ ok s1(1)] Cons.prems(2) by auto
  show ?case unfolding sp using Cons.IH [OF n1 _ _ s1(2)] Cons.prems(2,3) unfolding sp by simp
qed auto

section \<open>From the first start\<close>

text \<open>A machine on which the node has not run: the log file is empty, the checkpoint files name no record; the store's
  directory may have contents.\<close>

definition fresh_machine :: "kv_libs \<Rightarrow> node_flags \<Rightarrow> config \<Rightarrow> machine \<Rightarrow> fsdb \<Rightarrow> bool" where
  "fresh_machine l flags conf M d \<longleftrightarrow> kv_layout flags (mCwd M) (defaultDir d) \<and> db_inv d
     \<and> (\<exists>F. os_MkdirAll (abs_path (mCwd M) (filepath_Dir (nfWALPath flags))) (mTree M) = (None, F) \<and> os_MkdirAll (defaultDir d) F = (None, dfs d))
     \<and> mLog M = \<lparr>fdata = [], fpos = 0, fsynced = [], foutcomes = []\<rparr>
     \<and> fcs_ReadCheckpointTables (libCk l) (CheckpointFileName conf) (nfCheckpointDefaultDir flags) (mCkpt M) = Inr (0, [])
     \<and> ckReadErr (mCkpt M) = None \<and> ckIo (mCkpt M) = []"

lemma first_open:
  assumes M: "fresh_machine l flags conf M d" and lib: "ck_codec_faithful (libCk l)" "ck_marshals (libCk l)"
  shows "\<exists>s. OpenKV l flags conf M = Inr s \<and> kv_up l flags conf (defaultDir d) (tables d) [] 0 (sel d) (kvAdapter s)"
proof -
  let ?o = "kv_wal_opts (nfCheckpointDefaultDir flags)" and ?b = "NewWriteBatcher d \<lparr>MaxDirtyKeys = 0, MaxDirtyBytes = 0, FlushInterval = 0, DeferWrites = FSDeferWrites conf\<rparr>"
  let ?w = "\<lparr>wFile = mLog M, wOpts = ?o, wBufw = None, wSeq = 0, writesSinceCkpt = 0, bytesSinceCkpt = 0\<rparr>"
  let ?a = "\<lparr>aStore = (mCkpt M, ?b), aLog = Some ?w, aCache = New_cache 0 0 0 []\<rparr>"
  have "cache_inv (New_cache 0 0 0 [])" by (auto simp: cache_inv_def cache_ok_def New_cache_def id_map_def)
  then have u: "kv_up l flags conf (defaultDir d) (tables d) [] 0 (sel d) ?a"
    using M lib mkdir_made by (auto simp: kvd.up_def fresh_machine_def kv_inv_def NewWriteBatcher_def bt_inv_def pend_ok_def wal_inv_def kv_wal_opts_def)
  obtain F where F: "os_MkdirAll (abs_path (mCwd M) (filepath_Dir (nfWALPath flags))) (mTree M) = (None, F)" "os_MkdirAll (defaultDir d) F = (None, dfs d)"
    using M by (auto simp: fresh_machine_def)
  have "\<exists>s. OpenKV l flags conf M = Inr s \<and> kv_up l flags conf (defaultDir d) (tables d) [] (length ([] :: wal_req list)) (sel d) (kvAdapter s)"
    by (rule OpenKV_reload [OF u _ lib(2) _ _ _ F(1), where t = "[]"])
      (use M F(2) in \<open>simp_all add: fresh_machine_def NewWriteBatcher_def codec_faithful_def\<close>)
  then show ?thesis by simp
qed

text \<open>C1. Durability of a node's store over its whole life.  The machine has an empty log, no checkpoint, a consistent store
  directory that may have contents, and the log's directory on the way to the store's, as the default flags have it.
  Tables, keys and secondary keys have plain file names, every write goes to a table that exists by then, values can be
  written as JSON, the writes make fewer than 2^64 records of at most 256 MiB each, and the codecs read back what was
  written, up to the form JSON gives a value, the one of the checkpoint without ever failing.  Then opening the store succeeds and shows what its directory held.  After
  any sequence of writes (single and bulk, of clients and of replicated entries) and table creations that were all
  acknowledged, reads, background flushes, checkpoints that succeed or fail, faults of the log's and the checkpoint's
  files, crashes with a torn tail in the log, and restarts, the contents are the writes in their order applied to that
  and every table created is there; and whenever the process dies, opening the store again succeeds with the same
  contents and tables.\<close>

theorem store_is_durable:
  assumes M: "fresh_machine l flags conf M d" and lib: "ck_codec_faithful (libCk l)" "ck_marshals (libCk l)"
    and evs: "evs_ok (libSprint l) (tables d) evs" "writes_ok l (kv_writes evs)"
  shows "\<exists>s0. OpenKV l flags conf M = Inr s0 \<and> wb_sel (libSprint l) (snd (aStore (kv_DB s0))) = sel d
    \<and> (\<forall>s. kv_run l flags conf M evs s0 = (None, s) \<longrightarrow>
          wb_sel (libSprint l) (snd (aStore (kv_DB s))) = fold (req_effect (safe (libSprint l))) (kv_writes evs) (sel d)
        \<and> fold ev_tables evs (tables d) \<subseteq> tables (inner (snd (aStore (kv_DB s))))
        \<and> (\<forall>t. t = [] \<or> torn t \<longrightarrow> (\<exists>s'. OpenKV l flags conf (crash M t s) = Inr s'
              \<and> wb_sel (libSprint l) (snd (aStore (kv_DB s'))) = wb_sel (libSprint l) (snd (aStore (kv_DB s)))
              \<and> fold ev_tables evs (tables d) \<subseteq> tables (inner (snd (aStore (kv_DB s')))))))"
proof -
  have lay: "kv_layout flags (mCwd M) (defaultDir d)" using M by (simp add: fresh_machine_def)
  obtain s0 where s0: "OpenKV l flags conf M = Inr s0" "kv_up l flags conf (defaultDir d) (tables d) [] 0 (sel d) (kvAdapter s0)"
    using first_open [OF M lib] by blast
  have wo: "length (kv_writes evs) < 18446744073709551616" "\<forall>r\<in>set (kv_writes evs). req_ok simple (ok_entity (libSprint l)) r"
      "codec_faithful (libCodec l) (ok_entity (libSprint l)) (safe (libSprint l)) (kv_writes evs)"
    using evs(2) by (simp_all add: writes_ok_def)
  have "wb_sel (libSprint l) (snd (aStore (kv_DB s))) = fold (req_effect (safe (libSprint l))) (kv_writes evs) (sel d)
      \<and> fold ev_tables evs (tables d) \<subseteq> tables (inner (snd (aStore (kv_DB s))))
      \<and> (\<forall>t. t = [] \<or> torn t \<longrightarrow> (\<exists>s'. OpenKV l flags conf (crash M t s) = Inr s'
        \<and> wb_sel (libSprint l) (snd (aStore (kv_DB s'))) = wb_sel (libSprint l) (snd (aStore (kv_DB s)))
        \<and> fold ev_tables evs (tables d) \<subseteq> tables (inner (snd (aStore (kv_DB s'))))))"
    if run: "kv_run l flags conf M evs s0 = (None, s)" for s
  proof -
    obtain n where n: "kv_up l flags conf (defaultDir d) (fold ev_tables evs (tables d)) (kv_writes evs) n (sel d) (kvAdapter s)"
      using kv_run_up [OF s0(2) lay lib(2) evs(1) _ run] evs(2) by auto
    show ?thesis
      using n up_crash [OF n lay lib(2) wo] by (fastforce simp: kvd.up_def kv_DB_def)
  qed
  moreover have "wb_sel (libSprint l) (snd (aStore (kv_DB s0))) = sel d" using s0(2) by (simp add: kvd.up_def kv_DB_def)
  ultimately show ?thesis using s0(1) by blast
qed

section \<open>A concrete life\<close>

definition seq_ck :: ck_codec where
  "seq_ck =
     \<lparr>ckMarshal = (\<lambda>cf. if cfVersion cf = 1 \<and> cfTables cf = [] then Inr (be_bytes 8 (uint (cfLastSeq cf))) else Inl (ErrMsg ''marshal'')),
      ckUnmarshal = (\<lambda>b. Inr \<lparr>cfVersion = 1, cfLastSeq = word_of_int (be_val b), cfTables = []\<rparr>)\<rparr>"

lemma seq_ck_laws: "ck_codec_faithful seq_ck" "ck_marshals seq_ck"
  by (auto simp: ck_codec_faithful_def ck_marshals_def seq_ck_def be_roundtrip_u64)

definition demo_libs :: kv_libs where
  "demo_libs = \<lparr>libSprint = (\<lambda>_. []), libDecode = (\<lambda>_. Inl ErrTruncated), libJsonLen = (\<lambda>_. None), libCodec = item_codec, libCk = seq_ck\<rparr>"

definition demo_flags :: node_flags where
  "demo_flags = \<lparr>nfID = ''n1'', nfHTTPAddr = [], nfGRPCAddr = '':9080'', nfPeers = [], nfWALPath = ''/data/log'', nfFsDefaultDir = ''/data'',
     nfCheckpointDefaultDir = ''ck''\<rparr>"

definition demo_conf :: config where
  "demo_conf = \<lparr>CacheTTL = 0, CacheMaxEntries = 10, CheckpointInterval = 5, FSDeferWrites = True, FSFlushInterval = 1, FSPeriodicPoll = 1,
     FSFlushOpTimeout = 0, CheckpointFileName = ''c''\<rparr>"

definition demo_machine :: "fsdb \<Rightarrow> machine" where
  "demo_machine d = \<lparr>mCwd = [], mTree = dfs d, mLog = \<lparr>fdata = [], fpos = 0, fsynced = [], foutcomes = []\<rparr>, mCkpt = demo_ckdisk [],
     mClock = 0, mReadings = []\<rparr>"

lemma demo_libs_simps [simp]:
  "libSprint demo_libs = (\<lambda>_. [])" "libDecode demo_libs = (\<lambda>_. Inl ErrTruncated)" "libJsonLen demo_libs = (\<lambda>_. None)"
  "libCodec demo_libs = item_codec" "libCk demo_libs = seq_ck"
  by (simp_all add: demo_libs_def)

lemma demo_fresh:
  assumes "db_inv d" and "''t'' \<in> tables d" and "defaultDir d = [''data'']"
  shows "fresh_machine demo_libs demo_flags demo_conf (demo_machine d) d"
proof -
  have p: "abs_path [] ''/data'' = [''data'']" "filepath_Dir ''/data/log'' = ''/data''"
    by (simp_all add: abs_path_def Join_def starts_with_def filepath_Dir_def filepath_Clean_def Let_def)
  have "os_MkdirAll [''data''] (dfs d) = (None, dfs d)" using mkdir_nop table_root [OF assms(2)] assms(3) by simp
  then show ?thesis
    using assms p by (auto simp: fresh_machine_def kv_layout_def demo_machine_def demo_flags_def demo_ckdisk_def fcs_ReadCheckpointTables_def
        parseCheckpointDir_def zero_checkpoint_def)
qed

lemma demo_kv_write:
  assumes u: "kv_up demo_libs demo_flags demo_conf p T rs n m a" and t: "''t'' \<in> T" and io: "foutcomes (wFile (the (aLog a))) = []"
  shows "\<exists>a'. write_through msg (kv_cfg demo_libs demo_conf) ''t'' (item_Entity (demo_item ''a'' None)) a = (None, a')"
proof -
  let ?e = "item_Entity (demo_item ''a'' None)"
  obtain w where w: "aLog a = Some w" "wBufw w = None" "wOpts w = kv_wal_opts ''ck''" using u by (auto simp: kvd.up_def wal_inv_def demo_flags_def)
  have q: "quiet w" using w io by (simp add: quiet_def kv_wal_opts_def auto_off_def)
  have v: "\<And>n. valid_entry (set_entry n ''t'' ?e (bytes_of_string (iKey ?e)))" using demo_valid by simp
  obtain w' where w': "wal_Set item_codec (cfgEnv (kv_cfg demo_libs demo_conf)) ''t'' ?e w (aStore a) = (None, w', aStore a)"
    using wal_Set_quiet [OF q item_codec_Encode v, of "cfgEnv (kv_cfg demo_libs demo_conf)"] by metis
  have i: "kv_inv (libSprint demo_libs) (libCk demo_libs) p (aStore a)" "''t'' \<in> tables (inner (snd (aStore a)))"
      "ok_entity (libSprint demo_libs) ?e" "wal_Set (cfgCodec (kv_cfg demo_libs demo_conf)) (cfgEnv (kv_cfg demo_libs demo_conf)) ''t'' ?e w (aStore a) = (None, w', aStore a)"
    using u t w' by (auto simp: kvd.up_def)
  show ?thesis using kva.write_through_succeeds [OF i(1-3) kv_cfg_simps(1) w(1) i(4)] by blast
qed

theorem store_is_durable_witness:
  "\<exists>d s0 s. CreateTable ''t'' (empty_db [''data'']) = (None, d) \<and> OpenKV demo_libs demo_flags demo_conf (demo_machine d) = Inr s0
     \<and> kv_run demo_libs demo_flags demo_conf (demo_machine d)
         [EvFaults [] [], EvWrite (DbSet ''t'' (demo_item ''a'' None)), EvCheckpointTick, EvCrash [0, 0]] s0 = (None, s)
     \<and> wb_sel (\<lambda>_. []) (snd (aStore (kv_DB s))) ''t'' ''a'' = Some (item_Entity (demo_item ''a'' None))"
proof -
  let ?r = "DbSet ''t'' (demo_item ''a'' None)" and ?l = demo_libs and ?f = demo_flags and ?c = demo_conf
  let ?evs = "[EvFaults [] [], EvWrite ?r, EvCheckpointTick]"
  obtain d where d: "CreateTable ''t'' (empty_db [''data'']) = (None, d)" "''t'' \<in> tables d" "db_inv d" "\<And>t k. sel d t k = None"
    by (rule demo_db) (rule that)
  have dd: "defaultDir d = [''data'']" using fsdb_root(1) [OF d(1)] by (simp add: empty_db_def)
  let ?M = "demo_machine d"
  note fm = demo_fresh [OF d(3,2) dd]
  have lay: "kv_layout ?f (mCwd ?M) (defaultDir d)" using fm by (simp add: fresh_machine_def)
  have lib: "ck_codec_faithful (libCk ?l)" "ck_marshals (libCk ?l)" using seq_ck_laws by simp_all
  have wo: "writes_ok ?l (kv_writes ?evs)"
    by (simp add: writes_ok_def codec_faithful_def item_codec_def demo_item_Entity ok_entity_def safe_def set_entry_def payload_size_def)
  have torn: "torn [0, 0]"
    using small_frame_prefix [of "del_entry 1 ''t'' ''a''"] unfolding torn_def
    by (intro conjI exI [of _ "del_entry 1 ''t'' ''a''"] exI [of _ 2])
      (auto simp: loggable_def valid_entry_def del_entry_def payload_size_def length_entry_frame)
  have ok: "evs_ok (libSprint ?l) (tables d) (?evs @ [EvCrash [0, 0]])" "evs_ok (libSprint ?l) (tables d) ?evs"
    using torn d(2) by (simp_all add: demo_item_Entity ok_entity_def simple_def)
  obtain s0 where s0: "OpenKV ?l ?f ?c ?M = Inr s0" and u0: "kv_up ?l ?f ?c (defaultDir d) (tables d) [] 0 (sel d) (kvAdapter s0)"
    using first_open [OF fm lib] by blast
  let ?s1 = "s0\<lparr>kvAdapter := set_faults [] [] (kvAdapter s0)\<rparr>"
  have u1: "kv_up ?l ?f ?c (defaultDir d) (tables d) [] 0 (sel d) (kvAdapter ?s1)" using up_faults [OF u0] by simp
  obtain s2 where s2: "kv_step ?l ?f ?c ?M (EvWrite ?r) ?s1 = (None, s2)"
    using demo_kv_write [OF u1 d(2), of "''db: wal set''"] u0 by (auto simp: set_faults_def kvd.up_def ad_Set_def validateConsistency_def demo_item_def)
  have "fst (kv_step ?l ?f ?c ?M EvCheckpointTick s2) = None" by (simp split: option.splits prod.splits)
  then obtain s3 where "kv_step ?l ?f ?c ?M EvCheckpointTick s2 = (None, s3)" by (metis prod.collapse)
  then have r3: "kv_run ?l ?f ?c ?M ?evs s0 = (None, s3)" using s2 by simp
  obtain n where u3: "kv_up ?l ?f ?c (defaultDir d) (tables d) (kv_writes ?evs) n (sel d) (kvAdapter s3)"
    using kv_run_up [OF u0 lay lib(2) ok(2) _ r3] wo by auto
  obtain s where s: "OpenKV ?l ?f ?c (crash ?M [0, 0] s3) = Inr s"
    using up_crash [OF u3 lay lib(2)] torn wo by (auto simp: writes_ok_def)
  have r4: "kv_run ?l ?f ?c ?M (?evs @ [EvCrash [0, 0]]) s0 = (None, s)" using r3 s s2 by (simp add: start_def split: prod.splits option.splits)
  have "wb_sel (libSprint ?l) (snd (aStore (kv_DB s))) = fold (req_effect (safe (libSprint ?l))) (kv_writes (?evs @ [EvCrash [0, 0]])) (sel d)"
    using store_is_durable [OF fm lib ok(1)] wo r4 s0 by auto
  then show ?thesis using d(1) s0 r4 by (auto simp: upd_apply)
qed

end
