(* ===== verification/Node_Life.thy ===== *)
theory Node_Life
  imports Node_Main Kv_Life
begin

text \<open>
  The store of a follower is its consensus log, applied: through deliveries, changes of term, background work, crashes
  at any point and restarts, the contents of the store are the entries of the log on disk, applied in their order,
  or those and one more entry, which was applied when the process died before recording it and is delivered again.
\<close>

section \<open>Entries as writes\<close>

definition entry_events :: "cmd_data \<Rightarrow> kv_event list" where
  "entry_events d =
     (case Cmd d of
        CreateTableCmd \<Rightarrow> [EvCreate (TableName d)]
      | SetCmd \<Rightarrow> [EvWrite (DbApply (TableName d) (cItem d))]
      | OptimisticSetCmd \<Rightarrow> [EvWrite (DbApply (TableName d) (cItem d))]
      | BulkPutCmd \<Rightarrow> [EvWrite (DbApplyBulk (TableName d) (cItems d))]
      | BulkDelCmd \<Rightarrow> [EvWrite (DbApplyBulkDelete (TableName d) (DelItems (cItems d)))]
      | DeleteCmd \<Rightarrow> [EvWrite (DbApplyDelete (TableName d) (DelItem (cItem d)))]
      | OptimisticDelCmd \<Rightarrow> [EvWrite (DbApplyDelete (TableName d) (DelItem (cItem d)))]
      | _ \<Rightarrow> [])"

lemma deliver_run:
  assumes "nState n = Follower" and "GrpcHandle (kv_cfg l conf) n e (kvAdapter s) = (None, a)"
  shows "kv_run l flags conf M (entry_events (leData e)) s = (None, s\<lparr>kvAdapter := a\<rparr>)"
  using assms by (cases "Cmd (leData e)") (auto simp: GrpcHandle_def State_def Let_def entry_events_def)

lemma entry_effect_events: "entry_effect nf d = fold (req_effect nf) (kv_writes (entry_events d))"
  by (cases "Cmd d") (auto simp: entry_effect_def entry_events_def item_Entity_key DelItem_def DelItems_def items_Entities_def fold_map comp_def fun_eq_iff)

text \<open>Applying an entry twice is applying it once.\<close>

lemma effects_idem: "fold (req_effect nf) qs (fold (req_effect nf) qs m) = fold (req_effect nf) qs m"
  using outside_effects [of _ _ qs nf m] by (intro effects_override) auto

section \<open>Events of a node\<close>

fun nd_entry :: "node_event \<Rightarrow> log_entry option" where
  "nd_entry (NdApply n e) = Some e"
| "nd_entry (NdCrashApplied n e rt kt) = Some e"
| "nd_entry ev = None"

fun nd_recs :: "node_event \<Rightarrow> raft_rec list" where
  "nd_recs (NdApply n e) = [RecEntry e]"
| "nd_recs (NdMeta t v) = [RecMeta t v]"
| "nd_recs ev = []"

fun nd_events :: "node_event \<Rightarrow> kv_event list" where
  "nd_events (NdApply n e) = entry_events (leData e)"
| "nd_events (NdCrashApplied n e rt kt) = entry_events (leData e)"
| "nd_events (NdStore ev) = [ev]"
| "nd_events ev = []"

text \<open>The entry that is in the store but not in the log.\<close>

fun nd_pending :: "node_event \<Rightarrow> log_entry option \<Rightarrow> log_entry option" where
  "nd_pending (NdApply n e) p = None"
| "nd_pending (NdCrashApplied n e rt kt) p = Some e"
| "nd_pending ev p = p"

text \<open>The leader sends an entry again that the log lacks, before any other.\<close>

fun redelivers :: "log_entry option \<Rightarrow> node_event list \<Rightarrow> bool" where
  "redelivers p [] \<longleftrightarrow> True"
| "redelivers p (ev # evs) \<longleftrightarrow> (p = None \<or> nd_entry ev = None \<or> p = nd_entry ev) \<and> redelivers (nd_pending ev p) evs"

fun background :: "kv_event \<Rightarrow> bool" where
  "background (EvGet t k) \<longleftrightarrow> True"
| "background (EvQuery t sk) \<longleftrightarrow> True"
| "background (EvFlushTick tick) \<longleftrightarrow> True"
| "background EvCheckpointTick \<longleftrightarrow> True"
| "background (EvFaults io ck) \<longleftrightarrow> True"
| "background ev \<longleftrightarrow> False"

fun nd_ok :: "(any \<Rightarrow> string) \<Rightarrow> string set \<Rightarrow> node_event \<Rightarrow> bool" where
  "nd_ok sprint T (NdApply n e) \<longleftrightarrow> nState n = Follower \<and> evs_ok sprint T (entry_events (leData e))"
| "nd_ok sprint T (NdCrashApplied n e rt kt) \<longleftrightarrow> nState n = Follower \<and> evs_ok sprint T (entry_events (leData e))
     \<and> (rt = [] \<or> torn rt) \<and> (kt = [] \<or> torn kt)"
| "nd_ok sprint T (NdStore ev) \<longleftrightarrow> background ev"
| "nd_ok sprint T (NdCrash rt kt) \<longleftrightarrow> (rt = [] \<or> torn rt) \<and> (kt = [] \<or> torn kt)"
| "nd_ok sprint T ev \<longleftrightarrow> True"

definition nd_tables :: "node_event \<Rightarrow> string set \<Rightarrow> string set" where
  "nd_tables ev T = fold ev_tables (nd_events ev) T"

fun nds_ok :: "(any \<Rightarrow> string) \<Rightarrow> string set \<Rightarrow> node_event list \<Rightarrow> bool" where
  "nds_ok sprint T [] \<longleftrightarrow> True"
| "nds_ok sprint T (ev # evs) \<longleftrightarrow> nd_ok sprint T ev \<and> nds_ok sprint (nd_tables ev T) evs"

definition run_recs :: "node_event list \<Rightarrow> raft_rec list" where
  "run_recs evs = concat (map nd_recs evs)"

definition run_writes :: "node_event list \<Rightarrow> wal_req list" where
  "run_writes evs = concat (map (\<lambda>ev. kv_writes (nd_events ev)) evs)"

definition opt_list :: "'a option \<Rightarrow> 'a list" where
  "opt_list p = (case p of None \<Rightarrow> [] | Some x \<Rightarrow> [x])"

abbreviation log_effect :: "(entity \<Rightarrow> entity) \<Rightarrow> log_entry list \<Rightarrow> contents \<Rightarrow> contents" where
  "log_effect nf es \<equiv> fold (\<lambda>e. entry_effect nf (leData e)) es"

lemma background_writes: "background ev \<Longrightarrow> kv_writes [ev] = [] \<and> ev_tables ev T = T \<and> ev_ok sprint T ev"
  by (cases ev) simp_all

lemma run_effect:
  assumes "redelivers p evs" and "nds_ok sprint T evs"
  shows "fold (req_effect nf) (run_writes evs) (log_effect nf (L @ opt_list p) m)
    = log_effect nf (L @ rec_log (run_recs evs) @ opt_list (fold nd_pending evs p)) m"
  using assms
proof (induction evs arbitrary: L p T)
  case Nil
  then show ?case by (simp add: run_writes_def run_recs_def)
next
  case (Cons ev evs)
  let ?w = "kv_writes (nd_events ev)"
  have IH: "fold (req_effect nf) (run_writes evs) (log_effect nf (L' @ opt_list (nd_pending ev p)) m)
      = log_effect nf (L' @ rec_log (run_recs evs) @ opt_list (fold nd_pending evs (nd_pending ev p))) m" for L'
    using Cons.prems by (intro Cons.IH) auto
  have s: "run_writes (ev # evs) = ?w @ run_writes evs" "run_recs (ev # evs) = nd_recs ev @ run_recs evs"
    by (simp_all add: run_writes_def run_recs_def)
  have "fold (req_effect nf) ?w (log_effect nf (L @ opt_list p) m) = log_effect nf ((L @ rec_log (nd_recs ev)) @ opt_list (nd_pending ev p)) m"
  proof (cases ev)
    case (NdApply n e)
    then show ?thesis using Cons.prems(1) effects_idem by (cases p) (auto simp: opt_list_def entry_effect_events)
  next
    case (NdCrashApplied n e rt kt)
    then show ?thesis using Cons.prems(1) effects_idem by (cases p) (auto simp: opt_list_def entry_effect_events)
  next
    case (NdStore x)
    then show ?thesis using Cons.prems(2) background_writes [of x] by simp
  qed simp_all
  then show ?case unfolding s using IH [of "L @ rec_log (nd_recs ev)"] by simp
qed

section \<open>The invariant\<close>

definition node_up :: "node_libs \<Rightarrow> node_flags \<Rightarrow> config \<Rightarrow> path \<Rightarrow> string set \<Rightarrow> raft_rec list \<Rightarrow> wal_req list \<Rightarrow> contents \<Rightarrow> node \<Rightarrow> bool" where
  "node_up l flags conf p T rs qs m nd \<longleftrightarrow> ndFlags nd = flags \<and> ndConf nd = conf \<and> kv_layout flags (mCwd (ndMachine nd)) p
     \<and> raft_up (nlRaft l) rs (ndRaft nd) \<and> (\<exists>n. kv_up (nlKv l) flags conf p T qs n m (kvAdapter (ndKv nd)))"

text \<open>What is assumed of the libraries and the command line, and of the sizes of what is logged.\<close>

definition node_env :: "node_libs \<Rightarrow> string list \<Rightarrow> node_flags \<Rightarrow> config \<Rightarrow> bool" where
  "node_env l args flags conf \<longleftrightarrow> ParseNodeFlags args = Inr flags \<and> nlReadEnv l zero_config = (None, conf)
     \<and> ck_codec_faithful (libCk (nlKv l)) \<and> ck_marshals (libCk (nlKv l))"

lemma node_start_crash:
  assumes env: "node_env l args flags conf" and u: "node_up l flags conf p T rs qs m nd" and fit: "records_fit (nlRaft l) rs" "writes_ok (nlKv l) qs"
    and t: "rt = [] \<or> torn rt" "kt = [] \<or> torn kt"
  shows "\<exists>nd'. node_start l args (node_crash rt kt nd) = Inr nd' \<and> node_up l flags conf p T rs qs m nd'
    \<and> nLog (rsNode (ndRaft nd')) = restored rs \<and> commitIndex (rsNode (ndRaft nd')) = int (length (rec_log rs)) - 1"
proof -
  let ?c = "nlRaft l" and ?s = "ndKv nd" and ?M = "ndMachine nd" and ?h = "node_crash rt kt nd"
  obtain n where k: "kv_up (nlKv l) flags conf p T qs n m (kvAdapter ?s)" using u by (auto simp: node_up_def)
  have lay: "kv_layout flags (mCwd ?M) p" and r: "raft_up ?c rs (ndRaft nd)" using u by (simp_all add: node_up_def)
  have lib: "ck_marshals (libCk (nlKv l))" "raft_codec_reads ?c rs" using env fit(1) by (simp_all add: node_env_def records_fit_def)
  have wo: "length qs < 18446744073709551616" "\<forall>r\<in>set qs. req_ok simple (ok_entity (libSprint (nlKv l))) r"
      "codec_faithful (libCodec (nlKv l)) (ok_entity (libSprint (nlKv l))) (safe (libSprint (nlKv l))) qs"
    using fit(2) by (simp_all add: writes_ok_def)
  obtain s' where s': "OpenKV (nlKv l) flags conf (crash ?M kt ?s) = Inr s'" "kv_up (nlKv l) flags conf p T qs (length qs) m (kvAdapter s')"
    using up_crash [OF k lay lib(1) wo t(2)] by blast
  let ?f = "raft_file (ndRaft nd)" and ?es = "rec_entries ?c 0 0 rs"
  have fd: "fdata ?f = frames ?es" using r by (simp add: raft_up_def raft_inv_def wal_inv_def raft_file_def)
  obtain t0 where t0: "t0 = [] \<or> torn t0" "fsynced ?f = frames ?es @ t0" using r by (auto simp: raft_up_def)
  obtain t' where t': "t' = [] \<or> torn t'" "fdata (hRaftLog ?h) = frames ?es @ t'" "fsynced (hRaftLog ?h) = fdata (hRaftLog ?h)" "foutcomes (hRaftLog ?h) = []"
    using t0 fd t(1) by (cases "t0 = []") (auto simp: node_crash_def Let_def)
  have len: "length rs < 18446744073709551616" using fit(1) by (simp add: records_fit_def)
  obtain rn where rn: "OpenRaft ?c (nfID flags) (nfPeers flags) (hRaftLog ?h) = Inr rn" "raft_up ?c rs rn"
      "rsNode rn = SetMetaPersister (NewNodeWithState (nfID flags) (nfPeers flags)
      \<lparr>psLog = restored rs, psCurrentTerm = rmCurrentTerm (rec_meta \<lparr>rmCurrentTerm = 0, rmVotedFor = []\<rparr> rs),
       psVotedFor = rmVotedFor (rec_meta \<lparr>rmCurrentTerm = 0, rmVotedFor = []\<rparr> rs)\<rparr>)"
    using raft_open [OF lib(2) raft_up_records_ok [OF r] len t'(4,2,1), of "nfID flags" "nfPeers flags"] t'(3) by blast
  have M: "hMachine ?h = crash ?M kt ?s" "hListen ?h = None" "mCwd (crash ?M kt ?s) = mCwd ?M"
    by (simp_all add: node_crash_def crash_def machine_of_def Let_def)
  have ri: "OpenRaft_in ?c flags (hMachine ?h) (hRaftLog ?h) = (Inr rn, hMachine ?h)"
    using wal_dir_kept [OF k lay, of kt] rn(1) unfolding M(1) by (simp add: OpenRaft_in_def)
  have "node_start l args ?h = Inr \<lparr>ndFlags = flags, ndConf = conf, ndMachine = hMachine ?h, ndRaft = rn, ndKv = s'\<rparr>"
    using env ri s'(1) M(1,2) by (simp add: node_start_def node_env_def cfg_Load_def cfg_Get_def Let_def)
  then show ?thesis
    using rn(2,3) s'(2) lay M by (auto simp: node_up_def NewNodeWithState_def NewNode_def SetMetaPersister_def Let_def)
qed

lemma raft_up_close:
  assumes u: "raft_up c rs s" and r: "raft_Close (rsWal s) = (err, rw)"
  shows "raft_up c rs (s\<lparr>rsWal := rw\<rparr>)"
proof -
  let ?w = "rwWal (rsWal s)"
  have b: "wBufw ?w = None" using u by (simp add: raft_up_def raft_inv_def wal_inv_def)
  obtain e1 w1 where f: "flushLocked ?w = (e1, w1)" by (cases "flushLocked ?w")
  have w1: "\<exists>f. w1 = ?w\<lparr>wFile := f\<rparr> \<and> fdata f = fdata (wFile ?w) \<and> fpos f = fpos (wFile ?w) \<and> (fsynced f = fsynced (wFile ?w) \<or> fsynced f = fdata f)"
    using f b by (auto simp: flushLocked_def syncAndHook_def file_Sync_def next_outcome_def split: option.splits prod.splits list.splits io_outcome.splits)
  have c: "fdata (snd (file_Close g)) = fdata g \<and> fpos (snd (file_Close g)) = fpos g \<and> fsynced (snd (file_Close g)) = fsynced g" for g
    by (auto simp: file_Close_def next_outcome_def split: list.splits io_outcome.splits)
  obtain w' where w': "Close ?w = (err, w')" "rw = (rsWal s)\<lparr>rwWal := w'\<rparr>" using r by (auto simp: raft_Close_def split: prod.splits)
  have "\<exists>g. w' = ?w\<lparr>wFile := g\<rparr> \<and> fdata g = fdata (wFile ?w) \<and> fpos g = fpos (wFile ?w) \<and> (fsynced g = fsynced (wFile ?w) \<or> fsynced g = fdata g)"
    using w'(1) f w1 c by (auto simp: Close_def split: option.splits prod.splits) (metis snd_conv)+
  then show ?thesis using u w'(2) by (auto simp: raft_up_def raft_inv_def wal_inv_def raft_file_def)
qed

lemma raft_up_faults: "raft_up c rs s \<Longrightarrow> raft_up c rs (raft_faults io s)"
  by (auto simp: raft_up_def raft_inv_def wal_inv_def raft_file_def raft_faults_def)

text \<open>The store after the events of an entry or of the background.\<close>

lemma node_up_store:
  assumes env: "node_env l args flags conf" and u: "node_up l flags conf p T rs qs m nd"
    and evs: "evs_ok (libSprint (nlKv l)) T evs" "writes_ok (nlKv l) (qs @ kv_writes evs)"
    and run: "kv_run (nlKv l) flags conf (ndMachine nd) evs (ndKv nd) = (None, s)"
  shows "node_up l flags conf p (fold ev_tables evs T) rs (qs @ kv_writes evs) m (nd\<lparr>ndKv := s\<rparr>)"
proof -
  obtain n where k: "kv_up (nlKv l) flags conf p T qs n m (kvAdapter (ndKv nd))" using u by (auto simp: node_up_def)
  have lay: "kv_layout flags (mCwd (ndMachine nd)) p" "ck_marshals (libCk (nlKv l))" using u env by (simp_all add: node_up_def node_env_def)
  show ?thesis using kv_run_up [OF k lay evs run] u by (simp add: node_up_def)
qed

lemma node_up_deliver:
  assumes env: "node_env l args flags conf" and u: "node_up l flags conf p T rs qs m nd" and f: "nState n = Follower"
    and evs: "evs_ok (libSprint (nlKv l)) T (entry_events (leData e))" "writes_ok (nlKv l) (qs @ kv_writes (entry_events (leData e)))"
    and g: "GrpcHandle (kv_cfg (nlKv l) (ndConf nd)) n e (node_db nd) = (None, a)"
  shows "node_up l flags conf p (fold ev_tables (entry_events (leData e)) T) rs (qs @ kv_writes (entry_events (leData e))) m (set_node_db a nd)"
proof -
  have c: "ndConf nd = conf" using u by (simp add: node_up_def)
  have "GrpcHandle (kv_cfg (nlKv l) conf) n e (kvAdapter (ndKv nd)) = (None, a)" using g c by (simp add: node_db_def kv_DB_def)
  from node_up_store [OF env u evs deliver_run [OF f this]] show ?thesis by (simp add: set_node_db_def)
qed

lemma node_up_shutdown:
  assumes u: "node_up l flags conf p T rs qs m nd"
  shows "node_up l flags conf p T rs qs m (node_shutdown l nd)"
proof -
  obtain n where k: "kv_up (nlKv l) flags conf p T qs n m (kvAdapter (ndKv nd))" using u by (auto simp: node_up_def)
  obtain err a where a: "ad_Close (kv_cfg (nlKv l) conf) (kvAdapter (ndKv nd)) = (err, a)" by (cases "ad_Close (kv_cfg (nlKv l) conf) (kvAdapter (ndKv nd))")
  obtain e rw where rw: "raft_Close (rsWal (ndRaft nd)) = (e, rw)" by (cases "raft_Close (rsWal (ndRaft nd))")
  have "raft_up (nlRaft l) rs ((ndRaft nd)\<lparr>rsWal := rw\<rparr>)" using u by (intro raft_up_close [OF _ rw]) (simp add: node_up_def)
  then show ?thesis using u up_close [OF k a] a rw by (auto simp: node_up_def node_shutdown_def kv_Close_def)
qed

lemma node_step_up:
  assumes env: "node_env l args flags conf" and u: "node_up l flags conf p T rs qs m nd" and ok: "nd_ok (libSprint (nlKv l)) T ev"
    and fit: "records_fit (nlRaft l) (rs @ nd_recs ev)" "writes_ok (nlKv l) (qs @ kv_writes (nd_events ev))"
    and step: "node_step l args ev nd = (None, nd')"
  shows "node_up l flags conf p (nd_tables ev T) (rs @ nd_recs ev) (qs @ kv_writes (nd_events ev)) m nd'"
proof (cases ev)
  case (NdApply n e)
  obtain a s where a: "GrpcHandle (kv_cfg (nlKv l) (ndConf nd)) n e (node_db nd) = (None, a)" "PersistApplied (nlRaft l) e (ndRaft nd) = (None, s)"
      "nd' = (set_node_db a nd)\<lparr>ndRaft := s\<rparr>"
    using step NdApply by (auto split: prod.splits option.splits)
  have k: "node_up l flags conf p (nd_tables ev T) rs (qs @ kv_writes (nd_events ev)) m (set_node_db a nd)"
    using node_up_deliver [OF env u _ _ _ a(1)] ok fit(2) NdApply by (simp add: nd_tables_def)
  have "raft_up (nlRaft l) (rs @ nd_recs ev) s"
    using raft_up_do [of "nlRaft l" rs "ndRaft nd" "RecEntry e" s] u a(2) fit(1) NdApply by (simp add: node_up_def)
  then show ?thesis using k a(3) by (simp add: node_up_def set_node_db_def)
next
  case (NdCrashApplied n e rt kt)
  obtain a where a: "GrpcHandle (kv_cfg (nlKv l) (ndConf nd)) n e (node_db nd) = (None, a)"
      "node_restart l args (node_crash rt kt (set_node_db a nd)) nd = (None, nd')"
    using step NdCrashApplied by (auto split: prod.splits option.splits)
  have k: "node_up l flags conf p (nd_tables ev T) rs (qs @ kv_writes (nd_events ev)) m (set_node_db a nd)"
    using node_up_deliver [OF env u _ _ _ a(1)] ok fit(2) NdCrashApplied by (simp add: nd_tables_def)
  show ?thesis
    using node_start_crash [OF env k _ fit(2), of rt kt] fit(1) ok a(2) NdCrashApplied by (auto simp: node_restart_def)
next
  case (NdMeta t v)
  obtain s where s: "raft_do (nlRaft l) (RecMeta t v) (ndRaft nd) = (None, s)" "nd' = nd\<lparr>ndRaft := s\<rparr>"
    using step NdMeta by (auto simp del: raft_do.simps split: prod.splits)
  have "raft_up (nlRaft l) (rs @ nd_recs ev) s" using raft_up_do [OF _ s(1)] u fit(1) NdMeta by (simp add: node_up_def)
  then show ?thesis using u s(2) NdMeta by (simp add: node_up_def nd_tables_def)
next
  case (NdStore x)
  have b: "background x" using ok NdStore by simp
  obtain s where s: "kv_step (nlKv l) flags conf (ndMachine nd) x (ndKv nd) = (None, s)" "nd' = nd\<lparr>ndKv := s\<rparr>"
    using step NdStore u by (auto simp: node_up_def split: prod.splits)
  have "kv_run (nlKv l) flags conf (ndMachine nd) [x] (ndKv nd) = (None, s)" using s(1) by simp
  from node_up_store [OF env u _ _ this] show ?thesis
    using background_writes [OF b] fit(2) s(2) NdStore by (simp add: nd_tables_def)
next
  case (NdFaults io)
  then show ?thesis using u step raft_up_faults by (auto simp: node_up_def nd_tables_def)
next
  case (NdCrash rt kt)
  then show ?thesis
    using node_start_crash [OF env u, of rt kt] fit ok step by (auto simp: node_restart_def nd_tables_def)
next
  case NdStop
  then show ?thesis
    using node_start_crash [OF env node_up_shutdown [OF u], of "[]" "[]"] fit step by (auto simp: node_restart_def nd_tables_def)
qed

lemma node_run_up:
  assumes env: "node_env l args flags conf" and "node_up l flags conf p T rs qs m nd" and "nds_ok (libSprint (nlKv l)) T evs"
    and "records_fit (nlRaft l) (rs @ run_recs evs)" "writes_ok (nlKv l) (qs @ run_writes evs)" and "node_run l args evs nd = (None, nd')"
  shows "node_up l flags conf p (fold nd_tables evs T) (rs @ run_recs evs) (qs @ run_writes evs) m nd'"
  using assms(2-6)
proof (induction evs arbitrary: T rs qs nd)
  case Nil
  then show ?case by (simp add: run_recs_def run_writes_def)
next
  case (Cons ev evs)
  obtain nd1 where s: "node_step l args ev nd = (None, nd1)" "node_run l args evs nd1 = (None, nd')"
    using Cons.prems(5) by (auto split: prod.splits option.splits)
  have sp: "rs @ run_recs (ev # evs) = (rs @ nd_recs ev) @ run_recs evs" "qs @ run_writes (ev # evs) = (qs @ kv_writes (nd_events ev)) @ run_writes evs"
    by (simp_all add: run_recs_def run_writes_def)
  note fit = records_fit_prefix [OF Cons.prems(3) [unfolded sp]] writes_ok_prefix [OF Cons.prems(4) [unfolded sp]]
  have "node_up l flags conf p (nd_tables ev T) (rs @ nd_recs ev) (qs @ kv_writes (nd_events ev)) m nd1"
    using Cons.prems(2) by (intro node_step_up [OF env Cons.prems(1) _ fit s(1)]) simp
  from Cons.IH [OF this _ Cons.prems(3,4) [unfolded sp] s(2)] show ?case unfolding sp using Cons.prems(2) by simp
qed

section \<open>From the first start\<close>

lemma node_first_start:
  assumes env: "node_env l args flags conf" and M: "fresh_machine (nlKv l) flags conf (hMachine h) d"
    and f: "hRaftLog h = \<lparr>fdata = [], fpos = 0, fsynced = [], foutcomes = []\<rparr>" and li: "hListen h = None"
  shows "\<exists>nd. node_start l args h = Inr nd \<and> node_up l flags conf (defaultDir d) (tables d) [] [] (sel d) nd"
proof -
  let ?c = "nlRaft l" and ?M = "hMachine h"
  have lib: "ck_codec_faithful (libCk (nlKv l))" "ck_marshals (libCk (nlKv l))" using env by (simp_all add: node_env_def)
  have reads: "raft_codec_reads ?c []" by (simp add: raft_codec_reads_def)
  obtain F where F: "os_MkdirAll (abs_path (mCwd ?M) (filepath_Dir (nfWALPath flags))) (mTree ?M) = (None, F)" "os_MkdirAll (defaultDir d) F = (None, dfs d)"
    using M by (auto simp: fresh_machine_def)
  let ?M' = "?M\<lparr>mTree := F\<rparr>"
  have "os_MkdirAll (abs_path (mCwd ?M) (filepath_Dir (nfWALPath flags))) F = (None, F)" by (rule mkdir_nop [OF mkdir_made [OF F(1)]])
  then have M': "fresh_machine (nlKv l) flags conf ?M' d" using M F(2) by (simp add: fresh_machine_def)
  obtain s where s: "OpenKV (nlKv l) flags conf ?M' = Inr s" "kv_up (nlKv l) flags conf (defaultDir d) (tables d) [] 0 (sel d) (kvAdapter s)"
    using first_open [OF M' lib(1,2)] by blast
  have rc: "records_ok ?c []" by (simp add: records_ok_def)
  obtain rn where rn: "OpenRaft ?c (nfID flags) (nfPeers flags) (hRaftLog h) = Inr rn" "raft_up ?c [] rn"
    using raft_open [OF reads rc, of "hRaftLog h" "[]" "nfID flags" "nfPeers flags"] f by auto
  have "node_start l args h = Inr \<lparr>ndFlags = flags, ndConf = conf, ndMachine = ?M', ndRaft = rn, ndKv = s\<rparr>"
    using env F(1) rn(1) s(1) li by (simp add: node_start_def node_env_def OpenRaft_in_def cfg_Load_def cfg_Get_def Let_def)
  moreover have "kv_layout flags (mCwd ?M') (defaultDir d)" using M' by (simp add: fresh_machine_def)
  ultimately show ?thesis using rn(2) s(2) by (auto simp: node_up_def)
qed

text \<open>C5. The store of a follower is its log, applied.  A node is started on a machine with empty logs, no checkpoint, a
  consistent store directory and the directories laid out as the default flags have them, and serves what its directory
  held.  Let it then apply and record entries, change terms, read, flush and take checkpoints, with faults of the logs'
  and the checkpoint's files, and let it die or be stopped and be started again any number of times, also between
  applying an entry and recording it, the entry being delivered again before any other.  The entries name tables that
  exist or create them, their keys, secondary keys and table names are plain file names, their values can be written as
  JSON, no record of either log is longer than 256 MiB, and the codecs read back the records that are written, the one
  of the consensus log with nested maps in the shape that CBOR gives them.  As long as every write succeeded, the store
  holds the entries recorded in the consensus log, applied in order, and the one applied but not recorded, if there is
  one; and starting the node after another crash succeeds, with the recorded entries, in that shape, as its committed
  log and with the same contents.\<close>

theorem store_of_follower_is_its_log:
  assumes env: "node_env l args flags conf" and h: "fresh_machine (nlKv l) flags conf (hMachine h) d"
      "hRaftLog h = \<lparr>fdata = [], fpos = 0, fsynced = [], foutcomes = []\<rparr>" "hListen h = None"
    and evs: "nds_ok (libSprint (nlKv l)) (tables d) evs" "redelivers None evs"
      "records_fit (nlRaft l) (run_recs evs)" "writes_ok (nlKv l) (run_writes evs)"
  shows "\<exists>nd0. node_start l args h = Inr nd0 \<and> (\<forall>nd. node_run l args evs nd0 = (None, nd) \<longrightarrow>
      wb_sel (libSprint (nlKv l)) (snd (aStore (node_db nd)))
        = log_effect (safe (libSprint (nlKv l))) (rec_log (run_recs evs) @ opt_list (fold nd_pending evs None)) (sel d)
    \<and> (\<forall>rt kt. (rt = [] \<or> torn rt) \<and> (kt = [] \<or> torn kt) \<longrightarrow> (\<exists>nd'. node_start l args (node_crash rt kt nd) = Inr nd'
          \<and> nLog (rsNode (ndRaft nd')) = restored (run_recs evs)
          \<and> commitIndex (rsNode (ndRaft nd')) = int (length (rec_log (run_recs evs))) - 1
          \<and> wb_sel (libSprint (nlKv l)) (snd (aStore (node_db nd'))) = wb_sel (libSprint (nlKv l)) (snd (aStore (node_db nd))))))"
proof -
  obtain nd0 where s: "node_start l args h = Inr nd0" "node_up l flags conf (defaultDir d) (tables d) [] [] (sel d) nd0"
    using node_first_start [OF env h] by blast
  have content: "wb_sel (libSprint (nlKv l)) (snd (aStore (node_db x))) = fold (req_effect (safe (libSprint (nlKv l)))) qs (sel d)"
    if "node_up l flags conf p T rs qs (sel d) x" for p T rs qs x
    using that by (auto simp: node_up_def kvd.up_def node_db_def kv_DB_def)
  show ?thesis
  proof (rule exI [of _ nd0], intro conjI allI impI s(1))
    fix nd
    assume run: "node_run l args evs nd0 = (None, nd)"
    have u: "node_up l flags conf (defaultDir d) (fold nd_tables evs (tables d)) (run_recs evs) (run_writes evs) (sel d) nd"
      using node_run_up [OF env s(2) evs(1) _ _ run] evs(3,4) by simp
    show "wb_sel (libSprint (nlKv l)) (snd (aStore (node_db nd)))
        = log_effect (safe (libSprint (nlKv l))) (rec_log (run_recs evs) @ opt_list (fold nd_pending evs None)) (sel d)"
      using content [OF u] run_effect [OF evs(2,1), of "safe (libSprint (nlKv l))" "[]" "sel d"] by (simp add: opt_list_def)
    fix rt kt
    assume t: "(rt = [] \<or> torn rt) \<and> (kt = [] \<or> torn kt)"
    from node_start_crash [OF env u evs(3,4), of rt kt] t content [OF u] content
    show "\<exists>nd'. node_start l args (node_crash rt kt nd) = Inr nd' \<and> nLog (rsNode (ndRaft nd')) = restored (run_recs evs)
        \<and> commitIndex (rsNode (ndRaft nd')) = int (length (rec_log (run_recs evs))) - 1
        \<and> wb_sel (libSprint (nlKv l)) (snd (aStore (node_db nd'))) = wb_sel (libSprint (nlKv l)) (snd (aStore (node_db nd)))"
      by metis
  qed
qed

section \<open>A concrete life\<close>

definition demo_set_entry :: log_entry where
  "demo_set_entry = \<lparr>leTerm = 1, leData = \<lparr>Cmd = SetCmd, TableName = ''t'', cItem = demo_item ''a'' None, cItems = [], MinAcks = 2\<rparr>\<rparr>"

definition demo_set_codec :: raft_codec where
  "demo_set_codec =
     \<lparr>encLog = (\<lambda>p. if p = \<lparr>rlIndex = 0, rlTerm = 1, rlData = leData demo_set_entry\<rparr> then Inr [1] else Inl (ErrMsg ''encode'')),
      decLog = (\<lambda>b. if b = [1] then Inr \<lparr>rlIndex = 0, rlTerm = 1, rlData = leData demo_set_entry\<rparr> else Inl (ErrMsg ''decode'')),
      encMeta = (\<lambda>m. Inl (ErrMsg ''encode'')), decMeta = (\<lambda>b. Inl (ErrMsg ''decode''))\<rparr>"

definition demo_node_libs :: node_libs where
  "demo_node_libs = \<lparr>nlKv = demo_libs, nlRaft = demo_set_codec, nlReadEnv = (\<lambda>_. (None, demo_conf))\<rparr>"

definition demo_args :: "string list" where
  "demo_args = [''-id'', ''n1'', ''-wal-path'', ''/data/log'', ''-fs-default-dir'', ''/data'', ''-checkpoint-default-dir'', ''ck'']"

definition demo_host :: "fsdb \<Rightarrow> host" where
  "demo_host d = \<lparr>hMachine = demo_machine d, hRaftLog = empty_file, hListen = None\<rparr>"

definition demo_idle :: raft_node where
  "demo_idle = NewNode ''n1'' []"

lemma demo_node_env: "node_env demo_node_libs demo_args demo_flags demo_conf"
proof -
  have t: "trimmed ''n1''" "trimmed ''/data/log''" "trimmed ''/data''" "trimmed ''ck''" "trimmed '':9080''"
    by (simp_all add: trimmed_def space_runes_def starts_with_def)
  have "ParseNodeFlags demo_args = Inr demo_flags"
    using t by (simp add: ParseNodeFlags_def demo_args_def node_flag_defs_def flag_value_def parsePeers_def TrimSpace_id demo_flags_def Let_def)
  then show ?thesis using seq_ck_laws by (simp add: node_env_def demo_node_libs_def)
qed

lemma demo_deliver:
  assumes u: "node_up demo_node_libs demo_flags demo_conf p T rs qs m nd" and t: "''t'' \<in> T"
    and io: "foutcomes (wFile (the (aLog (node_db nd)))) = []"
  shows "\<exists>a. GrpcHandle (kv_cfg demo_libs demo_conf) demo_idle demo_set_entry (node_db nd) = (None, a)"
proof -
  obtain n where k: "kv_up demo_libs demo_flags demo_conf p T qs n m (node_db nd)"
    using u by (auto simp: node_up_def demo_node_libs_def node_db_def kv_DB_def)
  show ?thesis using demo_kv_write [OF k t io, of "''db: wal set (replicated)''"]
    by (simp add: GrpcHandle_def State_def demo_idle_def NewNode_def demo_set_entry_def ad_ApplyReplicated_def)
qed

lemma demo_persist:
  assumes u: "raft_up demo_set_codec [] s" and io: "foutcomes (raft_file s) = []"
  shows "\<exists>s'. PersistApplied demo_set_codec demo_set_entry s = (None, s')"
proof -
  let ?e = "raft_record (rwSeq (rsWal s) + 1) OpRaftLog [1]"
  have "wBufw (rwWal (rsWal s)) = None" using u by (simp add: raft_up_def raft_inv_def wal_inv_def)
  then obtain w' where "appendLocked ?e (rwWal (rsWal s)) = (None, w')"
    using demo_append [of ?e "rwWal (rsWal s)"] demo_record_valid [of "[1]" OpRaftLog "rwSeq (rsWal s) + 1"] io by (auto simp: raft_file_def)
  moreover have "rsNextIndex s = 0" "leTerm demo_set_entry = 1" using u by (simp_all add: raft_up_def demo_set_entry_def)
  ultimately show ?thesis by (simp add: PersistApplied_def AppendEntry_def demo_set_codec_def wal_Append_def Let_def)
qed

lemma demo_entry_writes:
  "kv_writes (entry_events (leData demo_set_entry)) = [ReqSet ''t'' (item_Entity (demo_item ''a'' None))]"
  "fold ev_tables (entry_events (leData demo_set_entry)) T = T"
  "evs_ok sprint T (entry_events (leData demo_set_entry)) \<longleftrightarrow> ''t'' \<in> T"
  by (simp_all add: demo_set_entry_def entry_events_def simple_def demo_item_Entity ok_entity_def)

lemma demo_writes_fit:
  "qs \<in> {[], [ReqSet ''t'' (item_Entity (demo_item ''a'' None))], [ReqSet ''t'' (item_Entity (demo_item ''a'' None)), ReqSet ''t'' (item_Entity (demo_item ''a'' None))]}
   \<Longrightarrow> writes_ok demo_libs qs"
  by (auto simp: writes_ok_def codec_faithful_def item_codec_def demo_item_Entity ok_entity_def safe_def set_entry_def payload_size_def)

lemma demo_set_reads: "raft_codec_reads demo_set_codec rs"
  by (auto simp: raft_codec_reads_def demo_set_codec_def demo_set_entry_def cbor_data_def cbor_item_def demo_item_def split: if_splits)

lemma demo_records_fit: "records_fit demo_set_codec [RecEntry demo_set_entry]" "records_fit demo_set_codec []"
  using demo_record_valid [of "[1]" OpRaftLog 1] demo_set_reads by (simp_all add: records_fit_def) (simp add: rec_bytes_def demo_set_codec_def demo_set_entry_def)

text \<open>The device of the store is working again.\<close>

lemma demo_mended:
  assumes u: "node_up demo_node_libs demo_flags demo_conf p T rs qs m nd" and fit: "records_fit demo_set_codec rs" "writes_ok demo_libs qs"
  shows "\<exists>nd'. node_step demo_node_libs demo_args (NdStore (EvFaults [] [])) nd = (None, nd')
     \<and> node_up demo_node_libs demo_flags demo_conf p T rs qs m nd' \<and> foutcomes (wFile (the (aLog (node_db nd')))) = [] \<and> ndRaft nd' = ndRaft nd"
proof -
  let ?nd = "nd\<lparr>ndKv := (ndKv nd)\<lparr>kvAdapter := set_faults [] [] (kvAdapter (ndKv nd))\<rparr>\<rparr>"
  have st: "node_step demo_node_libs demo_args (NdStore (EvFaults [] [])) nd = (None, ?nd)" by simp
  have "node_up demo_node_libs demo_flags demo_conf p T rs qs m ?nd"
    using node_step_up [OF demo_node_env u _ _ _ st] fit by (simp add: nd_tables_def demo_node_libs_def)
  moreover have "aLog (kvAdapter (ndKv nd)) \<noteq> None" using u by (auto simp: node_up_def kvd.up_def)
  ultimately show ?thesis using st by (auto simp: node_db_def kv_DB_def set_faults_def)
qed

theorem store_of_follower_is_its_log_witness:
  "\<exists>d nd0 nd. CreateTable ''t'' (empty_db [''data'']) = (None, d) \<and> node_start demo_node_libs demo_args (demo_host d) = Inr nd0
     \<and> node_run demo_node_libs demo_args [NdStore (EvFaults [] []), NdCrashApplied demo_idle demo_set_entry [] [],
           NdStore (EvFaults [] []), NdFaults [], NdApply demo_idle demo_set_entry] nd0 = (None, nd)
     \<and> wb_sel (\<lambda>_. []) (snd (aStore (node_db nd))) ''t'' ''a'' = Some (item_Entity (demo_item ''a'' None))"
proof -
  let ?l = demo_node_libs and ?a = demo_args and ?f = demo_flags and ?c = demo_conf and ?n = demo_idle and ?e = demo_set_entry
  let ?evs = "[NdStore (EvFaults [] []), NdCrashApplied ?n ?e [] [], NdStore (EvFaults [] []), NdFaults [], NdApply ?n ?e]"
  let ?q = "ReqSet ''t'' (item_Entity (demo_item ''a'' None))"
  have l: "nlKv ?l = demo_libs" "nlRaft ?l = demo_set_codec" "nState ?n = Follower"
    by (simp_all add: demo_node_libs_def demo_idle_def NewNode_def)
  note fit = demo_records_fit demo_writes_fit [of "[]"] demo_writes_fit [of "[?q]"] demo_writes_fit [of "[?q, ?q]"]
  obtain d where d: "CreateTable ''t'' (empty_db [''data'']) = (None, d)" "''t'' \<in> tables d" "db_inv d" "\<And>t k. sel d t k = None"
    by (rule demo_db) (rule that)
  have dd: "defaultDir d = [''data'']" using fsdb_root(1) [OF d(1)] by (simp add: empty_db_def)
  have h: "fresh_machine (nlKv ?l) ?f ?c (hMachine (demo_host d)) d" "hRaftLog (demo_host d) = \<lparr>fdata = [], fpos = 0, fsynced = [], foutcomes = []\<rparr>"
      "hListen (demo_host d) = None"
    using demo_fresh [OF d(3,2) dd] by (simp_all add: demo_node_libs_def demo_host_def empty_file_def)
  let ?up = "\<lambda>qs. node_up ?l ?f ?c (defaultDir d) (tables d) [] qs (sel d)"
  obtain nd0 where nd0: "node_start ?l ?a (demo_host d) = Inr nd0" "?up [] nd0" using node_first_start [OF demo_node_env h] by blast
  obtain nd1 where nd1: "node_step ?l ?a (NdStore (EvFaults [] [])) nd0 = (None, nd1)" "?up [] nd1" "foutcomes (wFile (the (aLog (node_db nd1)))) = []"
    using demo_mended [OF nd0(2)] fit by blast
  obtain a1 where a1: "GrpcHandle (kv_cfg demo_libs demo_conf) ?n ?e (node_db nd1) = (None, a1)"
    using demo_deliver [OF nd1(2) d(2) nd1(3)] by blast
  have c: "ndConf x = demo_conf" if "?up qs x" for x qs using that by (simp add: node_up_def)
  have "?up [?q] (set_node_db a1 nd1)"
    using node_up_deliver [OF demo_node_env nd1(2) l(3), of ?e a1] a1 d(2) fit by (simp add: demo_entry_writes l c [OF nd1(2)])
  from node_start_crash [OF demo_node_env this, of "[]" "[]"] fit
  obtain nd2 where nd2: "node_start ?l ?a (node_crash [] [] (set_node_db a1 nd1)) = Inr nd2" "?up [?q] nd2" by (auto simp: l)
  obtain nd3 where nd3: "node_step ?l ?a (NdStore (EvFaults [] [])) nd2 = (None, nd3)" "?up [?q] nd3" "foutcomes (wFile (the (aLog (node_db nd3)))) = []"
    using demo_mended [OF nd2(2)] fit by auto
  obtain a2 where a2: "GrpcHandle (kv_cfg demo_libs demo_conf) ?n ?e (node_db nd3) = (None, a2)"
    using demo_deliver [OF nd3(2) d(2) nd3(3)] by blast
  have "raft_up demo_set_codec [] (raft_faults [] (ndRaft nd3))" using nd3(2) raft_up_faults by (simp add: node_up_def l)
  then obtain s where s: "PersistApplied demo_set_codec ?e (raft_faults [] (ndRaft nd3)) = (None, s)"
    using demo_persist [of "raft_faults [] (ndRaft nd3)"] by (auto simp: raft_faults_def raft_file_def)
  let ?nd = "(set_node_db a2 (nd3\<lparr>ndRaft := raft_faults [] (ndRaft nd3)\<rparr>))\<lparr>ndRaft := s\<rparr>"
  let ?nd3 = "nd3\<lparr>ndRaft := raft_faults [] (ndRaft nd3)\<rparr>"
  have "node_step ?l ?a (NdCrashApplied ?n ?e [] []) nd1 = (None, nd2)" using a1 nd2(1) c [OF nd1(2)] by (simp add: l node_restart_def)
  moreover have "node_step ?l ?a (NdFaults []) nd3 = (None, ?nd3)" by simp
  moreover have "node_step ?l ?a (NdApply ?n ?e) ?nd3 = (None, ?nd)" using a2 s c [OF nd3(2)] by (simp add: l node_db_def set_node_db_def)
  ultimately have run: "node_run ?l ?a ?evs nd0 = (None, ?nd)"
    using nd1(1) nd3(1) by (simp only: node_run.simps prod.case option.case)
  have "nds_ok (libSprint (nlKv ?l)) (tables d) ?evs" "redelivers None ?evs"
    using d(2) by (simp_all add: nd_tables_def demo_entry_writes l)
  moreover have "run_recs ?evs = [RecEntry ?e]" "run_writes ?evs = [?q, ?q]" by (simp_all add: run_recs_def run_writes_def demo_entry_writes)
  ultimately have "wb_sel (libSprint (nlKv ?l)) (snd (aStore (node_db ?nd)))
      = log_effect (safe (libSprint (nlKv ?l))) (rec_log [RecEntry ?e] @ opt_list (fold nd_pending ?evs None)) (sel d)"
    using store_of_follower_is_its_log [OF demo_node_env h, of ?evs] fit nd0(1) run by (auto simp: l simp del: node_run.simps)
  then have "wb_sel (\<lambda>_. []) (snd (aStore (node_db ?nd))) ''t'' ''a'' = Some (item_Entity (demo_item ''a'' None))"
    by (simp add: l opt_list_def entry_effect_events demo_entry_writes upd_apply simple_def)
  then show ?thesis using d(1) nd0(1) run by blast
qed

end
