(* ===== verification/Http.thy ===== *)
theory Http
  imports Api Strings
begin

text \<open>
  Between a client and the handlers: URL encoding, the routes of \<^verbatim>\<open>src/cmd/node/setup/routes.go\<close> as
  \<^verbatim>\<open>http.ServeMux\<close> matches them, the JSON bodies of requests and responses, and the logging middleware of
  \<^verbatim>\<open>src/pkg/www/request_latency.go\<close>.  Bodies are JSON documents, as in the rest of the development; members are
  found under their exact names, which is how this program's client writes them.
\<close>

section \<open>Percent encoding\<close>

definition hex_digit :: "nat \<Rightarrow> char" where
  "hex_digit n = (if n < 10 then char_of (48 + n) else char_of (55 + n))"

definition hex_lower :: "nat \<Rightarrow> char" where
  "hex_lower n = (if n < 10 then char_of (48 + n) else char_of (87 + n))"

definition is_hex :: "char \<Rightarrow> bool" where
  "is_hex c = (let n = of_char c :: nat in 48 \<le> n \<and> n \<le> 57 \<or> 65 \<le> n \<and> n \<le> 70 \<or> 97 \<le> n \<and> n \<le> 102)"

definition unhex :: "char \<Rightarrow> nat" where
  "unhex c = (let n = of_char c :: nat in if n \<le> 57 then n - 48 else if n \<le> 70 then n - 55 else n - 87)"

text \<open>\<open>keep\<close> are the bytes left alone; in a query component a blank is a plus sign.\<close>

definition escape_char :: "(char \<Rightarrow> bool) \<Rightarrow> bool \<Rightarrow> char \<Rightarrow> string" where
  "escape_char keep pl c =
     (if pl \<and> c = CHR '' '' then ''+''
      else if keep c then [c]
      else [CHR ''%'', hex_digit (of_char c div 16), hex_digit (of_char c mod 16)])"

definition escape :: "(char \<Rightarrow> bool) \<Rightarrow> bool \<Rightarrow> string \<Rightarrow> string" where
  "escape keep pl s = concat (map (escape_char keep pl) s)"

fun unescape :: "bool \<Rightarrow> string \<Rightarrow> string option" where
  "unescape pl [] = Some []"
| "unescape pl (c # cs) =
     (if c = CHR ''%'' then
        (case cs of
           a # b # rest \<Rightarrow>
             if is_hex a \<and> is_hex b then map_option ((#) (char_of (16 * unhex a + unhex b))) (unescape pl rest) else None
         | _ \<Rightarrow> None)
      else map_option ((#) (if pl \<and> c = CHR ''+'' then CHR '' '' else c)) (unescape pl cs))"

definition unreserved :: "char \<Rightarrow> bool" where
  "unreserved c = (let n = of_char c :: nat in
     48 \<le> n \<and> n \<le> 57 \<or> 65 \<le> n \<and> n \<le> 90 \<or> 97 \<le> n \<and> n \<le> 122 \<or> c \<in> set ''-_.~'')"

definition PathEscape :: "string \<Rightarrow> string" where
  "PathEscape s = escape (\<lambda>c. unreserved c \<or> c \<in> set ''$&+=:@'') False s"

definition QueryEscape :: "string \<Rightarrow> string" where
  "QueryEscape s = escape unreserved True s"

text \<open>The encoding of a whole path, and when a path is sent as it stands.\<close>

definition escape_path :: "string \<Rightarrow> string" where
  "escape_path s = escape (\<lambda>c. unreserved c \<or> c \<in> set ''$&+,/:;=@'') False s"

definition valid_encoded :: "string \<Rightarrow> bool" where
  "valid_encoded s = list_all (\<lambda>c. unreserved c \<or> c \<in> set ''$&+,/:;=@!()*[]%'' \<or> c = CHR 0x27) s"

section \<open>Requests on the wire\<close>

datatype meth = MGet | MPut | MPost | MDelete

text \<open>
  \<^verbatim>\<open>http.NewRequest\<close> on an endpoint below a well-formed host: the fragment is cut off, then the query, and the
  escapes of the path must be valid.  The result is the path as it is sent, and the raw query.
\<close>

definition NewRequest :: "string \<Rightarrow> goerr + string \<times> string" where
  "NewRequest endpoint =
     (let u = takeWhile (\<lambda>c. c \<noteq> CHR ''#'') endpoint;
          frag = drop (Suc (length u)) endpoint;
          p = takeWhile (\<lambda>c. c \<noteq> CHR ''?'') u;
          q = drop (Suc (length p)) u in
      if list_ex (\<lambda>c. (of_char c :: nat) < 32 \<or> c = CHR 0x7F) u then Inl (ErrMsg ''net/url: invalid control character in URL'')
      else case unescape False p of
        None \<Rightarrow> Inl (ErrMsg ''invalid URL escape'')
      | Some path \<Rightarrow>
          if unescape False frag = None then Inl (ErrMsg ''invalid URL escape'')
          else Inr (if valid_encoded p then p else escape_path path, q))"

text \<open>\<^verbatim>\<open>url.Values.Get\<close> on the parsed query: malformed settings are dropped.\<close>

definition query_settings :: "string \<Rightarrow> (string \<times> string) list" where
  "query_settings raw =
     concat (map (\<lambda>s.
       if s = [] \<or> CHR '';'' \<in> set s then []
       else let k = takeWhile (\<lambda>c. c \<noteq> CHR ''='') s; v = drop (Suc (length k)) s in
            (case (unescape True k, unescape True v) of (Some k, Some v) \<Rightarrow> [(k, v)] | _ \<Rightarrow> [])) (Split (CHR ''&'') raw))"

definition query_get :: "string \<Rightarrow> string \<Rightarrow> string" where
  "query_get raw name = (case map_of (query_settings raw) name of None \<Rightarrow> [] | Some v \<Rightarrow> v)"

section \<open>Bodies\<close>

text \<open>What the handlers and the client use of \<^verbatim>\<open>encoding/json\<close> beyond trees: the text of a number, a number
  read into an \<^verbatim>\<open>int\<close> and the number an \<^verbatim>\<open>int\<close> is written as; and the text of an error, of which the development keeps the constant part only.\<close>

record http_libs =
  hlErrText :: "goerr \<Rightarrow> string"
  hlNumText :: "u64 \<Rightarrow> string"
  hlIntNum :: "u64 \<Rightarrow> int option"
  hlNumOf :: "int \<Rightarrow> u64"
  hlSprint :: "any \<Rightarrow> string"

definition map_field :: "string \<Rightarrow> (string \<times> json) list \<Rightarrow> (string \<times> any) list option" where
  "map_field k kvs =
     (case map_of (rev kvs) k of
        None \<Rightarrow> Some [] | Some JNull \<Rightarrow> Some [] | Some (JObj m) \<Rightarrow> Some (map (\<lambda>(k, v). (k, any_of_json v)) m) | Some _ \<Rightarrow> None)"

definition version_field :: "(string \<times> json) list \<Rightarrow> version option option" where
  "version_field kvs =
     (case map_of (rev kvs) ''version'' of
        None \<Rightarrow> Some None
      | Some JNull \<Rightarrow> Some None
      | Some (JObj m) \<Rightarrow>
          (case (string_field ''propose_version'' m, string_field ''old_version'' m) of
             (Some p, Some v) \<Rightarrow> Some (Some \<lparr>PromoteVersion = p, OldVersion = v\<rparr>)
           | _ \<Rightarrow> None)
      | Some _ \<Rightarrow> None)"

definition bad_json :: goerr where
  "bad_json = ErrMsg ''json: cannot unmarshal''"

fun decode_item :: "json \<Rightarrow> goerr + item" where
  "decode_item JNull = Inr \<lparr>itKey = [], itSK = [], itValue = [], itVersion = None\<rparr>"
| "decode_item (JObj kvs) =
     (case (string_field ''key'' kvs, string_field ''sk'' kvs, map_field ''value'' kvs, version_field kvs) of
        (Some k, Some s, Some v, Some ver) \<Rightarrow> Inr \<lparr>itKey = k, itSK = s, itValue = v, itVersion = ver\<rparr>
      | _ \<Rightarrow> Inl bad_json)"
| "decode_item j = Inl bad_json"

fun decode_delete :: "json \<Rightarrow> goerr + delete_item" where
  "decode_delete JNull = Inr \<lparr>dKey = [], dVersion = None\<rparr>"
| "decode_delete (JObj kvs) =
     (case (string_field ''key'' kvs, version_field kvs) of (Some k, Some ver) \<Rightarrow> Inr \<lparr>dKey = k, dVersion = ver\<rparr> | _ \<Rightarrow> Inl bad_json)"
| "decode_delete j = Inl bad_json"

fun decode_create :: "http_libs \<Rightarrow> json \<Rightarrow> goerr + create_table_input" where
  "decode_create L JNull = Inr \<lparr>ciTableName = [], ciRaftMinAcks = 0\<rparr>"
| "decode_create L (JObj kvs) =
     (case (string_field ''table_name'' kvs,
            case map_of (rev kvs) ''raft_min_acks'' of None \<Rightarrow> Some 0 | Some JNull \<Rightarrow> Some 0 | Some (JNum f) \<Rightarrow> hlIntNum L f | Some _ \<Rightarrow> None) of
        (Some t, Some n) \<Rightarrow> Inr \<lparr>ciTableName = t, ciRaftMinAcks = n\<rparr>
      | _ \<Rightarrow> Inl bad_json)"
| "decode_create L j = Inl bad_json"

fun decode_list :: "(json \<Rightarrow> goerr + 'a) \<Rightarrow> json \<Rightarrow> goerr + 'a list" where
  "decode_list f JNull = Inr []"
| "decode_list f (JArr xs) =
     (case those (map (\<lambda>x. case f x of Inl _ \<Rightarrow> None | Inr y \<Rightarrow> Some y) xs) of None \<Rightarrow> Inl bad_json | Some ys \<Rightarrow> Inr ys)"
| "decode_list f j = Inl bad_json"

text \<open>A decoder on an empty body reports the end of the input.\<close>

definition decode_body :: "(json \<Rightarrow> goerr + 'a) \<Rightarrow> json option \<Rightarrow> goerr + 'a" where
  "decode_body f body = (case body of None \<Rightarrow> Inl (ErrIO ''EOF'') | Some j \<Rightarrow> f j)"

definition entity_json :: "string \<Rightarrow> entity \<Rightarrow> json option" where
  "entity_json t e =
     (case json_of_any (iValue e) of
        None \<Rightarrow> None
      | Some j \<Rightarrow> Some (JObj ([(''table_name'', JStr t), (''key'', JStr (iKey e))] @ (if iSK e = [] then [] else [(''sk'', JStr (iSK e))])
          @ [(''value'', j)] @ (if iVersion e = [] then [] else [(''version'', JStr (iVersion e))]))))"

text \<open>The keys of a Go map come out sorted, the fields of a struct in their order.  An encoder that fails has written
  nothing.\<close>

fun body_json :: "http_libs \<Rightarrow> resp_body \<Rightarrow> json option" where
  "body_json L (BodyErr e) = Some (JObj [(''error'', JStr (hlErrText L e))])"
| "body_json L (BodyFields fe) = Some (JObj [(''details'', JArr (map JStr fe)), (''error'', JStr (join_with (CHR 0x0A) fe))])"
| "body_json L (BodyPropose e) =
     Some (JObj [(''error'', JStr (hlErrText L (epErr e))), (''leader'', JStr (epLeader e)), (''state'', JStr (epState e))])"
| "body_json L BodyOk = Some (JObj [(''ok'', JBool True)])"
| "body_json L (BodyTable t) = Some (JObj [(''table_name'', JStr t)])"
| "body_json L (BodyEntity t e) = entity_json t e"
| "body_json L (BodyEntities t es) = map_option JArr (those (map (entity_json t) es))"
| "body_json L (BodyState st) =
     Some (JObj ([(''ID'', JStr (stID st)), (''Role'', JStr (stRole st))] @ (if stLeaderID st = [] then [] else [(''LeaderID'', JStr (stLeaderID st))])
       @ map (\<lambda>(k, n). (k, JNum (hlNumOf L n)))
           [(''Term'', stTerm st), (''CommitIndex'', stCommitIndex st), (''LogLen'', stLogLen st),
            (''MajorityRepMinAcks'', stMajorityRepMinAcks st), (''EffectiveRepMinAcks'', stEffectiveRepMinAcks st)]))"

text \<open>\<^verbatim>\<open>FieldError.Json\<close>: a struct, whose fields keep their order; a list without messages is nil.\<close>

definition FieldError_Json :: "string list \<Rightarrow> json" where
  "FieldError_Json errs = JObj [(''error'', JStr (join_with (CHR 0x0A) errs)), (''details'', if errs = [] then JNull else JArr (map JStr errs))]"

text \<open>The text of a document as \<^verbatim>\<open>json.Encoder\<close> writes it; bytes from 0x80 on are taken to be valid UTF-8.\<close>

definition quote_char :: "char \<Rightarrow> string" where
  "quote_char c =
     (let n = of_char c :: nat in
      if c = CHR 0x22 \<or> c = CHR 0x5C then [CHR 0x5C, c]
      else if n = 8 then [CHR 0x5C, CHR ''b''] else if n = 9 then [CHR 0x5C, CHR ''t''] else if n = 10 then [CHR 0x5C, CHR ''n'']
      else if n = 12 then [CHR 0x5C, CHR ''f''] else if n = 13 then [CHR 0x5C, CHR ''r'']
      else if n < 32 \<or> c \<in> set ''<>&'' then [CHR 0x5C, CHR ''u'', CHR ''0'', CHR ''0'', hex_lower (n div 16), hex_lower (n mod 16)]
      else [c])"

definition quote :: "string \<Rightarrow> string" where
  "quote s = [CHR 0x22] @ concat (map quote_char s) @ [CHR 0x22]"

fun json_text :: "http_libs \<Rightarrow> json \<Rightarrow> string" where
  "json_text L JNull = ''null''"
| "json_text L (JBool b) = (if b then ''true'' else ''false'')"
| "json_text L (JNum f) = hlNumText L f"
| "json_text L (JStr s) = quote s"
| "json_text L (JArr xs) = ''['' @ join_with (CHR '','') (map (json_text L) xs) @ '']''"
| "json_text L (JObj kvs) = ''{'' @ join_with (CHR '','') (map (\<lambda>(k, v). quote k @ '':'' @ json_text L v) kvs) @ ''}''"

section \<open>Routes\<close>

datatype route =
    RPing | RState | RCreate
  | RPut string | RBulkPut string | RBulkDel string | RDelete string
  | RGet string string | RGetBySk string

text \<open>A wildcard matches one segment, which is not empty.\<close>

fun route_of :: "meth \<Rightarrow> string list \<Rightarrow> route option" where
  "route_of m [s] =
     (if m = MGet \<and> s = ''ping'' then Some RPing
      else if m = MGet \<and> s = ''state'' then Some RState
      else if m = MPost \<and> s = ''table'' then Some RCreate else None)"
| "route_of m [s, t] =
     (if s \<noteq> ''table'' \<or> t = [] then None
      else case m of MPut \<Rightarrow> Some (RPut t) | MDelete \<Rightarrow> Some (RDelete t) | MGet \<Rightarrow> Some (RGetBySk t) | MPost \<Rightarrow> None)"
| "route_of m [s, t, k] = (if s = ''table'' \<and> t \<noteq> [] \<and> k \<noteq> [] \<and> m = MGet then Some (RGet t k) else None)"
| "route_of m [s, t, op, b] =
     (if s \<noteq> ''table'' \<or> t = [] \<or> op \<noteq> ''operation'' \<or> b \<noteq> ''bulk'' then None
      else case m of MPut \<Rightarrow> Some (RBulkPut t) | MDelete \<Rightarrow> Some (RBulkDel t) | _ \<Rightarrow> None)"
| "route_of m segs = None"

definition path_values :: "(string \<times> string) list \<Rightarrow> string \<Rightarrow> string" where
  "path_values ps n = (case map_of ps n of None \<Rightarrow> [] | Some v \<Rightarrow> v)"

definition handle ::
  "http_libs \<Rightarrow> 'x adapter_cfg \<Rightarrow> ('x server \<Rightarrow> 'x server) \<Rightarrow> route \<Rightarrow> (string \<Rightarrow> string) \<Rightarrow> json option \<Rightarrow> 'x server \<Rightarrow> response \<times> 'x server"
where
  "handle L g mw rt q body sv =
     (let req = (\<lambda>ps. \<lparr>PathValue = path_values ps, QueryGet = q\<rparr>) in
      case rt of
        RPing \<Rightarrow> (PingHandler, sv)
      | RState \<Rightarrow> (StateHandler (svNode sv), sv)
      | RCreate \<Rightarrow> CreateTableHandler g mw (decode_body (decode_create L) body) sv
      | RPut t \<Rightarrow> PutHandler g mw (req [(''tableName'', t)]) (decode_body decode_item body) sv
      | RBulkPut t \<Rightarrow> BulkPutHandle g mw (req [(''tableName'', t)]) (decode_body (decode_list decode_item) body) sv
      | RBulkDel t \<Rightarrow> BulkDelHandle g mw (req [(''tableName'', t)]) (decode_body (decode_list decode_delete) body) sv
      | RDelete t \<Rightarrow> DeleteHandler g mw (req [(''tableName'', t)]) (decode_body decode_delete body) sv
      | RGet t k \<Rightarrow> GetHandler (hlSprint L) g (req [(''tableName'', t), (''key'', k)]) sv
      | RGetBySk t \<Rightarrow> GetBySecondaryKeyHandler (hlSprint L) g (req [(''tableName'', t)]) sv)"

definition path_segments :: "string \<Rightarrow> string list" where
  "path_segments p = map (\<lambda>s. case unescape False s of None \<Rightarrow> s | Some u \<Rightarrow> u) (tl (Split (CHR ''/'') p))"

text \<open>The answer to a request whose path is clean: a status and a body.  An unknown path is answered 404, a known one with
  another method 405.\<close>

definition serve ::
  "http_libs \<Rightarrow> 'x adapter_cfg \<Rightarrow> ('x server \<Rightarrow> 'x server) \<Rightarrow> meth \<Rightarrow> string \<Rightarrow> string \<Rightarrow> json option \<Rightarrow> 'x server \<Rightarrow>
   (int \<times> json option) \<times> 'x server"
where
  "serve L g mw m p rawq body sv =
     (case route_of m (path_segments p) of
        None \<Rightarrow> ((if list_ex (\<lambda>m'. route_of m' (path_segments p) \<noteq> None) [MGet, MPut, MPost, MDelete] then 405 else 404, None), sv)
      | Some rt \<Rightarrow>
          (case handle L g mw rt (query_get rawq) body sv of
             (resp, sv) \<Rightarrow> (case HandlerHttp (Some resp) of (st, _, b) \<Rightarrow> ((st, Option.bind b (body_json L)), sv))))"

text \<open>\<^verbatim>\<open>http.ServeMux\<close> redirects a path that is not clean; a client follows with GET.\<close>

definition clean_url_path :: "string \<Rightarrow> string" where
  "clean_url_path p =
     (if p = [] then ''/''
      else let p = (if starts_with ''/'' p then p else CHR ''/'' # p); np = filepath_Clean p in
           if last p = CHR ''/'' \<and> np \<noteq> ''/'' then np @ ''/'' else np)"

datatype net = Delivered | NoConnection goerr | ReplyLost goerr

definition client_Do ::
  "http_libs \<Rightarrow> net \<Rightarrow> 'x adapter_cfg \<Rightarrow> ('x server \<Rightarrow> 'x server) \<Rightarrow> meth \<Rightarrow> string \<times> string \<Rightarrow> json option \<Rightarrow> 'x server \<Rightarrow>
   (goerr + int \<times> json option) \<times> 'x server"
where
  "client_Do L n g mw m req body sv =
     (let answer =
        (\<lambda>sv. if CHR '' '' \<in> set (snd req) then ((400, None), sv)
             else if clean_url_path (fst req) \<noteq> fst req
             then serve L g mw MGet (escape_path (clean_url_path (fst req))) (snd req) None sv
             else serve L g mw m (fst req) (snd req) body sv) in
      case n of
        Delivered \<Rightarrow> (case answer sv of (r, sv) \<Rightarrow> (Inr r, sv))
      | NoConnection err \<Rightarrow> (Inl err, sv)
      | ReplyLost err \<Rightarrow> (case answer sv of (r, sv) \<Rightarrow> (Inl err, sv)))"

section \<open>The log of requests\<close>

definition cleanHTTPPath :: "string \<Rightarrow> string" where
  "cleanHTTPPath p =
     (let p = TrimSpace p in
      if p = [] then ''/'' else let cp = filepath_Clean p in if cp = ''.'' then ''/'' else cp)"

text \<open>The options are lists of paths or nil.\<close>

definition WithSkipLogPaths :: "string list \<Rightarrow> string list \<Rightarrow> string list" where
  "WithSkipLogPaths paths skip = skip @ map cleanHTTPPath paths"

definition newRequestLatencyConfig :: "(string list \<Rightarrow> string list) option list \<Rightarrow> string list" where
  "newRequestLatencyConfig opts = fold (\<lambda>opt skip. case opt of None \<Rightarrow> skip | Some f \<Rightarrow> f skip) opts [cleanHTTPPath ''/ping'']"

record latency_line =
  llMethod :: meth
  llPath :: string
  llStatus :: int

text \<open>The handler below answers with the status codes it wrote; the last one is logged, 200 if there was none.\<close>

definition RequestLatency ::
  "(string list \<Rightarrow> string list) option list \<Rightarrow> (meth \<Rightarrow> string \<Rightarrow> 's \<Rightarrow> int list \<times> 's) \<Rightarrow> meth \<Rightarrow> string \<Rightarrow> 's \<times> latency_line list \<Rightarrow> int list \<times> 's \<times> latency_line list"
where
  "RequestLatency opts nxt m p x =
     (case x of (s, logged) \<Rightarrow>
        (case nxt m p s of (codes, s) \<Rightarrow>
           if cleanHTTPPath p \<in> set (newRequestLatencyConfig opts) then (codes, s, logged)
           else (codes, s, logged @ [\<lparr>llMethod = m, llPath = p, llStatus = (if codes = [] then 200 else last codes)\<rparr>])))"

end
