(* ===== verification/Sdk.thy ===== *)
theory Sdk
  imports Http
begin

text \<open>
  The client library \<^verbatim>\<open>src/SDK\<close> over the HTTP layer: its requests go to one server, and the network delivers
  an exchange, fails before the request arrives, or loses the reply.
\<close>

section \<open>Items\<close>

record sdk_item =
  siKey :: string
  siSK :: string
  siValue :: "(string \<times> any) list"
  siVersion :: string

record input_version =
  ivOld :: string
  ivPropose :: string

record input_item =
  inKey :: string
  inSk :: string
  inValue :: any
  inVersion :: "input_version option"

definition NewItem :: input_item where
  "NewItem = \<lparr>inKey = [], inSk = [], inValue = VNil, inVersion = None\<rparr>"

definition WithKey :: "string \<Rightarrow> input_item \<Rightarrow> input_item" where
  "WithKey key i = i\<lparr>inKey := key\<rparr>"

definition WithSk :: "string \<Rightarrow> input_item \<Rightarrow> input_item" where
  "WithSk sk i = i\<lparr>inSk := sk\<rparr>"

definition WithValue :: "any \<Rightarrow> input_item \<Rightarrow> input_item" where
  "WithValue value i = i\<lparr>inValue := value\<rparr>"

definition WithVersion :: "string \<Rightarrow> string \<Rightarrow> input_item \<Rightarrow> input_item" where
  "WithVersion dbV proposeV i = i\<lparr>inVersion := Some \<lparr>ivOld = dbV, ivPropose = proposeV\<rparr>\<rparr>"

definition Build :: "input_item \<Rightarrow> input_item" where
  "Build i = i"

text \<open>A value that JSON cannot carry gives no bytes at all: the error is dropped.\<close>

definition item_Json :: "input_item \<Rightarrow> json option" where
  "item_Json i =
     (case json_of_any (inValue i) of
        None \<Rightarrow> None
      | Some v \<Rightarrow>
          Some (JObj ([(''key'', JStr (inKey i)), (''sk'', JStr (inSk i)), (''value'', v)]
            @ (case inVersion i of
                 None \<Rightarrow> []
               | Some ver \<Rightarrow> [(''version'', JObj [(''old_version'', JStr (ivOld ver)), (''propose_version'', JStr (ivPropose ver))])]))))"

fun decode_sdk_item :: "json \<Rightarrow> goerr + sdk_item" where
  "decode_sdk_item JNull = Inr \<lparr>siKey = [], siSK = [], siValue = [], siVersion = []\<rparr>"
| "decode_sdk_item (JObj kvs) =
     (case (string_field ''key'' kvs, string_field ''sk'' kvs, map_field ''value'' kvs, string_field ''version'' kvs) of
        (Some k, Some s, Some v, Some ver) \<Rightarrow> Inr \<lparr>siKey = k, siSK = s, siValue = v, siVersion = ver\<rparr>
      | _ \<Rightarrow> Inl bad_json)"
| "decode_sdk_item j = Inl bad_json"

section \<open>Requests\<close>

text \<open>A table handle is its name, beside the server it is bound to.  A read body that is missing counts as empty.\<close>

definition GetOrCreateTable ::
  "http_libs \<Rightarrow> net \<Rightarrow> 'x adapter_cfg \<Rightarrow> ('x server \<Rightarrow> 'x server) \<Rightarrow> string \<Rightarrow> 'x server \<Rightarrow> (goerr + string) \<times> 'x server"
where
  "GetOrCreateTable L n g mw tableName sv =
     (case NewRequest ''/table'' of
        Inl err \<Rightarrow> (Inl (ErrWrap ''create table'' err), sv)
      | Inr req \<Rightarrow>
          (case client_Do L n g mw MPost req (Some (JObj [(''table_name'', JStr tableName)])) sv of
             (Inl err, sv) \<Rightarrow> (Inl (ErrWrap ''create table'' err), sv)
           | (Inr (st, b), sv) \<Rightarrow>
               if st \<in> {200, 201, 202} then (Inr tableName, sv)
               else if \<not> Contains (case b of None \<Rightarrow> [] | Some j \<Rightarrow> json_text L j) ''follower''
               then (Inl (ErrMsg ''create table: status''), sv)
               else (Inr tableName, sv)))"

definition sdk_Set ::
  "http_libs \<Rightarrow> net \<Rightarrow> 'x adapter_cfg \<Rightarrow> ('x server \<Rightarrow> 'x server) \<Rightarrow> string \<Rightarrow> input_item \<Rightarrow> 'x server \<Rightarrow> goerr option \<times> 'x server"
where
  "sdk_Set L n g mw name it sv =
     (let endpoint = ''/table/'' @ name;
          endpoint = (if inVersion it \<noteq> None then endpoint @ ''?operation=optimistic_lock'' else endpoint) in
      case NewRequest endpoint of
        Inl err \<Rightarrow> (Some (ErrWrap ''set: build request'' err), sv)
      | Inr req \<Rightarrow>
          (case client_Do L n g mw MPut req (item_Json it) sv of
             (Inl err, sv) \<Rightarrow> (Some (ErrWrap ''set'' err), sv)
           | (Inr (st, b), sv) \<Rightarrow> if st \<noteq> 200 then (Some (ErrMsg ''set: status''), sv) else (None, sv)))"

definition Find ::
  "http_libs \<Rightarrow> net \<Rightarrow> 'x adapter_cfg \<Rightarrow> ('x server \<Rightarrow> 'x server) \<Rightarrow> string \<Rightarrow> string \<Rightarrow> 'x server \<Rightarrow> (goerr + sdk_item) \<times> 'x server"
where
  "Find L n g mw name key sv =
     (case NewRequest (''/table/'' @ name @ ''/'' @ PathEscape key) of
        Inl err \<Rightarrow> (Inl (ErrWrap ''find: build request'' err), sv)
      | Inr req \<Rightarrow>
          (case client_Do L n g mw MGet req None sv of
             (Inl err, sv) \<Rightarrow> (Inl (ErrWrap ''find'' err), sv)
           | (Inr (st, b), sv) \<Rightarrow>
               if st \<noteq> 200 then (Inl (ErrMsg ''find: status''), sv)
               else case decode_body decode_sdk_item b of
                 Inl err \<Rightarrow> (Inl (ErrWrap ''find: decode'' err), sv)
               | Inr it \<Rightarrow> (Inr it, sv)))"

definition FindAll ::
  "http_libs \<Rightarrow> net \<Rightarrow> 'x adapter_cfg \<Rightarrow> ('x server \<Rightarrow> 'x server) \<Rightarrow> string \<Rightarrow> string \<Rightarrow> 'x server \<Rightarrow> (goerr + sdk_item list) \<times> 'x server"
where
  "FindAll L n g mw name sk sv =
     (case NewRequest (''/table/'' @ name @ ''?sk='' @ QueryEscape sk) of
        Inl err \<Rightarrow> (Inl (ErrWrap ''find all: build request'' err), sv)
      | Inr req \<Rightarrow>
          (case client_Do L n g mw MGet req None sv of
             (Inl err, sv) \<Rightarrow> (Inl (ErrWrap ''find all'' err), sv)
           | (Inr (st, b), sv) \<Rightarrow>
               if st \<noteq> 200 then (Inl (ErrMsg ''find all: status''), sv)
               else case decode_body (decode_list decode_sdk_item) b of
                 Inl err \<Rightarrow> (Inl (ErrWrap ''find all: decode'' err), sv)
               | Inr its \<Rightarrow> (Inr its, sv)))"

definition sdk_Del ::
  "http_libs \<Rightarrow> net \<Rightarrow> 'x adapter_cfg \<Rightarrow> ('x server \<Rightarrow> 'x server) \<Rightarrow> string \<Rightarrow> string \<Rightarrow> 'x server \<Rightarrow> goerr option \<times> 'x server"
where
  "sdk_Del L n g mw name key sv =
     (case NewRequest (''/table/'' @ name) of
        Inl err \<Rightarrow> (Some (ErrWrap ''del: build request'' err), sv)
      | Inr req \<Rightarrow>
          (case client_Do L n g mw MDelete req (Some (JObj [(''key'', JStr key)])) sv of
             (Inl err, sv) \<Rightarrow> (Some (ErrWrap ''del'' err), sv)
           | (Inr (st, b), sv) \<Rightarrow> if st \<noteq> 204 then (Some (ErrMsg ''del: status''), sv) else (None, sv)))"

end
