(* ===== verification/Url.thy ===== *)
theory Url
  imports Http Fsdb_Correct
begin

text \<open>
  Encoded requests reach their handlers: decoding undoes encoding, a well-encoded path is sent as it stands, and a
  path of plain segments is clean, so that \<^verbatim>\<open>http.ServeMux\<close> does not redirect it.
\<close>

section \<open>Encoding\<close>

lemma unescape_plain: "CHR ''%'' \<notin> set p \<Longrightarrow> unescape False (p @ r) = map_option ((@) p) (unescape False r)"
  by (induction p) (auto simp: option.map_comp comp_def append_Nil [abs_def] append_Cons [abs_def] option.map_ident)

lemma unescape_plain_id: "CHR ''%'' \<notin> set p \<Longrightarrow> unescape False p = Some p"
  using unescape_plain [of p "[]"] by simp

lemma hex_digit_ok: "n < 16 \<Longrightarrow> is_hex (hex_digit n) \<and> unhex (hex_digit n) = n"
  by (auto simp: is_hex_def unhex_def hex_digit_def Let_def of_char_of take_bit_eq_mod)

lemma unescape_escape_char:
  assumes "\<not> keep CHR ''%''" and "pl \<Longrightarrow> \<not> keep CHR ''+''"
  shows "unescape pl (escape_char keep pl c @ r) = map_option ((#) c) (unescape pl r)"
proof -
  have n: "(of_char c :: nat) < 256" by simp
  have h: "of_char c div 16 < (16 :: nat)" "of_char c mod 16 < (16 :: nat)" using n by (simp_all add: div_less_iff_less_mult)
  have c: "char_of (16 * (of_char c div 16) + of_char c mod 16 :: nat) = c" by (simp add: mult.commute)
  show ?thesis using assms hex_digit_ok [OF h(1)] hex_digit_ok [OF h(2)] c by (auto simp: escape_char_def)
qed

text \<open>Decoding undoes encoding, in a path and in a query.\<close>

lemma unescape_escape:
  assumes "\<not> keep CHR ''%''" and "pl \<Longrightarrow> \<not> keep CHR ''+''"
  shows "unescape pl (escape keep pl s @ r) = map_option ((@) s) (unescape pl r)"
  by (induction s) (simp_all add: escape_def unescape_escape_char [OF assms] option.map_comp comp_def option.map_ident)

lemma unescape_PathEscape: "unescape False (PathEscape s @ r) = map_option ((@) s) (unescape False r)"
  unfolding PathEscape_def by (rule unescape_escape) (simp_all add: unreserved_def Let_def)

lemma unescape_QueryEscape: "unescape True (QueryEscape s) = Some s"
  using unescape_escape [of unreserved True s "[]"] by (simp add: QueryEscape_def unreserved_def Let_def)

lemma PathEscape_back: "unescape False (PathEscape s) = Some s"
  using unescape_PathEscape [of s "[]"] by simp

lemma PathEscape_inj: "PathEscape s = PathEscape t \<longleftrightarrow> s = t"
  using PathEscape_back by (metis option.inject)

lemma hex_digit_unreserved: "n < 16 \<Longrightarrow> unreserved (hex_digit n)"
  by (auto simp: unreserved_def hex_digit_def Let_def of_char_of take_bit_eq_mod)

lemma escape_chars:
  assumes "c \<in> set (escape keep pl s)"
  shows "keep c \<or> unreserved c \<or> c = CHR ''%'' \<or> pl \<and> c = CHR ''+''"
proof -
  obtain x where x: "c \<in> set (escape_char keep pl x)" using assms by (auto simp: escape_def)
  have n: "(of_char x :: nat) < 256" by simp
  have h: "of_char x div 16 < (16 :: nat)" "of_char x mod 16 < (16 :: nat)" using n by (simp_all add: div_less_iff_less_mult)
  show ?thesis using x hex_digit_unreserved [OF h(1)] hex_digit_unreserved [OF h(2)]
    by (auto simp: escape_char_def split: if_splits)
qed

lemma unreserved_plain: "unreserved c \<Longrightarrow> c \<notin> {CHR ''%'', CHR ''/'', CHR ''#'', CHR ''?'', CHR '' '', CHR '';'', CHR ''&'', CHR ''=''}"
  by (auto simp: unreserved_def Let_def)

lemma unreserved_printable: "unreserved c \<Longrightarrow> \<not> (of_char c :: nat) < 32 \<and> c \<noteq> CHR 0x7F"
  by (auto simp: unreserved_def Let_def)

definition path_char :: "char \<Rightarrow> bool" where
  "path_char c \<longleftrightarrow> unreserved c \<or> c \<in> set ''$&+,/:;=@!()*[]%'' \<or> c = CHR 0x27"

lemma path_char_plain: "path_char c \<Longrightarrow> c \<noteq> CHR ''#'' \<and> c \<noteq> CHR ''?'' \<and> c \<noteq> CHR 0x7F"
  by (cases "c = CHR ''#'' \<or> c = CHR ''?'' \<or> c = CHR 0x7F") (auto simp: path_char_def unreserved_def)

lemma path_char_printable: "path_char c \<Longrightarrow> \<not> (of_char c :: nat) < 32"
  unfolding path_char_def by (elim disjE) (auto dest: unreserved_printable)

lemma valid_encoded_plain:
  assumes "valid_encoded p" and "c \<in> set p"
  shows "c \<noteq> CHR ''#''" "c \<noteq> CHR ''?''" "\<not> (of_char c :: nat) < 32" "c \<noteq> CHR 0x7F"
proof -
  have "path_char c" using assms unfolding valid_encoded_def list_all_iff path_char_def by (rule bspec)
  then show "c \<noteq> CHR ''#''" "c \<noteq> CHR ''?''" "\<not> (of_char c :: nat) < 32" "c \<noteq> CHR 0x7F"
    using path_char_plain path_char_printable by simp_all
qed

lemma PathEscape_chars: "c \<in> set (PathEscape s) \<Longrightarrow> unreserved c \<or> c \<in> set ''$&+=:@%''"
  unfolding PathEscape_def by (drule escape_chars) auto

lemma PathEscape_valid: "valid_encoded (PathEscape s)" "CHR ''/'' \<notin> set (PathEscape s)"
proof -
  show "valid_encoded (PathEscape s)"
    unfolding valid_encoded_def list_all_iff
  proof
    fix c
    assume "c \<in> set (PathEscape s)"
    from PathEscape_chars [OF this] show "unreserved c \<or> c \<in> set ''$&+,/:;=@!()*[]%'' \<or> c = CHR 0x27" by (elim disjE) auto
  qed
  have "\<not> unreserved CHR ''/''" by (simp add: unreserved_def)
  then show "CHR ''/'' \<notin> set (PathEscape s)" using PathEscape_chars [of "CHR ''/''" s] by auto
qed

section \<open>Requests and routes\<close>

text \<open>A request for a well-encoded path is sent as it stands.\<close>

lemma NewRequest_path:
  assumes "valid_encoded p" and "unescape False p = Some u"
  shows "NewRequest p = Inr (p, [])"
proof -
  note v = valid_encoded_plain [OF assms(1)]
  have "takeWhile (\<lambda>c. c \<noteq> CHR ''#'') p = p" "takeWhile (\<lambda>c. c \<noteq> CHR ''?'') p = p" using v by (auto simp: takeWhile_eq_all_conv)
  note a = this
  have "\<not> list_ex (\<lambda>c. (of_char c :: nat) < 32 \<or> c = CHR 0x7F) p" using v by (auto simp: list_ex_iff)
  then show ?thesis using assms unfolding NewRequest_def Let_def a by simp
qed

lemma NewRequest_query:
  assumes "valid_encoded p" and "unescape False p = Some u" and q: "list_all (\<lambda>c. c \<noteq> CHR ''#'' \<and> \<not> (of_char c :: nat) < 32 \<and> c \<noteq> CHR 0x7F) q"
  shows "NewRequest (p @ CHR ''?'' # q) = Inr (p, q)"
proof -
  note v = valid_encoded_plain [OF assms(1)]
  have "takeWhile (\<lambda>c. c \<noteq> CHR ''#'') (p @ CHR ''?'' # q) = p @ CHR ''?'' # q" using v q by (auto simp: takeWhile_eq_all_conv list_all_iff)
  note a = this
  have b: "takeWhile (\<lambda>c. c \<noteq> CHR ''?'') (p @ CHR ''?'' # q) = p" using v by (simp add: takeWhile_append2)
  have "\<not> list_ex (\<lambda>c. (of_char c :: nat) < 32 \<or> c = CHR 0x7F) (p @ CHR ''?'' # q)" using v q by (fastforce simp: list_ex_iff list_all_iff)
  then show ?thesis using assms(1,2) unfolding NewRequest_def Let_def a b by simp
qed

text \<open>Paths without empty and dot segments are clean.\<close>

lemma clean_parts_clean: "list_all simple ss \<Longrightarrow> clean_parts rooted acc ss = rev acc @ ss"
  by (induction ss arbitrary: acc) (auto simp: simple_def)

lemma Split_path: "ss \<noteq> [] \<Longrightarrow> list_all simple ss \<Longrightarrow> Split (CHR ''/'') (CHR ''/'' # join_with (CHR ''/'') ss) = [] # ss"
  by (simp add: Split_join list_all_iff simple_def)

lemma last_join: "ss \<noteq> [] \<Longrightarrow> list_all simple ss \<Longrightarrow> join_with (CHR ''/'') ss \<noteq> [] \<and> last (join_with (CHR ''/'') ss) \<in> set (last ss)"
  by (induction "CHR ''/''" ss rule: join_with.induct) (auto simp: simple_def)

lemma clean_path:
  assumes "ss \<noteq> []" and "list_all simple ss"
  shows "clean_url_path (CHR ''/'' # join_with (CHR ''/'') ss) = CHR ''/'' # join_with (CHR ''/'') ss"
proof -
  let ?p = "CHR ''/'' # join_with (CHR ''/'') ss"
  have "filepath_Clean ?p = ?p"
    using assms clean_parts_clean [OF assms(2), of True "[]"]
    by (simp add: filepath_Clean_def Let_def starts_with_def Split_path [OF assms] del: Split.simps)
  moreover have "last ?p \<noteq> CHR ''/''"
  proof -
    have "simple (last ss)" using assms by (simp add: list_all_iff)
    then show ?thesis using last_join [OF assms] by (auto simp: simple_def)
  qed
  ultimately show ?thesis by (simp add: clean_url_path_def Let_def starts_with_def)
qed

lemma path_segments_clean:
  assumes "ss \<noteq> []" and "list_all simple ss" and "list_all2 (\<lambda>s u. unescape False s = Some u) ss us"
  shows "path_segments (CHR ''/'' # join_with (CHR ''/'') ss) = us"
proof -
  have "path_segments (CHR ''/'' # join_with (CHR ''/'') ss) = map (\<lambda>s. case unescape False s of None \<Rightarrow> s | Some u \<Rightarrow> u) ss"
    unfolding path_segments_def Split_path [OF assms(1,2)] by simp
  also have "\<dots> = us" using assms(3) by (induction rule: list_all2_induct) auto
  finally show ?thesis .
qed

text \<open>The requests of a client that names a table of unreserved bytes.\<close>

definition plain_name :: "string \<Rightarrow> bool" where
  "plain_name t \<longleftrightarrow> simple t \<and> list_all unreserved t"

lemma plain_name_encoded:
  assumes "plain_name t"
  shows "valid_encoded t" "CHR ''%'' \<notin> set t"
proof -
  show "valid_encoded t" using assms by (auto simp: plain_name_def valid_encoded_def list_all_iff)
  show "CHR ''%'' \<notin> set t" using assms unreserved_plain [of "CHR ''%''"] by (auto simp: plain_name_def list_all_iff)
qed

lemma valid_encoded_append: "valid_encoded (p @ q) \<longleftrightarrow> valid_encoded p \<and> valid_encoded q"
  by (simp add: valid_encoded_def)

lemma table_prefix: "valid_encoded ''/table/''" "CHR ''%'' \<notin> set ''/table/''"
  by (simp_all add: valid_encoded_def unreserved_def)

lemma table_path:
  assumes "plain_name t"
  shows "valid_encoded (''/table/'' @ t)" "unescape False (''/table/'' @ t) = Some (''/table/'' @ t)"
    "clean_url_path (''/table/'' @ t) = ''/table/'' @ t" "path_segments (''/table/'' @ t) = [''table'', t]"
proof -
  note n = plain_name_encoded [OF assms]
  show "valid_encoded (''/table/'' @ t)" using n table_prefix by (simp only: valid_encoded_append)
  show "unescape False (''/table/'' @ t) = Some (''/table/'' @ t)" using n by (intro unescape_plain_id) simp
  have s: "list_all simple [''table'', t]" using assms by (simp add: plain_name_def simple_def)
  show "clean_url_path (''/table/'' @ t) = ''/table/'' @ t" using clean_path [OF _ s] by simp
  show "path_segments (''/table/'' @ t) = [''table'', t]"
    using path_segments_clean [OF _ s, of "[''table'', t]"] unescape_plain_id [OF n(2)] by (simp add: unescape_plain_id)
qed

lemma item_path:
  assumes "plain_name t" and "simple k"
  shows "valid_encoded (''/table/'' @ t @ ''/'' @ PathEscape k)"
    "unescape False (''/table/'' @ t @ ''/'' @ PathEscape k) = Some (''/table/'' @ t @ ''/'' @ k)"
    "clean_url_path (''/table/'' @ t @ ''/'' @ PathEscape k) = ''/table/'' @ t @ ''/'' @ PathEscape k"
    "path_segments (''/table/'' @ t @ ''/'' @ PathEscape k) = [''table'', t, k]"
proof -
  note n = plain_name_encoded [OF assms(1)]
  show "valid_encoded (''/table/'' @ t @ ''/'' @ PathEscape k)"
    using n table_prefix PathEscape_valid(1) [of k] by (simp only: valid_encoded_append) (simp add: valid_encoded_def)
  show "unescape False (''/table/'' @ t @ ''/'' @ PathEscape k) = Some (''/table/'' @ t @ ''/'' @ k)"
    using unescape_plain [of "''/table/'' @ t @ ''/''" "PathEscape k"] n by (simp add: PathEscape_back)
  have "PathEscape k \<notin> {[], ''.'', ''..''}"
    using PathEscape_back [of k] assms(2) by (auto simp: simple_def)
  then have s: "list_all simple [''table'', t, PathEscape k]"
    using assms PathEscape_valid(2) [of k] by (simp add: plain_name_def simple_def)
  show "clean_url_path (''/table/'' @ t @ ''/'' @ PathEscape k) = ''/table/'' @ t @ ''/'' @ PathEscape k"
    using clean_path [OF _ s] by simp
  show "path_segments (''/table/'' @ t @ ''/'' @ PathEscape k) = [''table'', t, k]"
    using path_segments_clean [OF _ s, of "[''table'', t, k]"] n PathEscape_back [of k] by (simp add: unescape_plain_id)
qed

lemma query_get_one:
  assumes "CHR ''&'' \<notin> set v" "CHR '';'' \<notin> set v" "unescape True v = Some w"
    and "k \<noteq> []" "CHR ''&'' \<notin> set k" "CHR '';'' \<notin> set k" "CHR ''='' \<notin> set k" "unescape True k = Some k"
  shows "query_get (k @ CHR ''='' # v) = (\<lambda>n. if n = k then w else [])"
proof -
  have t: "takeWhile (\<lambda>c. c \<noteq> CHR ''='') (k @ CHR ''='' # v) = k" using assms(7) by (subst takeWhile_append2) auto
  have s: "Split (CHR ''&'') (k @ CHR ''='' # v) = [k @ CHR ''='' # v]" using assms by (intro Split_single) auto
  show ?thesis using assms unfolding query_get_def query_settings_def s by (auto simp: t fun_eq_iff Let_def)
qed

lemma query_get_none: "query_get [] = (\<lambda>n. [])"
  by (simp add: query_get_def query_settings_def fun_eq_iff)

end
