(* ===== verification/Sdk_Properties.thy ===== *)
theory Sdk_Properties
  imports Sdk Url Replication_Properties
begin

text \<open>
  What a program that uses the client library sees: a table is a map from keys to items.
\<close>

section \<open>Bodies\<close>

definition server_item :: "input_item \<Rightarrow> item" where
  "server_item it = \<lparr>itKey = inKey it, itSK = inSk it, itValue = (case inValue it of VMapS kvs \<Rightarrow> kvs | _ \<Rightarrow> []),
     itVersion = map_option (\<lambda>v. \<lparr>PromoteVersion = ivPropose v, OldVersion = ivOld v\<rparr>) (inVersion it)\<rparr>"

lemma map_field_object:
  assumes "json_of_any (VMapS kvs) = Some j"
  shows "\<exists>m. j = JObj m \<and> map (\<lambda>(k, v). (k, any_of_json v)) m = kvs"
proof -
  obtain m where m: "j = JObj m" using assms by auto
  then show ?thesis using any_of_json_of_any [OF assms] by simp
qed

lemma item_body:
  assumes "inValue it = VMapS kvs" and "json_of_any (VMapS kvs) \<noteq> None"
  shows "decode_body decode_item (item_Json it) = Inr (server_item it)"
proof -
  obtain j where j: "json_of_any (VMapS kvs) = Some j" using assms(2) by blast
  obtain m where m: "j = JObj m" "map (\<lambda>(k, v). (k, any_of_json v)) m = kvs" using map_field_object [OF j] by blast
  show ?thesis
    using m unfolding item_Json_def assms(1) j
    by (cases "inVersion it") (simp_all add: assms(1) decode_body_def server_item_def string_field_def map_field_def version_field_def)
qed

text \<open>The item a client gets for an entity.\<close>

definition client_item :: "entity \<Rightarrow> sdk_item" where
  "client_item e = \<lparr>siKey = iKey e, siSK = iSK e, siValue = (case iValue e of VMapS kvs \<Rightarrow> kvs | _ \<Rightarrow> []), siVersion = iVersion e\<rparr>"

definition json_object :: "any \<Rightarrow> bool" where
  "json_object v \<longleftrightarrow> (\<exists>kvs. v = VMapS kvs) \<and> json_of_any v \<noteq> None"

lemma entity_body:
  assumes "json_object (iValue e)"
  shows "decode_body decode_sdk_item (body_json L (BodyEntity t e)) = Inr (client_item e)"
proof -
  obtain kvs j where v: "iValue e = VMapS kvs" "json_of_any (VMapS kvs) = Some j" using assms by (auto simp: json_object_def)
  obtain m where m: "j = JObj m" "map (\<lambda>(k, v). (k, any_of_json v)) m = kvs" using map_field_object [OF v(2)] by blast
  show ?thesis
    using m by (auto simp: entity_json_def v decode_body_def client_item_def string_field_def map_field_def simp del: json_of_any.simps)
qed

section \<open>Calls\<close>

definition put_request :: "string \<Rightarrow> bool \<Rightarrow> http_request" where
  "put_request t lock = \<lparr>PathValue = path_values [(''tableName'', t)],
     QueryGet = (\<lambda>n. if lock \<and> n = ''operation'' then ''optimistic_lock'' else [])\<rparr>"

lemma lock_query:
  "query_get ''operation=optimistic_lock'' = (\<lambda>n. if n = ''operation'' then ''optimistic_lock'' else [])"
  using query_get_one [of "''optimistic_lock''" "''optimistic_lock''" "''operation''"] by simp

lemma sdk_Set_answer:
  assumes "plain_name t"
    and h: "PutHandler g mw (put_request t (inVersion it \<noteq> None)) (decode_body decode_item (item_Json it)) sv = (resp, sv')"
  shows "sdk_Set L Delivered g mw t it sv = ((if statusCode resp \<in> {0, 200} then None else Some (ErrMsg ''set: status'')), sv')"
proof -
  let ?q = "if inVersion it \<noteq> None then ''operation=optimistic_lock'' else []"
  note p = table_path [OF assms(1)]
  have t: "t \<noteq> []" using assms(1) by (auto simp: plain_name_def simple_def)
  have r: "NewRequest (if inVersion it \<noteq> None then (''/table/'' @ t) @ ''?operation=optimistic_lock'' else ''/table/'' @ t) = Inr (''/table/'' @ t, ?q)"
    using NewRequest_path [OF p(1,2)] NewRequest_query [OF p(1,2), of "''operation=optimistic_lock''"] by auto
  have q: "query_get ?q = QueryGet (put_request t (inVersion it \<noteq> None))" by (simp add: put_request_def lock_query query_get_none)
  show ?thesis unfolding sdk_Set_def Let_def r
    using h q t p(3,4) by (simp add: client_Do_def serve_def handle_def put_request_def HandlerHttp_def split: if_splits)
qed

lemma sdk_Set_served:
  assumes "plain_name t" and "sdk_Set L Delivered g mw t it sv = (None, sv')"
  shows "\<exists>resp. PutHandler g mw (put_request t (inVersion it \<noteq> None)) (decode_body decode_item (item_Json it)) sv = (resp, sv')
    \<and> statusCode resp < 300"
proof -
  obtain resp sv1 where h: "PutHandler g mw (put_request t (inVersion it \<noteq> None)) (decode_body decode_item (item_Json it)) sv = (resp, sv1)"
    by (cases "PutHandler g mw (put_request t (inVersion it \<noteq> None)) (decode_body decode_item (item_Json it)) sv")
  then show ?thesis using sdk_Set_answer [OF assms(1) h, of L] assms(2) by (auto split: if_splits)
qed

lemma sdk_Del_served:
  assumes "plain_name t" and "sdk_Del L Delivered g mw t k sv = (None, sv')"
  shows "\<exists>resp. DeleteHandler g mw (put_request t False) (Inr \<lparr>dKey = k, dVersion = None\<rparr>) sv = (resp, sv') \<and> statusCode resp < 300"
proof -
  note p = table_path [OF assms(1)]
  have t: "t \<noteq> []" using assms(1) by (auto simp: plain_name_def simple_def)
  have b: "decode_body decode_delete (Some (JObj [(''key'', JStr k)])) = Inr \<lparr>dKey = k, dVersion = None\<rparr>"
    by (simp add: decode_body_def string_field_def version_field_def)
  obtain resp sv1 where h: "DeleteHandler g mw (put_request t False) (Inr \<lparr>dKey = k, dVersion = None\<rparr>) sv = (resp, sv1)"
    by (cases "DeleteHandler g mw (put_request t False) (Inr \<lparr>dKey = k, dVersion = None\<rparr>) sv")
  have "sdk_Del L Delivered g mw t k sv
      = (if (if statusCode resp \<noteq> 0 then statusCode resp else 200) \<noteq> 204 then (Some (ErrMsg ''del: status''), sv1) else (None, sv1))"
    unfolding sdk_Del_def NewRequest_path [OF p(1,2)]
    using h b t p(3,4) by (simp add: client_Do_def serve_def handle_def put_request_def query_get_none HandlerHttp_def split: if_splits)
  then show ?thesis using assms(2) h by (auto split: if_splits)
qed

lemma Find_served:
  assumes "plain_name t" and "simple k"
  shows "Find L Delivered g mw t k sv =
    (case ad_Get g t k (svDb sv) of
       (Inl err, db) \<Rightarrow> (Inl (ErrMsg ''find: status''), sv\<lparr>svDb := db\<rparr>)
     | (Inr e, db) \<Rightarrow>
         (case decode_body decode_sdk_item (body_json L (BodyEntity t (safe_response (hlSprint L) e))) of
            Inl err \<Rightarrow> (Inl (ErrWrap ''find: decode'' err), sv\<lparr>svDb := db\<rparr>) | Inr it \<Rightarrow> (Inr it, sv\<lparr>svDb := db\<rparr>)))"
proof -
  note p = item_path [OF assms]
  have n: "t \<noteq> []" "k \<noteq> []" using assms by (auto simp: plain_name_def simple_def)
  let ?r = "\<lparr>PathValue = path_values [(''tableName'', t), (''key'', k)], QueryGet = \<lambda>n. []\<rparr>"
  have d: "DecodeParams ?r get_fields = Inr [(''TableName'', PString t), (''Key'', PString k)]"
    using n by (simp add: get_fields_def assignPathOrQueryField_def path_values_def Let_def)
  have s: "getStatusCode err \<noteq> 0 \<and> getStatusCode err \<noteq> 200" for err using getStatusCode_range [of err] by auto
  obtain r db where g: "ad_Get g t k (svDb sv) = (r, db)" by (cases "ad_Get g t k (svDb sv)")
  have f: "fst (HandlerHttp (Some (failed err))) \<notin> {0, 200}" for err using s by (simp add: HandlerHttp_def)
  show ?thesis
    unfolding Find_def NewRequest_path [OF p(1,2)]
    using n d p(3,4) s g
    by (cases r) (simp_all add: client_Do_def serve_def handle_def query_get_none GetHandler_def get_string_def HandlerHttp_def NewResponse_def failed_def)
qed

section \<open>A table is a map\<close>

datatype sdk_call = CallSet input_item | CallDel string | CallFind string

datatype sdk_result = Done "goerr option" | Found "goerr + sdk_item"

fun sdk_exec :: "http_libs \<Rightarrow> 'x adapter_cfg \<Rightarrow> string \<Rightarrow> ('x server \<Rightarrow> 'x server) \<times> sdk_call \<Rightarrow> 'x server \<Rightarrow> sdk_result \<times> 'x server" where
  "sdk_exec L g t (mw, CallSet it) sv = map_prod Done id (sdk_Set L Delivered g mw t it sv)"
| "sdk_exec L g t (mw, CallDel k) sv = map_prod Done id (sdk_Del L Delivered g mw t k sv)"
| "sdk_exec L g t (mw, CallFind k) sv = map_prod Found id (Find L Delivered g mw t k sv)"

fun sdk_run :: "http_libs \<Rightarrow> 'x adapter_cfg \<Rightarrow> string \<Rightarrow> (('x server \<Rightarrow> 'x server) \<times> sdk_call) list \<Rightarrow> 'x server \<Rightarrow> sdk_result list \<times> 'x server" where
  "sdk_run L g t [] sv = ([], sv)"
| "sdk_run L g t (c # cs) sv = (case sdk_exec L g t c sv of (r, sv) \<Rightarrow> (case sdk_run L g t cs sv of (rs, sv) \<Rightarrow> (r # rs, sv)))"

text \<open>The abstract table.\<close>

definition stored_item :: "input_item \<Rightarrow> sdk_item" where
  "stored_item it = \<lparr>siKey = inKey it, siSK = inSk it, siValue = (case inValue it of VMapS kvs \<Rightarrow> kvs | _ \<Rightarrow> []),
     siVersion = (case inVersion it of None \<Rightarrow> [] | Some v \<Rightarrow> ivPropose v)\<rparr>"

fun map_exec :: "sdk_call \<Rightarrow> (string \<rightharpoonup> sdk_item) \<Rightarrow> sdk_result \<times> (string \<rightharpoonup> sdk_item)" where
  "map_exec (CallSet it) m = (Done None, m(inKey it \<mapsto> stored_item it))"
| "map_exec (CallDel k) m = (Done None, m(k := None))"
| "map_exec (CallFind k) m = (Found (case m k of None \<Rightarrow> Inl (ErrMsg ''find: status'') | Some i \<Rightarrow> Inr i), m)"

fun map_run :: "sdk_call list \<Rightarrow> (string \<rightharpoonup> sdk_item) \<Rightarrow> sdk_result list \<times> (string \<rightharpoonup> sdk_item)" where
  "map_run [] m = ([], m)"
| "map_run (c # cs) m = (case map_exec c m of (r, m) \<Rightarrow> (case map_run cs m of (rs, m) \<Rightarrow> (r # rs, m)))"

text \<open>What the table holds, as items of the client.\<close>

definition table_view :: "http_libs \<Rightarrow> string \<Rightarrow> fsdb batcher server \<Rightarrow> string \<rightharpoonup> sdk_item" where
  "table_view L t sv k = map_option client_item (wb_sel (hlSprint L) (aStore (svDb sv)) t k)"

definition objects_only :: "http_libs \<Rightarrow> string \<Rightarrow> fsdb batcher server \<Rightarrow> bool" where
  "objects_only L t sv \<longleftrightarrow> (\<forall>k e. wb_sel (hlSprint L) (aStore (svDb sv)) t k = Some e \<longrightarrow> json_object (iValue e))"

fun call_ok :: "sdk_call \<Rightarrow> bool" where
  "call_ok (CallSet it) \<longleftrightarrow> simple (inKey it) \<and> (inSk it = [] \<or> simple (inSk it)) \<and> json_object (inValue it)"
| "call_ok (CallDel k) \<longleftrightarrow> simple k"
| "call_ok (CallFind k) \<longleftrightarrow> simple k"

definition table_inv :: "http_libs \<Rightarrow> string \<Rightarrow> fsdb batcher server \<Rightarrow> bool" where
  "table_inv L t sv \<longleftrightarrow> ad.ad_inv (hlSprint L) t {} (svDb sv) \<and> objects_only L t sv"

lemma server_item_entity:
  assumes "call_ok (CallSet it)"
  shows "ok_entity sprint (item_Entity (server_item it))" "safe sprint (item_Entity (server_item it)) = item_Entity (server_item it)"
    "json_object (iValue (item_Entity (server_item it)))" "client_item (item_Entity (server_item it)) = stored_item it"
    "iKey (item_Entity (server_item it)) = inKey it"
proof -
  obtain kvs where v: "inValue it = VMapS kvs" "json_of_any (VMapS kvs) \<noteq> None" using assms by (auto simp: json_object_def)
  have e: "item_Entity (server_item it) = \<lparr>iKey = inKey it, iSK = inSk it, iValue = VMapS kvs, iVersion = (case inVersion it of None \<Rightarrow> [] | Some v \<Rightarrow> ivPropose v)\<rparr>"
    using v(1) by (simp add: item_Entity_def server_item_def Let_def split: option.split)
  show "ok_entity sprint (item_Entity (server_item it))" using assms v jsonSafe_id [OF v(2)] by (simp add: e ok_entity_def del: jsonSafeAny.simps json_of_any.simps)
  show "safe sprint (item_Entity (server_item it)) = item_Entity (server_item it)"
    using jsonSafe_id [OF v(2)] by (simp add: e safe_def del: jsonSafeAny.simps)
  show "json_object (iValue (item_Entity (server_item it)))" using v by (simp add: e json_object_def del: json_of_any.simps)
  show "client_item (item_Entity (server_item it)) = stored_item it" using v(1) by (simp add: e client_item_def stored_item_def)
  show "iKey (item_Entity (server_item it)) = inKey it" by (simp add: e)
qed

lemma set_refines:
  assumes i: "table_inv L t sv" and t: "plain_name t" and c: "call_ok (CallSet it)" and g: "cfgStore g = wb_store (hlSprint L) decode jl"
    and mw: "keeps_db mw" and s: "sdk_Set L Delivered g mw t it sv = (None, sv')"
  shows "table_inv L t sv' \<and> table_view L t sv' = (table_view L t sv)(inKey it \<mapsto> stored_item it)"
proof -
  let ?e = "item_Entity (server_item it)"
  note e = server_item_entity(1,2) [OF c, of "hlSprint L"] server_item_entity(3-5) [OF c]
  obtain kvs where v: "inValue it = VMapS kvs" "json_of_any (VMapS kvs) \<noteq> None" using c by (auto simp: json_object_def)
  obtain resp where p: "PutHandler g mw (put_request t (inVersion it \<noteq> None)) (Inr (server_item it)) sv = (resp, sv')" "statusCode resp < 300"
    using sdk_Set_served [OF t s] item_body [OF v] by auto
  obtain d where d: "accepted g mw d sv sv'" "carries (WPut (put_request t (inVersion it \<noteq> None)) (Inr (server_item it))) d"
    using PutHandler_write [OF p] by blast
  have x: "db_exec g d (svDb sv) = (None, svDb sv')" using d(1) mw by (auto simp: accepted_def keeps_db_def)
  have "db_exec g d = ad_Set g t (server_item it)"
    using d(2) by (cases "inVersion it") (auto simp: db_exec_def put_request_def lock_asked_def path_values_def server_item_def split: if_splits)
  then have "write_through ''db: wal set'' g t ?e (svDb sv) = (None, svDb sv')" using ad.ad_Set_unfold [of g t "server_item it"] x by auto
  from ad.write_through_inv [OF _ e(1) g this, of "{}"] i
  have "ad.ad_inv (hlSprint L) t {} (svDb sv')"
      "wb_sel (hlSprint L) (aStore (svDb sv')) = upd t (inKey it) (Some ?e) (wb_sel (hlSprint L) (aStore (svDb sv)))"
    by (simp_all add: table_inv_def e(2,5))
  then show ?thesis using i e(3,4) by (auto simp: table_inv_def objects_only_def table_view_def upd_apply fun_eq_iff)
qed

lemma del_refines:
  assumes i: "table_inv L t sv" and t: "plain_name t" and k: "simple k" and g: "cfgStore g = wb_store (hlSprint L) decode jl"
    and mw: "keeps_db mw" and s: "sdk_Del L Delivered g mw t k sv = (None, sv')"
  shows "table_inv L t sv' \<and> table_view L t sv' = (table_view L t sv)(k := None)"
proof -
  let ?d = "\<lparr>dKey = k, dVersion = None\<rparr>"
  obtain resp where p: "DeleteHandler g mw (put_request t False) (Inr ?d) sv = (resp, sv')" "statusCode resp < 300"
    using sdk_Del_served [OF t s] by auto
  obtain d where d: "accepted g mw d sv sv'" "carries (WDel (put_request t False) (Inr ?d)) d"
    using DeleteHandler_write [OF p] by blast
  have x: "db_exec g d (svDb sv) = (None, svDb sv')" using d(1) mw by (auto simp: accepted_def keeps_db_def)
  have "db_exec g d = ad_Delete g t ?d"
    using d(2) by (auto simp: db_exec_def put_request_def lock_asked_def path_values_def split: if_splits)
  then have "delete_through ''db: wal delete'' ''db: delete entity'' g t k (svDb sv) = (None, svDb sv')"
    using ad.ad_Delete_unfold [of g t ?d] x by auto
  from ad.delete_through_inv [OF _ k g this, of "{}"] i
  have "ad.ad_inv (hlSprint L) t {} (svDb sv')"
      "wb_sel (hlSprint L) (aStore (svDb sv')) = upd t k None (wb_sel (hlSprint L) (aStore (svDb sv)))"
    by (simp_all add: table_inv_def)
  then show ?thesis using i by (auto simp: table_inv_def objects_only_def table_view_def upd_apply fun_eq_iff split: if_splits)
qed

lemma find_refines:
  assumes i: "table_inv L t sv" and t: "plain_name t" and k: "simple k" and g: "cfgStore g = wb_store (hlSprint L) decode jl"
    and f: "Find L Delivered g mw t k sv = (r, sv')"
  shows "table_inv L t sv' \<and> table_view L t sv' = table_view L t sv
    \<and> r = (case table_view L t sv k of None \<Rightarrow> Inl (ErrMsg ''find: status'') | Some i \<Rightarrow> Inr i)"
proof -
  obtain x db where x: "ad_Get g t k (svDb sv) = (x, db)" by (cases "ad_Get g t k (svDb sv)")
  have ai: "ad.ad_inv (hlSprint L) t {} (svDb sv)" using i by (simp add: table_inv_def)
  note l = ad.ad_Get_inv [OF ai k g x]
  have sv': "sv' = sv\<lparr>svDb := db\<rparr>" using f x unfolding Find_served [OF t k] by (auto split: sum.splits)
  show ?thesis
  proof (cases "wb_sel (hlSprint L) (aStore (svDb sv)) t k")
    case None
    then show ?thesis using l f x i sv' unfolding Find_served [OF t k] by (auto simp: table_view_def table_inv_def objects_only_def fun_eq_iff)
  next
    case (Some e)
    then obtain v where v: "x = Inr v" "safe (hlSprint L) v = e" using l by auto
    have "json_object (iValue e)" using i Some by (auto simp: table_inv_def objects_only_def)
    from entity_body [OF this, of L t] have "r = Inr (client_item e)"
      using f x v unfolding Find_served [OF t k] by (simp add: safe_response_def safe_def)
    then show ?thesis using l i sv' Some by (auto simp: table_view_def table_inv_def objects_only_def fun_eq_iff)
  qed
qed

text \<open>C6. A client library sees a map: on an existing table whose name is a plain file name of unreserved URL characters, served by a leader over the batched file store,
  any sequence of Set, Del and Find calls whose requests are delivered and whose Sets and Dels reported no error returns
  what the same calls on a map from keys to items return, and leaves the table holding that map; in particular Find
  after Set gives the item back with its key, secondary key, value and version.  Keys and secondary keys are plain file
  names and values JSON objects, those already in the table too; nothing else changes the store between the calls; and
  before them the server may have run any calls on existing tables, but every key that was bulk put in this table, or
  put or read through another table, has since been set alone in this table or deleted.\<close>

theorem client_sees_a_map:
  assumes i: "ad_fresh (hlSprint L) a0" "t \<in> tables (inner (aStore a0))"
      "(ad_step g (\<lambda>b. tables (inner b)) simple (ok_entity (hlSprint L)) t)\<^sup>*\<^sup>* (a0, {}) (svDb sv, {})"
      "objects_only L t sv" "plain_name t" "cfgStore g = wb_store (hlSprint L) decode jl"
    and cs: "\<forall>(mw, c) \<in> set cs. keeps_db mw \<and> call_ok c" and run: "sdk_run L g t cs sv = (rs, sv')"
    and ok: "\<forall>err. Done (Some err) \<notin> set rs"
  shows "map_run (map snd cs) (table_view L t sv) = (rs, table_view L t sv')"
proof -
  have inv: "table_inv L t sv" using ad.ad_reach_inv [OF i(3,6) ad_fresh_inv [OF i(1,2)]] i(4) by (simp add: table_inv_def)
  show ?thesis using inv cs run ok
  proof (induction cs arbitrary: sv rs)
    case (Cons c cs)
    obtain mw a where c: "c = (mw, a)" by (cases c)
    obtain r sv1 rs1 where r: "sdk_exec L g t c sv = (r, sv1)" "sdk_run L g t cs sv1 = (rs1, sv')" "rs = r # rs1"
      using Cons.prems(3) by (auto split: prod.splits)
    have k: "keeps_db mw" "call_ok a" using Cons.prems(2) c by auto
    have no_err: "r \<noteq> Done (Some err)" for err using Cons.prems(4) r(3) by auto
    have "table_inv L t sv1 \<and> map_exec a (table_view L t sv) = (r, table_view L t sv1)"
    proof (cases a)
      case (CallSet it)
      then have "sdk_Set L Delivered g mw t it sv = (None, sv1)" "r = Done None"
        using r(1) no_err c by (cases "sdk_Set L Delivered g mw t it sv"; auto)+
      then show ?thesis using set_refines [OF Cons.prems(1) i(5) _ i(6) k(1)] k(2) CallSet by auto
    next
      case (CallDel key)
      then have "sdk_Del L Delivered g mw t key sv = (None, sv1)" "r = Done None"
        using r(1) no_err c by (cases "sdk_Del L Delivered g mw t key sv"; auto)+
      then show ?thesis using del_refines [OF Cons.prems(1) i(5) _ i(6) k(1)] k(2) CallDel by auto
    next
      case (CallFind key)
      then obtain x where "Find L Delivered g mw t key sv = (x, sv1)" "r = Found x"
        using r(1) c by (cases "Find L Delivered g mw t key sv") auto
      then show ?thesis using find_refines [OF Cons.prems(1) i(5) _ i(6)] k(2) CallFind by auto
    qed
    moreover have "map_run (map snd cs) (table_view L t sv1) = (rs1, table_view L t sv')"
      using Cons.IH [OF _ _ r(2)] calculation Cons.prems(2,4) r(3) by auto
    ultimately show ?case using c r(3) by simp
  qed simp
qed

section \<open>Witness\<close>

definition demo_http :: http_libs where
  "demo_http = \<lparr>hlErrText = (\<lambda>_. []), hlNumText = (\<lambda>_. []), hlIntNum = (\<lambda>_. None), hlNumOf = (\<lambda>_. 0), hlSprint = (\<lambda>_. [])\<rparr>"

definition demo_input :: input_item where
  "demo_input = Build (WithValue (VMapS [(''v'', VNil)]) (WithKey ''a'' NewItem))"

lemma demo_input_eq: "demo_input = \<lparr>inKey = ''a'', inSk = [], inValue = VMapS [(''v'', VNil)], inVersion = None\<rparr>"
  by (simp add: demo_input_def Build_def WithValue_def WithKey_def NewItem_def)

lemma demo_input_simps [simp]: "server_item demo_input = demo_item ''a'' None" "inVersion demo_input = None"
    "call_ok (CallSet demo_input)" "decode_body decode_item (item_Json demo_input) = Inr (demo_item ''a'' None)"
proof -
  show s: "server_item demo_input = demo_item ''a'' None" by (simp add: demo_input_eq server_item_def demo_item_def)
  show "decode_body decode_item (item_Json demo_input) = Inr (demo_item ''a'' None)"
    using item_body [of demo_input "[(''v'', VNil)]"] s by (simp add: demo_input_eq)
qed (simp_all add: demo_input_eq json_object_def simple_def)

theorem client_sees_a_map_witness:
  "\<exists>d sv'. CreateTable ''t'' (empty_db [''data'']) = (None, d)
     \<and> sdk_run demo_http demo_cfg ''t'' [(\<lambda>s. s, CallSet demo_input), (\<lambda>s. s, CallFind ''a''), (\<lambda>s. s, CallFind ''b'')] (demo_server d)
       = ([Done None, Found (Inr \<lparr>siKey = ''a'', siSK = [], siValue = [(''v'', VNil)], siVersion = []\<rparr>), Found (Inl (ErrMsg ''find: status''))], sv')"
proof -
  obtain d where d: "CreateTable ''t'' (empty_db [''data'']) = (None, d)" "''t'' \<in> tables d" "db_inv d"
      "\<And>t k. sel d t k = None" "\<And>bo. ad_fresh (\<lambda>_. []) (demo_ad d bo)" by (rule demo_ad_fresh) (rule that)
  let ?cs = "[(\<lambda>s. s, CallSet demo_input), (\<lambda>s. s, CallFind ''a''), (\<lambda>s. s, CallFind ''b'')]
    :: ((fsdb batcher server \<Rightarrow> fsdb batcher server) \<times> sdk_call) list" and ?sv = "demo_server d"
  have t: "''t'' \<in> tables (inner (aStore (demo_ad d demo_deferred)))" using d(2) by (simp add: demo_ad_def NewWriteBatcher_def)
  have n: "plain_name ''t''" by (simp add: plain_name_def simple_def unreserved_def)
  have e: "wb_sel (\<lambda>_. []) (aStore (demo_ad d demo_deferred)) t k = None" for t k using d(4) by (simp add: demo_ad_def NewWriteBatcher_def)
  obtain a1 where a1: "ad_Set demo_cfg ''t'' (demo_item ''a'' None) (demo_ad d demo_deferred) = (None, a1)"
    using demo_set [OF d(5,2,4), of None demo_deferred] by auto
  have pp: "plain_put (put_request ''t'' False) ''t'' (demo_item ''a'' None)" "QueryGet (put_request ''t'' False) ''raft_min_acks'' = []"
    by (simp_all add: plain_put_def put_request_def path_values_def demo_item_def item_Validate_def field_build_def)
  obtain sv1 where p: "PutHandler demo_cfg (\<lambda>s. s) (put_request ''t'' False) (Inr (demo_item ''a'' None)) ?sv = (NewResponse [StatusCode 200], sv1)"
    using plain_put_accepted [OF pp, of ?sv "\<lambda>s. s" a1 demo_cfg] a1 by auto
  have s: "sdk_Set demo_http Delivered demo_cfg (\<lambda>s. s) ''t'' demo_input ?sv = (None, sv1)"
    using sdk_Set_answer [OF n, of demo_cfg "\<lambda>s. s" demo_input ?sv _ sv1] p by simp
  obtain r2 sv2 where f2: "Find demo_http Delivered demo_cfg (\<lambda>s. s) ''t'' ''a'' sv1 = (r2, sv2)" by fastforce
  obtain r3 sv' where f3: "Find demo_http Delivered demo_cfg (\<lambda>s. s) ''t'' ''b'' sv2 = (r3, sv')" by fastforce
  have r: "sdk_run demo_http demo_cfg ''t'' ?cs ?sv = ([Done None, Found r2, Found r3], sv')" using s f2 f3 by simp
  have v: "table_view demo_http ''t'' ?sv = Map.empty" "objects_only demo_http ''t'' ?sv"
    using e by (simp_all add: table_view_def objects_only_def demo_http_def fun_eq_iff)
  have "map_run (map snd ?cs) (table_view demo_http ''t'' ?sv) = ([Done None, Found r2, Found r3], table_view demo_http ''t'' sv')"
    by (rule client_sees_a_map [OF _ t _ v(2) n _ _ r])
      (use d(5) in \<open>simp_all add: demo_http_def keeps_db_def simple_def demo_input_eq json_object_def\<close>)
  then show ?thesis using d(1) r v(1) by (simp add: stored_item_def demo_input_eq)
qed

end
