(* ===== verification/Events.thy ===== *)
theory Events
  imports Item
begin

text \<open>
  The in-memory queue of \<^verbatim>\<open>src/internal/events/queue.go\<close>: one pending payload per key, and a mutex per key that
  producers and the consumer fetch from a map, create when it is missing, and that the consumer removes with the
  payload.  A call is a goroutine whose steps are its accesses to the two maps and to the mutex; the steps of several
  goroutines interleave in any order.
\<close>

section \<open>The queue\<close>

datatype ev_op = EvPut | EvDel

record payload =
  plItem :: entity
  plOp :: ev_op

text \<open>Mutexes are named by their addresses, which are given out in turn.\<close>

record mem_queue =
  mqQueue :: "string \<rightharpoonup> payload"
  mqLocks :: "string \<rightharpoonup> nat"
  mqHeld :: "nat \<Rightarrow> bool"
  mqNext :: nat

definition NewMemQueue :: mem_queue where
  "NewMemQueue = \<lparr>mqQueue = Map.empty, mqLocks = Map.empty, mqHeld = (\<lambda>_. False), mqNext = 0\<rparr>"

text \<open>A producer stores a payload; the consumer visits the keys that \<^verbatim>\<open>Range\<close> reports, one after the other.\<close>

datatype job = Produce payload | Visit string

definition AsyncPut :: "entity \<Rightarrow> job" where
  "AsyncPut e = Produce \<lparr>plItem = e, plOp = EvPut\<rparr>"

definition AsyncDel :: "entity \<Rightarrow> job" where
  "AsyncDel e = Produce \<lparr>plItem = e, plOp = EvDel\<rparr>"

fun job_key :: "job \<Rightarrow> string" where
  "job_key (Produce p) = iKey (plItem p)"
| "job_key (Visit k) = k"

datatype ev_pc =
    Start | Fetching nat | Waiting nat | Inside nat | Handling nat payload | Deleting nat | Dropping nat | Leaving nat | Finished

text \<open>
  One access of a goroutine: its next position, the queue, and the payloads the callback took.  \<open>ans\<close> is what
  the callback answers if this step calls it; a step that has to wait is none.
\<close>

fun go_step :: "goerr option \<Rightarrow> job \<Rightarrow> ev_pc \<Rightarrow> mem_queue \<Rightarrow> (ev_pc \<times> mem_queue \<times> payload list) option" where
  "go_step ans j Start q =
     (case mqLocks q (job_key j) of
        Some m \<Rightarrow> Some (Waiting m, q, [])
      | None \<Rightarrow> Some (Fetching (mqNext q), q\<lparr>mqNext := Suc (mqNext q)\<rparr>, []))"
| "go_step ans j (Fetching m) q =
     (case mqLocks q (job_key j) of
        Some m' \<Rightarrow> Some (Waiting m', q, [])
      | None \<Rightarrow> Some (Waiting m, q\<lparr>mqLocks := (mqLocks q)(job_key j \<mapsto> m)\<rparr>, []))"
| "go_step ans j (Waiting m) q = (if mqHeld q m then None else Some (Inside m, q\<lparr>mqHeld := (mqHeld q)(m := True)\<rparr>, []))"
| "go_step ans j (Inside m) q =
     (case j of
        Produce p \<Rightarrow> Some (Leaving m, q\<lparr>mqQueue := (mqQueue q)(job_key j \<mapsto> p)\<rparr>, [])
      | Visit k \<Rightarrow> (case mqQueue q k of None \<Rightarrow> Some (Leaving m, q, []) | Some p \<Rightarrow> Some (Handling m p, q, [])))"
| "go_step ans j (Handling m p) q = (case ans of Some err \<Rightarrow> Some (Leaving m, q, []) | None \<Rightarrow> Some (Deleting m, q, [p]))"
| "go_step ans j (Deleting m) q = Some (Dropping m, q\<lparr>mqQueue := (mqQueue q)(job_key j := None)\<rparr>, [])"
| "go_step ans j (Dropping m) q = Some (Leaving m, q\<lparr>mqLocks := (mqLocks q)(job_key j := None)\<rparr>, [])"
| "go_step ans j (Leaving m) q = Some (Finished, q\<lparr>mqHeld := (mqHeld q)(m := False)\<rparr>, [])"
| "go_step ans j Finished q = None"

text \<open>Any interleaving: each step names the goroutine that runs.\<close>

fun interleave ::
  "(nat \<times> goerr option) list \<Rightarrow> (job \<times> ev_pc) list \<Rightarrow> mem_queue \<Rightarrow> ((job \<times> ev_pc) list \<times> mem_queue \<times> payload list) option"
where
  "interleave [] gs q = Some (gs, q, [])"
| "interleave ((i, ans) # sched) gs q =
     (if i < length gs then
        (case go_step ans (fst (gs ! i)) (snd (gs ! i)) q of
           None \<Rightarrow> None
         | Some (pc, q, out) \<Rightarrow> map_option (\<lambda>(gs, q, out'). (gs, q, out @ out')) (interleave sched (gs[i := (fst (gs ! i), pc)]) q))
      else None)"

text \<open>A goroutine that runs alone from its start to its end takes at most eight steps.\<close>

fun alone :: "nat \<Rightarrow> goerr option \<Rightarrow> job \<Rightarrow> ev_pc \<Rightarrow> mem_queue \<Rightarrow> (mem_queue \<times> payload list) option" where
  "alone 0 ans j pc q = None"
| "alone (Suc n) ans j pc q =
     (if pc = Finished then Some (q, [])
      else case go_step ans j pc q of
             None \<Rightarrow> None
           | Some (pc, q, out) \<Rightarrow> map_option (\<lambda>(q, out'). (q, out @ out')) (alone n ans j pc q))"

fun serial_run :: "(job \<times> goerr option) list \<Rightarrow> mem_queue \<Rightarrow> (mem_queue \<times> payload list) option" where
  "serial_run [] q = Some (q, [])"
| "serial_run ((j, ans) # js) q =
     (case alone 9 ans j Start q of
        None \<Rightarrow> None
      | Some (q, out) \<Rightarrow> map_option (\<lambda>(q, out'). (q, out @ out')) (serial_run js q))"

section \<open>One call at a time\<close>

text \<open>The abstract queue: a slot per key.\<close>

fun slot_step :: "job \<times> goerr option \<Rightarrow> (string \<rightharpoonup> payload) \<Rightarrow> (string \<rightharpoonup> payload) \<times> payload list" where
  "slot_step (Produce p, ans) s = (s(iKey (plItem p) \<mapsto> p), [])"
| "slot_step (Visit k, ans) s = (case (s k, ans) of (Some p, None) \<Rightarrow> (s(k := None), [p]) | _ \<Rightarrow> (s, []))"

fun slot_run :: "(job \<times> goerr option) list \<Rightarrow> (string \<rightharpoonup> payload) \<Rightarrow> (string \<rightharpoonup> payload) \<times> payload list" where
  "slot_run [] s = (s, [])"
| "slot_run (c # cs) s = (case slot_step c s of (s, out) \<Rightarrow> (case slot_run cs s of (s, out') \<Rightarrow> (s, out @ out')))"

text \<open>All mutexes are free, and those of the map have been given out.\<close>

definition quiet_queue :: "mem_queue \<Rightarrow> bool" where
  "quiet_queue q \<longleftrightarrow> (\<forall>m. \<not> mqHeld q m)"

lemma alone_slot:
  assumes "quiet_queue q"
  shows "\<exists>q' out. alone 9 ans j Start q = Some (q', out) \<and> quiet_queue q' \<and> slot_step (j, ans) (mqQueue q) = (mqQueue q', out)"
proof -
  have h: "mqHeld q m = False" for m using assms by (simp add: quiet_queue_def)
  show ?thesis
  proof (cases j)
    case (Produce p)
    then show ?thesis
      by (cases "mqLocks q (iKey (plItem p))") (simp_all add: eval_nat_numeral h quiet_queue_def)
  next
    case (Visit k)
    then show ?thesis
      by (cases "mqLocks q k"; cases "mqQueue q k"; cases ans) (simp_all add: eval_nat_numeral h quiet_queue_def)
  qed
qed

lemma serial_slot:
  assumes "quiet_queue q"
  shows "\<exists>q' out. serial_run js q = Some (q', out) \<and> quiet_queue q' \<and> slot_run js (mqQueue q) = (mqQueue q', out)"
  using assms
proof (induction js arbitrary: q)
  case (Cons c js)
  obtain j ans where c: "c = (j, ans)" by (cases c)
  obtain q1 o1 where s: "alone 9 ans j Start q = Some (q1, o1)" "quiet_queue q1" "slot_step (j, ans) (mqQueue q) = (mqQueue q1, o1)"
    using alone_slot [OF Cons.prems] by blast
  then show ?case using Cons.IH [OF s(2)] c by auto
qed simp

text \<open>The payloads stored under a key, in their order.\<close>

definition stores :: "string \<Rightarrow> (job \<times> goerr option) list \<Rightarrow> payload list" where
  "stores k js = concat (map (\<lambda>(j, ans). case j of Produce p \<Rightarrow> (if iKey (plItem p) = k then [p] else []) | Visit _ \<Rightarrow> []) js)"

lemma stores_Cons:
  "stores k ((j, ans) # js) = (case j of Produce p \<Rightarrow> (if iKey (plItem p) = k then [p] else []) | Visit _ \<Rightarrow> []) @ stores k js"
  by (simp add: stores_def)

lemma slot_keeps_last:
  assumes "slot_run js s = (s', out)"
  shows "(if stores k js = [] then s' k = s k \<or> s' k = None \<and> (\<exists>p. s k = Some p \<and> p \<in> set out)
     else s' k = Some (last (stores k js)) \<or> s' k = None \<and> last (stores k js) \<in> set out)"
  using assms
proof (induction js arbitrary: s out)
  case Nil
  then show ?case by (simp add: stores_def)
next
  case (Cons c js)
  obtain j ans where c: "c = (j, ans)" by (cases c)
  obtain s1 o1 o2 where r: "slot_step c s = (s1, o1)" "slot_run js s1 = (s', o2)" "out = o1 @ o2"
    using Cons.prems by (auto split: prod.splits)
  note IH = Cons.IH [OF r(2)]
  show ?case
  proof (cases j)
    case (Produce p)
    then show ?thesis using IH r(1,3) c by (auto simp: stores_Cons split: if_splits)
  next
    case (Visit k')
    then show ?thesis using IH r(1,3) c by (auto simp: stores_Cons split: if_splits option.splits)
  qed
qed

text \<open>C22. Calls that do not overlap lose nothing: however puts, deletes and visits of the consumer follow each other from
  an empty queue, and whatever the callback answers, no call blocks, and afterwards the payload stored last under a key
  is pending, or has been taken by the callback without an error and is no longer pending.\<close>

theorem serial_calls_lose_nothing:
  "\<exists>q out. serial_run js NewMemQueue = Some (q, out)
     \<and> (\<forall>k. if stores k js = [] then mqQueue q k = None
            else mqQueue q k = Some (last (stores k js)) \<or> mqQueue q k = None \<and> last (stores k js) \<in> set out)"
proof -
  obtain q out where s: "serial_run js NewMemQueue = Some (q, out)" "slot_run js Map.empty = (mqQueue q, out)"
    using serial_slot [of NewMemQueue js] by (auto simp: NewMemQueue_def quiet_queue_def)
  have "if stores k js = [] then mqQueue q k = None
      else mqQueue q k = Some (last (stores k js)) \<or> mqQueue q k = None \<and> last (stores k js) \<in> set out" for k
    using slot_keeps_last [OF s(2), of k] by (auto split: if_splits)
  then show ?thesis using s(1) by blast
qed

section \<open>Calls that overlap\<close>

text \<open>
  Overlapping calls can lose a payload.  A producer has fetched the mutex of a key but has not locked it yet; meanwhile the
  consumer takes an earlier payload of the key and removes the mutex from the map, and a further payload gets a new
  mutex.  While the callback handles that one, the first producer locks the old mutex and stores its payload, which the
  consumer then deletes without having seen it.
\<close>

definition late_schedule :: "nat list" where
  "late_schedule = [0, 0, 1, 1, 1, 1] @ replicate 7 2 @ [3, 3, 3, 3, 3] @ [4, 4, 4, 4] @ [0, 0, 0] @ [4, 4, 4]"

theorem late_store_is_lost:
  assumes "iKey (plItem p1) = k" "iKey (plItem p2) = k" "iKey (plItem p3) = k"
  shows "\<exists>gs q. interleave (map (\<lambda>i. (i, None)) late_schedule)
       (map (\<lambda>j. (j, Start)) [Produce p3, Produce p1, Visit k, Produce p2, Visit k]) NewMemQueue = Some (gs, q, [p1, p2])
     \<and> list_all (\<lambda>g. snd g = Finished) gs \<and> mqQueue q = Map.empty"
  using assms by (simp add: late_schedule_def NewMemQueue_def eval_nat_numeral)

end
