(* ===== verification/Mem_Cache.thy ===== *)
theory Mem_Cache
  imports Prelude
begin

text \<open>
  The cache of the example program (\<^verbatim>\<open>src/example/main.go\<close>): a map from keys to elements of a list, which is kept in
  the order of use and cut at its end.  Elements are objects of their own: the list holds their addresses, and the
  map points to them.  JSON is a pair of parameters.  The cache is shown to be a bounded list of pairs, the last used first.
\<close>

section \<open>The cache\<close>

record mem_kv =
  mkKey :: string
  mkValue :: bytes

record mem_cache =
  mcDb :: "string \<rightharpoonup> nat"
  mcElems :: "nat \<Rightarrow> mem_kv"
  mcQueue :: "nat list"
  mcMaxSize :: int
  mcNext :: nat

definition NewMemCache :: "int \<Rightarrow> mem_cache" where
  "NewMemCache maxItem =
     \<lparr>mcDb = Map.empty, mcElems = (\<lambda>_. \<lparr>mkKey = [], mkValue = []\<rparr>), mcQueue = [], mcMaxSize = maxItem, mcNext = 0\<rparr>"

definition MoveToFront :: "nat \<Rightarrow> nat list \<Rightarrow> nat list" where
  "MoveToFront a q = (if a \<in> set q then a # remove1 a q else q)"

definition mc_Get :: "(bytes \<Rightarrow> goerr + 'a) \<Rightarrow> string \<Rightarrow> mem_cache \<Rightarrow> (goerr + 'a) \<times> mem_cache" where
  "mc_Get unmarshal key mc =
     (case mcDb mc key of
        Some a \<Rightarrow> (unmarshal (mkValue (mcElems mc a)), mc\<lparr>mcQueue := MoveToFront a (mcQueue mc)\<rparr>)
      | None \<Rightarrow> (Inl (ErrMsg ''not found element''), mc))"

text \<open>The last element of an empty list is nil, and reading its value panics.  The lifetime is not used.\<close>

definition mc_make_room :: "mem_cache \<Rightarrow> goerr + mem_cache" where
  "mc_make_room mc =
     (if int (length (mcQueue mc)) \<noteq> mcMaxSize mc then Inr mc
      else if mcQueue mc = [] then Inl (GoPanic ''nil pointer dereference'')
      else Inr (mc\<lparr>mcDb := (mcDb mc)(mkKey (mcElems mc (last (mcQueue mc))) := None), mcQueue := butlast (mcQueue mc)\<rparr>))"

definition mc_push :: "string \<Rightarrow> bytes \<Rightarrow> mem_cache \<Rightarrow> mem_cache" where
  "mc_push key bv mc =
     (let a = mcNext mc in
      mc\<lparr>mcElems := (mcElems mc)(a := \<lparr>mkKey = key, mkValue = bv\<rparr>), mcQueue := a # mcQueue mc, mcDb := (mcDb mc)(key \<mapsto> a), mcNext := Suc a\<rparr>)"

definition mc_Set :: "('a \<Rightarrow> goerr + bytes) \<Rightarrow> string \<Rightarrow> 'a \<Rightarrow> int \<Rightarrow> mem_cache \<Rightarrow> goerr option \<times> mem_cache" where
  "mc_Set marshal key val ttl mc =
     (case marshal val of
        Inl err \<Rightarrow> (Some err, mc)
      | Inr bv \<Rightarrow>
          (case mcDb mc key of
             Some a \<Rightarrow> (None, mc\<lparr>mcQueue := MoveToFront a (mcQueue mc), mcElems := (mcElems mc)(a := (mcElems mc a)\<lparr>mkValue := bv\<rparr>)\<rparr>)
           | None \<Rightarrow>
               (case mc_make_room mc of Inl err \<Rightarrow> (Some err, mc) | Inr mc \<Rightarrow> (None, mc_push key bv mc))))"

section \<open>A bounded list of pairs\<close>

definition lru_touch :: "string \<Rightarrow> (string \<times> bytes) list \<Rightarrow> (string \<times> bytes) list" where
  "lru_touch k l = (case map_of l k of None \<Rightarrow> l | Some v \<Rightarrow> (k, v) # filter (\<lambda>p. fst p \<noteq> k) l)"

definition lru_put :: "nat \<Rightarrow> string \<Rightarrow> bytes \<Rightarrow> (string \<times> bytes) list \<Rightarrow> (string \<times> bytes) list" where
  "lru_put n k v l = take n ((k, v) # filter (\<lambda>p. fst p \<noteq> k) l)"

definition mc_view :: "mem_cache \<Rightarrow> (string \<times> bytes) list" where
  "mc_view mc = map (\<lambda>a. (mkKey (mcElems mc a), mkValue (mcElems mc a))) (mcQueue mc)"

text \<open>Every element of the list is the one its key points to, and the list is not longer than allowed.\<close>

definition mc_inv :: "mem_cache \<Rightarrow> bool" where
  "mc_inv mc \<longleftrightarrow> distinct (mcQueue mc) \<and> (\<forall>a\<in>set (mcQueue mc). a < mcNext mc \<and> mcDb mc (mkKey (mcElems mc a)) = Some a)
     \<and> (\<forall>k a. mcDb mc k = Some a \<longrightarrow> a \<in> set (mcQueue mc) \<and> mkKey (mcElems mc a) = k)
     \<and> int (length (mcQueue mc)) \<le> mcMaxSize mc \<and> 0 < mcMaxSize mc"

lemma mc_invD:
  assumes "mc_inv mc"
  shows "distinct (mcQueue mc)" "0 < mcMaxSize mc" "int (length (mcQueue mc)) \<le> mcMaxSize mc"
    "a \<in> set (mcQueue mc) \<Longrightarrow> a < mcNext mc" "a \<in> set (mcQueue mc) \<Longrightarrow> mcDb mc (mkKey (mcElems mc a)) = Some a"
    "mcDb mc k = Some a \<Longrightarrow> a \<in> set (mcQueue mc)" "mcDb mc k = Some a \<Longrightarrow> mkKey (mcElems mc a) = k"
proof -
  note c = assms [unfolded mc_inv_def]
  show "distinct (mcQueue mc)" using c by (rule conjunct1)
  show "0 < mcMaxSize mc" "int (length (mcQueue mc)) \<le> mcMaxSize mc" using c [THEN conjunct2, THEN conjunct2, THEN conjunct2] by simp_all
  show "a < mcNext mc" "mcDb mc (mkKey (mcElems mc a)) = Some a" if "a \<in> set (mcQueue mc)"
    using c [THEN conjunct2, THEN conjunct1] that by blast+
  show "a \<in> set (mcQueue mc)" "mkKey (mcElems mc a) = k" if "mcDb mc k = Some a"
    using c [THEN conjunct2, THEN conjunct2, THEN conjunct1] that by blast+
qed

lemma mc_key_inj:
  assumes "mc_inv mc" and "a \<in> set (mcQueue mc)" and "b \<in> set (mcQueue mc)" and "mkKey (mcElems mc a) = mkKey (mcElems mc b)"
  shows "a = b"
  using mc_invD(5) [OF assms(1,2)] mc_invD(5) [OF assms(1,3)] assms(4) by (metis option.inject)

lemma mc_invI:
  assumes "distinct (mcQueue mc)" and "0 < mcMaxSize mc" and "int (length (mcQueue mc)) \<le> mcMaxSize mc"
    and "\<And>a. a \<in> set (mcQueue mc) \<Longrightarrow> a < mcNext mc \<and> mcDb mc (mkKey (mcElems mc a)) = Some a"
    and "\<And>k a. mcDb mc k = Some a \<Longrightarrow> a \<in> set (mcQueue mc) \<and> mkKey (mcElems mc a) = k"
  shows "mc_inv mc"
  using assms unfolding mc_inv_def by blast

lemma mc_keys_distinct:
  assumes "mc_inv mc"
  shows "distinct (map fst (mc_view mc))"
proof -
  have "inj_on (\<lambda>a. mkKey (mcElems mc a)) (set (mcQueue mc))" by (rule inj_onI) (rule mc_key_inj [OF assms])
  then show ?thesis using mc_invD(1) [OF assms] by (simp add: mc_view_def comp_def distinct_map)
qed

lemma mc_lookup:
  assumes "mc_inv mc"
  shows "map_of (mc_view mc) k = map_option (\<lambda>a. mkValue (mcElems mc a)) (mcDb mc k)"
proof (cases "mcDb mc k")
  case None
  have "mkKey (mcElems mc a) \<noteq> k" if "a \<in> set (mcQueue mc)" for a using mc_invD(5) [OF assms that] None by auto
  then have "k \<notin> fst ` set (mc_view mc)" unfolding mc_view_def by fastforce
  then show ?thesis using None by (simp add: map_of_eq_None_iff)
next
  case (Some a)
  then have "(k, mkValue (mcElems mc a)) \<in> set (mc_view mc)"
    using mc_invD(6,7) [OF assms Some] unfolding mc_view_def by (auto intro: rev_image_eqI)
  then show ?thesis using Some mc_keys_distinct [OF assms] by simp
qed

lemma view_others:
  assumes i: "mc_inv mc" and k: "mcDb mc k = Some a"
  shows "map (\<lambda>b. (mkKey (mcElems mc b), mkValue (mcElems mc b))) (remove1 a (mcQueue mc)) = filter (\<lambda>p. fst p \<noteq> k) (mc_view mc)"
proof -
  note a = mc_invD(6,7) [OF i k]
  have "mkKey (mcElems mc b) \<noteq> k \<longleftrightarrow> b \<noteq> a" if "b \<in> set (mcQueue mc)" for b using mc_key_inj [OF i that a(1)] a(2) by auto
  then have "filter (\<lambda>b. mkKey (mcElems mc b) \<noteq> k) (mcQueue mc) = filter (\<lambda>b. b \<noteq> a) (mcQueue mc)" by (intro filter_cong) simp_all
  moreover have "remove1 a (mcQueue mc) = filter (\<lambda>b. b \<noteq> a) (mcQueue mc)"
    by (simp add: distinct_remove1_removeAll [OF mc_invD(1) [OF i]] removeAll_filter_not_eq eq_commute)
  ultimately show ?thesis by (simp add: mc_view_def filter_map comp_def)
qed

text \<open>Moving an element to the front and changing the values of elements keep the invariant.\<close>

lemma mc_inv_front:
  assumes i: "mc_inv mc" and a: "a \<in> set (mcQueue mc)" and e: "\<And>b. mkKey (es b) = mkKey (mcElems mc b)"
  shows "mc_inv (mc\<lparr>mcQueue := a # remove1 a (mcQueue mc), mcElems := es\<rparr>)"
proof -
  have q: "set (a # remove1 a (mcQueue mc)) = set (mcQueue mc)" "distinct (a # remove1 a (mcQueue mc))" "length (a # remove1 a (mcQueue mc)) = length (mcQueue mc)"
    using a mc_invD(1) [OF i] length_pos_if_in_set [OF a] by (auto simp: set_remove1_eq length_remove1)
  note inv = mc_invD [OF i]
  let ?mc = "mc\<lparr>mcQueue := a # remove1 a (mcQueue mc), mcElems := es\<rparr>"
  have f: "mcQueue ?mc = a # remove1 a (mcQueue mc)" "mcElems ?mc = es" "mcDb ?mc = mcDb mc" "mcNext ?mc = mcNext mc" "mcMaxSize ?mc = mcMaxSize mc"
    by simp_all
  show ?thesis by (rule mc_invI, unfold f q(1,3) e) (use q(2) inv in \<open>blast+\<close>)
qed

lemma mc_get_law:
  assumes i: "mc_inv mc" and g: "mc_Get unmarshal k mc = (r, mc')"
  shows "mc_inv mc' \<and> mcMaxSize mc' = mcMaxSize mc \<and> mc_view mc' = lru_touch k (mc_view mc)
    \<and> r = (case map_of (mc_view mc) k of None \<Rightarrow> Inl (ErrMsg ''not found element'') | Some b \<Rightarrow> unmarshal b)"
proof (cases "mcDb mc k")
  case None
  then show ?thesis using i g mc_lookup [OF i, of k] by (simp add: mc_Get_def lru_touch_def)
next
  case (Some a)
  note a = mc_invD(6,7) [OF i Some]
  have mc': "mc' = mc\<lparr>mcQueue := a # remove1 a (mcQueue mc)\<rparr>" "r = unmarshal (mkValue (mcElems mc a))"
    using g Some a(1) by (simp_all add: mc_Get_def MoveToFront_def)
  have "mc_inv mc'" using mc_inv_front [OF i a(1), of "mcElems mc"] mc'(1) by simp
  moreover have "mc_view mc' = (k, mkValue (mcElems mc a)) # filter (\<lambda>p. fst p \<noteq> k) (mc_view mc)"
    using view_others [OF i Some] a(2) by (simp add: mc'(1) mc_view_def)
  ultimately show ?thesis using mc' mc_lookup [OF i, of k] Some by (simp add: lru_touch_def)
qed

lemma mc_set_hit:
  assumes i: "mc_inv mc" and k: "mcDb mc k = Some a" and m: "marshal v = Inr b"
  shows "\<exists>mc'. mc_Set marshal k v ttl mc = (None, mc') \<and> mc_inv mc' \<and> mcMaxSize mc' = mcMaxSize mc \<and> mc_view mc' = (k, b) # filter (\<lambda>p. fst p \<noteq> k) (mc_view mc)"
proof -
  note a = mc_invD(6,7) [OF i k]
  let ?es = "(mcElems mc)(a := (mcElems mc a)\<lparr>mkValue := b\<rparr>)"
  let ?mc = "mc\<lparr>mcQueue := a # remove1 a (mcQueue mc), mcElems := ?es\<rparr>"
  have "mc_inv ?mc" by (rule mc_inv_front [OF i a(1)]) simp
  moreover have "map (\<lambda>x. (mkKey (?es x), mkValue (?es x))) (remove1 a (mcQueue mc))
      = map (\<lambda>x. (mkKey (mcElems mc x), mkValue (mcElems mc x))) (remove1 a (mcQueue mc))"
    using mc_invD(1) [OF i] by (intro map_cong) auto
  then have "mc_view ?mc = (k, b) # filter (\<lambda>p. fst p \<noteq> k) (mc_view mc)"
    using view_others [OF i k] a(2) by (simp add: mc_view_def [of ?mc])
  moreover have "mc_Set marshal k v ttl mc = (None, ?mc)" using k m a(1) by (simp add: mc_Set_def MoveToFront_def)
  ultimately show ?thesis by auto
qed

lemma mc_room:
  assumes i: "mc_inv mc"
  shows "\<exists>m. mc_make_room mc = Inr m \<and> mc_inv m \<and> int (length (mcQueue m)) < mcMaxSize mc \<and> mcMaxSize m = mcMaxSize mc
    \<and> mc_view m = take (nat (mcMaxSize mc) - 1) (mc_view mc) \<and> (\<forall>k. mcDb mc k = None \<longrightarrow> mcDb m k = None)"
proof (cases "int (length (mcQueue mc)) = mcMaxSize mc")
  case False
  then show ?thesis using i mc_invD(3) [OF i] by (simp add: mc_make_room_def mc_view_def)
next
  case True
  let ?q = "butlast (mcQueue mc)" and ?z = "last (mcQueue mc)"
  let ?m = "mc\<lparr>mcDb := (mcDb mc)(mkKey (mcElems mc ?z) := None), mcQueue := ?q\<rparr>"
  have ne: "mcQueue mc \<noteq> []" using True mc_invD(2) [OF i] by auto
  have q: "mcQueue mc = ?q @ [?z]" using ne by simp
  have d: "distinct (?q @ [?z])" using mc_invD(1) [OF i] q by simp
  have z: "?z \<in> set (mcQueue mc)" using ne by simp
  have "mc_inv ?m"
  proof (rule mc_invI)
    show "distinct (mcQueue ?m)" "0 < mcMaxSize ?m" "int (length (mcQueue ?m)) \<le> mcMaxSize ?m" using d mc_invD(2) [OF i] True by simp_all
    fix a
    assume "a \<in> set (mcQueue ?m)"
    then have a: "a \<in> set (mcQueue mc)" "a \<noteq> ?z" using d by (auto dest: in_set_butlastD)
    then have "mkKey (mcElems mc a) \<noteq> mkKey (mcElems mc ?z)" using mc_key_inj [OF i a(1) z] by blast
    then show "a < mcNext ?m \<and> mcDb ?m (mkKey (mcElems ?m a)) = Some a" using mc_invD(4,5) [OF i a(1)] by simp
  next
    fix k a
    assume "mcDb ?m k = Some a"
    then have k: "k \<noteq> mkKey (mcElems mc ?z)" "mcDb mc k = Some a" by (auto split: if_splits)
    note a = mc_invD(6,7) [OF i k(2)]
    have "a \<in> set (?q @ [?z])" using a(1) q by simp
    then show "a \<in> set (mcQueue ?m) \<and> mkKey (mcElems ?m a) = k" using a(2) k(1) by auto
  qed
  moreover have "mc_view ?m = take (nat (mcMaxSize mc) - 1) (mc_view mc)" unfolding True [symmetric] by (simp add: mc_view_def butlast_conv_take take_map)
  moreover have "int (length ?q) < mcMaxSize mc" using True ne by (cases "mcQueue mc") simp_all
  ultimately show ?thesis using True ne by (simp add: mc_make_room_def)
qed

lemma mc_push_law:
  assumes i: "mc_inv mc" and k: "mcDb mc k = None" and room: "int (length (mcQueue mc)) < mcMaxSize mc"
  shows "mc_inv (mc_push k b mc) \<and> mc_view (mc_push k b mc) = (k, b) # mc_view mc"
proof -
  have new: "mcNext mc \<notin> set (mcQueue mc)" using mc_invD(4) [OF i] by blast
  let ?m = "mc_push k b mc"
  have m: "mcQueue ?m = mcNext mc # mcQueue mc" "mcElems ?m = (mcElems mc)(mcNext mc := \<lparr>mkKey = k, mkValue = b\<rparr>)"
      "mcDb ?m = (mcDb mc)(k \<mapsto> mcNext mc)" "mcNext ?m = Suc (mcNext mc)" "mcMaxSize ?m = mcMaxSize mc"
    by (simp_all add: mc_push_def Let_def)
  have "mc_inv ?m"
  proof (rule mc_invI)
    show "distinct (mcQueue ?m)" "0 < mcMaxSize ?m" "int (length (mcQueue ?m)) \<le> mcMaxSize ?m" using new mc_invD(1,2) [OF i] room by (simp_all add: m)
    fix a
    assume a: "a \<in> set (mcQueue ?m)"
    show "a < mcNext ?m \<and> mcDb ?m (mkKey (mcElems ?m a)) = Some a"
    proof (cases "a = mcNext mc")
      case False
      then have a': "a \<in> set (mcQueue mc)" using a by (simp add: m)
      then show ?thesis using mc_invD(4,5) [OF i a'] k False by (auto simp: m)
    qed (simp add: m)
  next
    fix k' a
    assume "mcDb ?m k' = Some a"
    then have k': "(if k' = k then Some (mcNext mc) else mcDb mc k') = Some a" by (simp add: m)
    show "a \<in> set (mcQueue ?m) \<and> mkKey (mcElems ?m a) = k'"
    proof (cases "k' = k")
      case False
      then have d: "mcDb mc k' = Some a" using k' by simp
      have "a \<noteq> mcNext mc" using mc_invD(6) [OF i d] new by blast
      then show ?thesis using mc_invD(6) [OF i d] mc_invD(7) [OF i d] by (simp add: m)
    qed (use k' in \<open>simp add: m\<close>)
  qed
  moreover have "mc_view ?m = (k, b) # mc_view mc" using new unfolding mc_view_def m by (auto intro: map_cong)
  ultimately show ?thesis by blast
qed

lemma mc_set_law:
  assumes i: "mc_inv mc" and m: "marshal v = Inr b"
  shows "\<exists>mc'. mc_Set marshal k v ttl mc = (None, mc') \<and> mc_inv mc' \<and> mcMaxSize mc' = mcMaxSize mc \<and> mc_view mc' = lru_put (nat (mcMaxSize mc)) k b (mc_view mc)"
proof (cases "mcDb mc k")
  case None
  obtain m' where m': "mc_make_room mc = Inr m'" "mc_inv m'" "int (length (mcQueue m')) < mcMaxSize m'" "mcMaxSize m' = mcMaxSize mc"
      "mc_view m' = take (nat (mcMaxSize mc) - 1) (mc_view mc)" "mcDb m' k = None"
    using mc_room [OF i] None by auto
  have "k \<notin> fst ` set (mc_view mc)" using mc_lookup [OF i, of k] None by (simp add: map_of_eq_None_iff)
  then have "filter (\<lambda>p. fst p \<noteq> k) (mc_view mc) = mc_view mc" by (auto simp: filter_id_conv)
  then have "lru_put (nat (mcMaxSize mc)) k b (mc_view mc) = (k, b) # mc_view m'"
    using mc_invD(2) [OF i] by (cases "nat (mcMaxSize mc)") (simp_all add: lru_put_def m'(5))
  then show ?thesis using mc_push_law [OF m'(2,6,3), of b] m'(1,4) m None by (simp add: mc_Set_def mc_push_def Let_def)
next
  case (Some a)
  let ?l = "(k, b) # filter (\<lambda>p. fst p \<noteq> k) (mc_view mc)"
  obtain mc' where mc': "mc_Set marshal k v ttl mc = (None, mc')" "mc_inv mc'" "mcMaxSize mc' = mcMaxSize mc" "mc_view mc' = ?l"
    using mc_set_hit [OF i Some, of marshal v b ttl] m by auto
  have "length ?l = length (mcQueue mc')" unfolding mc'(4) [symmetric] by (simp add: mc_view_def)
  then have "length ?l \<le> nat (mcMaxSize mc)" using mc_invD(3) [OF mc'(2)] mc'(3) by linarith
  then have "lru_put (nat (mcMaxSize mc)) k b (mc_view mc) = ?l" unfolding lru_put_def by (rule take_all)
  then show ?thesis using mc' by auto
qed

section \<open>Every use of the cache\<close>

datatype mc_op = McGet string | McSet string bytes int

fun mc_run :: "mc_op list \<Rightarrow> mem_cache \<Rightarrow> (goerr + bytes) list \<times> mem_cache" where
  "mc_run [] mc = ([], mc)"
| "mc_run (McGet k # ops) mc = (case mc_Get Inr k mc of (r, mc) \<Rightarrow> (case mc_run ops mc of (rs, mc) \<Rightarrow> (r # rs, mc)))"
| "mc_run (McSet k v ttl # ops) mc =
     (case mc_Set Inr k v ttl mc of (Some err, mc) \<Rightarrow> ([Inl err], mc) | (None, mc) \<Rightarrow> mc_run ops mc)"

fun lru_run :: "nat \<Rightarrow> mc_op list \<Rightarrow> (string \<times> bytes) list \<Rightarrow> (goerr + bytes) list \<times> (string \<times> bytes) list" where
  "lru_run n [] l = ([], l)"
| "lru_run n (McGet k # ops) l =
     (case lru_run n ops (lru_touch k l) of
        (rs, l') \<Rightarrow> ((case map_of l k of None \<Rightarrow> Inl (ErrMsg ''not found element'') | Some b \<Rightarrow> Inr b) # rs, l'))"
| "lru_run n (McSet k v ttl # ops) l = lru_run n ops (lru_put n k v l)"

text \<open>The answers of a new cache are those of a list of at most \<open>n\<close> pairs with the last used first.\<close>

theorem mem_cache_is_bounded_lru:
  assumes "0 < n"
  shows "\<exists>mc. mc_run ops (NewMemCache (int n)) = (fst (lru_run n ops []), mc) \<and> mc_view mc = snd (lru_run n ops []) \<and> length (mc_view mc) \<le> n"
proof -
  have "\<exists>mc'. mc_run ops mc = (fst (lru_run n ops (mc_view mc)), mc') \<and> mc_view mc' = snd (lru_run n ops (mc_view mc)) \<and> length (mc_view mc') \<le> n"
    if "mc_inv mc" "mcMaxSize mc = int n" for mc
    using that
  proof (induction ops arbitrary: mc)
    case Nil
    then show ?case using mc_invD(3) [OF Nil(1)] by (simp add: mc_view_def)
  next
    case (Cons x ops)
    show ?case
    proof (cases x)
      case (McGet k)
      obtain r mc1 where g: "mc_Get Inr k mc = (r, mc1)" by (cases "mc_Get Inr k mc")
      note l = mc_get_law [OF Cons.prems(1) g]
      from Cons.IH [of mc1] l Cons.prems(2) obtain mc' where "mc_run ops mc1 = (fst (lru_run n ops (mc_view mc1)), mc')"
          "mc_view mc' = snd (lru_run n ops (mc_view mc1))" "length (mc_view mc') \<le> n" by auto
      then show ?thesis using l g McGet by (auto split: prod.splits)
    next
      case (McSet k v ttl)
      obtain mc1 where s: "mc_Set Inr k v ttl mc = (None, mc1)" "mc_inv mc1" "mcMaxSize mc1 = mcMaxSize mc" "mc_view mc1 = lru_put n k v (mc_view mc)"
        using mc_set_law [OF Cons.prems(1), of Inr v v k ttl] Cons.prems(2) by auto
      then show ?thesis using Cons.IH [of mc1] Cons.prems(2) McSet by simp
    qed
  qed
  moreover have "mc_inv (NewMemCache (int n))" "mcMaxSize (NewMemCache (int n)) = int n" "mc_view (NewMemCache (int n)) = []"
    using assms by (simp_all add: NewMemCache_def mc_inv_def mc_view_def)
  ultimately show ?thesis by fastforce
qed

text \<open>A cache for no items does not refuse: the first Set panics.\<close>

lemma empty_mem_cache_panics: "marshal v = Inr b \<Longrightarrow> fst (mc_Set marshal k v ttl (NewMemCache 0)) = Some (GoPanic ''nil pointer dereference'')"
  by (simp add: mc_Set_def NewMemCache_def mc_make_room_def)

end
