(* ===== verification/Spec2Isabelle.thy ===== *)
theory Spec2Isabelle
  imports Replication_Properties Restored_Log Table_Locks Checkpoint_Race Node_Life Sdk_Properties Events Mem_Cache
begin

text \<open>
  A verification library for kvs, a replicated key-value store written in Go.

  \<^bold>\<open>The program.\<close>  A node keeps items (a key, a secondary key, a JSON value, a version) in tables.  A table is a
  directory with a file per key and an index file per secondary key (\<^verbatim>\<open>src/internal/fsdb\<close>); a write batcher
  buffers writes in front of it; a write-ahead log (\<^verbatim>\<open>src/internal/wal\<close>) is written before the store and
  replayed after a restart, from the last checkpoint (\<^verbatim>\<open>src/internal/durable\<close>); a cache
  (\<^verbatim>\<open>src/internal/cache\<close>) answers repeated reads.  The adapter (\<^verbatim>\<open>src/internal/db\<close>) composes the
  log, the store and the cache.  Nodes replicate commands with a variant of Raft (\<^verbatim>\<open>src/internal/raft\<close>), whose
  state is kept in a log of its own.  HTTP handlers (\<^verbatim>\<open>src/internal/api\<close>) accept writes at the leader: they
  write the leader's store and then propose the command; the followers apply committed commands to their stores.
  A process (\<^verbatim>\<open>src/cmd/node\<close>) reads its flags, opens the consensus log and the store, which replays its log, and
  then serves; clients talk to it through a library (\<^verbatim>\<open>src/SDK\<close>).

  \<^bold>\<open>The theories\<close>, in the order of their dependencies.

  \<^item> \<open>Prelude\<close>, \<open>Strings\<close>: bytes and machine words, Go's errors with wrapping, facts on lists and maps; the
    functions of the packages \<^verbatim>\<open>strings\<close> and \<^verbatim>\<open>path/filepath\<close> that the program uses.
  \<^item> \<open>Cfg\<close> (\<^verbatim>\<open>cfg\<close>): the command line, parsed as the package \<^verbatim>\<open>flag\<close> does, and the environment; accepted
    flags are well formed.
  \<^item> \<open>Wal_Entry\<close> (\<^verbatim>\<open>wal/entry.go\<close>): the record format byte for byte with its CRC-32; encoding and
    decoding are inverse, and a damaged record is detected.
  \<^item> \<open>Item\<close> (\<^verbatim>\<open>item\<close>, \<^verbatim>\<open>dto\<close>, \<^verbatim>\<open>commands\<close>): items, deletes, commands, validation.
    Strings are valid UTF-8.
  \<^item> \<open>Os_File\<close>: files and buffered writers of the Go library; every system call can fail, a write after any
    number of bytes, and what has been synchronised is kept apart from what has been written.
  \<^item> \<open>Wal\<close>, \<open>Wal_Recovery\<close> (\<^verbatim>\<open>wal/wal.go\<close>, \<^verbatim>\<open>wal/options.go\<close>): appending, replay, load,
    checkpoint, repair.  Acknowledged requests survive a crash; load applies exactly the records behind the checkpoint;
    the log is cut only after its position has been saved.
  \<^item> \<open>Interfaces\<close>: the contracts \<open>cache_contract\<close> and \<open>kv_store\<close> with the lemmas of their clients.
  \<^item> \<open>Cache\<close> (\<^verbatim>\<open>cache/mem_base.go\<close>): the LRU list, the map and the clock; interpreted as a
    \<open>cache_contract\<close>.
  \<^item> \<open>Fsdb\<close>, \<open>Fsdb_Correct\<close>, \<open>Fsdb_Properties\<close> (\<^verbatim>\<open>fsdb/base.go\<close>,
    \<^verbatim>\<open>fsdb/checkpoint_blob.go\<close>): the store over a tree of files; bulk writes run under an arbitrary schedule of
    their goroutines.  Interpreted as a \<open>kv_store\<close>; the index is complete in every reachable store.
  \<^item> \<open>Write_Batcher\<close>, \<open>Batcher_Correct\<close> (\<^verbatim>\<open>fsdb/write_batcher.go\<close>): the buffer represents an overlay
    of the inner store; a batcher over any \<open>kv_store\<close> is a \<open>kv_store\<close>.  The periodic flush is a step.
  \<^item> \<open>Table_Locks\<close> (\<^verbatim>\<open>fsdb/table_mutex.go\<close>): the table mutexes and the goroutines that use them, as a
    step relation in which a missing mutex is looked up and created in two steps.  The locks exclude on the tables
    created before; the first use of another table, or creating one twice, breaks them.
  \<^item> \<open>Adapter\<close>, \<open>Adapter_Correct\<close>, \<open>Adapter_Properties\<close> (\<^verbatim>\<open>db/adapter.go\<close>): the composition;
    locale \<open>adapter_store\<close> extends \<open>kv_store\<close>.  Reads through the cache see the store, except under
    keys that bulk puts or other tables touched, optimistic locking prevents lost updates, a restart rebuilds the
    contents.
  \<^item> \<open>Durable\<close>, \<open>Checkpoint_Race\<close>, \<open>Tasks\<close> (\<^verbatim>\<open>durable\<close>, \<^verbatim>\<open>tasks/periodic.go\<close>): the
    checkpoint files with locale \<open>checkpoint_store\<close>, the background loops, and what happens when a checkpoint
    runs in the middle of a Set.
  \<^item> \<open>Restart\<close>, \<open>Kv_Store\<close>, \<open>Kv_Setup\<close>, \<open>Kv_Life\<close> (\<^verbatim>\<open>cmd/node/setup/kv.go\<close>): the assembled store on a
    machine with directories, log file, checkpoint files and clock.  Locale \<open>durable_store\<close> says what a store has to
    keep for replay to rebuild it; it is interpreted on the batcher over the file-backed store.  The store a node
    opens holds, at any moment of its life, exactly the writes that were accepted, through flushes, checkpoints,
    I/O errors, crashes with torn records and restarts.
  \<^item> \<open>Raft_Node\<close> (\<^verbatim>\<open>raft/node.go\<close>): every section of the node that runs under its mutex is a function.
  \<^item> \<open>Raft_Cluster\<close>, \<open>Raft_Log\<close>, \<open>Raft_Properties\<close>: nodes, their goroutines and messages as the step
    relation \<open>cstep\<close>; invariants by induction over reachable clusters; locale \<open>quorums\<close>, interpreted on
    majorities.  At most one leader per term, log matching, and what a commit guarantees.
  \<^item> \<open>Raft_Wal\<close> (\<^verbatim>\<open>wal/raft_wal.go\<close>, \<^verbatim>\<open>cmd/node/setup/raft.go\<close>): persistence and recovery of a node.
    An entry comes back with its nested maps in the shape that \<^verbatim>\<open>code/code.go\<close> documents for CBOR.
  \<^item> \<open>Wire\<close>, \<open>Restored_Log\<close> (\<^verbatim>\<open>raftpb/message.go\<close>, \<^verbatim>\<open>raftpb/codec.go\<close>, \<^verbatim>\<open>raft/transport.go\<close>,
    \<^verbatim>\<open>raft/per_conn.go\<close>, \<^verbatim>\<open>raft/grpc_server.go\<close>): messages with their 32-bit fields, the JSON codec they go
    through, client and server of a stream; an entry restored from disk with a map inside its value cannot be sent.
  \<^item> \<open>Www\<close>, \<open>Api\<close> (\<^verbatim>\<open>pkg/www\<close>, \<^verbatim>\<open>api\<close>): parameters, responses and the nine handlers.
  \<^item> \<open>Replication\<close>, \<open>Replication_Properties\<close>: from a request at the leader to the stores of the followers.
  \<^item> \<open>Node_Main\<close>, \<open>Node_Life\<close> (\<^verbatim>\<open>cmd/node/main.go\<close>): the process, from its arguments to its end.  The store of a
    follower is its consensus log, applied, also when the process dies between applying an entry and recording it.
  \<^item> \<open>Http\<close>, \<open>Url\<close>, \<open>Sdk\<close>, \<open>Sdk_Properties\<close> (\<^verbatim>\<open>cmd/node/setup/routes.go\<close>, \<^verbatim>\<open>pkg/www\<close>, \<^verbatim>\<open>SDK\<close>): JSON
    documents and their encodings, routes, request logging, escaping in URLs and the client library; a client that
    sets, finds and deletes keys of a table sees a map.
  \<^item> \<open>Events\<close> (\<^verbatim>\<open>events/queue.go\<close>): the queue of pending payloads, with the steps of its goroutines.
  \<^item> \<open>Mem_Cache\<close> (\<^verbatim>\<open>example/main.go\<close>): the example's cache is a bounded list with the last used first.

  \<^bold>\<open>How state and failures are modelled.\<close>  Operations pass their state explicitly; an error is a value.  Operations
  that hold a lock throughout are atomic.  Where the code releases a lock, or never takes one, the pieces are separate
  functions and what may happen in between is explicit: the argument \<open>mw\<close> of the write handlers, the steps of
  \<open>cstep\<close> and \<open>tb_step\<close>, the schedule of the bulk operations.  Faults of files are lists of outcomes over which
  the theorems quantify.  All loops are total functions; none needs fuel.

  \<^bold>\<open>Two views of a life.\<close>  \<open>kv_run\<close> and \<open>node_run\<close> are sequences of whole requests, ticks and deliveries; crashes
  fall between them, and in \<open>node_run\<close> also between the application of an entry and its record.  What a finer
  interleaving does is treated apart: \<open>Checkpoint_Race\<close> runs a checkpoint inside a Set, \<open>Table_Locks\<close> and \<open>Events\<close>
  interleave single accesses, \<open>cstep\<close> the critical sections of the nodes.

  \<^bold>\<open>What the theorems do not cover.\<close>  The CBOR library, gRPC, \<^verbatim>\<open>fmt.Sprint\<close>, the text of numbers and the random
  source are parameters; theorems that need it assume of the records written that they are read back, in the shape CBOR
  gives to nested maps.  The names of tables, keys and secondary keys are plain file names in most theorems
  (\<open>simple\<close>), since others leave their directory (\<open>Fsdb_Properties\<close>), and records are at most 256 MiB long, since the
  log cuts longer ones.  Clusters have a fixed membership,
  a member is named by one string for its identity and its address, and their nodes do not restart in \<open>cstep\<close>;
  restarts are treated for one node in \<open>Raft_Wal\<close> and \<open>Node_Life\<close>.  Timers are steps that may happen at any time.
  Faults of the device below the file-backed store, unsynchronised directories and the Go memory model are left out.
  Not modelled: the generated gRPC code and the registration of the service, the type aliases of
  \<^verbatim>\<open>src/internal/store\<close>, the codec that forwards to CBOR, signals and the timeouts of a stop, logging, and a JSON
  writer that nothing calls.
\<close>

end
